(* ===== verification/Prelude.thy ===== *)
theory Prelude
  imports Main "HOL-Library.Word" "HOL-Library.AList" "HOL-Library.List_Lexorder" "HOL-Library.Char_ord"
    "HOL-Library.Multiset"
begin

text \<open>
  The vocabulary every component shares: the machine integers of the Go code, instants and
  durations of package \<open>time\<close>, Go maps keyed by strings, "first error wins" validation chains,
  loops that validate a list and refuse duplicate identifiers, and sorting by a unique key.
\<close>

section \<open>Collections of facts\<close>

named_theorems go_simps \<open>definitions of the Go primitives, to be unfolded by simp\<close>
named_theorems err_simps \<open>when a validation chain reports no error\<close>
named_theorems map_simps \<open>how map operations act on lookups and key sets\<close>

section \<open>Machine integers\<close>

text \<open>
  A signed 64-bit value is an \<open>int\<close>; \<open>wrap64\<close> is what arithmetic in the type \<open>int64\<close> (and
  \<open>int\<close> on the 64-bit hosts) leaves of an exact result. Version and sequence counters, which the
  code compares unsigned, are words.
\<close>

type_synonym u64 = "64 word"

definition in_int64 :: "int \<Rightarrow> bool" where
  "in_int64 x \<longleftrightarrow> - (2 ^ 63) \<le> x \<and> x < 2 ^ 63"

definition wrap64 :: "int \<Rightarrow> int" where
  "wrap64 x = (x + 2 ^ 63) mod 2 ^ 64 - 2 ^ 63"

definition wrap32 :: "int \<Rightarrow> int" where
  "wrap32 x = (x + 2 ^ 31) mod 2 ^ 32 - 2 ^ 31"

lemma wrap64_id [simp]: "in_int64 x \<Longrightarrow> wrap64 x = x"
  by (simp add: in_int64_def wrap64_def mod_pos_pos_trivial)

lemma in_int64_wrap64 [simp]: "in_int64 (wrap64 x)"
proof -
  have "(x + 2 ^ 63) mod 2 ^ 64 < (2 ^ 64 :: int)" and "0 \<le> (x + 2 ^ 63) mod (2 ^ 64 :: int)"
    by simp_all
  then show ?thesis by (simp add: in_int64_def wrap64_def)
qed

lemma wrap64_min: "wrap64 (2 ^ 63) = - (2 ^ 63)"
  by (simp add: wrap64_def)

lemma wrap32_id: "- (2 ^ 31) \<le> x \<Longrightarrow> x < 2 ^ 31 \<Longrightarrow> wrap32 x = x"
  by (simp add: wrap32_def mod_pos_pos_trivial)

lemma u64_inc_unat: "unat v < 2 ^ 64 - 1 \<Longrightarrow> unat (v + (1 :: u64)) = unat v + 1"
  by (simp add: unat_word_ariths)

lemma u64_inc_less: "unat v < 2 ^ 64 - 1 \<Longrightarrow> v < v + (1 :: u64)"
  by (simp add: word_less_nat_alt u64_inc_unat)

section \<open>Instants and durations\<close>

text \<open>
  An instant (\<open>time.Time\<close>, always in UTC here) is its distance in nanoseconds from Go's zero time,
  so \<open>IsZero\<close> is equality with 0; instants are unbounded (\<open>time.Time\<close> spans 292 billion years).
  A duration is a signed 64-bit count of nanoseconds. \<open>Time.Sub\<close> saturates, \<open>Time.Add\<close> is exact.
\<close>

type_synonym instant = int
type_synonym duration = int

definition nanosecond :: duration where [go_simps]: "nanosecond = 1"
definition millisecond :: duration where [go_simps]: "millisecond = 1000000"
definition second :: duration where [go_simps]: "second = 1000000000"
definition minute :: duration where [go_simps]: "minute = 60000000000"
definition hour :: duration where [go_simps]: "hour = 3600000000000"

definition is_zero_time :: "instant \<Rightarrow> bool" where [go_simps]: "is_zero_time t \<longleftrightarrow> t = 0"

definition time_sub :: "instant \<Rightarrow> instant \<Rightarrow> duration" where
  "time_sub t u = max (- (2 ^ 63)) (min (2 ^ 63 - 1) (t - u))"

lemma time_sub_exact: "in_int64 (t - u) \<Longrightarrow> time_sub t u = t - u"
  by (auto simp: time_sub_def in_int64_def)

lemma in_int64_time_sub [simp]: "in_int64 (time_sub t u)"
  by (auto simp: time_sub_def in_int64_def)

lemma time_sub_mono: "t \<le> t' \<Longrightarrow> time_sub t u \<le> time_sub t' u"
  by (auto simp: time_sub_def)

text \<open>Integer division of Go truncates towards zero.\<close>

definition go_div :: "int \<Rightarrow> int \<Rightarrow> int" where
  "go_div a b = sgn a * sgn b * (\<bar>a\<bar> div \<bar>b\<bar>)"

definition duration_ms :: "duration \<Rightarrow> int" where
  "duration_ms d = go_div d millisecond"

lemma go_div_nonneg: "0 \<le> a \<Longrightarrow> 0 < b \<Longrightarrow> go_div a b = a div b"
  by (cases "a = 0") (simp_all add: go_div_def)

lemma duration_ms_mono: "0 \<le> d \<Longrightarrow> d \<le> e \<Longrightarrow> duration_ms d \<le> duration_ms e"
  by (simp add: duration_ms_def go_div_nonneg millisecond_def zdiv_mono1)

lemma duration_ms_nonneg: "0 \<le> d \<Longrightarrow> 0 \<le> duration_ms d"
  by (simp add: duration_ms_def go_div_nonneg millisecond_def)

section \<open>Results and validation chains\<close>

text \<open>
  A fallible function returns \<open>'e + 'a\<close>, \<open>Inl\<close> the error. A validator returns \<open>'e option\<close>, \<open>None\<close>
  for Go's \<open>nil\<close> error. A Go function body that is a sequence of \<open>if bad { return err }\<close> is
  \<open>first_err\<close> of its checks in order.
\<close>

fun first_err :: "'e option list \<Rightarrow> 'e option" where
  "first_err [] = None"
| "first_err (None # es) = first_err es"
| "first_err (Some e # es) = Some e"

definition err_if :: "bool \<Rightarrow> 'e \<Rightarrow> 'e option" where
  "err_if b e = (if b then Some e else None)"

lemma err_if_None [simp]: "err_if b e = None \<longleftrightarrow> \<not> b"
  by (simp add: err_if_def)

lemma err_if_Some [simp]: "err_if b e = Some e' \<longleftrightarrow> b \<and> e' = e"
  by (auto simp: err_if_def)

lemma err_if_eval [simp]: "err_if True e = Some e" "err_if False e = None"
  by (simp_all add: err_if_def)

lemma first_err_None: "first_err es = None \<longleftrightarrow> (\<forall>e\<in>set es. e = None)"
  by (induction es rule: first_err.induct) auto

lemma first_err_Cons: "first_err (x # es) = None \<longleftrightarrow> x = None \<and> first_err es = None"
  by (cases x) auto

lemma first_err_Some: "first_err es = Some e \<Longrightarrow> Some e \<in> set es"
  by (induction es rule: first_err.induct) auto

declare first_err_Cons [err_simps]

lemma map_option_None [err_simps]: "map_option f x = None \<longleftrightarrow> x = None"
  by (cases x) auto

section \<open>Lists of entities without duplicate identifiers\<close>

text \<open>
  The loop the code writes five times: validate entity \<open>i\<close>, return its error wrapped with the
  index, refuse an identifier already in the \<open>seen\<close> set, otherwise add it and go on.
\<close>

fun check_entities ::
  "('a \<Rightarrow> 'e option) \<Rightarrow> ('a \<Rightarrow> string) \<Rightarrow> (nat \<Rightarrow> 'e \<Rightarrow> 'f) \<Rightarrow> (nat \<Rightarrow> string \<Rightarrow> 'f) \<Rightarrow>
   string list \<Rightarrow> nat \<Rightarrow> 'a list \<Rightarrow> 'f option" where
  "check_entities val ident wrap dup seen i [] = None"
| "check_entities val ident wrap dup seen i (x # xs) =
     (case val x of
        Some e \<Rightarrow> Some (wrap i e)
      | None \<Rightarrow> if ident x \<in> set seen then Some (dup i (ident x))
                else check_entities val ident wrap dup (ident x # seen) (Suc i) xs)"

lemma check_entities_None [err_simps]:
  "check_entities val ident wrap dup seen i xs = None \<longleftrightarrow>
     (\<forall>x\<in>set xs. val x = None) \<and> distinct (map ident xs) \<and> ident ` set xs \<inter> set seen = {}"
  by (induction xs arbitrary: seen i) (auto split: option.splits)

section \<open>Go maps keyed by strings\<close>

text \<open>
  A \<open>map[string]V\<close> is an association list with distinct keys. Go leaves the order of \<open>range\<close>
  over a map open; the list order stands for the order of one run. That a result does not depend
  on it is a theorem where it matters: two lists with equal lookups hold the same entries.
\<close>

type_synonym 'v gomap = "(string \<times> 'v) list"

abbreviation mget :: "'v gomap \<Rightarrow> string \<Rightarrow> 'v option" where
  "mget m k \<equiv> map_of m k"

abbreviation mput :: "string \<Rightarrow> 'v \<Rightarrow> 'v gomap \<Rightarrow> 'v gomap" where
  "mput k v m \<equiv> AList.update k v m"

abbreviation mdel :: "string \<Rightarrow> 'v gomap \<Rightarrow> 'v gomap" where
  "mdel k m \<equiv> AList.delete k m"

definition mkeys :: "'v gomap \<Rightarrow> string set" where
  "mkeys m = fst ` set m"

definition wf_map :: "'v gomap \<Rightarrow> bool" where
  "wf_map m \<longleftrightarrow> distinct (map fst m)"

lemma wf_map_Nil [simp]: "wf_map []"
  by (simp add: wf_map_def)

lemma wf_map_put [simp]: "wf_map m \<Longrightarrow> wf_map (mput k v m)"
  by (simp add: wf_map_def distinct_update)

lemma wf_map_del [simp]: "wf_map m \<Longrightarrow> wf_map (mdel k m)"
  by (simp add: wf_map_def distinct_delete)

lemma wf_map_filter [simp]: "wf_map m \<Longrightarrow> wf_map (filter P m)"
  by (simp add: wf_map_def distinct_map_filter)

lemma wf_map_map_snd [simp]: "wf_map (map (\<lambda>(k, v). (k, f k v)) m) \<longleftrightarrow> wf_map m"
  by (simp add: wf_map_def comp_def case_prod_beta)

lemma mget_put [map_simps]: "mget (mput k v m) k' = (if k' = k then Some v else mget m k')"
  by (simp add: update_conv')

lemma mget_del [map_simps]: "mget (mdel k m) k' = (if k' = k then None else mget m k')"
  by (simp add: delete_conv')

lemma mget_map_snd [map_simps]: "mget (map (\<lambda>(k, v). (k, f k v)) m) k = map_option (f k) (mget m k)"
  by (induction m) auto

lemma mget_filter [map_simps]:
  "wf_map m \<Longrightarrow> mget (filter P m) k =
     (case mget m k of None \<Rightarrow> None | Some v \<Rightarrow> if P (k, v) then Some v else None)"
  by (induction m) (auto simp: wf_map_def map_of_eq_None_iff split: option.splits)

lemma mkeys_Nil [simp]: "mkeys [] = {}"
  by (simp add: mkeys_def)

lemma finite_mkeys [simp]: "finite (mkeys m)"
  by (simp add: mkeys_def)

lemma mkeys_put [map_simps]: "mkeys (mput k v m) = insert k (mkeys m)"
  unfolding mkeys_def by (induction m) auto

lemma mkeys_del [map_simps]: "mkeys (mdel k m) = mkeys m - {k}"
  by (auto simp: mkeys_def AList.delete_eq)

lemma mkeys_filter_key: "mkeys (filter (\<lambda>(k, _). P k) m) = {k \<in> mkeys m. P k}"
  unfolding mkeys_def by (induction m) auto

lemma length_mkeys: "wf_map m \<Longrightarrow> length m = card (mkeys m)"
  unfolding mkeys_def by (metis distinct_card length_map list.set_map wf_map_def)

lemma mget_in_set: "wf_map m \<Longrightarrow> mget m k = Some v \<longleftrightarrow> (k, v) \<in> set m"
  by (simp add: wf_map_def)

lemma mget_None: "mget m k = None \<longleftrightarrow> k \<notin> mkeys m"
  by (simp add: mkeys_def map_of_eq_None_iff)

lemma mget_Some_key: "mget m k = Some v \<Longrightarrow> k \<in> mkeys m"
  by (metis mget_None option.distinct(1))

lemma key_mget_Some: "k \<in> mkeys m \<Longrightarrow> \<exists>v. mget m k = Some v"
  by (metis mget_None option.exhaust)

lemma length_mput: "length (mput k v m) = (if k \<in> mkeys m then length m else Suc (length m))"
  unfolding mkeys_def by (induction m) auto

lemma mset_gomap_cong:
  assumes "wf_map m" and "wf_map m'" and "map_of m = map_of m'"
  shows "mset m = mset m'"
proof -
  have "set m = set m'"
    using assms by (simp add: wf_map_def map_of_inject_set)
  moreover have "distinct m" and "distinct m'"
    using assms by (auto simp: wf_map_def distinct_map)
  ultimately show ?thesis by (simp add: set_eq_iff_mset_eq_distinct)
qed

section \<open>Sorting by a unique key\<close>

text \<open>
  \<open>sort.Slice\<close> is not stable, but where the keys are pairwise distinct every correct sort gives
  the same list, the one \<^const>\<open>sort_key\<close> gives.
\<close>

lemma sort_key_unique:
  assumes "mset xs = mset ys" and "distinct (map f xs)"
  shows "sort_key f xs = sort_key f ys"
proof -
  have "inj_on f (set xs)" using assms(2) by (simp add: distinct_map)
  then show ?thesis
    by (intro sort_key_inj_key_eq) (simp_all add: assms(1))
qed

lemma sort_key_characterised:
  assumes "mset ys = mset xs" and "sorted (map f ys)" and "distinct (map f xs)"
  shows "ys = sort_key f xs"
proof -
  have "inj_on f (set xs)" using assms(3) by (simp add: distinct_map)
  then show ?thesis
    by (intro sort_key_inj_key_eq [symmetric]) (simp_all add: assms)
qed

end
