(* ===== verification/GoText.thy ===== *)
theory GoText
  imports Prelude
begin

text \<open>
  Go strings are byte sequences, here lists of \<open>char\<close> (each one byte). The parts of packages
  \<open>strings\<close> and \<open>strconv\<close> the code uses: byte classes, \<open>Cut\<close>, \<open>TrimSpace\<close>, \<open>ToLower\<close>,
  \<open>Contains\<close>, \<open>FormatInt\<close> and \<open>ParseInt\<close> in base 10, with the round trip of the last two.

  A loop \<open>for _, r := range s\<close> decodes UTF-8. A rune below 128 is always a single byte of that
  value and every other byte sequence decodes to runes of at least 128, so a test of \<open>r\<close> against
  ASCII constants gives the same answer on the bytes.
\<close>

section \<open>Bytes\<close>

abbreviation code :: "char \<Rightarrow> nat" where
  "code c \<equiv> of_char c"

definition is_digit :: "char \<Rightarrow> bool" where
  "is_digit c \<longleftrightarrow> 48 \<le> code c \<and> code c \<le> 57"

definition is_lower :: "char \<Rightarrow> bool" where
  "is_lower c \<longleftrightarrow> 97 \<le> code c \<and> code c \<le> 122"

definition is_upper :: "char \<Rightarrow> bool" where
  "is_upper c \<longleftrightarrow> 65 \<le> code c \<and> code c \<le> 90"

definition is_ident_char :: "char \<Rightarrow> bool" where
  "is_ident_char c \<longleftrightarrow> is_lower c \<or> is_upper c \<or> is_digit c \<or> c \<in> set ''-_.''"

definition is_control :: "char \<Rightarrow> bool" where
  "is_control c \<longleftrightarrow> code c < 32 \<or> code c = 127"

definition is_printable :: "char \<Rightarrow> bool" where
  "is_printable c \<longleftrightarrow> 32 \<le> code c \<and> code c \<le> 126"

lemma ident_char_printable: "is_ident_char c \<Longrightarrow> is_printable c"
  by (auto simp: is_ident_char_def is_lower_def is_upper_def is_digit_def is_printable_def)

lemma printable_not_control: "is_printable c \<Longrightarrow> \<not> is_control c"
  by (auto simp: is_printable_def is_control_def)

section \<open>Cut, TrimSpace, Contains, case\<close>

fun cut :: "char \<Rightarrow> string \<Rightarrow> string \<times> string \<times> bool" where
  "cut sep [] = ([], [], False)"
| "cut sep (c # s) =
     (if c = sep then ([], s, True)
      else case cut sep s of (front, after, found) \<Rightarrow> (c # front, after, found))"

lemma cut_found: "cut sep s = (b, a, True) \<Longrightarrow> s = b @ sep # a \<and> sep \<notin> set b"
  by (induction s arbitrary: b) (auto split: if_splits prod.splits)

lemma cut_not_found: "cut sep s = (b, a, False) \<Longrightarrow> b = s \<and> a = [] \<and> sep \<notin> set s"
  by (induction s arbitrary: b) (auto split: if_splits prod.splits)

lemma cut_append [simp]: "sep \<notin> set b \<Longrightarrow> cut sep (b @ sep # a) = (b, a, True)"
  by (induction b) auto

lemma cut_absent [simp]: "sep \<notin> set s \<Longrightarrow> cut sep s = (s, [], False)"
  by (induction s) auto

text \<open>The encodings of the runes \<open>unicode.IsSpace\<close> accepts.\<close>

definition space_encodings :: "string list" where
  "space_encodings =
     map (\<lambda>n. [char_of n]) [9, 10, 11, 12, 13, 32 :: nat] @
     map (map char_of)
       ([[0xC2, 0x85], [0xC2, 0xA0], [0xE1, 0x9A, 0x80]] @
        map (\<lambda>n. [0xE2, 0x80, n]) [0x80 ..< 0x8B] @
        [[0xE2, 0x80, 0xA8], [0xE2, 0x80, 0xA9], [0xE2, 0x80, 0xAF], [0xE2, 0x81, 0x9F],
         [0xE3, 0x80, 0x80 :: nat]])"

fun drop_space :: "string list \<Rightarrow> string \<Rightarrow> string option" where
  "drop_space [] s = None"
| "drop_space (e # es) s =
     (if e \<noteq> [] \<and> take (length e) s = e then Some (drop (length e) s) else drop_space es s)"

lemma drop_space_shorter: "drop_space es s = Some r \<Longrightarrow> length r < length s"
proof (induction es s rule: drop_space.induct)
  case (2 e es s)
  show ?case
  proof (cases "e \<noteq> [] \<and> take (length e) s = e")
    case True
    then have "0 < length e" "length e \<le> length s"
      by (auto dest: arg_cong [where f = length])
    then have "length s - length e < length s" by arith
    with True 2 show ?thesis by auto
  next
    case False
    with 2 show ?thesis by (auto split: if_splits)
  qed
qed simp

function trim_front :: "string list \<Rightarrow> string \<Rightarrow> string" where
  "trim_front es s = (case drop_space es s of None \<Rightarrow> s | Some r \<Rightarrow> trim_front es r)"
  by pat_completeness auto
termination
  by (relation "measure (\<lambda>(es, s). length s)") (auto dest: drop_space_shorter)

declare trim_front.simps [simp del]

definition trim_space :: "string \<Rightarrow> string" where
  "trim_space s = rev (trim_front (map rev space_encodings) (rev (trim_front space_encodings s)))"

definition is_visible :: "char \<Rightarrow> bool" where
  "is_visible c \<longleftrightarrow> 32 < code c \<and> code c < 127"

lemma digit_visible: "is_digit c \<Longrightarrow> is_visible c"
  by (simp add: is_digit_def is_visible_def)

lemma space_encodings_invisible:
  "\<forall>e\<in>set space_encodings. e \<noteq> [] \<and> \<not> is_visible (hd e) \<and> \<not> is_visible (last e)"
  by (simp add: space_encodings_def is_visible_def upt_rec)

lemma drop_space_None:
  "\<forall>e\<in>set es. e \<noteq> [] \<and> \<not> is_visible (hd e) \<Longrightarrow> s = [] \<or> is_visible (hd s) \<Longrightarrow>
   drop_space es s = None"
proof (induction es s rule: drop_space.induct)
  case (2 e es s)
  have "take (length e) s \<noteq> e"
  proof
    assume eq: "take (length e) s = e"
    with 2 have "s \<noteq> []" and "hd e = hd s" by (auto simp: hd_take dest: arg_cong [where f = hd])
    with 2 show False by auto
  qed
  with 2 show ?case by simp
qed simp

lemma trim_front_visible:
  "\<forall>e\<in>set es. e \<noteq> [] \<and> \<not> is_visible (hd e) \<Longrightarrow> s = [] \<or> is_visible (hd s) \<Longrightarrow>
   trim_front es s = s"
  by (simp add: trim_front.simps [of es s] drop_space_None)

lemma trim_space_visible: "\<forall>c\<in>set s. is_visible c \<Longrightarrow> trim_space s = s"
  using space_encodings_invisible
  by (cases "s = []") (auto simp: trim_space_def trim_front_visible hd_rev)

definition contains :: "string \<Rightarrow> string \<Rightarrow> bool" where
  "contains s sub \<longleftrightarrow> (\<exists>i\<in>set [0..<Suc (length s)]. take (length sub) (drop i s) = sub)"

lemma contains_iff: "contains s sub \<longleftrightarrow> (\<exists>a b. s = a @ sub @ b)"
proof
  assume "contains s sub"
  then obtain i where i: "take (length sub) (drop i s) = sub"
    by (auto simp: contains_def)
  have "s = take i s @ take (length sub) (drop i s) @ drop (length sub) (drop i s)"
    by (simp only: append_take_drop_id)
  then show "\<exists>a b. s = a @ sub @ b" by (metis i)
next
  assume "\<exists>a b. s = a @ sub @ b"
  then obtain a b where "s = a @ sub @ b" by blast
  then show "contains s sub"
    unfolding contains_def by (intro bexI [of _ "length a"]) auto
qed

text \<open>
  Lower and upper case. Exact on ASCII and on the only other runes whose image is ASCII (U+0130 and
  U+212A to lower, U+0131 and U+017F to upper); the remaining runes map outside ASCII and are left
  as they are, so comparisons with ASCII text come out as in Go.
\<close>

definition lower_char :: "char \<Rightarrow> char" where
  "lower_char c = (if is_upper c then char_of (code c + 32) else c)"

definition upper_char :: "char \<Rightarrow> char" where
  "upper_char c = (if is_lower c then char_of (code c - 32) else c)"

definition kelvin_sign :: string where "kelvin_sign = [CHR 0xE2, CHR 0x84, CHR 0xAA]"
definition capital_dotted_i :: string where "capital_dotted_i = [CHR 0xC4, CHR 0xB0]"
definition dotless_i :: string where "dotless_i = [CHR 0xC4, CHR 0xB1]"
definition long_s :: string where "long_s = [CHR 0xC5, CHR 0xBF]"

fun to_lower :: "string \<Rightarrow> string" where
  "to_lower (a # b # c # s) =
     (if [a, b, c] = kelvin_sign then CHR ''k'' # to_lower s
      else if [a, b] = capital_dotted_i then CHR ''i'' # to_lower (c # s)
      else lower_char a # to_lower (b # c # s))"
| "to_lower [a, b] = (if [a, b] = capital_dotted_i then ''i'' else [lower_char a, lower_char b])"
| "to_lower [a] = [lower_char a]"
| "to_lower [] = []"

fun to_upper :: "string \<Rightarrow> string" where
  "to_upper (a # b # s) =
     (if [a, b] = dotless_i then CHR ''I'' # to_upper s
      else if [a, b] = long_s then CHR ''S'' # to_upper s
      else upper_char a # to_upper (b # s))"
| "to_upper [a] = [upper_char a]"
| "to_upper [] = []"

section \<open>Decimal integers\<close>

definition digit_char :: "nat \<Rightarrow> char" where
  "digit_char d = char_of (48 + d)"

lemma digit_char_simps [simp]:
  "digit_char 0 = CHR ''0''" "digit_char (Suc 0) = CHR ''1''" "digit_char 1 = CHR ''1''"
  "digit_char 2 = CHR ''2''" "digit_char 3 = CHR ''3''" "digit_char 4 = CHR ''4''"
  "digit_char 5 = CHR ''5''" "digit_char 6 = CHR ''6''" "digit_char 7 = CHR ''7''"
  "digit_char 8 = CHR ''8''" "digit_char 9 = CHR ''9''"
  by code_simp+

definition digit_value :: "char \<Rightarrow> nat" where
  "digit_value c = code c - 48"

fun nat_digits :: "nat \<Rightarrow> string" where
  "nat_digits n = (if n < 10 then [digit_char n] else nat_digits (n div 10) @ [digit_char (n mod 10)])"

declare nat_digits.simps [simp del]

definition digits_value :: "string \<Rightarrow> nat" where
  "digits_value s = foldl (\<lambda>a c. 10 * a + digit_value c) 0 s"

definition format_int :: "int \<Rightarrow> string" where
  "format_int n = (if n < 0 then CHR ''-'' # nat_digits (nat (- n)) else nat_digits (nat n))"

lemma code_digit_char [simp]: "d < 10 \<Longrightarrow> code (digit_char d) = 48 + d"
  by (simp add: digit_char_def)

lemma digit_value_char [simp]: "d < 10 \<Longrightarrow> digit_value (digit_char d) = d"
  by (simp add: digit_value_def)

lemma is_digit_char [simp]: "d < 10 \<Longrightarrow> is_digit (digit_char d)"
  by (simp add: is_digit_def)

lemma digits_value_append: "digits_value (s @ [c]) = 10 * digits_value s + digit_value c"
  by (simp add: digits_value_def)

lemma digits_value_nat_digits [simp]: "digits_value (nat_digits n) = n"
proof (induction n rule: nat_digits.induct)
  case (1 n)
  show ?case
  proof (cases "n < 10")
    case True
    then show ?thesis by (simp add: nat_digits.simps [of n] digits_value_def)
  next
    case False
    with 1 show ?thesis by (simp add: nat_digits.simps [of n] digits_value_append)
  qed
qed

lemma nat_digits_digits: "\<forall>c\<in>set (nat_digits n). is_digit c"
proof (induction n rule: nat_digits.induct)
  case (1 n)
  then show ?case by (cases "n < 10") (auto simp: nat_digits.simps [of n])
qed

lemma nat_digits_nonempty [simp]: "nat_digits n \<noteq> []"
  by (simp add: nat_digits.simps [of n])

lemma nat_digits_length: "n < 10 ^ k \<Longrightarrow> 0 < k \<Longrightarrow> length (nat_digits n) \<le> k"
proof (induction n arbitrary: k rule: nat_digits.induct)
  case (1 n)
  show ?case
  proof (cases "n < 10")
    case False
    then obtain j where k: "k = Suc j" "0 < j" using 1(2,3) by (cases k; cases "k - 1") auto
    with 1(2) have "n div 10 < 10 ^ j" by (simp add: div_less_iff_less_mult mult.commute)
    with 1(1) [OF False this k(2)] False k show ?thesis by (simp add: nat_digits.simps [of n])
  qed (use 1 in \<open>simp add: nat_digits.simps [of n]\<close>)
qed

lemma digits_value_zeros: "digits_value (replicate k CHR ''0'' @ s) = digits_value s"
proof (induction k)
  case (Suc k)
  have "digits_value (CHR ''0'' # t) = digits_value t" for t
    by (simp add: digits_value_def digit_value_def)
  with Suc show ?case by simp
qed simp

lemma digits_value_concat: "digits_value (s @ t) = digits_value s * 10 ^ length t + digits_value t"
proof (induction t rule: rev_induct)
  case Nil
  show ?case by (simp add: digits_value_def [of "[]"])
next
  case (snoc c t)
  have "digits_value (s @ t @ [c]) = 10 * digits_value (s @ t) + digit_value c"
    using digits_value_append [of "s @ t" c] by simp
  then show ?case by (simp add: snoc.IH digits_value_append algebra_simps)
qed

lemma digit_value_less: "is_digit c \<Longrightarrow> digit_value c < 10"
  unfolding is_digit_def digit_value_def by arith

lemma digits_value_bound: "\<forall>c\<in>set s. is_digit c \<Longrightarrow> digits_value s < 10 ^ length s"
proof (induction s rule: rev_induct)
  case (snoc c s)
  then have "digits_value s < 10 ^ length s" "digit_value c < 10"
    by (simp_all add: digit_value_less)
  then show ?case by (simp add: digits_value_append)
qed (simp add: digits_value_def)

text \<open>\<open>strconv.ParseInt(s, 10, 64)\<close> on a non-empty string of ASCII digits.\<close>

definition parse_uint_digits :: "string \<Rightarrow> int option" where
  "parse_uint_digits s =
     (if int (digits_value s) < 2 ^ 63 then Some (int (digits_value s)) else None)"

text \<open>\<open>strconv.Atoi\<close>: an optional sign, then at least one digit, within 64 bits.\<close>

definition atoi :: "string \<Rightarrow> int option" where
  "atoi s =
     (let neg = (s \<noteq> [] \<and> hd s = CHR ''-'');
          ds = (if s \<noteq> [] \<and> hd s \<in> set ''+-'' then tl s else s);
          v = (if neg then - int (digits_value ds) else int (digits_value ds))
      in if ds = [] \<or> \<not> list_all is_digit ds then None
         else if in_int64 v then Some v else None)"

lemma nat_digits_hd: "hd (nat_digits n) \<notin> set ''+-''"
proof -
  have "is_digit (hd (nat_digits n))"
    using nat_digits_digits [of n] by (simp add: list.set_sel(1))
  then show ?thesis by (auto simp: is_digit_def)
qed

lemma atoi_format_int: "in_int64 n \<Longrightarrow> atoi (format_int n) = Some n"
  using nat_digits_digits [of "nat n"] nat_digits_digits [of "nat (- n)"] nat_digits_hd [of "nat n"]
  by (auto simp: atoi_def format_int_def list_all_iff)

section \<open>Split and Join\<close>

text \<open>\<open>strings.Split\<close> at a one-byte separator and \<open>strings.Join\<close>.\<close>

fun split :: "char \<Rightarrow> string \<Rightarrow> string list" where
  "split sep [] = [[]]"
| "split sep (c # s) =
     (if c = sep then [] # split sep s
      else case split sep s of [] \<Rightarrow> [[c]] | p # ps \<Rightarrow> (c # p) # ps)"

fun join :: "char \<Rightarrow> string list \<Rightarrow> string" where
  "join sep [] = []"
| "join sep [p] = p"
| "join sep (p # q # ps) = p @ sep # join sep (q # ps)"

lemma split_nonempty [simp]: "split sep s \<noteq> []"
  by (cases s) (auto split: list.splits)

lemma split_absent: "sep \<notin> set s \<Longrightarrow> split sep s = [s]"
  by (induction s) auto

lemma split_append: "sep \<notin> set p \<Longrightarrow> split sep (p @ sep # s) = p # split sep s"
  by (induction p) auto

lemma split_join: "ps \<noteq> [] \<Longrightarrow> \<forall>p\<in>set ps. sep \<notin> set p \<Longrightarrow> split sep (join sep ps) = ps"
  by (induction sep ps rule: join.induct) (simp_all add: split_absent split_append)

text \<open>A string none of whose bytes begins or ends the encoding of a space is its own trimming.\<close>

lemma drop_space_other:
  "\<forall>e\<in>set es. e \<noteq> [] \<and> (s = [] \<or> hd e \<noteq> hd s) \<Longrightarrow> drop_space es s = None"
proof (induction es s rule: drop_space.induct)
  case (2 e es s)
  then have e: "e \<noteq> []" "s = [] \<or> hd e \<noteq> hd s" by simp_all
  have "take (length e) s \<noteq> e"
  proof
    assume eq: "take (length e) s = e"
    with e(1) have "s \<noteq> []" by auto
    moreover have "hd (take (length e) s) = hd s" using e(1) by (simp add: hd_take)
    ultimately show False using e(2) eq by simp
  qed
  with 2 show ?case by simp
qed simp

lemma trim_front_other:
  "\<forall>e\<in>set es. e \<noteq> [] \<and> (s = [] \<or> hd e \<noteq> hd s) \<Longrightarrow> trim_front es s = s"
  by (simp add: trim_front.simps [of es s] drop_space_other)

lemma space_ends:
  assumes "e \<in> set space_encodings"
  shows "e \<noteq> []" "hd e \<notin> {CHR 0xC4, CHR 0xC5}" "last e \<notin> {CHR 0xB1, CHR 0xBF}"
    "\<not> is_visible (hd e)" "\<not> is_visible (last e)"
proof -
  have "list_all (\<lambda>e. e \<noteq> [] \<and> hd e \<notin> {CHR 0xC4, CHR 0xC5} \<and> last e \<notin> {CHR 0xB1, CHR 0xBF} \<and>
      \<not> is_visible (hd e) \<and> \<not> is_visible (last e)) space_encodings"
    by code_simp
  with assms show "e \<noteq> []" "hd e \<notin> {CHR 0xC4, CHR 0xC5}" "last e \<notin> {CHR 0xB1, CHR 0xBF}"
    "\<not> is_visible (hd e)" "\<not> is_visible (last e)"
    by (simp_all only: list_all_iff) blast+
qed

lemma trim_space_ends:
  assumes "s \<noteq> [] \<longrightarrow> (is_visible (hd s) \<or> hd s \<in> {CHR 0xC4, CHR 0xC5}) \<and> (is_visible (last s) \<or> last s \<in> {CHR 0xB1, CHR 0xBF})"
  shows "trim_space s = s"
proof (cases "s = []")
  case False
  have hd_s: "hd e \<noteq> hd s" if "e \<in> set space_encodings" for e
    using assms False space_ends(2,4) [OF that] by auto
  have last_s: "last e \<noteq> last s" if "e \<in> set space_encodings" for e
    using assms False space_ends(3,5) [OF that] by auto
  have "trim_front space_encodings s = s" using hd_s space_ends(1) by (intro trim_front_other) blast
  moreover have "trim_front (map rev space_encodings) (rev s) = rev s"
    using last_s space_ends(1) False by (intro trim_front_other) (auto simp: hd_rev)
  ultimately show ?thesis by (simp add: trim_space_def)
qed (simp add: trim_space_visible)

lemma to_upper_letters:
  "list_all is_upper (to_upper v) \<Longrightarrow> v \<noteq> [] \<Longrightarrow>
   (is_visible (hd v) \<or> hd v \<in> {CHR 0xC4, CHR 0xC5}) \<and> (is_visible (last v) \<or> last v \<in> {CHR 0xB1, CHR 0xBF})"
proof (induction v rule: to_upper.induct)
  case (1 a b s)
  have letter: "is_upper (upper_char c) \<Longrightarrow> is_visible c" for c
    by (auto simp: is_upper_def upper_char_def is_lower_def is_visible_def split: if_splits)
  consider "[a, b] = dotless_i" | "[a, b] = long_s" | "[a, b] \<noteq> dotless_i" "[a, b] \<noteq> long_s" by blast
  then show ?case
  proof cases
    case 1
    with "1.IH"(1) "1.prems"(1) show ?thesis by (cases "s = []") (auto simp: dotless_i_def)
  next
    case 2
    with "1.IH"(2) "1.prems"(1) show ?thesis by (cases "s = []") (auto simp: dotless_i_def long_s_def)
  next
    case 3
    with "1.IH"(3) "1.prems"(1) letter [of a] show ?thesis by auto
  qed
next
  case (2 a)
  then show ?case by (auto simp: is_upper_def upper_char_def is_lower_def is_visible_def split: if_splits)
qed simp

lemma trim_space_upper: "list_all is_upper (to_upper v) \<Longrightarrow> trim_space v = v"
  using to_upper_letters by (intro trim_space_ends) blast

end
