(* ===== verification/DecimalNum.thy ===== *)
theory DecimalNum
  imports GoText Complex_Main
begin

text \<open>
  \<open>internal/decimal/decimal.go\<close>: exact base-10 numbers \<open>unscaled * 10^-scale\<close> with a 64-bit
  mantissa. Parsing and printing, exact comparison and subtraction, display rounding and
  percentages. A \<open>big.Rat\<close> is a pair of a numerator and a positive denominator, or the rational
  it denotes.
\<close>

section \<open>The type and its text form\<close>

record decimal =
  unscaled :: int
  scale :: int

definition MaxScale :: nat where "MaxScale = 9"

datatype decimal_error = DecSyntax | DecScale nat | DecRange | DecOverflow

definition New :: "int \<Rightarrow> int \<Rightarrow> decimal" where
  "New u s = \<lparr>unscaled = u, scale = s\<rparr>"

definition parse_unsigned :: "bool \<Rightarrow> string \<Rightarrow> decimal_error + decimal" where
  "parse_unsigned neg s =
     (if s = [] then Inl DecSyntax
      else case cut CHR ''.'' s of (intPart, fracPart, hasFrac) \<Rightarrow>
        if hasFrac \<and> fracPart = [] then Inl DecSyntax
        else if intPart = [] \<and> \<not> hasFrac then Inl DecSyntax
        else if length fracPart > MaxScale then Inl (DecScale (length fracPart))
        else
          let digits = intPart @ fracPart in
          if digits = [] then Inl DecSyntax
          else if \<not> list_all is_digit digits then Inl DecSyntax
          else case parse_uint_digits digits of
                 None \<Rightarrow> Inl DecRange
               | Some u \<Rightarrow> Inr (New (if neg then wrap64 (- u) else u) (int (length fracPart))))"

definition Parse :: "string \<Rightarrow> decimal_error + decimal" where
  "Parse s0 =
     (case trim_space s0 of
        [] \<Rightarrow> Inl DecSyntax
      | c # s \<Rightarrow>
          if c = CHR ''+'' then parse_unsigned False s
          else if c = CHR ''-'' then parse_unsigned True s
          else parse_unsigned False (c # s))"

text \<open>The loop \<open>for len(digits) <= scale { digits = "0" + digits }\<close>.\<close>

function pad_zeros :: "int \<Rightarrow> string \<Rightarrow> string" where
  "pad_zeros k s = (if int (length s) \<le> k then pad_zeros k (CHR ''0'' # s) else s)"
  by pat_completeness auto
termination
  by (relation "measure (\<lambda>(k, s). nat (k + 1 - int (length s)))") auto

declare pad_zeros.simps [simp del]

text \<open>
  \<open>String\<close>. Negating the least 64-bit value wraps, and a negative scale makes the slice
  expression panic: \<open>None\<close>.
\<close>

definition String :: "decimal \<Rightarrow> string option" where
  "String d =
     (if scale d = 0 then Some (format_int (unscaled d))
      else
        let neg = (unscaled d < 0);
            u = (if neg then wrap64 (- unscaled d) else unscaled d);
            digits = pad_zeros (scale d) (format_int u);
            cut = int (length digits) - scale d in
        if cut > int (length digits) then None
        else
          let out = take (nat cut) digits @ ''.'' @ drop (nat cut) digits in
          Some (if neg then ''-'' @ out else out))"

definition IsZero :: "decimal \<Rightarrow> bool" where
  "IsZero d \<longleftrightarrow> unscaled d = 0"

section \<open>Exact values, comparison, subtraction\<close>

text \<open>\<open>big.Int.Exp\<close> with a modulus of nil gives 1 for every exponent that is not positive.\<close>

definition pow10 :: "int \<Rightarrow> int" where
  "pow10 e = (if e \<le> 0 then 1 else 10 ^ nat e)"

definition Rat :: "decimal \<Rightarrow> rat" where
  "Rat d = of_int (unscaled d) / of_int (pow10 (scale d))"

definition Cmp :: "decimal \<Rightarrow> decimal \<Rightarrow> int" where
  "Cmp d e = (if Rat d < Rat e then -1 else if Rat d = Rat e then 0 else 1)"

definition Sub :: "decimal \<Rightarrow> decimal \<Rightarrow> decimal_error + decimal" where
  "Sub d e =
     (let s = (if scale e > scale d then scale e else scale d);
          left = (if scale d < s then unscaled d * pow10 (wrap32 (s - scale d)) else unscaled d);
          right = (if scale e < s then unscaled e * pow10 (wrap32 (s - scale e)) else unscaled e);
          diff = left - right
      in if \<not> in_int64 diff then Inl DecOverflow else Inr (New diff s))"

section \<open>Rounding\<close>

text \<open>
  \<open>big.Rat.FloatString(prec)\<close> of \<open>a / b\<close>, \<open>b > 0\<close>: the last digit rounded to nearest, halves away
  from zero. The sign of the numerator is printed even when the rounded digits are all zero.
\<close>

definition round_half_away :: "nat \<Rightarrow> nat \<Rightarrow> nat" where
  "round_half_away a b = (if b \<le> 2 * (a mod b) then a div b + 1 else a div b)"

definition FloatString :: "int \<Rightarrow> int \<Rightarrow> nat \<Rightarrow> string" where
  "FloatString a b prec =
     (let q = nat \<bar>a\<bar> div nat b;
          r = (nat \<bar>a\<bar> mod nat b) * 10 ^ prec;
          r1 = round_half_away r (nat b);
          q' = (if r1 \<ge> 10 ^ prec then q + 1 else q);
          r' = (if r1 \<ge> 10 ^ prec then r1 - 10 ^ prec else r1)
      in (if a < 0 then ''-'' else '''') @ nat_digits q' @
         (if prec = 0 then ''''
          else let rs = nat_digits r' in ''.'' @ replicate (prec - length rs) CHR ''0'' @ rs))"

definition Rescale :: "decimal \<Rightarrow> int \<Rightarrow> string" where
  "Rescale d n = FloatString (unscaled d) (pow10 (scale d)) (nat n)"

text \<open>
  \<open>PercentOf\<close>: \<open>d / limit * 100\<close> rounded to an integer, \<open>None\<close> for Go's \<open>ok = false\<close>.
\<close>

definition PercentOf :: "decimal \<Rightarrow> decimal \<Rightarrow> int option" where
  "PercentOf d limit =
     (if unscaled limit \<le> 0 then None
      else atoi (FloatString (unscaled d * pow10 (scale limit) * 100)
                  (unscaled limit * pow10 (scale d)) 0))"

section \<open>Printing and parsing are inverse\<close>

lemma pad_zeros_eq: "pad_zeros k s = replicate (nat (k + 1 - int (length s))) CHR ''0'' @ s"
proof (induction k s rule: pad_zeros.induct)
  case (1 k s)
  show ?case
  proof (cases "int (length s) \<le> k")
    case True
    then have "nat (k + 1 - int (length s)) = Suc (nat (k + 1 - int (length (CHR ''0'' # s))))"
      by simp
    with True 1 show ?thesis
      by (simp add: pad_zeros.simps [of k s] replicate_app_Cons_same)
  next
    case False
    then show ?thesis by (simp add: pad_zeros.simps [of k s])
  qed
qed

lemma pad_zeros_length: "0 \<le> k \<Longrightarrow> k < int (length (pad_zeros k s))"
  by (simp add: pad_zeros_eq)

lemma pad_zeros_digits:
  "\<forall>c\<in>set s. is_digit c \<Longrightarrow> \<forall>c\<in>set (pad_zeros k s). is_digit c"
  by (auto simp: pad_zeros_eq is_digit_def)

lemma pad_zeros_value: "digits_value (pad_zeros k s) = digits_value s"
  by (simp add: pad_zeros_eq digits_value_zeros)

lemma digit_not_dot: "\<forall>c\<in>set s. is_digit c \<Longrightarrow> CHR ''.'' \<notin> set s"
  by (auto simp: is_digit_def)

text \<open>Parsing a sign, integer digits and, if there is a point, fractional digits.\<close>

lemma parse_unsigned_digits:
  assumes ds: "\<forall>c\<in>set ip. is_digit c" "\<forall>c\<in>set fp. is_digit c"
    and ne: "ip \<noteq> []" "length fp \<le> MaxScale" "fp \<noteq> [] \<longleftrightarrow> dot"
    and range: "int (digits_value (ip @ fp)) < 2 ^ 63"
  shows "parse_unsigned neg (ip @ (if dot then ''.'' @ fp else '''')) =
         Inr (New ((if neg then -1 else 1) * int (digits_value (ip @ fp))) (int (length fp)))"
proof -
  have cut: "cut CHR ''.'' (ip @ (if dot then ''.'' @ fp else '''')) = (ip, fp, dot)"
    using digit_not_dot [OF ds(1)] ne(3) by (cases dot) simp_all
  have dig: "list_all is_digit (ip @ fp)" using ds by (simp add: list_all_iff ball_Un)
  have "wrap64 (- int (digits_value (ip @ fp))) = - int (digits_value (ip @ fp))"
    using range by (intro wrap64_id) (simp add: in_int64_def)
  moreover have "parse_uint_digits (ip @ fp) = Some (int (digits_value (ip @ fp)))"
    using range by (simp add: parse_uint_digits_def)
  ultimately show ?thesis
    using ne dig by (simp add: parse_unsigned_def cut Let_def)
qed

lemma parse_digits_sign:
  assumes ds: "\<forall>c\<in>set ip. is_digit c" "\<forall>c\<in>set fp. is_digit c"
    and ne: "ip \<noteq> []" "length fp \<le> MaxScale" "fp \<noteq> [] \<longleftrightarrow> dot"
    and range: "int (digits_value (ip @ fp)) < 2 ^ 63"
  shows "Parse ((if neg then ''-'' else '''') @ ip @ (if dot then ''.'' @ fp else '''')) =
         Inr (New ((if neg then -1 else 1) * int (digits_value (ip @ fp))) (int (length fp)))"
    (is "Parse ?t = _")
proof -
  let ?body = "ip @ (if dot then ''.'' @ fp else '''')"
  have "\<forall>c\<in>set ?t. is_visible c"
    using ds by (auto simp: digit_visible; simp add: is_visible_def)
  then have trim: "trim_space ?t = ?t" by (rule trim_space_visible)
  obtain c s where c: "ip = c # s" using ne(1) by (cases ip) auto
  then have "c \<noteq> CHR ''+''" "c \<noteq> CHR ''-''"
    using ds(1) by (auto simp: is_digit_def)
  then have "Parse ?t = parse_unsigned neg ?body"
    unfolding Parse_def trim by (cases neg) (simp_all add: c)
  then show ?thesis
    by (simp only: parse_unsigned_digits [OF assms])
qed

lemma split_digits:
  assumes "\<forall>c\<in>set s. is_digit c"
  shows "\<forall>c\<in>set (take n s). is_digit c" "\<forall>c\<in>set (drop n s). is_digit c"
  using assms by (auto dest: in_set_takeD in_set_dropD)

lemma String_digits:
  assumes "0 < scale d" and "in_int64 (unscaled d)" and "unscaled d \<noteq> - (2 ^ 63)"
  shows "\<exists>ip fp. String d = Some ((if unscaled d < 0 then ''-'' else '''') @ ip @ ''.'' @ fp) \<and>
     (\<forall>c\<in>set ip. is_digit c) \<and> (\<forall>c\<in>set fp. is_digit c) \<and> ip \<noteq> [] \<and>
     int (length fp) = scale d \<and> int (digits_value (ip @ fp)) = \<bar>unscaled d\<bar>"
proof -
  let ?u = "\<bar>unscaled d\<bar>" and ?ds = "pad_zeros (scale d) (nat_digits (nat \<bar>unscaled d\<bar>))"
  let ?n = "nat (int (length ?ds) - scale d)"
  have "wrap64 (- unscaled d) = - unscaled d"
    using assms(2,3) by (intro wrap64_id) (simp add: in_int64_def)
  then have u: "format_int (if unscaled d < 0 then wrap64 (- unscaled d) else unscaled d) =
      nat_digits (nat ?u)"
    by (simp add: format_int_def)
  have dig: "\<forall>c\<in>set ?ds. is_digit c"
    by (rule pad_zeros_digits [OF nat_digits_digits])
  have len: "scale d < int (length ?ds)"
    using assms(1) by (simp add: pad_zeros_length)
  have "String d = Some ((if unscaled d < 0 then ''-'' else '''') @ take ?n ?ds @ ''.'' @ drop ?n ?ds)"
    using assms(1) u unfolding String_def Let_def by (cases "unscaled d < 0") simp_all
  moreover have "take ?n ?ds \<noteq> []" "int (length (drop ?n ?ds)) = scale d"
    using len assms(1) by auto
  moreover have "int (digits_value (take ?n ?ds @ drop ?n ?ds)) = ?u"
    by (simp add: pad_zeros_value)
  ultimately show ?thesis using split_digits [OF dig, of ?n] by blast
qed

text \<open>Every decimal \<open>Parse\<close> returns is in range, so its text is defined and parses back to it.\<close>

definition wf_decimal :: "decimal \<Rightarrow> bool" where
  "wf_decimal d \<longleftrightarrow> 0 \<le> scale d \<and> scale d \<le> 9 \<and> - (2 ^ 63) < unscaled d \<and> unscaled d < 2 ^ 63"

lemma parse_unsigned_wf: "parse_unsigned neg s = Inr d \<Longrightarrow> wf_decimal d"
  by (auto simp: parse_unsigned_def Let_def parse_uint_digits_def New_def wf_decimal_def MaxScale_def
      in_int64_def split: if_splits prod.splits option.splits)

lemma Parse_wf: "Parse s = Inr d \<Longrightarrow> wf_decimal d"
  by (auto simp: Parse_def parse_unsigned_wf split: if_splits list.splits)

lemma Parse_String_frac:
  assumes "wf_decimal d" and "0 < scale d"
  shows "\<exists>t. String d = Some t \<and> Parse t = Inr d"
proof -
  from assms have "in_int64 (unscaled d)" "unscaled d \<noteq> - (2 ^ 63)"
    by (simp_all add: wf_decimal_def in_int64_def)
  from String_digits [OF assms(2) this] obtain ip fp where
    t: "String d = Some ((if unscaled d < 0 then ''-'' else '''') @ ip @ ''.'' @ fp)" and
    ip: "\<forall>c\<in>set ip. is_digit c" "ip \<noteq> []" and fp: "\<forall>c\<in>set fp. is_digit c" "int (length fp) = scale d"
    and v: "int (digits_value (ip @ fp)) = \<bar>unscaled d\<bar>"
    by blast
  have len: "length fp \<le> MaxScale" "fp \<noteq> []"
    using assms fp(2) by (auto simp: wf_decimal_def MaxScale_def)
  have range: "int (digits_value (ip @ fp)) < 2 ^ 63"
    using assms v by (simp add: wf_decimal_def abs_less_iff)
  have "Parse ((if unscaled d < 0 then ''-'' else '''') @ ip @ (if True then ''.'' @ fp else '''')) =
      Inr (New ((if unscaled d < 0 then -1 else 1) * int (digits_value (ip @ fp))) (int (length fp)))"
    by (rule parse_digits_sign [OF ip(1) fp(1) ip(2) len(1) _ range]) (simp add: len)
  also have "\<dots> = Inr d"
    using v fp(2) by (simp add: New_def)
  finally show ?thesis using t by simp
qed

lemma Parse_String_int:
  assumes "wf_decimal d" and "scale d = 0"
  shows "\<exists>t. String d = Some t \<and> Parse t = Inr d"
proof -
  let ?n = "nat_digits (nat \<bar>unscaled d\<bar>)"
  have t: "format_int (unscaled d) =
      (if unscaled d < 0 then ''-'' else '''') @ ?n @ (if False then ''.'' @ '''' else '''')"
    by (simp add: format_int_def)
  have range: "int (digits_value (?n @ [])) < 2 ^ 63"
    using assms by (simp add: wf_decimal_def abs_less_iff)
  have "Parse (format_int (unscaled d)) =
      Inr (New ((if unscaled d < 0 then -1 else 1) * int (digits_value (?n @ [])))
        (int (length ([] :: string))))"
    unfolding t
    by (rule parse_digits_sign [OF nat_digits_digits _ nat_digits_nonempty _ _ range]) simp_all
  also have "\<dots> = Inr d"
    using assms(2) by (simp add: New_def)
  finally show ?thesis using assms(2) by (simp add: String_def)
qed

lemma Parse_String: "wf_decimal d \<Longrightarrow> \<exists>t. String d = Some t \<and> Parse t = Inr d"
  using Parse_String_frac Parse_String_int by (fastforce simp: wf_decimal_def)

section \<open>Comparison and subtraction are exact\<close>

lemma pow10_pos [simp]: "0 < pow10 e"
  by (simp add: pow10_def)

lemma pow10_nonneg_add: "0 \<le> a \<Longrightarrow> 0 \<le> b \<Longrightarrow> pow10 (a + b) = pow10 a * pow10 b"
  by (auto simp: pow10_def nat_add_distrib power_add)

lemma Cmp_le: "Cmp d e \<le> 0 \<longleftrightarrow> Rat d \<le> Rat e"
  by (auto simp: Cmp_def)

lemma Cmp_antisym: "Cmp e d = - Cmp d e"
  by (auto simp: Cmp_def)

lemma Rat_scaled_up:
  assumes "0 \<le> scale d" and "scale d \<le> s"
  shows "rat_of_int (unscaled d * pow10 (s - scale d)) / of_int (pow10 s) = Rat d"
proof -
  have "pow10 s = pow10 (scale d) * pow10 (s - scale d)"
    using pow10_nonneg_add [of "scale d" "s - scale d"] assms by simp
  moreover have "pow10 (s - scale d) \<noteq> 0" "pow10 (scale d) \<noteq> 0"
    using pow10_pos [of "s - scale d"] pow10_pos [of "scale d"] by linarith+
  ultimately show ?thesis by (simp add: Rat_def)
qed

text \<open>Both operands brought to the larger scale: the shifts in \<open>Sub\<close> never wrap.\<close>

definition sub_scale :: "decimal \<Rightarrow> decimal \<Rightarrow> int" where
  "sub_scale d e = max (scale d) (scale e)"

definition sub_exact :: "decimal \<Rightarrow> decimal \<Rightarrow> int" where
  "sub_exact d e =
     unscaled d * pow10 (sub_scale d e - scale d) - unscaled e * pow10 (sub_scale d e - scale e)"

lemma Sub_eq:
  assumes "0 \<le> scale d" "scale d < 2 ^ 31" "0 \<le> scale e" "scale e < 2 ^ 31"
  shows "Sub d e = (if in_int64 (sub_exact d e) then Inr (New (sub_exact d e) (sub_scale d e))
                    else Inl DecOverflow)"
proof -
  have "wrap32 (sub_scale d e - scale d) = sub_scale d e - scale d"
    "wrap32 (sub_scale d e - scale e) = sub_scale d e - scale e"
    using assms by (auto intro!: wrap32_id simp: sub_scale_def)
  then show ?thesis
    by (auto simp: Sub_def Let_def sub_exact_def sub_scale_def max_def pow10_def)
qed

lemma sub_exact_Rat:
  assumes "0 \<le> scale d" "0 \<le> scale e"
  shows "of_int (sub_exact d e) / of_int (pow10 (sub_scale d e)) = Rat d - Rat e"
  using Rat_scaled_up [of d "sub_scale d e"] Rat_scaled_up [of e "sub_scale d e"] assms
  by (simp add: sub_exact_def sub_scale_def diff_divide_distrib)

section \<open>Rounding to the nearest, halves away from zero\<close>

lemma round_half_away_le:
  assumes "0 < b"
  shows "2 * (round_half_away a b * b) \<le> 2 * a + b"
    and "2 * a < 2 * (round_half_away a b * b) + b"
proof -
  have a: "a = a div b * b + a mod b" "a mod b < b" using assms by simp_all
  have key: "2 * (x + (if b \<le> 2 * r then b else 0)) \<le> 2 * a + b \<and>
      2 * a < 2 * (x + (if b \<le> 2 * r then b else 0)) + b" if "a = x + r" "r < b" for x r
    using that by auto
  have "round_half_away a b * b = a div b * b + (if b \<le> 2 * (a mod b) then b else 0)"
    by (simp add: round_half_away_def)
  with key [OF a] show "2 * (round_half_away a b * b) \<le> 2 * a + b"
    and "2 * a < 2 * (round_half_away a b * b) + b"
    by simp_all
qed

text \<open>The two-stage rounding of \<open>FloatString\<close> is one rounding of the scaled numerator.\<close>

lemma round_scaled:
  assumes "0 < b"
  shows "round_half_away (a * p) b = a div b * p + round_half_away ((a mod b) * p) b"
proof -
  have "a * p = (a div b * p) * b + (a mod b) * p"
    by (metis add_mult_distrib div_mult_mod_eq mult.assoc mult.commute)
  then have "a * p div b = a div b * p + (a mod b) * p div b" and "a * p mod b = (a mod b) * p mod b"
    using assms by (metis add.commute div_mult_self3 less_irrefl mult.commute) (metis \<open>a * p = _\<close> mod_mult_self3)
  then show ?thesis by (simp add: round_half_away_def)
qed

lemma round_le_unit: "0 < b \<Longrightarrow> r < b \<Longrightarrow> round_half_away (r * p) b \<le> p"
proof -
  assume b: "0 < b" and r: "r < b"
  show "round_half_away (r * p) b \<le> p"
  proof (cases "p = 0")
    case True
    then show ?thesis using b by (simp add: round_half_away_def)
  next
    case False
    have "r * p < b * p" using r False by simp
    then have "r * p div b < p"
      using b by (simp add: less_mult_imp_div_less mult.commute)
    then show ?thesis by (simp add: round_half_away_def)
  qed
qed

definition fixed_point :: "bool \<Rightarrow> nat \<Rightarrow> nat \<Rightarrow> string" where
  "fixed_point neg m prec =
     (if neg then ''-'' else '''') @ nat_digits (m div 10 ^ prec) @
     (if prec = 0 then ''''
      else ''.'' @ replicate (prec - length (nat_digits (m mod 10 ^ prec))) CHR ''0'' @
           nat_digits (m mod 10 ^ prec))"

lemma FloatString_eq:
  assumes "0 < b"
  shows "FloatString a b prec = fixed_point (a < 0) (round_half_away (nat \<bar>a\<bar> * 10 ^ prec) (nat b)) prec"
proof -
  define p q r where "p = (10 ^ prec :: nat)" and "q = nat \<bar>a\<bar> div nat b"
    and "r = round_half_away (nat \<bar>a\<bar> mod nat b * p) (nat b)"
  have le: "r \<le> p" unfolding r_def using assms by (intro round_le_unit) simp_all
  have p: "0 < p" by (simp add: p_def)
  have sum: "round_half_away (nat \<bar>a\<bar> * p) (nat b) = q * p + r"
    unfolding q_def r_def using assms by (intro round_scaled) simp
  have digits: "(q * p + r) div p = (if p \<le> r then q + 1 else q)"
      "(q * p + r) mod p = (if p \<le> r then r - p else r)"
    using le p by auto
  show ?thesis
    unfolding FloatString_def fixed_point_def Let_def
    unfolding p_def [symmetric] sum digits
    unfolding q_def [symmetric] r_def [symmetric] ..
qed

definition signed :: "bool \<Rightarrow> nat \<Rightarrow> int" where
  "signed neg m = (if neg then - int m else int m)"

lemma atoi_signed:
  "atoi ((if neg then ''-'' else '''') @ nat_digits m) =
     (if in_int64 (signed neg m) then Some (signed neg m) else None)"
  using nat_digits_digits [of m] nat_digits_hd [of m]
  by (auto simp: atoi_def signed_def list_all_iff Let_def)

definition round_quotient :: "int \<Rightarrow> int \<Rightarrow> int" where
  "round_quotient a b = signed (a < 0) (round_half_away (nat \<bar>a\<bar>) (nat b))"

lemma round_quotient_nearest:
  assumes "0 < b"
  shows "\<bar>of_int (round_quotient a b) - of_int a / (of_int b :: rat)\<bar> \<le> 1 / 2"
proof -
  let ?m = "round_half_away (nat \<bar>a\<bar>) (nat b)"
  have "2 * (?m * nat b) \<le> 2 * nat \<bar>a\<bar> + nat b" "2 * nat \<bar>a\<bar> < 2 * (?m * nat b) + nat b"
    using round_half_away_le [of "nat b" "nat \<bar>a\<bar>"] assms by simp_all
  then have "int (2 * (?m * nat b)) \<le> int (2 * nat \<bar>a\<bar> + nat b)"
      "int (2 * nat \<bar>a\<bar>) < int (2 * (?m * nat b) + nat b)"
    by (simp_all only: of_nat_le_iff of_nat_less_iff)
  then have "2 * (int ?m * b) \<le> 2 * \<bar>a\<bar> + b" "2 * \<bar>a\<bar> < 2 * (int ?m * b) + b"
    using assms by simp_all
  then have bound: "\<bar>2 * (round_quotient a b * b) - 2 * a\<bar> \<le> b"
    by (auto simp: round_quotient_def signed_def abs_if)
  have b: "(0 :: rat) < of_int b" using assms by simp
  have "2 * (of_int (round_quotient a b) - of_int a / of_int b) =
      (of_int (2 * (round_quotient a b * b) - 2 * a) :: rat) / of_int b"
    using b by (simp add: field_simps)
  then have "\<bar>2 * (of_int (round_quotient a b) - of_int a / of_int b :: rat)\<bar> =
      of_int \<bar>2 * (round_quotient a b * b) - 2 * a\<bar> / of_int b"
    using b by (simp add: abs_divide)
  also have "\<dots> \<le> 1"
    using bound b by (simp only: divide_le_eq_1_pos of_int_le_iff)
  finally have "\<bar>2 * (of_int (round_quotient a b) - of_int a / of_int b :: rat)\<bar> \<le> 1" .
  moreover have "\<bar>2 * x\<bar> \<le> 1 \<Longrightarrow> \<bar>x\<bar> \<le> 1 / 2" for x :: rat
    by linarith
  ultimately show ?thesis by blast
qed

lemma PercentOf_eq:
  "PercentOf d limit =
     (let p = round_quotient (unscaled d * pow10 (scale limit) * 100) (unscaled limit * pow10 (scale d))
      in if unscaled limit \<le> 0 \<or> \<not> in_int64 p then None else Some p)"
proof (cases "unscaled limit \<le> 0")
  case True
  then show ?thesis by (simp add: PercentOf_def Let_def)
next
  case False
  then have "0 < unscaled limit * pow10 (scale d)" by simp
  then show ?thesis
    using False
    by (simp add: PercentOf_def FloatString_eq fixed_point_def atoi_signed round_quotient_def Let_def
        del: append.simps)
qed

lemma percent_ratio:
  "0 < unscaled limit \<Longrightarrow>
   of_int (unscaled d * pow10 (scale limit) * 100) / of_int (unscaled limit * pow10 (scale d)) =
   100 * Rat d / Rat limit"
  using pow10_pos [of "scale d"] pow10_pos [of "scale limit"]
  by (simp add: Rat_def field_simps)

text \<open>\<open>Rescale\<close> prints the nearest multiple of \<open>10^-n\<close>.\<close>

definition rescaled :: "decimal \<Rightarrow> int \<Rightarrow> int" where
  "rescaled d n = round_quotient (unscaled d * 10 ^ nat n) (pow10 (scale d))"

lemma rescaled_nearest: "\<bar>of_int (rescaled d n) - Rat d * 10 ^ nat n\<bar> \<le> 1 / 2"
  using round_quotient_nearest [of "pow10 (scale d)" "unscaled d * 10 ^ nat n"]
  by (simp add: rescaled_def Rat_def)

lemma Rescale_eq: "Rescale d n = fixed_point (unscaled d < 0) (nat \<bar>rescaled d n\<bar>) (nat n)"
  by (simp add: Rescale_def FloatString_eq rescaled_def round_quotient_def signed_def
      mult_less_0_iff abs_mult nat_mult_distrib nat_power_eq)

section \<open>Properties\<close>

text \<open>
  Printing and parsing a decimal are inverse: whatever \<open>Parse\<close> returns has a text form, and
  parsing that text gives the same mantissa and the same scale back, so amounts survive the wire
  and the disk exactly.
\<close>

theorem decimal_roundtrip:
  assumes "Parse s = Inr d"
  shows "\<exists>t. String d = Some t \<and> Parse t = Inr d"
  using assms by (intro Parse_String Parse_wf)

theorem decimal_roundtrip_witness:
  "\<exists>t. String (New (-820) 2) = Some t \<and> Parse t = Inr (New (-820) 2)"
proof -
  have "Parse '' -8.20'' = Inr (New (-820) 2)" by code_simp
  then show ?thesis by (rule decimal_roundtrip)
qed

text \<open>
  \<open>PercentOf\<close> never guesses: it is undefined exactly when the limit is not positive or the
  rounded percentage leaves 64 bits, and otherwise within half a percent of the exact quotient.
\<close>

theorem percent_of_nearest:
  assumes "PercentOf d limit = Some p"
  shows "0 < unscaled limit \<and> \<bar>of_int p - 100 * Rat d / Rat limit\<bar> \<le> 1 / 2"
proof -
  let ?a = "unscaled d * pow10 (scale limit) * 100" and ?b = "unscaled limit * pow10 (scale d)"
  from assms have pos: "0 < unscaled limit" and p: "p = round_quotient ?a ?b"
    by (auto simp: PercentOf_eq Let_def split: if_splits)
  from pos have "0 < ?b" by simp
  from round_quotient_nearest [OF this, of ?a] pos p show ?thesis
    by (simp only: percent_ratio)
qed

theorem percent_of_nearest_witness:
  "0 < unscaled (New 300 2) \<and> \<bar>of_int 50 - 100 * Rat (New 15 1) / Rat (New 300 2)\<bar> \<le> 1 / 2"
proof -
  have "PercentOf (New 15 1) (New 300 2) = Some 50"
    by (simp add: PercentOf_eq New_def pow10_def round_quotient_def signed_def
        round_half_away_def in_int64_def)
  then show ?thesis using percent_of_nearest by blast
qed

text \<open>
  \<open>Sub\<close> is exact: on scales the parser accepts the difference is returned with no rounding,
  and the only failure is a mantissa outside 64 bits.
\<close>

theorem sub_exact_or_overflow:
  assumes "0 \<le> scale d" "scale d < 2 ^ 31" "0 \<le> scale e" "scale e < 2 ^ 31"
  shows "(case Sub d e of
            Inr c \<Rightarrow> Rat c = Rat d - Rat e \<and> scale c = max (scale d) (scale e) \<and> in_int64 (unscaled c)
          | Inl err \<Rightarrow> err = DecOverflow \<and> \<not> in_int64 (sub_exact d e))"
proof (cases "in_int64 (sub_exact d e)")
  case True
  have "Rat (New (sub_exact d e) (sub_scale d e)) = Rat d - Rat e"
    using sub_exact_Rat [OF assms(1,3)] by (simp only: Rat_def New_def decimal.simps)
  moreover have "Sub d e = Inr (New (sub_exact d e) (sub_scale d e))"
    using True Sub_eq [OF assms] by (simp only: if_True)
  ultimately show ?thesis
    using True by (simp only: sum.case New_def decimal.simps sub_scale_def)
next
  case False
  then have "Sub d e = Inl DecOverflow"
    using Sub_eq [OF assms] by (simp only: if_False)
  with False show ?thesis by (simp add: sum.case)
qed

theorem sub_exact_or_overflow_witness:
  "(case Sub (New 1000 2) (New 375 3) of
      Inr c \<Rightarrow> Rat c = Rat (New 1000 2) - Rat (New 375 3) \<and>
        scale c = max (scale (New 1000 2)) (scale (New 375 3)) \<and> in_int64 (unscaled c)
    | Inl err \<Rightarrow> err = DecOverflow \<and> \<not> in_int64 (sub_exact (New 1000 2) (New 375 3)))"
  by (rule sub_exact_or_overflow) (simp_all add: New_def)

text \<open>
  The range hypothesis of \<^const>\<open>wf_decimal\<close> is needed: \<open>Sub\<close> can return the least 64-bit
  mantissa, whose negation in \<open>String\<close> wraps, and the text printed for it does not parse.
\<close>

lemma Sub_reaches_least:
  "Sub (New (- (2 ^ 63) + 1) 2) (New 1 2) = Inr (New (- (2 ^ 63)) 2)"
  by (simp add: Sub_def New_def in_int64_def Let_def)

lemma digits_least:
  "nat_digits 9223372036854775808 = ''9223372036854775808''"
  by (simp add: nat_digits.simps)

lemma String_least_malformed:
  "String (New (- (2 ^ 63)) 2) = Some ''--92233720368547758.08''"
  using wrap64_min by (simp add: String_def New_def Let_def format_int_def digits_least pad_zeros_eq)

lemma Parse_least_malformed: "Parse ''--92233720368547758.08'' = Inl DecSyntax"
proof -
  have "trim_space ''--92233720368547758.08'' = ''--92233720368547758.08''"
    by (rule trim_space_visible) (simp add: is_visible_def)
  then show ?thesis
    by (simp add: Parse_def parse_unsigned_def MaxScale_def is_digit_def)
qed

end
