(* ===== verification/Json.thy ===== *)
theory Json
  imports GoText
begin

text \<open>
  JSON as \<open>encoding/json\<close> reads it: a scanner from text to documents, and the decoding of a document
  into a struct, field by field, with the rules the code relies on (case-insensitive field names,
  \<open>null\<close> leaving a field as it is, integers that must be integer literals in range, unknown fields
  refused by \<open>DisallowUnknownFields\<close> and skipped otherwise). A member of an object keeps the text
  of its value, which is what a \<open>json.RawMessage\<close> field and a \<open>time.Time\<close> field receive.

  The scanner's recursion is bounded by fuel, twice the length of the text; \<open>parse_value_fuel\<close> shows that
  more fuel never changes its answer. Documents nested deeper than the 10000 levels Go allows are not
  distinguished.
\<close>

section \<open>Documents\<close>

datatype json =
    JNull
  | JBool bool
  | JNumber string                            \<comment> \<open>the literal\<close>
  | JString string                            \<comment> \<open>unescaped, UTF-8\<close>
  | JArray "json list"
  | JObject "(string \<times> string \<times> json) list"  \<comment> \<open>key, text of the value, value; in order\<close>

section \<open>Strings\<close>

definition quote :: char where "quote = CHR 0x22"
definition backslash :: char where "backslash = CHR 0x5C"

definition is_space :: "char \<Rightarrow> bool" where
  "is_space c \<longleftrightarrow> code c \<in> {9, 10, 13, 32}"

abbreviation skip_space :: "string \<Rightarrow> string" where
  "skip_space \<equiv> dropWhile is_space"

text \<open>A valid UTF-8 sequence of more than one byte at the front of the text: its length.\<close>

definition in_bytes :: "char \<Rightarrow> nat \<Rightarrow> nat \<Rightarrow> bool" where
  "in_bytes c lo hi \<longleftrightarrow> lo \<le> code c \<and> code c \<le> hi"

fun utf8_width :: "string \<Rightarrow> nat option" where
  "utf8_width (a # b # r) =
     (if in_bytes a 0xC2 0xDF \<and> in_bytes b 0x80 0xBF then Some 2
      else case r of
        [] \<Rightarrow> None
      | c # r' \<Rightarrow>
          if (code a = 0xE0 \<and> in_bytes b 0xA0 0xBF \<or> in_bytes a 0xE1 0xEC \<and> in_bytes b 0x80 0xBF \<or>
              code a = 0xED \<and> in_bytes b 0x80 0x9F \<or> in_bytes a 0xEE 0xEF \<and> in_bytes b 0x80 0xBF) \<and>
             in_bytes c 0x80 0xBF then Some 3
          else case r' of
            [] \<Rightarrow> None
          | d # _ \<Rightarrow>
              if (code a = 0xF0 \<and> in_bytes b 0x90 0xBF \<or> in_bytes a 0xF1 0xF3 \<and> in_bytes b 0x80 0xBF \<or>
                  code a = 0xF4 \<and> in_bytes b 0x80 0x8F) \<and>
                 in_bytes c 0x80 0xBF \<and> in_bytes d 0x80 0xBF then Some 4
              else None)"
| "utf8_width _ = None"

definition utf8_encode :: "nat \<Rightarrow> string" where
  "utf8_encode n = map char_of
     (if n < 0x80 then [n]
      else if n < 0x800 then [0xC0 + n div 64, 0x80 + n mod 64]
      else if n < 0x10000 then [0xE0 + n div 4096, 0x80 + n div 64 mod 64, 0x80 + n mod 64]
      else [0xF0 + n div 262144, 0x80 + n div 4096 mod 64, 0x80 + n div 64 mod 64, 0x80 + n mod 64])"

definition replacement :: string where "replacement = utf8_encode 0xFFFD"

definition hex_value :: "char \<Rightarrow> nat option" where
  "hex_value c =
     (if is_digit c then Some (code c - 48)
      else if 97 \<le> code c \<and> code c \<le> 102 then Some (code c - 87)
      else if 65 \<le> code c \<and> code c \<le> 70 then Some (code c - 55)
      else None)"

fun hex4 :: "string \<Rightarrow> nat option" where
  "hex4 (a # b # c # d # _) =
     (case (hex_value a, hex_value b, hex_value c, hex_value d) of
        (Some w, Some x, Some y, Some z) \<Rightarrow> Some (((w * 16 + x) * 16 + y) * 16 + z)
      | _ \<Rightarrow> None)"
| "hex4 _ = None"

text \<open>
  After \<open>\u\<close>: the bytes the escape stands for and how many characters it takes. A high surrogate
  followed by an escaped low one is a single rune; any other surrogate is replaced.
\<close>

definition unicode_escape :: "string \<Rightarrow> (string \<times> nat) option" where
  "unicode_escape s =
     (case hex4 s of
        None \<Rightarrow> None
      | Some n \<Rightarrow>
          if 0xD800 \<le> n \<and> n < 0xE000 then
            (case (if n < 0xDC00 \<and> take 2 (drop 4 s) = [backslash, CHR ''u''] then hex4 (drop 6 s) else None) of
               Some m \<Rightarrow> if 0xDC00 \<le> m \<and> m < 0xE000
                         then Some (utf8_encode (0x10000 + (n - 0xD800) * 1024 + (m - 0xDC00)), 10)
                         else Some (replacement, 4)
             | None \<Rightarrow> Some (replacement, 4))
          else Some (utf8_encode n, 4))"

definition simple_escape :: "char \<Rightarrow> char option" where
  "simple_escape c =
     (if c = quote \<or> c = backslash \<or> c = CHR ''/'' then Some c
      else if c = CHR ''b'' then Some (char_of (8 :: nat))
      else if c = CHR ''f'' then Some (char_of (12 :: nat))
      else if c = CHR ''n'' then Some (char_of (10 :: nat))
      else if c = CHR ''r'' then Some (char_of (13 :: nat))
      else if c = CHR ''t'' then Some (char_of (9 :: nat))
      else None)"

definition prepend :: "string \<Rightarrow> (string \<times> 'a) option \<Rightarrow> (string \<times> 'a) option" where
  "prepend t res = map_option (\<lambda>(s, r). (t @ s, r)) res"

text \<open>The rest of a string literal after its opening quote, and the text behind the closing one.\<close>

function (sequential) string_body :: "string \<Rightarrow> (string \<times> string) option" where
  "string_body [] = None"
| "string_body (c # s) =
     (if c = quote then Some ([], s)
      else if code c < 32 then None
      else if c = backslash then
        (case s of
           [] \<Rightarrow> None
         | e # s' \<Rightarrow>
             if e = CHR ''u'' then
               (case unicode_escape s' of
                  None \<Rightarrow> None
                | Some (t, n) \<Rightarrow> prepend t (string_body (drop n s')))
             else (case simple_escape e of
                     None \<Rightarrow> None
                   | Some d \<Rightarrow> prepend [d] (string_body s')))
      else if code c < 128 then prepend [c] (string_body s)
      else (case utf8_width (c # s) of
              None \<Rightarrow> prepend replacement (string_body s)
            | Some n \<Rightarrow> prepend (take n (c # s)) (string_body (drop (n - 1) s))))"
  by pat_completeness auto
termination by (relation "measure length") auto

declare string_body.simps [simp del]

lemma prepend_Some: "prepend t res = Some (s, r) \<longleftrightarrow> (\<exists>s'. res = Some (s', r) \<and> s = t @ s')"
  by (auto simp: prepend_def)

lemma string_body_shorter: "string_body s = Some (t, r) \<Longrightarrow> length r < length s"
proof (induction s arbitrary: t r rule: string_body.induct)
  case 1
  then show ?case by (simp add: string_body.simps)
next
  case (2 c s)
  show ?case
    using "2.prems" "2.IH"
    by (subst (asm) string_body.simps)
      (fastforce simp: prepend_Some split: if_splits list.splits option.splits prod.splits)
qed

section \<open>Values\<close>

text \<open>The scanner of number literals.\<close>

definition number_int :: "string \<Rightarrow> string option" where
  "number_int s =
     (let t = (if s \<noteq> [] \<and> hd s = CHR ''-'' then tl s else s)
      in case t of
           [] \<Rightarrow> None
         | c # r \<Rightarrow> if c = CHR ''0'' then Some r else if is_digit c then Some (dropWhile is_digit r) else None)"

definition number_frac :: "string \<Rightarrow> string option" where
  "number_frac s =
     (if s \<noteq> [] \<and> hd s = CHR ''.''
      then (if takeWhile is_digit (tl s) = [] then None else Some (dropWhile is_digit (tl s)))
      else Some s)"

definition number_exp :: "string \<Rightarrow> string option" where
  "number_exp s =
     (if s \<noteq> [] \<and> hd s \<in> set ''eE''
      then let t = (if tl s \<noteq> [] \<and> hd (tl s) \<in> set ''+-'' then tl (tl s) else tl s)
           in if takeWhile is_digit t = [] then None else Some (dropWhile is_digit t)
      else Some s)"

definition scan_number :: "string \<Rightarrow> (json \<times> string) option" where
  "scan_number s =
     Option.bind (number_int s) (\<lambda>a. Option.bind (number_frac a) (\<lambda>b.
       map_option (\<lambda>r. (JNumber (take (length s - length r) s), r)) (number_exp b)))"

definition scan_word :: "string \<Rightarrow> json \<Rightarrow> string \<Rightarrow> (json \<times> string) option" where
  "scan_word w v s = (if take (length w) s = w then Some (v, drop (length w) s) else None)"

text \<open>
  \<open>parse_value\<close> reads a value after optional white space, \<open>parse_elements\<close> and \<open>parse_members\<close> what
  follows an opening bracket that is not closed at once.
\<close>

fun parse_value :: "nat \<Rightarrow> string \<Rightarrow> (json \<times> string) option"
  and parse_elements :: "nat \<Rightarrow> string \<Rightarrow> (json list \<times> string) option"
  and parse_members :: "nat \<Rightarrow> string \<Rightarrow> ((string \<times> string \<times> json) list \<times> string) option"
where
  "parse_value 0 s = None"
| "parse_value (Suc n) s =
     (case skip_space s of
        [] \<Rightarrow> None
      | c # r \<Rightarrow>
          if c = CHR ''{'' then
            (case skip_space r of
               [] \<Rightarrow> None
             | d # q \<Rightarrow> if d = CHR ''}'' then Some (JObject [], q)
                        else map_option (\<lambda>(ms, q). (JObject ms, q)) (parse_members n (d # q)))
          else if c = CHR ''['' then
            (case skip_space r of
               [] \<Rightarrow> None
             | d # q \<Rightarrow> if d = CHR '']'' then Some (JArray [], q)
                        else map_option (\<lambda>(vs, q). (JArray vs, q)) (parse_elements n (d # q)))
          else if c = quote then map_option (\<lambda>(t, q). (JString t, q)) (string_body r)
          else if c = CHR ''t'' then scan_word ''true'' (JBool True) (c # r)
          else if c = CHR ''f'' then scan_word ''false'' (JBool False) (c # r)
          else if c = CHR ''n'' then scan_word ''null'' JNull (c # r)
          else scan_number (c # r))"
| "parse_elements 0 s = None"
| "parse_elements (Suc n) s =
     (case parse_value n s of
        None \<Rightarrow> None
      | Some (v, r) \<Rightarrow>
          (case skip_space r of
             [] \<Rightarrow> None
           | c # q \<Rightarrow> if c = CHR '']'' then Some ([v], q)
                      else if c = CHR '','' then map_option (\<lambda>(vs, q). (v # vs, q)) (parse_elements n q)
                      else None))"
| "parse_members 0 s = None"
| "parse_members (Suc n) s =
     (case skip_space s of
        [] \<Rightarrow> None
      | c # r \<Rightarrow>
          if c \<noteq> quote then None
          else (case string_body r of
            None \<Rightarrow> None
          | Some (k, r1) \<Rightarrow>
              (case skip_space r1 of
                 [] \<Rightarrow> None
               | d # r2 \<Rightarrow>
                   if d \<noteq> CHR '':'' then None
                   else (case parse_value n r2 of
                     None \<Rightarrow> None
                   | Some (v, r3) \<Rightarrow>
                       let r2' = skip_space r2; raw = take (length r2' - length r3) r2' in
                       (case skip_space r3 of
                          [] \<Rightarrow> None
                        | e # q \<Rightarrow>
                            if e = CHR ''}'' then Some ([(k, raw, v)], q)
                            else if e = CHR '','' then
                              map_option (\<lambda>(ms, q). ((k, raw, v) # ms, q)) (parse_members n q)
                            else None)))))"

declare parse_value.simps [simp del] parse_elements.simps [simp del] parse_members.simps [simp del]

text \<open>A whole document, with nothing but white space behind it.\<close>

definition parse_json :: "string \<Rightarrow> json option" where
  "parse_json s =
     (case parse_value (2 * length s + 1) s of
        None \<Rightarrow> None
      | Some (v, r) \<Rightarrow> if skip_space r = [] then Some v else None)"

section \<open>Enough fuel\<close>

lemma skip_space_shorter: "length (skip_space s) \<le> length s"
  by (rule length_dropWhile_le)

lemma skip_space_Cons: "skip_space s = c # r \<Longrightarrow> length r < length s"
  using skip_space_shorter [of s] by simp

lemma number_int_shorter: "number_int s = Some r \<Longrightarrow> length r < length s"
proof -
  have "t = c # q \<Longrightarrow> length (dropWhile is_digit q) < length t" for t q c
    using length_dropWhile_le [of is_digit q] by simp
  then show "number_int s = Some r \<Longrightarrow> length r < length s"
    by (cases s) (fastforce simp: number_int_def Let_def split: if_splits list.splits)+
qed

lemma number_frac_shorter: "number_frac s = Some r \<Longrightarrow> length r \<le> length s"
  using length_dropWhile_le [of is_digit "tl s"]
  by (cases s) (auto simp: number_frac_def split: if_splits)

lemma number_exp_shorter: "number_exp s = Some r \<Longrightarrow> length r \<le> length s"
  using length_dropWhile_le [of is_digit "tl s"] length_dropWhile_le [of is_digit "tl (tl s)"]
  by (cases s) (auto simp: number_exp_def Let_def split: if_splits)

lemma scan_number_shorter: "scan_number s = Some (v, r) \<Longrightarrow> length r < length s"
  by (fastforce simp: scan_number_def bind_eq_Some_conv
      dest: number_int_shorter number_frac_shorter number_exp_shorter)

lemma scan_word_shorter: "scan_word w v s = Some (u, r) \<Longrightarrow> w \<noteq> [] \<Longrightarrow> length r < length s"
  by (cases s) (auto simp: scan_word_def split: if_splits)

lemma parse_value_SucD:
  assumes "parse_value (Suc n) s = Some (v, r)"
  shows "length r < length s \<or>
    (\<exists>t. length t < length s \<and>
       ((\<exists>ms. parse_members n t = Some (ms, r)) \<or> (\<exists>vs. parse_elements n t = Some (vs, r))))"
proof (cases "skip_space s")
  case Nil
  then show ?thesis using assms by (simp only: parse_value.simps list.simps option.simps)
next
  case (Cons c q)
  have q: "length q < length s" using Cons by (rule skip_space_Cons)
  have cq: "length (c # q) \<le> length s" using q by simp
  have d: "length (d # p) < length s" "length p < length s" if "skip_space q = d # p" for d p
    using q skip_space_Cons [OF that] by simp_all
  consider "c = CHR ''{''" | "c = CHR ''[''" | "c = quote"
    | "c \<noteq> CHR ''{''" "c \<noteq> CHR ''[''" "c \<noteq> quote" by blast
  then show ?thesis
  proof cases
    case 1
    then show ?thesis
      using assms d by (auto simp: parse_value.simps Cons split: list.splits if_splits)
  next
    case 2
    then show ?thesis
      using assms d by (auto simp: parse_value.simps Cons split: list.splits if_splits)
  next
    case 3
    then show ?thesis
      using assms q by (auto simp: parse_value.simps Cons quote_def dest: string_body_shorter)
  next
    case 4
    then show ?thesis
      using assms cq
      by (auto simp: parse_value.simps Cons split: if_splits dest!: scan_word_shorter scan_number_shorter)
  qed
qed

lemma parse_members_SucD:
  assumes "parse_members (Suc n) s = Some (ms, r)"
  obtains k r1 r2 r3 v raw e q where "skip_space s = quote # r1" "string_body r1 = Some (k, r2)"
    "skip_space r2 = CHR '':'' # r3" "parse_value n r3 = Some (v, q)"
    "raw = take (length (skip_space r3) - length q) (skip_space r3)" "skip_space q = e # r \<and> ms = [(k, raw, v)] \<or>
     (\<exists>p ms'. skip_space q = CHR '','' # p \<and> parse_members n p = Some (ms', r) \<and> ms = (k, raw, v) # ms')"
  using assms that
  by (auto simp: parse_members.simps Let_def split: option.splits list.splits if_splits prod.splits)

lemma parse_shorter:
  "(\<forall>s v r. parse_value n s = Some (v, r) \<longrightarrow> length r < length s) \<and>
   (\<forall>s vs r. parse_elements n s = Some (vs, r) \<longrightarrow> length r < length s) \<and>
   (\<forall>s ms r. parse_members n s = Some (ms, r) \<longrightarrow> length r < length s)"
proof (induction n)
  case 0
  show ?case by (simp add: parse_value.simps parse_elements.simps parse_members.simps)
next
  case (Suc n)
  then have V: "parse_value n s = Some (v, r) \<Longrightarrow> length r < length s"
    and E: "parse_elements n s = Some (vs, r) \<Longrightarrow> length r < length s"
    and M: "parse_members n s = Some (ms, r) \<Longrightarrow> length r < length s" for s v vs ms r
    by blast+
  have "length r < length s" if "parse_value (Suc n) s = Some (v, r)" for s v r
    using parse_value_SucD [OF that] E M by (meson less_trans)
  moreover have "length r < length s" if "parse_elements (Suc n) s = Some (vs, r)" for s vs r
    using that V E
    by (auto simp: parse_elements.simps split: option.splits list.splits if_splits prod.splits
        dest!: skip_space_Cons) (meson less_trans)+
  moreover have "length r < length s" if prem: "parse_members (Suc n) s = Some (ms, r)" for s ms r
    using prem
  proof (rule parse_members_SucD)
    fix k r1 r2 r3 v raw e q
    assume steps: "skip_space s = quote # r1" "string_body r1 = Some (k, r2)"
      "skip_space r2 = CHR '':'' # r3" "parse_value n r3 = Some (v, q)"
      and end_: "skip_space q = e # r \<and> ms = [(k, raw, v)] \<or>
        (\<exists>p ms'. skip_space q = CHR '','' # p \<and> parse_members n p = Some (ms', r) \<and> ms = (k, raw, v) # ms')"
    have "length q < length s"
      using steps(1,3) [THEN skip_space_Cons] string_body_shorter [OF steps(2)] V [OF steps(4)] by simp
    moreover have "length r < length q"
      using end_ M by (auto dest!: skip_space_Cons dest: less_trans)
    ultimately show "length r < length s" by simp
  qed
  ultimately show ?case by blast
qed

declare dropWhile_eq_Nil_conv [simp del]

lemmas parse_value_shorter = parse_shorter [THEN conjunct1, rule_format]

lemma parse_fuel_step:
  "(\<forall>s. 2 * length s < n \<longrightarrow> parse_value (Suc n) s = parse_value n s) \<and>
   (\<forall>s. Suc (2 * length s) < n \<longrightarrow> parse_elements (Suc n) s = parse_elements n s) \<and>
   (\<forall>s. Suc (2 * length s) < n \<longrightarrow> parse_members (Suc n) s = parse_members n s)"
proof (induction n)
  case 0
  show ?case by simp
next
  case (Suc n)
  then have V: "2 * length s < n \<Longrightarrow> parse_value (Suc n) s = parse_value n s"
    and E: "Suc (2 * length s) < n \<Longrightarrow> parse_elements (Suc n) s = parse_elements n s"
    and M: "Suc (2 * length s) < n \<Longrightarrow> parse_members (Suc n) s = parse_members n s" for s
    by blast+
  have "parse_value (Suc (Suc n)) s = parse_value (Suc n) s" if fuel: "2 * length s < Suc n" for s
  proof (cases "skip_space s")
    case (Cons c q)
    have q: "length q < length s" using Cons by (rule skip_space_Cons)
    show ?thesis
    proof (cases "skip_space q")
      case Nil
      then show ?thesis by (simp only: parse_value.simps Cons Nil list.simps)
    next
      case (Cons d p)
      have "Suc (2 * length (d # p)) < n"
        using q skip_space_Cons [OF Cons] fuel by simp
      from M [OF this] E [OF this] show ?thesis
        by (simp only: parse_value.simps \<open>skip_space s = c # q\<close> Cons list.simps)
    qed
  qed (simp only: parse_value.simps list.simps)
  moreover have "parse_elements (Suc (Suc n)) s = parse_elements (Suc n) s"
    if fuel: "Suc (2 * length s) < Suc n" for s
  proof (cases "parse_value n s")
    case None
    with V [of s] fuel show ?thesis by (simp add: parse_elements.simps)
  next
    case (Some res)
    obtain u r where res: "res = (u, r)" by (cases res)
    have r: "length r < length s" using parse_value_shorter Some res by blast
    have "parse_elements (Suc n) p = parse_elements n p" if "skip_space r = e # p" for e p
      using r skip_space_Cons [OF that] fuel by (intro E) simp
    then show ?thesis
      using V [of s] fuel Some res
      by (auto simp: parse_elements.simps(2) [of "Suc n" s] parse_elements.simps(2) [of n s]
          split: list.splits)
  qed
  moreover have "parse_members (Suc (Suc n)) s = parse_members (Suc n) s"
    if fuel: "Suc (2 * length s) < Suc n" for s
  proof -
    have v: "parse_value (Suc n) r3 = parse_value n r3"
      if "skip_space s = c # r1" "string_body r1 = Some (k, r2)" "skip_space r2 = d # r3" for c r1 k r2 d r3
      using that(1,3) [THEN skip_space_Cons] string_body_shorter [OF that(2)] fuel by (intro V) simp
    have m: "parse_members (Suc n) q = parse_members n q"
      if "skip_space s = c # r1" "string_body r1 = Some (k, r2)" "skip_space r2 = d # r3"
        "parse_value n r3 = Some (w, r4)" "skip_space r4 = e # q" for c r1 k r2 d r3 w r4 e q
      using that(1,3,5) [THEN skip_space_Cons] string_body_shorter [OF that(2)]
        parse_value_shorter [OF that(4)] fuel by (intro M) simp
    show ?thesis
      by (simp add: parse_members.simps(2) [of "Suc n" s] parse_members.simps(2) [of n s] Let_def v m split: list.split option.split prod.split)
  qed
  ultimately show ?case by blast
qed

lemma parse_value_fuel:
  assumes "2 * length s < n"
  shows "parse_value n s = parse_value (2 * length s + 1) s"
proof -
  have "parse_value (2 * length s + 1 + k) s = parse_value (2 * length s + 1) s" for k
    using parse_fuel_step by (induction k) simp_all
  from this [of "n - (2 * length s + 1)"] assms show ?thesis by simp
qed

declare dropWhile_eq_Nil_conv [simp]

section \<open>Times\<close>

text \<open>
  \<open>time.Time\<close> reads RFC 3339 from the text between the quotes: date, time of day, at most nine
  significant fraction digits, and \<open>Z\<close> or a numeric offset. The result is the instant in UTC.
\<close>

definition digits_at :: "nat \<Rightarrow> nat \<Rightarrow> string \<Rightarrow> int option" where
  "digits_at i n s =
     (let t = take n (drop i s)
      in if length t = n \<and> list_all is_digit t then Some (int (digits_value t)) else None)"

definition is_leap :: "int \<Rightarrow> bool" where
  "is_leap y \<longleftrightarrow> y mod 4 = 0 \<and> (y mod 100 \<noteq> 0 \<or> y mod 400 = 0)"

definition month_lengths :: "int \<Rightarrow> int list" where
  "month_lengths y = [31, if is_leap y then 29 else 28, 31, 30, 31, 30, 31, 31, 30, 31, 30, 31]"

definition days_before_year :: "int \<Rightarrow> int" where
  "days_before_year y = 365 * (y - 1) + (y - 1) div 4 - (y - 1) div 100 + (y - 1) div 400"

definition civil_seconds :: "int \<Rightarrow> int \<Rightarrow> int \<Rightarrow> int \<Rightarrow> int \<Rightarrow> int \<Rightarrow> int" where
  "civil_seconds y mo d h mi s =
     (days_before_year y + sum_list (take (nat (mo - 1)) (month_lengths y)) + (d - 1)) * 86400 +
     h * 3600 + mi * 60 + s"

definition fraction_ns :: "string \<Rightarrow> int" where
  "fraction_ns ds = int (digits_value (take 9 ds)) * 10 ^ (9 - length (take 9 ds))"

definition zone_seconds :: "string \<Rightarrow> int option" where
  "zone_seconds z =
     (if z = ''Z'' then Some 0
      else if length z = 6 \<and> hd z \<in> set ''+-'' \<and> z ! 3 = CHR '':'' then
        (case (digits_at 1 2 z, digits_at 4 2 z) of
           (Some h, Some m) \<Rightarrow>
             if h \<le> 23 \<and> m \<le> 59 then Some ((if hd z = CHR ''-'' then -1 else 1) * (h * 60 + m) * 60)
             else None
         | _ \<Rightarrow> None)
      else None)"

definition parse_rfc3339 :: "string \<Rightarrow> instant option" where
  "parse_rfc3339 s =
     (case (digits_at 0 4 s, digits_at 5 2 s, digits_at 8 2 s, digits_at 11 2 s, digits_at 14 2 s,
            digits_at 17 2 s) of
        (Some y, Some mo, Some d, Some h, Some mi, Some sec) \<Rightarrow>
          if map (\<lambda>i. s ! i) [4, 7, 10, 13, 16] = ''--T::'' \<and> 1 \<le> mo \<and> mo \<le> 12 \<and> 1 \<le> d \<and>
             d \<le> month_lengths y ! nat (mo - 1) \<and> h \<le> 23 \<and> mi \<le> 59 \<and> sec \<le> 59
          then let r = drop 19 s; ds = takeWhile is_digit (tl r);
                   frac = (r \<noteq> [] \<and> hd r = CHR ''.'' \<and> ds \<noteq> [])
               in map_option
                    (\<lambda>off. (civil_seconds y mo d h mi sec - off) * second + (if frac then fraction_ns ds else 0))
                    (zone_seconds (if frac then dropWhile is_digit (tl r) else r))
          else None
      | _ \<Rightarrow> None)"

definition unquote_time :: "string \<Rightarrow> instant option" where
  "unquote_time raw =
     (if 2 \<le> length raw \<and> hd raw = quote \<and> last raw = quote then parse_rfc3339 (butlast (tl raw)) else None)"

section \<open>Decoding into structs\<close>

text \<open>
  A field is its JSON name and what a member of that name does to the struct, given the text and
  the value of the member; \<open>None\<close> is a decoding error, and no caller looks at a partly filled struct.
\<close>

type_synonym 'r setter = "string \<Rightarrow> json \<Rightarrow> 'r \<Rightarrow> 'r option"
type_synonym 'r fields = "(string \<times> 'r setter) list"

fun fold_name :: "string \<Rightarrow> string" where
  "fold_name (a # b # c # s) =
     (if [a, b, c] = kelvin_sign then CHR ''K'' # fold_name s
      else if [a, b] = long_s then CHR ''S'' # fold_name (c # s)
      else upper_char a # fold_name (b # c # s))"
| "fold_name [a, b] = (if [a, b] = long_s then ''S'' else [upper_char a, upper_char b])"
| "fold_name [a] = [upper_char a]"
| "fold_name [] = []"

definition find_field :: "'r fields \<Rightarrow> string \<Rightarrow> 'r setter option" where
  "find_field fields k =
     (case map_of fields k of
        Some f \<Rightarrow> Some f
      | None \<Rightarrow> map_option snd (find (\<lambda>f. fold_name (fst f) = fold_name k) fields))"

fun decode_members :: "bool \<Rightarrow> 'r fields \<Rightarrow> (string \<times> string \<times> json) list \<Rightarrow> 'r \<Rightarrow> 'r option" where
  "decode_members strict fields [] r = Some r"
| "decode_members strict fields ((k, raw, v) # ms) r =
     (case find_field fields k of
        None \<Rightarrow> if strict then None else decode_members strict fields ms r
      | Some f \<Rightarrow> (case f raw v r of None \<Rightarrow> None | Some r' \<Rightarrow> decode_members strict fields ms r'))"

definition decode_struct :: "bool \<Rightarrow> 'r fields \<Rightarrow> json \<Rightarrow> 'r \<Rightarrow> 'r option" where
  "decode_struct strict fields v r =
     (case v of JNull \<Rightarrow> Some r | JObject ms \<Rightarrow> decode_members strict fields ms r | _ \<Rightarrow> None)"

definition unmarshal :: "bool \<Rightarrow> 'r fields \<Rightarrow> 'r \<Rightarrow> string \<Rightarrow> 'r option" where
  "unmarshal strict fields zero s =
     (case parse_json s of None \<Rightarrow> None | Some v \<Rightarrow> decode_struct strict fields v zero)"

definition set_string :: "(string \<Rightarrow> 'r \<Rightarrow> 'r) \<Rightarrow> 'r setter" where
  "set_string upd raw v r =
     (case v of JNull \<Rightarrow> Some r | JString s \<Rightarrow> Some (upd s r) | _ \<Rightarrow> None)"

definition set_bool :: "(bool \<Rightarrow> 'r \<Rightarrow> 'r) \<Rightarrow> 'r setter" where
  "set_bool upd raw v r = (case v of JNull \<Rightarrow> Some r | JBool b \<Rightarrow> Some (upd b r) | _ \<Rightarrow> None)"

definition set_int :: "(int \<Rightarrow> 'r \<Rightarrow> 'r) \<Rightarrow> 'r setter" where
  "set_int upd raw v r =
     (case v of JNull \<Rightarrow> Some r | JNumber t \<Rightarrow> map_option (\<lambda>n. upd n r) (atoi t) | _ \<Rightarrow> None)"

definition set_uint64 :: "(u64 \<Rightarrow> 'r \<Rightarrow> 'r) \<Rightarrow> 'r setter" where
  "set_uint64 upd raw v r =
     (case v of
        JNull \<Rightarrow> Some r
      | JNumber t \<Rightarrow> if t \<noteq> [] \<and> list_all is_digit t \<and> digits_value t < 2 ^ 64
                     then Some (upd (of_nat (digits_value t)) r) else None
      | _ \<Rightarrow> None)"

definition set_raw :: "(string \<Rightarrow> 'r \<Rightarrow> 'r) \<Rightarrow> 'r setter" where
  "set_raw upd raw v r = Some (upd raw r)"

definition set_time :: "(instant \<Rightarrow> 'r \<Rightarrow> 'r) \<Rightarrow> 'r setter" where
  "set_time upd raw v r =
     (case v of JNull \<Rightarrow> Some r | _ \<Rightarrow> map_option (\<lambda>t. upd t r) (unquote_time raw))"

definition set_time_ptr :: "(instant option \<Rightarrow> 'r \<Rightarrow> 'r) \<Rightarrow> 'r setter" where
  "set_time_ptr upd raw v r =
     (case v of JNull \<Rightarrow> Some (upd None r) | _ \<Rightarrow> map_option (\<lambda>t. upd (Some t) r) (unquote_time raw))"

fun string_elements :: "json list \<Rightarrow> string list option" where
  "string_elements [] = Some []"
| "string_elements (v # vs) =
     (case v of
        JNull \<Rightarrow> map_option ((#) []) (string_elements vs)
      | JString s \<Rightarrow> map_option ((#) s) (string_elements vs)
      | _ \<Rightarrow> None)"

definition set_strings :: "(string list \<Rightarrow> 'r \<Rightarrow> 'r) \<Rightarrow> 'r setter" where
  "set_strings upd raw v r =
     (case v of
        JNull \<Rightarrow> Some (upd [] r)
      | JArray vs \<Rightarrow> map_option (\<lambda>ss. upd ss r) (string_elements vs)
      | _ \<Rightarrow> None)"

lemma find_field_member:
  assumes "find_field fields k = Some f"
  obtains n where "(n, f) \<in> set fields"
proof (cases "map_of fields k")
  case None
  with assms obtain p where "find (\<lambda>f. fold_name (fst f) = fold_name k) fields = Some p" "f = snd p"
    by (auto simp: find_field_def)
  then have "(fst p, f) \<in> set fields" by (auto simp: find_Some_iff)
  then show thesis by (rule that)
next
  case (Some g)
  with assms have "(k, f) \<in> set fields" by (auto simp: find_field_def dest: map_of_SomeD)
  then show thesis by (rule that)
qed

text \<open>What a successful decoding preserves: a fact of the struct that every field keeps.\<close>

lemma decode_members_invariant:
  assumes "decode_members strict fields ms r = Some r'" "P r"
    and "\<And>n f raw v s s'. (n, f) \<in> set fields \<Longrightarrow> f raw v s = Some s' \<Longrightarrow> P s \<Longrightarrow> P s'"
  shows "P r'"
  using assms(1,2)
proof (induction ms arbitrary: r)
  case (Cons m ms)
  obtain k raw v where m: "m = (k, raw, v)" by (cases m)
  show ?case
  proof (cases "find_field fields k")
    case None
    with Cons m show ?thesis by (auto split: if_splits)
  next
    case (Some f)
    then obtain n where "(n, f) \<in> set fields" by (rule find_field_member)
    with Cons Some m assms(3) show ?thesis by (auto split: option.splits)
  qed
qed simp

lemma find_field_None: "(\<forall>f\<in>set fields. fold_name (fst f) \<noteq> fold_name k) \<Longrightarrow> find_field fields k = None"
  by (auto simp: find_field_def find_None_iff map_of_eq_None_iff split: option.split dest: map_of_SomeD)

lemma decode_members_unknown:
  "(k, raw, v) \<in> set ms \<Longrightarrow> find_field fields k = None \<Longrightarrow> decode_members True fields ms r = None"
  by (induction True fields ms r rule: decode_members.induct) (auto split: option.splits)

section \<open>Marshalling strings and integers\<close>

definition unicode_literal :: "string \<Rightarrow> string" where
  "unicode_literal digits = backslash # CHR ''u'' # digits"

definition short_escape :: "char \<Rightarrow> char option" where
  "short_escape c =
     (if c = quote \<or> c = backslash then Some c
      else map_of [(8, CHR ''b''), (12, CHR ''f''), (10, CHR ''n''), (13, CHR ''r''), (9, CHR ''t'')] (code c))"

function (sequential) escape :: "string \<Rightarrow> string" where
  "escape [] = []"
| "escape (c # s) =
     (case short_escape c of
        Some e \<Rightarrow> backslash # e # escape s
      | None \<Rightarrow>
          if code c < 32 \<or> c \<in> set ''<>&'' then
            unicode_literal ''00'' @
              [digit_char (code c div 16),
               if code c mod 16 < 10 then digit_char (code c mod 16) else char_of (87 + code c mod 16)] @
              escape s
          else if code c < 128 then c # escape s
          else case utf8_width (c # s) of
            None \<Rightarrow> unicode_literal ''fffd'' @ escape s
          | Some n \<Rightarrow>
              (if take n (c # s) = [CHR 0xE2, CHR 0x80, CHR 0xA8] then unicode_literal ''2028''
               else if take n (c # s) = [CHR 0xE2, CHR 0x80, CHR 0xA9] then unicode_literal ''2029''
               else take n (c # s)) @ escape (drop (n - 1) s))"
  by pat_completeness auto
termination by (relation "measure length") auto

declare escape.simps [simp del]

definition marshal_string :: "string \<Rightarrow> string" where
  "marshal_string s = quote # escape s @ [quote]"

definition marshal_int :: "int \<Rightarrow> string" where
  "marshal_int n = format_int n"

definition marshal_object :: "(string \<times> string) list \<Rightarrow> string" where
  "marshal_object ms =
     ''{'' @ foldr (\<lambda>(k, v) r. marshal_string k @ '':'' @ v @ (if r = ''}'' then r else CHR '','' # r)) ms ''}''"

section \<open>Reading printed text\<close>

lemma parse_more_fuel_step:
  "(\<forall>s x. parse_value n s = Some x \<longrightarrow> parse_value (Suc n) s = Some x) \<and>
   (\<forall>s x. parse_elements n s = Some x \<longrightarrow> parse_elements (Suc n) s = Some x) \<and>
   (\<forall>s x. parse_members n s = Some x \<longrightarrow> parse_members (Suc n) s = Some x)"
proof (induction n)
  case 0
  show ?case by (simp add: parse_value.simps parse_elements.simps parse_members.simps)
next
  case (Suc n)
  then have V: "parse_value n s = Some v \<Longrightarrow> parse_value (Suc n) s = Some v"
    and E: "parse_elements n s = Some vs \<Longrightarrow> parse_elements (Suc n) s = Some vs"
    and M: "parse_members n s = Some ms \<Longrightarrow> parse_members (Suc n) s = Some ms" for s v vs ms
    by blast+
  have "parse_value (Suc (Suc n)) s = Some x" if prem: "parse_value (Suc n) s = Some x" for s x
  proof (cases "skip_space s")
    case Nil
    with prem show ?thesis by (simp add: parse_value.simps(2))
  next
    case (Cons c q)
    note s = Cons
    show ?thesis
    proof (cases "skip_space q")
      case Nil
      have "parse_value (Suc (Suc n)) s = parse_value (Suc n) s"
        by (simp only: parse_value.simps(2) [of n s] parse_value.simps(2) [of "Suc n" s] s Nil list.simps)
      then show ?thesis using prem by simp
    next
      case (Cons d p)
      note simps = parse_value.simps(2) [of n s] parse_value.simps(2) [of "Suc n" s] s Cons
      consider (obj) "c = CHR ''{''" "d \<noteq> CHR ''}''" | (arr) "c = CHR ''[''" "d \<noteq> CHR '']''"
        | (same) "\<not> (c = CHR ''{'' \<and> d \<noteq> CHR ''}'')" "\<not> (c = CHR ''['' \<and> d \<noteq> CHR '']'')" by blast
      then show ?thesis
      proof cases
        case obj
        with prem obtain y where "parse_members n (d # p) = Some y" "x = (JObject (fst y), snd y)"
          by (auto simp: simps)
        with obj show ?thesis by (simp add: simps M case_prod_beta)
      next
        case arr
        with prem obtain y where "parse_elements n (d # p) = Some y" "x = (JArray (fst y), snd y)"
          by (auto simp: simps)
        with arr show ?thesis by (simp add: simps E case_prod_beta)
      next
        case same
        then have "parse_value (Suc (Suc n)) s = parse_value (Suc n) s"
          by (cases "c = CHR ''{''"; cases "c = CHR ''[''") (simp_all only: simps list.simps if_True if_False simp_thms)
        with prem show ?thesis by simp
      qed
    qed
  qed
  moreover have "parse_elements (Suc (Suc n)) s = Some x" if prem: "parse_elements (Suc n) s = Some x" for s x
  proof -
    obtain v r where v: "parse_value n s = Some (v, r)"
      using prem by (auto simp: parse_elements.simps(2) [of n s] split: option.splits)
    note simps = parse_elements.simps(2) [of n s] parse_elements.simps(2) [of "Suc n" s] v V [OF v]
    show ?thesis
    proof (cases "skip_space r")
      case Nil
      with prem show ?thesis by (simp only: simps option.simps prod.case list.simps)
    next
      case (Cons c q)
      show ?thesis
      proof (cases "c = CHR '',''")
        case True
        with prem Cons obtain y where "parse_elements n q = Some y" "x = (v # fst y, snd y)"
          by (auto simp: simps)
        with True Cons show ?thesis by (simp add: simps E case_prod_beta)
      next
        case False
        with prem Cons show ?thesis by (simp add: simps split: if_splits)
      qed
    qed
  qed
  moreover have "parse_members (Suc (Suc n)) s = Some x" if prem: "parse_members (Suc n) s = Some x" for s x
  proof -
    obtain ms r where x: "x = (ms, r)" by (cases x)
    show ?thesis
      using prem unfolding x
    proof (rule parse_members_SucD)
      fix k r1 r2 r3 v raw e q
      assume steps: "skip_space s = quote # r1" "string_body r1 = Some (k, r2)"
        "skip_space r2 = CHR '':'' # r3" "parse_value n r3 = Some (v, q)"
        "raw = take (length (skip_space r3) - length q) (skip_space r3)"
        and end_: "skip_space q = e # r \<and> ms = [(k, raw, v)] \<or>
          (\<exists>p ms'. skip_space q = CHR '','' # p \<and> parse_members n p = Some (ms', r) \<and> ms = (k, raw, v) # ms')"
      note simps = parse_members.simps(2) [of "Suc n" s] steps(1-3) V [OF steps(4)] Let_def
      from end_ show "parse_members (Suc (Suc n)) s = Some (ms, r)"
      proof
        assume "skip_space q = e # r \<and> ms = [(k, raw, v)]"
        with prem [unfolded x] show ?thesis
          by (auto simp: simps parse_members.simps(2) [of n s] steps(4,5) intro: M split: if_splits)
      next
        assume "\<exists>p ms'. skip_space q = CHR '','' # p \<and> parse_members n p = Some (ms', r) \<and> ms = (k, raw, v) # ms'"
        then obtain p ms' where "skip_space q = CHR '','' # p" "parse_members (Suc n) p = Some (ms', r)" "ms = (k, raw, v) # ms'"
          using M by blast
        then show ?thesis by (simp add: simps steps(5))
      qed
    qed
  qed
  ultimately show ?case by blast
qed

lemma parse_more_fuel:
  assumes "n \<le> m"
  shows "parse_value n s = Some x \<Longrightarrow> parse_value m s = Some x"
    "parse_elements n s = Some y \<Longrightarrow> parse_elements m s = Some y"
    "parse_members n s = Some z \<Longrightarrow> parse_members m s = Some z"
proof -
  have "(parse_value n s = Some x \<longrightarrow> parse_value (n + k) s = Some x) \<and>
      (parse_elements n s = Some y \<longrightarrow> parse_elements (n + k) s = Some y) \<and>
      (parse_members n s = Some z \<longrightarrow> parse_members (n + k) s = Some z)" for k
  proof (induction k)
    case (Suc k)
    with parse_more_fuel_step [of "n + k"] show ?case by (metis add_Suc_right)
  qed simp
  from this [of "m - n"] assms show "parse_value n s = Some x \<Longrightarrow> parse_value m s = Some x"
    "parse_elements n s = Some y \<Longrightarrow> parse_elements m s = Some y"
    "parse_members n s = Some z \<Longrightarrow> parse_members m s = Some z" by simp_all
qed

text \<open>Any amount of fuel that gives a document will do.\<close>

lemma parse_json_intro:
  assumes "parse_value n s = Some (v, r)" "skip_space r = []"
  shows "parse_json s = Some v"
proof -
  have "parse_value (2 * length s + 1) s = Some (v, r)"
  proof (cases "n \<le> 2 * length s + 1")
    case True
    then show ?thesis using assms(1) by (rule parse_more_fuel)
  next
    case False
    then show ?thesis using assms(1) parse_value_fuel [of s n] by simp
  qed
  with assms(2) show ?thesis by (simp add: parse_json_def)
qed

text \<open>Characters that are printed as they are.\<close>

definition verbatim :: "char \<Rightarrow> bool" where
  "verbatim c \<longleftrightarrow> 32 \<le> code c \<and> code c < 128 \<and> c \<noteq> quote \<and> c \<noteq> backslash \<and> c \<notin> set ''<>&''"

lemma string_body_verbatim: "list_all verbatim t \<Longrightarrow> string_body (t @ quote # r) = Some (t, r)"
proof (induction t)
  case Nil
  show ?case by (simp add: string_body.simps)
next
  case (Cons c t)
  then show ?case by (simp add: string_body.simps(2) [of c] verbatim_def prepend_def)
qed

lemma escape_verbatim: "list_all verbatim t \<Longrightarrow> escape t = t"
proof (induction t)
  case (Cons c t)
  then have "short_escape c = None"
    by (auto simp: verbatim_def short_escape_def)
  with Cons show ?case by (simp add: escape.simps(2) [of c] verbatim_def)
qed (simp add: escape.simps)

lemma parse_verbatim:
  "list_all verbatim t \<Longrightarrow> parse_value (Suc n) (marshal_string t @ r) = Some (JString t, r)"
  by (simp add: marshal_string_def escape_verbatim parse_value.simps is_space_def quote_def string_body_verbatim [unfolded quote_def])

definition newline :: char where "newline = char_of (10 :: nat)"

lemma parse_value_space:
  "is_space c \<Longrightarrow> parse_value (Suc n) (c # s) = parse_value (Suc n) s"
  by (simp add: parse_value.simps)

lemma parse_value_skip: "parse_value (Suc n) (skip_space s) = parse_value (Suc n) s"
  by (simp add: parse_value.simps dropWhile_idem)

lemma parse_elements_skip: "parse_elements (Suc (Suc n)) (skip_space s) = parse_elements (Suc (Suc n)) s"
  by (simp add: parse_elements.simps parse_value_skip)

lemma space_chars [simp]: "is_space newline" "is_space CHR '' ''" "\<not> is_space quote" "\<not> is_space CHR '']''"
  "\<not> is_space CHR '',''" "\<not> is_space CHR '':''" "\<not> is_space CHR ''{''" "\<not> is_space CHR ''}''" "\<not> is_space CHR ''[''"
  by (simp_all add: is_space_def newline_def quote_def)

lemma parse_members_step:
  assumes "list_all verbatim k" "parse_value n s = Some (v, r)" "skip_space r = CHR '','' # q" "parse_members n q = Some (ms, t)"
  shows "\<exists>raw. parse_members (Suc n) (marshal_string k @ CHR '':'' # s) = Some ((k, raw, v) # ms, t)"
proof -
  have "skip_space (marshal_string k @ CHR '':'' # s) = quote # k @ quote # CHR '':'' # s"
    by (simp add: marshal_string_def escape_verbatim assms(1))
  then show ?thesis
    using assms by (simp add: parse_members.simps string_body_verbatim Let_def)
qed

lemma parse_members_last:
  assumes "list_all verbatim k" "parse_value n s = Some (v, r)" "skip_space r = CHR ''}'' # t"
  shows "\<exists>raw. parse_members (Suc n) (marshal_string k @ CHR '':'' # s) = Some ([(k, raw, v)], t)"
proof -
  have "skip_space (marshal_string k @ CHR '':'' # s) = quote # k @ quote # CHR '':'' # s"
    by (simp add: marshal_string_def escape_verbatim assms(1))
  then show ?thesis
    using assms by (simp add: parse_members.simps string_body_verbatim Let_def)
qed

lemma parse_members_space: "is_space c \<Longrightarrow> parse_members (Suc n) (c # s) = parse_members (Suc n) s"
  by (simp add: parse_members.simps)

end
