(* ===== verification/Commands.thy ===== *)
theory Commands
  imports Json
begin

text \<open>
  The remote commands of \<open>internal/protocol/remote.go\<close>: the closed set of command kinds, their
  parameters, the validation of requests, commands and results, and the strict decoding of each from
  text. A validation error is its stable code (\<open>CommandValidationError.Code\<close>, what
  \<open>CommandErrorCode\<close> returns).
\<close>

section \<open>Constants and types\<close>

definition CommandSchemaMajor :: int where "CommandSchemaMajor = 1"
definition MaxCommandBytes :: nat where "MaxCommandBytes = 8192"
definition MaxCommandTTL :: duration where "MaxCommandTTL = 5 * minute"
definition MaxCommandClockSkew :: duration where "MaxCommandClockSkew = 30 * second"
definition MinCommandDuration :: duration where "MinCommandDuration = 5 * second"
definition MaxCommandDuration :: duration where "MaxCommandDuration = 5 * minute"
definition DefaultCommandTTL :: duration where "DefaultCommandTTL = 30 * second"
definition DefaultPageDuration :: duration where "DefaultPageDuration = 30 * second"
definition DefaultMessageLength :: nat where "DefaultMessageLength = 116"
definition MaxConnectorIDs :: nat where "MaxConnectorIDs = 16"

lemmas command_limits = CommandSchemaMajor_def MaxCommandBytes_def MaxCommandTTL_def MaxCommandClockSkew_def
  MinCommandDuration_def MaxCommandDuration_def DefaultCommandTTL_def DefaultPageDuration_def
  DefaultMessageLength_def MaxConnectorIDs_def second_def minute_def

type_synonym CommandKind = string
type_synonym CommandPriority = string
type_synonym CommandStatus = string

abbreviation (input) "CommandShowPage \<equiv> ''show_page''"
abbreviation (input) "CommandNextPage \<equiv> ''next_page''"
abbreviation (input) "CommandPreviousPage \<equiv> ''previous_page''"
abbreviation (input) "CommandSetRotation \<equiv> ''set_rotation''"
abbreviation (input) "CommandRefreshData \<equiv> ''refresh_data''"
abbreviation (input) "CommandShowMessage \<equiv> ''show_message''"
abbreviation (input) "CommandSetBrightness \<equiv> ''set_brightness''"

definition CommandKind_valid :: "CommandKind \<Rightarrow> bool" where
  "CommandKind_valid kind \<longleftrightarrow>
     kind \<in> {CommandShowPage, CommandNextPage, CommandPreviousPage, CommandSetRotation,
             CommandRefreshData, CommandShowMessage, CommandSetBrightness}"

abbreviation (input) "PriorityNormal \<equiv> ''normal''"
abbreviation (input) "PriorityHigh \<equiv> ''high''"
abbreviation (input) "PriorityEmergency \<equiv> ''emergency''"

definition CommandPriority_valid :: "CommandPriority \<Rightarrow> bool" where
  "CommandPriority_valid p \<longleftrightarrow> p = PriorityNormal \<or> p = PriorityHigh \<or> p = PriorityEmergency"

definition defaultPriority :: "CommandKind \<Rightarrow> CommandPriority" where
  "defaultPriority kind = (if kind = CommandShowMessage then PriorityHigh else PriorityNormal)"

abbreviation (input) "CommandPublished \<equiv> ''published''"
abbreviation (input) "CommandAccepted \<equiv> ''accepted''"
abbreviation (input) "CommandExecuted \<equiv> ''executed''"
abbreviation (input) "CommandRejected \<equiv> ''rejected''"
abbreviation (input) "CommandExpired \<equiv> ''expired''"
abbreviation (input) "CommandFailed \<equiv> ''failed''"

definition Final :: "CommandStatus \<Rightarrow> bool" where
  "Final s \<longleftrightarrow> s = CommandExecuted \<or> s = CommandRejected \<or> s = CommandExpired \<or> s = CommandFailed"

lemma Final_statuses [simp]:
  "Final CommandExpired" "Final CommandFailed" "Final CommandExecuted" "Final CommandRejected"
  "\<not> Final CommandPublished" "\<not> Final CommandAccepted"
  by (simp_all add: Final_def)

record DisplayCommand =
  dc_SchemaMajor :: int
  dc_CommandID :: string
  dc_DeviceID :: string
  dc_Kind :: CommandKind
  dc_Params :: string              \<comment> \<open>\<open>json.RawMessage\<close>, empty when absent\<close>
  dc_IssuedAt :: instant
  dc_ExpiresAt :: instant
  dc_Priority :: CommandPriority
  dc_Sequence :: u64

record CommandRequest =
  cr_Kind :: CommandKind
  cr_Params :: string
  cr_Priority :: CommandPriority
  cr_TTLSeconds :: int

record CommandResult =
  rs_CommandID :: string
  rs_Sequence :: u64
  rs_Status :: CommandStatus
  rs_Code :: string
  rs_ReceivedAt :: instant
  rs_CompletedAt :: "instant option"
  rs_DurationMS :: int

record PageCommandParams =
  pp_PageID :: string
  pp_DurationSeconds :: int

record StepPageCommandParams =
  sp_DurationSeconds :: int

record RotationCommandParams =
  rp_Enabled :: bool
  rp_IntervalSeconds :: int
  rp_DurationSeconds :: int

record RefreshCommandParams =
  fp_ConnectorIDs :: "string list"

record MessageCommandParams =
  mp_Text :: string
  mp_Severity :: string
  mp_DurationSeconds :: int

record BrightnessCommandParams =
  bp_Level :: int

section \<open>Decoding\<close>

definition strictJSON :: "'r fields \<Rightarrow> 'r \<Rightarrow> string \<Rightarrow> 'r option" where
  "strictJSON = unmarshal True"

definition page_fields :: "PageCommandParams fields" where
  "page_fields =
     [(''page_id'', set_string (\<lambda>v r. r\<lparr>pp_PageID := v\<rparr>)),
      (''duration_seconds'', set_int (\<lambda>v r. r\<lparr>pp_DurationSeconds := v\<rparr>))]"

definition step_fields :: "StepPageCommandParams fields" where
  "step_fields = [(''duration_seconds'', set_int (\<lambda>v r. r\<lparr>sp_DurationSeconds := v\<rparr>))]"

definition rotation_fields :: "RotationCommandParams fields" where
  "rotation_fields =
     [(''enabled'', set_bool (\<lambda>v r. r\<lparr>rp_Enabled := v\<rparr>)),
      (''interval_seconds'', set_int (\<lambda>v r. r\<lparr>rp_IntervalSeconds := v\<rparr>)),
      (''duration_seconds'', set_int (\<lambda>v r. r\<lparr>rp_DurationSeconds := v\<rparr>))]"

definition refresh_fields :: "RefreshCommandParams fields" where
  "refresh_fields = [(''connector_ids'', set_strings (\<lambda>v r. r\<lparr>fp_ConnectorIDs := v\<rparr>))]"

definition message_fields :: "MessageCommandParams fields" where
  "message_fields =
     [(''text'', set_string (\<lambda>v r. r\<lparr>mp_Text := v\<rparr>)),
      (''severity'', set_string (\<lambda>v r. r\<lparr>mp_Severity := v\<rparr>)),
      (''duration_seconds'', set_int (\<lambda>v r. r\<lparr>mp_DurationSeconds := v\<rparr>))]"

definition brightness_fields :: "BrightnessCommandParams fields" where
  "brightness_fields = [(''level'', set_int (\<lambda>v r. r\<lparr>bp_Level := v\<rparr>))]"

definition request_fields :: "CommandRequest fields" where
  "request_fields =
     [(''kind'', set_string (\<lambda>v r. r\<lparr>cr_Kind := v\<rparr>)),
      (''params'', set_raw (\<lambda>v r. r\<lparr>cr_Params := v\<rparr>)),
      (''priority'', set_string (\<lambda>v r. r\<lparr>cr_Priority := v\<rparr>)),
      (''ttl_seconds'', set_int (\<lambda>v r. r\<lparr>cr_TTLSeconds := v\<rparr>))]"

definition command_fields :: "DisplayCommand fields" where
  "command_fields =
     [(''schema_major'', set_int (\<lambda>v r. r\<lparr>dc_SchemaMajor := v\<rparr>)),
      (''command_id'', set_string (\<lambda>v r. r\<lparr>dc_CommandID := v\<rparr>)),
      (''device_id'', set_string (\<lambda>v r. r\<lparr>dc_DeviceID := v\<rparr>)),
      (''kind'', set_string (\<lambda>v r. r\<lparr>dc_Kind := v\<rparr>)),
      (''params'', set_raw (\<lambda>v r. r\<lparr>dc_Params := v\<rparr>)),
      (''issued_at'', set_time (\<lambda>v r. r\<lparr>dc_IssuedAt := v\<rparr>)),
      (''expires_at'', set_time (\<lambda>v r. r\<lparr>dc_ExpiresAt := v\<rparr>)),
      (''priority'', set_string (\<lambda>v r. r\<lparr>dc_Priority := v\<rparr>)),
      (''sequence'', set_uint64 (\<lambda>v r. r\<lparr>dc_Sequence := v\<rparr>))]"

definition result_fields :: "CommandResult fields" where
  "result_fields =
     [(''command_id'', set_string (\<lambda>v r. r\<lparr>rs_CommandID := v\<rparr>)),
      (''sequence'', set_uint64 (\<lambda>v r. r\<lparr>rs_Sequence := v\<rparr>)),
      (''status'', set_string (\<lambda>v r. r\<lparr>rs_Status := v\<rparr>)),
      (''code'', set_string (\<lambda>v r. r\<lparr>rs_Code := v\<rparr>)),
      (''received_at'', set_time (\<lambda>v r. r\<lparr>rs_ReceivedAt := v\<rparr>)),
      (''completed_at'', set_time_ptr (\<lambda>v r. r\<lparr>rs_CompletedAt := v\<rparr>)),
      (''duration_ms'', set_int (\<lambda>v r. r\<lparr>rs_DurationMS := v\<rparr>))]"

text \<open>\<open>DecodeCommandParams\<close> at each of its six types.\<close>

definition decode_page :: "string \<Rightarrow> PageCommandParams option" where
  "decode_page = strictJSON page_fields \<lparr>pp_PageID = [], pp_DurationSeconds = 0\<rparr>"

definition decode_step :: "string \<Rightarrow> StepPageCommandParams option" where
  "decode_step = strictJSON step_fields \<lparr>sp_DurationSeconds = 0\<rparr>"

definition decode_rotation :: "string \<Rightarrow> RotationCommandParams option" where
  "decode_rotation =
     strictJSON rotation_fields \<lparr>rp_Enabled = False, rp_IntervalSeconds = 0, rp_DurationSeconds = 0\<rparr>"

definition decode_refresh :: "string \<Rightarrow> RefreshCommandParams option" where
  "decode_refresh = strictJSON refresh_fields \<lparr>fp_ConnectorIDs = []\<rparr>"

definition decode_message :: "string \<Rightarrow> MessageCommandParams option" where
  "decode_message = strictJSON message_fields \<lparr>mp_Text = [], mp_Severity = [], mp_DurationSeconds = 0\<rparr>"

definition decode_brightness :: "string \<Rightarrow> BrightnessCommandParams option" where
  "decode_brightness = strictJSON brightness_fields \<lparr>bp_Level = 0\<rparr>"

section \<open>Field checks\<close>

definition validDuration :: "int \<Rightarrow> bool" where
  "validDuration seconds \<longleftrightarrow>
     go_div MinCommandDuration second \<le> seconds \<and> seconds \<le> go_div MaxCommandDuration second"

definition validOptionalDuration :: "int \<Rightarrow> bool" where
  "validOptionalDuration seconds \<longleftrightarrow> seconds = 0 \<or> validDuration seconds"

definition validPage :: "string \<Rightarrow> bool" where
  "validPage value \<longleftrightarrow> to_upper value \<in> {''CODING'', ''API'', ''HOMELAB'', ''SERVICES'', ''SYSTEM''}"

definition validMessage :: "string \<Rightarrow> bool" where
  "validMessage value \<longleftrightarrow>
     value \<noteq> [] \<and> length value \<le> DefaultMessageLength \<and>
     (\<forall>c\<in>set value. \<not> (code c < 0x20 \<or> code c > 0x7e))"

definition safeCommandID :: "string \<Rightarrow> bool" where
  "safeCommandID value \<longleftrightarrow> value \<noteq> [] \<and> length value \<le> 64 \<and> list_all is_ident_char value"

definition is_hex_lower :: "char \<Rightarrow> bool" where
  "is_hex_lower c \<longleftrightarrow> is_digit c \<or> 97 \<le> code c \<and> code c \<le> 102"

definition validUUID :: "string \<Rightarrow> bool" where
  "validUUID value \<longleftrightarrow>
     length value = 36 \<and>
     (\<forall>i\<in>set [0..<36]. if i \<in> {8, 13, 18, 23} then value ! i = CHR ''-'' else is_hex_lower (value ! i)) \<and>
     value ! 14 = CHR ''4'' \<and> value ! 19 \<in> set ''89ab''"

section \<open>Validation\<close>

definition validateCommandParams :: "CommandKind \<Rightarrow> string \<Rightarrow> string option" where
  "validateCommandParams kind raw0 =
     (let raw = (if raw0 = [] then ''{}'' else raw0);
          trimmed = trim_space raw
      in if length trimmed < 2 \<or> hd trimmed \<noteq> CHR ''{'' \<or> last trimmed \<noteq> CHR ''}''
         then Some ''invalid_param''
         else err_if
           (if kind = CommandShowPage then
              (case decode_page raw of
                 None \<Rightarrow> True
               | Some p \<Rightarrow> \<not> validPage (pp_PageID p) \<or> \<not> validOptionalDuration (pp_DurationSeconds p))
            else if kind = CommandNextPage \<or> kind = CommandPreviousPage then
              (case decode_step raw of
                 None \<Rightarrow> True
               | Some p \<Rightarrow> \<not> validOptionalDuration (sp_DurationSeconds p))
            else if kind = CommandSetRotation then
              (case decode_rotation raw of
                 None \<Rightarrow> True
               | Some p \<Rightarrow> \<not> validOptionalDuration (rp_DurationSeconds p) \<or>
                           rp_IntervalSeconds p \<noteq> 0 \<and> \<not> validDuration (rp_IntervalSeconds p))
            else if kind = CommandRefreshData then
              (case decode_refresh raw of
                 None \<Rightarrow> True
               | Some p \<Rightarrow> length (fp_ConnectorIDs p) > MaxConnectorIDs \<or>
                           \<not> list_all safeCommandID (fp_ConnectorIDs p) \<or> \<not> distinct (fp_ConnectorIDs p))
            else if kind = CommandShowMessage then
              (case decode_message raw of
                 None \<Rightarrow> True
               | Some p \<Rightarrow> \<not> validOptionalDuration (mp_DurationSeconds p) \<or> \<not> validMessage (mp_Text p) \<or>
                           mp_Severity p \<notin> {''info'', ''warning'', ''critical''})
            else if kind = CommandSetBrightness then
              (case decode_brightness raw of
                 None \<Rightarrow> True
               | Some p \<Rightarrow> bp_Level p < 0 \<or> bp_Level p > 100)
            else False)
           ''invalid_param'')"

definition ValidateCommandRequest :: "CommandRequest \<Rightarrow> string option" where
  "ValidateCommandRequest request = first_err
     [err_if (\<not> CommandKind_valid (cr_Kind request)) ''unknown_command'',
      err_if (\<not> CommandPriority_valid (cr_Priority request)) ''invalid_priority'',
      err_if (cr_Priority request \<noteq> defaultPriority (cr_Kind request)) ''invalid_priority'',
      err_if (cr_TTLSeconds request < go_div MinCommandDuration second \<or>
              cr_TTLSeconds request > go_div MaxCommandTTL second) ''invalid_ttl'',
      validateCommandParams (cr_Kind request) (cr_Params request)]"

definition DisplayCommand_Validate :: "DisplayCommand \<Rightarrow> instant \<Rightarrow> string option" where
  "DisplayCommand_Validate command now = first_err
     [err_if (dc_SchemaMajor command \<noteq> CommandSchemaMajor) ''schema_unsupported'',
      err_if (\<not> validUUID (dc_CommandID command)) ''invalid_command_id'',
      err_if (\<not> safeCommandID (dc_DeviceID command)) ''wrong_target'',
      err_if (dc_Sequence command = 0) ''invalid_sequence'',
      err_if (\<not> CommandKind_valid (dc_Kind command)) ''unknown_command'',
      err_if (\<not> CommandPriority_valid (dc_Priority command)) ''invalid_priority'',
      err_if (dc_Priority command \<noteq> defaultPriority (dc_Kind command)) ''invalid_priority'',
      err_if (is_zero_time (dc_IssuedAt command) \<or> is_zero_time (dc_ExpiresAt command) \<or>
              \<not> dc_ExpiresAt command > dc_IssuedAt command \<or>
              time_sub (dc_ExpiresAt command) (dc_IssuedAt command) > MaxCommandTTL) ''invalid_time'',
      err_if (dc_IssuedAt command > now + MaxCommandClockSkew) ''issued_in_future'',
      err_if (\<not> now < dc_ExpiresAt command) ''expired'',
      validateCommandParams (dc_Kind command) (dc_Params command)]"

definition size_invalid :: "string \<Rightarrow> bool" where
  "size_invalid raw \<longleftrightarrow> length raw = 0 \<or> length raw > MaxCommandBytes"

definition zero_request :: CommandRequest where
  "zero_request = \<lparr>cr_Kind = [], cr_Params = [], cr_Priority = [], cr_TTLSeconds = 0\<rparr>"

definition DecodeCommandRequest :: "string \<Rightarrow> string + CommandRequest" where
  "DecodeCommandRequest raw =
     (if size_invalid raw then Inl ''invalid_size''
      else case strictJSON request_fields zero_request raw of
        None \<Rightarrow> Inl ''invalid_schema''
      | Some r0 \<Rightarrow>
          let r1 = (if cr_Priority r0 = [] then r0\<lparr>cr_Priority := defaultPriority (cr_Kind r0)\<rparr> else r0);
              r2 = (if cr_TTLSeconds r1 = 0 then r1\<lparr>cr_TTLSeconds := go_div DefaultCommandTTL second\<rparr> else r1)
          in (case ValidateCommandRequest r2 of Some e \<Rightarrow> Inl e | None \<Rightarrow> Inr r2))"

definition zero_command :: DisplayCommand where
  "zero_command = \<lparr>dc_SchemaMajor = 0, dc_CommandID = [], dc_DeviceID = [], dc_Kind = [], dc_Params = [],
     dc_IssuedAt = 0, dc_ExpiresAt = 0, dc_Priority = [], dc_Sequence = 0\<rparr>"

text \<open>An invalid but well-formed command is returned beside the error, so that it can be answered.\<close>

definition DecodeDisplayCommand :: "string \<Rightarrow> instant \<Rightarrow> DisplayCommand \<times> string option" where
  "DecodeDisplayCommand raw now =
     (if size_invalid raw then (zero_command, Some ''invalid_size'')
      else case strictJSON command_fields zero_command raw of
        None \<Rightarrow> (zero_command, Some ''invalid_schema'')
      | Some c \<Rightarrow> (c, DisplayCommand_Validate c now))"

definition zero_result :: CommandResult where
  "zero_result = \<lparr>rs_CommandID = [], rs_Sequence = 0, rs_Status = [], rs_Code = [], rs_ReceivedAt = 0,
     rs_CompletedAt = None, rs_DurationMS = 0\<rparr>"

definition result_checks :: "CommandResult \<Rightarrow> string option" where
  "result_checks r = first_err
     [err_if (\<not> validUUID (rs_CommandID r) \<or> rs_Sequence r = 0 \<or>
              rs_Status r \<noteq> CommandAccepted \<and> \<not> Final (rs_Status r) \<or> is_zero_time (rs_ReceivedAt r))
        ''invalid_result'',
      err_if (Final (rs_Status r) \<and> rs_CompletedAt r = None) ''invalid_result'',
      err_if (case rs_CompletedAt r of None \<Rightarrow> False | Some t \<Rightarrow> t < rs_ReceivedAt r) ''invalid_result'',
      err_if (rs_DurationMS r < 0 \<or> rs_DurationMS r > duration_ms MaxCommandDuration) ''invalid_result'',
      err_if (length (rs_Code r) > 64 \<or> rs_Code r \<noteq> [] \<and> \<not> safeCommandID (rs_Code r)) ''invalid_result'']"

definition DecodeCommandResult :: "string \<Rightarrow> string + CommandResult" where
  "DecodeCommandResult raw =
     (if size_invalid raw then Inl ''invalid_size''
      else case strictJSON result_fields zero_result raw of
        None \<Rightarrow> Inl ''invalid_schema''
      | Some r \<Rightarrow> (case result_checks r of Some e \<Rightarrow> Inl e | None \<Rightarrow> Inr r))"

section \<open>What an accepted command promises\<close>

definition printable_text :: "string \<Rightarrow> bool" where
  "printable_text s \<longleftrightarrow> (\<forall>c\<in>set s. is_printable c)"

definition seconds_ok :: "int \<Rightarrow> bool" where
  "seconds_ok n \<longleftrightarrow> n = 0 \<or> 5 \<le> n \<and> n \<le> 300"

definition params_text :: "DisplayCommand \<Rightarrow> string" where
  "params_text c = (if dc_Params c = [] then ''{}'' else dc_Params c)"

definition params_ok :: "CommandKind \<Rightarrow> string \<Rightarrow> bool" where
  "params_ok kind raw \<longleftrightarrow>
     (kind = CommandShowPage \<longrightarrow>
        (\<exists>p. decode_page raw = Some p \<and> validPage (pp_PageID p) \<and> seconds_ok (pp_DurationSeconds p))) \<and>
     (kind \<in> {CommandNextPage, CommandPreviousPage} \<longrightarrow>
        (\<exists>p. decode_step raw = Some p \<and> seconds_ok (sp_DurationSeconds p))) \<and>
     (kind = CommandSetRotation \<longrightarrow>
        (\<exists>p. decode_rotation raw = Some p \<and> seconds_ok (rp_IntervalSeconds p) \<and>
             seconds_ok (rp_DurationSeconds p))) \<and>
     (kind = CommandRefreshData \<longrightarrow>
        (\<exists>p. decode_refresh raw = Some p \<and> length (fp_ConnectorIDs p) \<le> 16 \<and> distinct (fp_ConnectorIDs p) \<and>
             list_all safeCommandID (fp_ConnectorIDs p))) \<and>
     (kind = CommandShowMessage \<longrightarrow>
        (\<exists>p. decode_message raw = Some p \<and> mp_Text p \<noteq> [] \<and> length (mp_Text p) \<le> 116 \<and>
             printable_text (mp_Text p) \<and> mp_Severity p \<in> {''info'', ''warning'', ''critical''} \<and>
             seconds_ok (mp_DurationSeconds p))) \<and>
     (kind = CommandSetBrightness \<longrightarrow>
        (\<exists>p. decode_brightness raw = Some p \<and> 0 \<le> bp_Level p \<and> bp_Level p \<le> 100))"

lemma validDuration_iff: "validDuration n \<longleftrightarrow> 5 \<le> n \<and> n \<le> 300"
  by (simp add: validDuration_def command_limits go_div_def)

lemma validOptionalDuration_iff: "validOptionalDuration n \<longleftrightarrow> seconds_ok n"
  by (simp add: validOptionalDuration_def validDuration_iff seconds_ok_def)

lemma validMessage_iff: "validMessage s \<longleftrightarrow> s \<noteq> [] \<and> length s \<le> 116 \<and> printable_text s"
  by (auto simp: validMessage_def printable_text_def is_printable_def DefaultMessageLength_def not_less)

lemma validateCommandParams_ok:
  assumes "validateCommandParams kind raw = None"
  shows "params_ok kind (if raw = [] then ''{}'' else raw)"
  using assms
  by (auto simp: validateCommandParams_def params_ok_def Let_def validOptionalDuration_iff validDuration_iff
      validMessage_iff seconds_ok_def MaxConnectorIDs_def split: if_splits option.splits)

lemma DisplayCommand_Validate_None:
  "DisplayCommand_Validate c now = None \<longleftrightarrow>
     dc_SchemaMajor c = 1 \<and> validUUID (dc_CommandID c) \<and> safeCommandID (dc_DeviceID c) \<and>
     dc_Sequence c \<noteq> 0 \<and> CommandKind_valid (dc_Kind c) \<and>
     dc_Priority c = defaultPriority (dc_Kind c) \<and> dc_IssuedAt c \<noteq> 0 \<and> dc_ExpiresAt c \<noteq> 0 \<and>
     dc_IssuedAt c < dc_ExpiresAt c \<and> dc_ExpiresAt c - dc_IssuedAt c \<le> 5 * minute \<and>
     dc_IssuedAt c \<le> now + 30 * second \<and> now < dc_ExpiresAt c \<and>
     validateCommandParams (dc_Kind c) (dc_Params c) = None"
proof -
  have "CommandPriority_valid (defaultPriority k)" for k
    by (simp add: CommandPriority_valid_def defaultPriority_def)
  moreover have "time_sub e i \<le> 5 * minute \<longleftrightarrow> e - i \<le> 5 * minute" for e i
    by (auto simp: time_sub_def minute_def)
  ultimately show ?thesis
    by (auto simp: DisplayCommand_Validate_def err_simps is_zero_time_def MaxCommandTTL_def
        MaxCommandClockSkew_def CommandSchemaMajor_def not_less)
qed

text \<open>
  C17. Whatever text arrives, a command the display accepts is one of the seven kinds, has at most
  five and a half minutes left to live, and its parameters are bounded: a message is 1 to 116
  printable characters, a page one of the five, a duration 0 or 5 to 300 seconds, a brightness 0 to
  100, a refresh at most 16 distinct identifiers.
\<close>

theorem accepted_command_bounded:
  assumes "DecodeDisplayCommand raw now = (c, None)"
  shows "length raw \<le> 8192 \<and> validUUID (dc_CommandID c) \<and> dc_Sequence c \<noteq> 0 \<and>
    CommandKind_valid (dc_Kind c) \<and> now < dc_ExpiresAt c \<and>
    dc_ExpiresAt c - now \<le> 5 * minute + 30 * second \<and> params_ok (dc_Kind c) (params_text c)"
proof -
  have size: "\<not> size_invalid raw" and valid: "DisplayCommand_Validate c now = None"
    using assms by (auto simp: DecodeDisplayCommand_def split: if_splits option.splits)
  have "params_ok (dc_Kind c) (params_text c)"
    using valid validateCommandParams_ok [of "dc_Kind c" "dc_Params c"]
    by (simp add: DisplayCommand_Validate_None params_text_def)
  with size valid show ?thesis
    by (auto simp: DisplayCommand_Validate_None size_invalid_def MaxCommandBytes_def)
qed

text \<open>A double quote written as a backquote, to keep JSON examples readable.\<close>

definition requote :: "string \<Rightarrow> string" where
  "requote = map (\<lambda>c. if c = CHR ''`'' then quote else c)"

definition example_command_text :: string where
  "example_command_text = requote
     (''{`schema_major`:1,`command_id`:`00000000-0000-4000-8000-000000000000`,`device_id`:`d`,'' @
      ''`kind`:`set_brightness`,`params`:{`level`:40},'' @
      ''`issued_at`:`0001-01-01T00:00:10Z`,`expires_at`:`0001-01-01T00:00:40Z`,'' @
      ''`priority`:`normal`,`sequence`:1}'')"

definition example_command :: DisplayCommand where
  "example_command = \<lparr>dc_SchemaMajor = 1, dc_CommandID = ''00000000-0000-4000-8000-000000000000'',
     dc_DeviceID = ''d'', dc_Kind = CommandSetBrightness, dc_Params = requote ''{`level`:40}'',
     dc_IssuedAt = 10 * second, dc_ExpiresAt = 40 * second, dc_Priority = PriorityNormal, dc_Sequence = 1\<rparr>"

lemma example_command_size: "\<not> size_invalid example_command_text"
  by (simp add: size_invalid_def example_command_text_def requote_def MaxCommandBytes_def)

lemma example_command_json: "parse_json example_command_text = Some (JObject
   [(''schema_major'', ''1'', JNumber ''1''),
    (''command_id'', requote ''`00000000-0000-4000-8000-000000000000`'',
       JString ''00000000-0000-4000-8000-000000000000''),
    (''device_id'', requote ''`d`'', JString ''d''),
    (''kind'', requote ''`set_brightness`'', JString ''set_brightness''),
    (''params'', requote ''{`level`:40}'', JObject [(''level'', ''40'', JNumber ''40'')]),
    (''issued_at'', requote ''`0001-01-01T00:00:10Z`'', JString ''0001-01-01T00:00:10Z''),
    (''expires_at'', requote ''`0001-01-01T00:00:40Z`'', JString ''0001-01-01T00:00:40Z''),
    (''priority'', requote ''`normal`'', JString ''normal''),
    (''sequence'', ''1'', JNumber ''1'')])"
  by code_simp

lemma example_command_times:
  "unquote_time (requote ''`0001-01-01T00:00:10Z`'') = Some 10000000000"
  "unquote_time (requote ''`0001-01-01T00:00:40Z`'') = Some 40000000000"
  by (simp_all add: unquote_time_def parse_rfc3339_def requote_def digits_at_def quote_def is_digit_def
      digits_value_def digit_value_def Let_def numeral_eq_Suc nth_Cons' zone_seconds_def month_lengths_def
      civil_seconds_def days_before_year_def second_def)

lemma example_command_decoded: "strictJSON command_fields zero_command example_command_text = Some example_command"
  by (simp add: strictJSON_def unmarshal_def example_command_json decode_struct_def find_field_def
      command_fields_def zero_command_def set_string_def set_int_def set_uint64_def set_time_def set_raw_def
      example_command_times example_command_def atoi_def is_digit_def digits_value_def digit_value_def
      in_int64_def Let_def second_def)

lemma example_command_params: "validateCommandParams CommandSetBrightness (requote ''{`level`:40}'') = None"
  by code_simp

lemma example_command_id: "validUUID ''00000000-0000-4000-8000-000000000000''"
  by code_simp

lemma example_command_valid: "DisplayCommand_Validate example_command (20 * second) = None"
  by (simp add: DisplayCommand_Validate_None example_command_def example_command_params example_command_id
      safeCommandID_def is_ident_char_def is_lower_def CommandKind_valid_def defaultPriority_def
      minute_def second_def)

theorem accepted_command_bounded_witness:
  "params_ok CommandSetBrightness (requote ''{`level`:40}'')"
proof -
  have "DecodeDisplayCommand example_command_text (20 * second) = (example_command, None)"
    by (simp add: DecodeDisplayCommand_def example_command_size example_command_decoded example_command_valid)
  then show ?thesis
    using accepted_command_bounded [of example_command_text "20 * second" example_command]
    by (simp add: example_command_def params_text_def requote_def)
qed

text \<open>
  The command schema is closed: a well-formed document with a member whose name is none of the
  command's fields (in any letter case) is refused as a whole.
\<close>

theorem unknown_command_field_refused:
  assumes "\<not> size_invalid raw" "parse_json raw = Some (JObject ms)" "(k, text, v) \<in> set ms"
    and "\<forall>f\<in>set command_fields. fold_name (fst f) \<noteq> fold_name k"
  shows "DecodeDisplayCommand raw now = (zero_command, Some ''invalid_schema'')"
  using assms decode_members_unknown [OF assms(3) find_field_None [OF assms(4)]]
  by (simp add: DecodeDisplayCommand_def strictJSON_def unmarshal_def decode_struct_def)

theorem unknown_command_field_refused_witness:
  "DecodeDisplayCommand (requote ''{`shell`:`reboot`}'') 7 = (zero_command, Some ''invalid_schema'')"
proof (rule unknown_command_field_refused)
  show "\<not> size_invalid (requote ''{`shell`:`reboot`}'')"
    by (simp add: size_invalid_def requote_def MaxCommandBytes_def)
  show "parse_json (requote ''{`shell`:`reboot`}'') =
      Some (JObject [(''shell'', requote ''`reboot`'', JString ''reboot'')])"
    by code_simp
  show "(''shell'', requote ''`reboot`'', JString ''reboot'') \<in>
      set [(''shell'', requote ''`reboot`'', JString ''reboot'')]"
    by simp
  have "list_all (\<lambda>n. fold_name n \<noteq> fold_name ''shell'') [''schema_major'', ''command_id'', ''device_id'',
      ''kind'', ''params'', ''issued_at'', ''expires_at'', ''priority'', ''sequence'']"
    by code_simp
  then show "\<forall>f\<in>set command_fields. fold_name (fst f) \<noteq> fold_name ''shell''"
    by (simp only: command_fields_def list.pred_inject list.set ball_simps fst_conv simp_thms)
qed

section \<open>Requests and results\<close>

lemma ValidateCommandRequest_None:
  "ValidateCommandRequest r = None \<longleftrightarrow>
     CommandKind_valid (cr_Kind r) \<and> cr_Priority r = defaultPriority (cr_Kind r) \<and>
     5 \<le> cr_TTLSeconds r \<and> cr_TTLSeconds r \<le> 300 \<and>
     validateCommandParams (cr_Kind r) (cr_Params r) = None"
proof -
  have "CommandPriority_valid (defaultPriority k)" for k
    by (simp add: CommandPriority_valid_def defaultPriority_def)
  then show ?thesis
    by (auto simp: ValidateCommandRequest_def err_simps command_limits go_div_def not_less)
qed

lemma DecodeCommandRequest_valid:
  "DecodeCommandRequest raw = Inr r \<Longrightarrow> ValidateCommandRequest r = None"
  by (auto simp: DecodeCommandRequest_def Let_def split: if_splits option.splits)

definition result_ok :: "CommandResult \<Rightarrow> bool" where
  "result_ok r \<longleftrightarrow>
     validUUID (rs_CommandID r) \<and> rs_Sequence r \<noteq> 0 \<and> (rs_Status r = CommandAccepted \<or> Final (rs_Status r)) \<and>
     rs_ReceivedAt r \<noteq> 0 \<and> (Final (rs_Status r) \<longrightarrow> rs_CompletedAt r \<noteq> None) \<and>
     (\<forall>t. rs_CompletedAt r = Some t \<longrightarrow> rs_ReceivedAt r \<le> t) \<and>
     0 \<le> rs_DurationMS r \<and> rs_DurationMS r \<le> 300000 \<and> (rs_Code r = [] \<or> safeCommandID (rs_Code r))"

lemma result_checks_None: "result_checks r = None \<longleftrightarrow> result_ok r"
proof -
  have id_length: "safeCommandID c \<Longrightarrow> length c \<le> 64" for c by (simp add: safeCommandID_def)
  have ms: "duration_ms MaxCommandDuration = 300000"
    by (simp add: duration_ms_def go_div_def command_limits millisecond_def)
  have code: "\<not> (length c > 64 \<or> c \<noteq> [] \<and> \<not> safeCommandID c) \<longleftrightarrow> c = [] \<or> safeCommandID c" for c
    using id_length [of c] by auto
  have completed: "\<not> (case x of None \<Rightarrow> False | Some t \<Rightarrow> t < rs_ReceivedAt r) \<longleftrightarrow>
      (\<forall>t. x = Some t \<longrightarrow> rs_ReceivedAt r \<le> t)" for x
    by (cases x) auto
  show ?thesis
    unfolding result_checks_def result_ok_def err_simps err_if_None code completed ms is_zero_time_def
    by (simp only: de_Morgan_conj de_Morgan_disj not_not not_less first_err.simps conj_assoc imp_conv_disj
        simp_thms)
qed

lemma DecodeCommandResult_ok: "DecodeCommandResult raw = Inr r \<Longrightarrow> result_ok r"
  by (auto simp: DecodeCommandResult_def result_checks_None [symmetric] split: if_splits option.splits)

end
