(* ===== verification/Redaction.thy ===== *)
theory Redaction
  imports Commands Complex_Main
begin

text \<open>
  The redaction audit (\<open>internal/protocol/redaction.go\<close>): a walk over a JSON document, as \<open>Unmarshal\<close>
  into \<open>any\<close> gives it, that reports every forbidden key and every string value holding a planted secret.
  Letters outside ASCII are compared as they are (see \<open>to_lower\<close>), so the needles are ASCII text.
\<close>

section \<open>Documents as Go values\<close>

datatype any =
    ANull
  | ABool bool
  | ANumber string
  | AString string
  | AArray "any list"
  | AObject "(string \<times> any) list"   \<comment> \<open>distinct keys in order\<close>

text \<open>Of the members with one key the last is kept.\<close>

fun last_wins :: "(string \<times> 'a) list \<Rightarrow> (string \<times> 'a) list" where
  "last_wins [] = []"
| "last_wins ((k, v) # ms) = (if k \<in> fst ` set ms then last_wins ms else (k, v) # last_wins ms)"

fun to_any :: "json \<Rightarrow> any" where
  "to_any JNull = ANull"
| "to_any (JBool b) = ABool b"
| "to_any (JNumber t) = ANumber t"
| "to_any (JString s) = AString s"
| "to_any (JArray vs) = AArray (map to_any vs)"
| "to_any (JObject ms) = AObject (sort_key fst (last_wins (map (\<lambda>m. (fst m, to_any (snd (snd m)))) ms)))"

text \<open>The value of a number literal, and whether it is out of the range of \<open>float64\<close>, which is an error.\<close>

definition literal_value :: "string \<Rightarrow> rat" where
  "literal_value t =
     (let neg = (t \<noteq> [] \<and> hd t = CHR ''-'');
          u = (if neg then tl t else t);
          whole = takeWhile is_digit u;
          r = dropWhile is_digit u;
          frac = (if r \<noteq> [] \<and> hd r = CHR ''.'' then takeWhile is_digit (tl r) else []);
          e = dropWhile (\<lambda>c. c \<notin> set ''eE'') r;
          ex = (if e = [] then 0
                else let x = tl e; ds = int (digits_value (dropWhile (\<lambda>c. c \<in> set ''+-'') x))
                     in if x \<noteq> [] \<and> hd x = CHR ''-'' then - ds else ds);
          m = of_nat (digits_value (whole @ frac)) :: rat;
          p = ex - int (length frac);
          v = (if p \<ge> 0 then m * 10 ^ nat p else m / 10 ^ nat (- p))
      in if neg then - v else v)"

definition float_range :: "string \<Rightarrow> bool" where
  "float_range t \<longleftrightarrow> \<bar>literal_value t\<bar> < of_int ((2 ^ 54 - 1) * 2 ^ 970)"

fun numbers_fit :: "json \<Rightarrow> bool" where
  "numbers_fit (JNumber t) = float_range t"
| "numbers_fit (JArray vs) = list_all numbers_fit vs"
| "numbers_fit (JObject ms) = list_all (\<lambda>m. numbers_fit (snd (snd m))) ms"
| "numbers_fit _ = True"

definition unmarshal_any :: "string \<Rightarrow> any option" where
  "unmarshal_any raw =
     (case parse_json raw of None \<Rightarrow> None | Some v \<Rightarrow> if numbers_fit v then Some (to_any v) else None)"

section \<open>The audit\<close>

definition forbiddenKeys :: "string list" where
  "forbiddenKeys =
     [''access_token'', ''api_key'', ''apikey'', ''authorization'', ''auth_json'', ''bearer'', ''client_secret'',
      ''cookie'', ''credential'', ''id_token'', ''password'', ''private_key'', ''raw_response'', ''refresh_token'',
      ''secret'', ''session'', ''set-cookie'', ''token'']"

definition isForbiddenKey :: "string \<Rightarrow> bool" where
  "isForbiddenKey key \<longleftrightarrow> to_lower key \<in> set forbiddenKeys"

definition index_path :: "string \<Rightarrow> nat \<Rightarrow> string" where
  "index_path path i = path @ ''['' @ nat_digits i @ '']''"

definition key_path :: "string \<Rightarrow> string \<Rightarrow> string" where
  "key_path path k = path @ ''.'' @ k"

fun walkJSON :: "string list \<Rightarrow> string \<Rightarrow> any \<Rightarrow> string list"
  and walk_members :: "string list \<Rightarrow> string \<Rightarrow> (string \<times> any) list \<Rightarrow> string list"
  and walk_items :: "string list \<Rightarrow> string \<Rightarrow> nat \<Rightarrow> any list \<Rightarrow> string list"
where
  "walkJSON needles path (AObject ms) = walk_members needles path ms"
| "walkJSON needles path (AArray vs) = walk_items needles path 0 vs"
| "walkJSON needles path (AString s) =
     (if list_ex (\<lambda>n. contains (to_lower s) n) needles then [''secret value at '' @ path] else [])"
| "walkJSON needles path _ = []"
| "walk_members needles path [] = []"
| "walk_members needles path ((k, v) # ms) =
     (if isForbiddenKey k then [''forbidden key at '' @ key_path path k] else []) @
     walkJSON needles (key_path path k) v @ walk_members needles path ms"
| "walk_items needles path i [] = []"
| "walk_items needles path i (v # vs) =
     walkJSON needles (index_path path i) v @ walk_items needles path (Suc i) vs"

text \<open>\<open>None\<close> is the one line that says the text is not valid JSON.\<close>

definition AuditJSON :: "string \<Rightarrow> string list \<Rightarrow> string list option" where
  "AuditJSON raw needles =
     (case unmarshal_any raw of
        None \<Rightarrow> None
      | Some doc \<Rightarrow> Some (sort (walkJSON (map to_lower (filter (\<lambda>n. n \<noteq> []) needles)) ''$'' doc)))"

section \<open>What the audit finds\<close>

text \<open>The nodes of a document with the path that names them.\<close>

inductive located :: "string \<Rightarrow> any \<Rightarrow> string \<Rightarrow> any \<Rightarrow> bool" for path doc where
  here: "located path doc path doc"
| item: "located path doc p (AArray vs) \<Longrightarrow> i < length vs \<Longrightarrow> located path doc (index_path p i) (vs ! i)"
| member: "located path doc p (AObject ms) \<Longrightarrow> (k, v) \<in> set ms \<Longrightarrow> located path doc (key_path p k) v"

text \<open>The violation a node is by itself, and the violations at and below a node.\<close>

definition own_violation :: "string list \<Rightarrow> string \<Rightarrow> any \<Rightarrow> string \<Rightarrow> bool" where
  "own_violation needles p w h \<longleftrightarrow>
     (case w of
        AObject ms \<Rightarrow> \<exists>k\<in>fst ` set ms. isForbiddenKey k \<and> h = ''forbidden key at '' @ key_path p k
      | AString s \<Rightarrow> h = ''secret value at '' @ p \<and> (\<exists>n\<in>set needles. contains (to_lower s) n)
      | _ \<Rightarrow> False)"

definition violation :: "string list \<Rightarrow> string \<Rightarrow> any \<Rightarrow> string \<Rightarrow> bool" where
  "violation needles path doc h \<longleftrightarrow> (\<exists>p w. located path doc p w \<and> own_violation needles p w h)"

lemma located_trans: "located q v p w \<Longrightarrow> located path doc q v \<Longrightarrow> located path doc p w"
  by (induction rule: located.induct) (auto intro: located.intros)

lemma located_cases:
  assumes "located path doc p w"
  shows "(p = path \<and> w = doc) \<or>
    (\<exists>vs i. doc = AArray vs \<and> i < length vs \<and> located (index_path path i) (vs ! i) p w) \<or>
    (\<exists>ms k v. doc = AObject ms \<and> (k, v) \<in> set ms \<and> located (key_path path k) v p w)"
  using assms
proof (induction rule: located.induct)
  case (item p vs i)
  then show ?case by (blast intro: located.intros)
next
  case (member p ms k v)
  then show ?case by (blast intro: located.intros)
qed simp

lemma located_array:
  "located path (AArray vs) p w \<longleftrightarrow>
     (p = path \<and> w = AArray vs) \<or> (\<exists>i < length vs. located (index_path path i) (vs ! i) p w)"
proof
  assume "(p = path \<and> w = AArray vs) \<or> (\<exists>i < length vs. located (index_path path i) (vs ! i) p w)"
  then show "located path (AArray vs) p w"
    using located_trans [OF _ located.item [OF located.here]] by (auto intro: located.here)
qed (use located_cases [of path "AArray vs" p w] in auto)

lemma located_object:
  "located path (AObject ms) p w \<longleftrightarrow>
     (p = path \<and> w = AObject ms) \<or> (\<exists>(k, v)\<in>set ms. located (key_path path k) v p w)"
proof
  assume "(p = path \<and> w = AObject ms) \<or> (\<exists>(k, v)\<in>set ms. located (key_path path k) v p w)"
  then show "located path (AObject ms) p w"
    using located_trans [OF _ located.member [OF located.here]] by (auto intro: located.here)
qed (use located_cases [of path "AObject ms" p w] in auto)

lemma violation_array:
  "violation needles path (AArray vs) h \<longleftrightarrow> (\<exists>i < length vs. violation needles (index_path path i) (vs ! i) h)"
proof -
  have "\<not> own_violation needles path (AArray vs) h" by (simp add: own_violation_def)
  then show ?thesis unfolding violation_def located_array by blast
qed

lemma violation_object:
  "violation needles path (AObject ms) h \<longleftrightarrow>
     (\<exists>(k, v)\<in>set ms. isForbiddenKey k \<and> h = ''forbidden key at '' @ key_path path k \<or>
        violation needles (key_path path k) v h)"
proof -
  have "own_violation needles path (AObject ms) h \<longleftrightarrow>
      (\<exists>(k, v)\<in>set ms. isForbiddenKey k \<and> h = ''forbidden key at '' @ key_path path k)"
    by (force simp: own_violation_def)
  then show ?thesis unfolding violation_def located_object by blast
qed

lemma violation_leaf:
  "violation needles path (AString s) h \<longleftrightarrow>
     h = ''secret value at '' @ path \<and> list_ex (\<lambda>n. contains (to_lower s) n) needles"
  "\<not> violation needles path ANull h" "\<not> violation needles path (ABool b) h" "\<not> violation needles path (ANumber t) h"
proof -
  have leaf: "located path doc p w \<longleftrightarrow> p = path \<and> w = doc"
    if "\<forall>vs. doc \<noteq> AArray vs" "\<forall>ms. doc \<noteq> AObject ms" for doc p w
    using located_cases [of path doc p w] that by (auto intro: located.here)
  show "violation needles path (AString s) h \<longleftrightarrow>
     h = ''secret value at '' @ path \<and> list_ex (\<lambda>n. contains (to_lower s) n) needles"
    "\<not> violation needles path ANull h" "\<not> violation needles path (ABool b) h" "\<not> violation needles path (ANumber t) h"
    by (simp_all add: violation_def leaf own_violation_def list_ex_iff)
qed

lemma violation_items:
  "(\<exists>j < Suc (length vs). violation needles (index_path path (i + j)) ((v # vs) ! j) h) \<longleftrightarrow>
     violation needles (index_path path i) v h \<or>
     (\<exists>j < length vs. violation needles (index_path path (Suc (i + j))) (vs ! j) h)"
  by (simp add: Ex_less_Suc2)

lemma walk_finds:
  "h \<in> set (walkJSON needles path doc) \<longleftrightarrow> violation needles path doc h"
  "h \<in> set (walk_members needles path ms) \<longleftrightarrow>
     (\<exists>(k, v)\<in>set ms. isForbiddenKey k \<and> h = ''forbidden key at '' @ key_path path k \<or>
        violation needles (key_path path k) v h)"
  "h \<in> set (walk_items needles path i vs) \<longleftrightarrow> (\<exists>j < length vs. violation needles (index_path path (i + j)) (vs ! j) h)"
  by (induction needles path doc and needles path ms and needles path i vs
      rule: walkJSON_walk_members_walk_items.induct)
    (auto simp: violation_array violation_object violation_leaf violation_items)

text \<open>
  C29. The audit is complete and sound: it reports, in order, exactly the forbidden keys of the document
  and the string values that hold a needle (letter case aside), each by its path. A report names the
  place, so no text of a string value gets into it.
\<close>

theorem audit_exact:
  assumes "AuditJSON raw needles = Some hits"
  shows "sorted hits \<and>
    (\<exists>doc. unmarshal_any raw = Some doc \<and>
       (\<forall>h. h \<in> set hits \<longleftrightarrow> violation (map to_lower (filter (\<lambda>n. n \<noteq> []) needles)) ''$'' doc h))"
  using assms by (auto simp: AuditJSON_def walk_finds split: option.splits)

definition example_audit_text :: string where
  "example_audit_text = requote ''{`b`:[1,`xSK-1x`],`Token`:0,`b`:[`ok`,`sk-1`]}''"

lemma example_audit_json: "parse_json example_audit_text = Some (JObject
    [(''b'', requote ''[1,`xSK-1x`]'', JArray [JNumber ''1'', JString ''xSK-1x'']), (''Token'', ''0'', JNumber ''0''),
     (''b'', requote ''[`ok`,`sk-1`]'', JArray [JString ''ok'', JString ''sk-1''])])"
  by code_simp

lemma float_range_small:
  assumes "\<bar>literal_value t\<bar> < 10"
  shows "float_range t"
proof -
  have "1 \<le> (2 :: int) ^ 970" by (rule one_le_power) simp
  then have "10 * 1 \<le> ((2 ^ 54 - 1) * 2 ^ 970 :: int)" by (intro mult_mono) simp_all
  then have A: "(of_int (10 * 1) :: rat) \<le> of_int ((2 ^ 54 - 1) * 2 ^ 970)" by (rule of_int_le_iff [THEN iffD2])
  have B: "(of_int (10 * 1) :: rat) = 10" by simp
  have "10 \<le> (of_int ((2 ^ 54 - 1) * 2 ^ 970) :: rat)" by (subst B [symmetric]) (rule A)
  with assms show ?thesis unfolding float_range_def by (rule less_le_trans)
qed

lemma example_audit: "AuditJSON example_audit_text [[], ''sk-1''] = Some [''forbidden key at $.Token'', ''secret value at $.b[1]'']"
proof -
  have "float_range ''0''" "float_range ''1''"
    by (rule float_range_small, simp add: literal_value_def is_digit_def digits_value_def digit_value_def)+
  moreover have "sort_key fst [(''Token'', ANumber ''0''), (''b'', v)] = [(''Token'', ANumber ''0''), (''b'', v)]" for v
    by simp
  ultimately have "unmarshal_any example_audit_text =
      Some (AObject [(''Token'', ANumber ''0''), (''b'', AArray [AString ''ok'', AString ''sk-1''])])"
    by (simp add: unmarshal_any_def example_audit_json)
  moreover have "isForbiddenKey ''Token''" "\<not> isForbiddenKey ''b''" "to_lower ''sk-1'' = ''sk-1''" "to_lower ''ok'' = ''ok''"
    "contains ''sk-1'' ''sk-1''" "\<not> contains ''ok'' ''sk-1''" "index_path (key_path ''$'' ''b'') 1 = ''$.b[1]''"
    by code_simp+
  ultimately show ?thesis by (simp add: AuditJSON_def key_path_def)
qed

theorem audit_exact_witness:
  "violation [''sk-1''] ''$'' (the (unmarshal_any example_audit_text)) ''secret value at $.b[1]''"
proof -
  have "map to_lower (filter (\<lambda>n. n \<noteq> []) [[], ''sk-1'']) = [''sk-1'']" by code_simp
  then have "\<exists>doc. unmarshal_any example_audit_text = Some doc \<and>
      (\<forall>h. h \<in> set [''forbidden key at $.Token'', ''secret value at $.b[1]''] \<longleftrightarrow> violation [''sk-1''] ''$'' doc h)"
    using audit_exact [OF example_audit] by (simp only:)
  then obtain doc where d: "unmarshal_any example_audit_text = Some doc"
    "\<forall>h. h \<in> set [''forbidden key at $.Token'', ''secret value at $.b[1]''] \<longleftrightarrow> violation [''sk-1''] ''$'' doc h"
    by blast
  have "''secret value at $.b[1]'' \<in> set [''forbidden key at $.Token'', ''secret value at $.b[1]'']"
    by (simp only: list.set insert_iff simp_thms)
  with d(2) have "violation [''sk-1''] ''$'' doc ''secret value at $.b[1]''" by blast
  then show ?thesis by (simp only: d(1) option.sel)
qed

end
