(* ===== verification/Sha256.thy ===== *)
theory Sha256
  imports GoText
begin

text \<open>
  \<open>crypto/sha256.Sum256\<close> and \<open>encoding/hex.EncodeToString\<close>, which the daemon uses to audit messages
  without keeping them and to store device tokens as digests: padding to blocks of 64 bytes, the
  message schedule, and 64 rounds on eight 32-bit words.
\<close>

unbundle bit_operations_syntax

type_synonym w32 = "32 word"

text \<open>Round constants and initial state, written in decimal.\<close>

definition sha_k :: "w32 list" where
  "sha_k =
    [1116352408, 1899447441, 3049323471, 3921009573, 961987163, 1508970993, 2453635748, 2870763221,
     3624381080, 310598401, 607225278, 1426881987, 1925078388, 2162078206, 2614888103, 3248222580,
     3835390401, 4022224774, 264347078, 604807628, 770255983, 1249150122, 1555081692, 1996064986,
     2554220882, 2821834349, 2952996808, 3210313671, 3336571891, 3584528711, 113926993, 338241895,
     666307205, 773529912, 1294757372, 1396182291, 1695183700, 1986661051, 2177026350, 2456956037,
     2730485921, 2820302411, 3259730800, 3345764771, 3516065817, 3600352804, 4094571909, 275423344,
     430227734, 506948616, 659060556, 883997877, 958139571, 1322822218, 1537002063, 1747873779,
     1955562222, 2024104815, 2227730452, 2361852424, 2428436474, 2756734187, 3204031479, 3329325298]"

definition sha_init :: "w32 list" where
  "sha_init =
    [1779033703, 3144134277, 1013904242, 2773480762, 1359893119, 2600822924, 528734635, 1541459225]"

definition rotr :: "nat \<Rightarrow> w32 \<Rightarrow> w32" where
  "rotr n x = drop_bit n x OR push_bit (32 - n) x"

definition sigma0 :: "w32 \<Rightarrow> w32" where
  "sigma0 x = rotr 7 x XOR rotr 18 x XOR drop_bit 3 x"

definition sigma1 :: "w32 \<Rightarrow> w32" where
  "sigma1 x = rotr 17 x XOR rotr 19 x XOR drop_bit 10 x"

definition big_sigma0 :: "w32 \<Rightarrow> w32" where
  "big_sigma0 x = rotr 2 x XOR rotr 13 x XOR rotr 22 x"

definition big_sigma1 :: "w32 \<Rightarrow> w32" where
  "big_sigma1 x = rotr 6 x XOR rotr 11 x XOR rotr 25 x"

text \<open>The padded message: a one bit, zeros, and the length in bits as 8 bytes, big-endian.\<close>

definition big_endian :: "nat \<Rightarrow> nat \<Rightarrow> nat list" where
  "big_endian k n = map (\<lambda>i. n div 256 ^ (k - 1 - i) mod 256) [0..<k]"

definition sha_pad :: "string \<Rightarrow> nat list" where
  "sha_pad s =
     map code s @ [128] @ replicate ((119 - length s mod 64) mod 64) 0 @
     big_endian 8 (8 * length s mod 2 ^ 64)"

fun sha_words :: "nat list \<Rightarrow> w32 list" where
  "sha_words (a # b # c # d # r) = of_nat (((a * 256 + b) * 256 + c) * 256 + d) # sha_words r"
| "sha_words _ = []"

text \<open>The schedule, kept newest first while it grows from 16 to 64 words.\<close>

fun schedule :: "nat \<Rightarrow> w32 list \<Rightarrow> w32 list" where
  "schedule 0 ws = ws"
| "schedule (Suc n) ws =
     schedule n ((sigma1 (ws ! 1) + ws ! 6 + sigma0 (ws ! 14) + ws ! 15) # ws)"

fun sha_round :: "w32 list \<Rightarrow> w32 \<times> w32 \<Rightarrow> w32 list" where
  "sha_round [a, b, c, d, e, f, g, h] (k, w) =
     (let t1 = h + big_sigma1 e + ((e AND f) XOR (NOT e AND g)) + k + w;
          t2 = big_sigma0 a + ((a AND b) XOR (a AND c) XOR (b AND c))
      in [t1 + t2, a, b, c, d + t1, e, f, g])"
| "sha_round st _ = st"

definition sha_block :: "w32 list \<Rightarrow> w32 list \<Rightarrow> w32 list" where
  "sha_block st ws =
     map2 (+) st (foldl sha_round st (zip sha_k (rev (schedule 48 (rev ws)))))"

fun sha_blocks :: "nat \<Rightarrow> w32 list \<Rightarrow> w32 list \<Rightarrow> w32 list" where
  "sha_blocks 0 st ws = st"
| "sha_blocks (Suc n) st ws = sha_blocks n (sha_block st (take 16 ws)) (drop 16 ws)"

definition Sum256 :: "string \<Rightarrow> nat list" where
  "Sum256 s =
     concat (map (\<lambda>w. big_endian 4 (unat w))
       (sha_blocks (length (sha_pad s) div 64) sha_init (sha_words (sha_pad s))))"

definition hex_digit :: "nat \<Rightarrow> char" where
  "hex_digit n = char_of (if n < 10 then 48 + n else 87 + n)"

definition hex_encode :: "nat list \<Rightarrow> string" where
  "hex_encode bs = concat (map (\<lambda>b. [hex_digit (b div 16), hex_digit (b mod 16)]) bs)"

definition sha256_hex :: "string \<Rightarrow> string" where
  "sha256_hex s = hex_encode (Sum256 s)"

section \<open>The shape of a digest\<close>

definition is_hex_char :: "char \<Rightarrow> bool" where
  "is_hex_char c \<longleftrightarrow> is_digit c \<or> 97 \<le> code c \<and> code c \<le> 102"

lemma hex_digit_hex: "n < 16 \<Longrightarrow> is_hex_char (hex_digit n)"
  by (auto simp: hex_digit_def is_hex_char_def is_digit_def)

lemma length_hex_encode [simp]: "length (hex_encode bs) = 2 * length bs"
  by (induction bs) (simp_all add: hex_encode_def)

lemma hex_encode_hex: "\<forall>b\<in>set bs. b < 256 \<Longrightarrow> list_all is_hex_char (hex_encode bs)"
  by (induction bs) (simp_all add: hex_encode_def hex_digit_hex less_mult_imp_div_less)

lemma big_endian_bytes: "\<forall>b\<in>set (big_endian k n). b < 256"
  by (auto simp: big_endian_def)

lemma length_big_endian [simp]: "length (big_endian k n) = k"
  by (simp add: big_endian_def)

lemma sha_round_length: "length st = 8 \<Longrightarrow> length (sha_round st kw) = 8"
  by (cases "(st, kw)" rule: sha_round.cases) (simp_all add: Let_def)

lemma sha_block_length: "length st = 8 \<Longrightarrow> length (sha_block st ws) = 8"
proof -
  have "length st = 8 \<Longrightarrow> length (foldl sha_round st kws) = 8" for st kws
    by (induction kws arbitrary: st) (simp_all add: sha_round_length)
  then show "length st = 8 \<Longrightarrow> length (sha_block st ws) = 8" by (simp add: sha_block_def)
qed

lemma sha_blocks_length: "length st = 8 \<Longrightarrow> length (sha_blocks n st ws) = 8"
  by (induction n st ws rule: sha_blocks.induct) (simp_all add: sha_block_length)

lemma length_Sum256: "length (Sum256 s) = 32"
proof -
  have "length (concat (map (\<lambda>w. big_endian 4 (unat w)) ws)) = 4 * length ws" for ws :: "w32 list"
    by (induction ws) simp_all
  then show ?thesis by (simp add: Sum256_def sha_blocks_length sha_init_def)
qed

lemma Sum256_bytes: "\<forall>b\<in>set (Sum256 s). b < 256"
  using big_endian_bytes by (auto simp: Sum256_def)

lemma sha256_hex_shape: "length (sha256_hex s) = 64 \<and> list_all is_hex_char (sha256_hex s)"
  by (simp add: sha256_hex_def length_Sum256 hex_encode_hex Sum256_bytes)

end
