(* ===== verification/AtomicFile.thy ===== *)
theory AtomicFile
  imports Prelude
begin

text \<open>
  How the daemon and the display replace a file: the new content goes to a temporary file beside it,
  which is renamed over the old one as the last step (\<open>persistLocked\<close> of the command queue and of the
  ledger, \<open>Save\<close> of the revocation list and of the snapshot store). Each system call may fail; the code then
  removes the temporary file and reports the error. The temporary file has content of its own: it is blank
  when created, gets the new content from the write, and what it holds at that moment is what the rename
  makes visible. Whether the content has been brought to the disk by \<open>fsync\<close> is part of the state.
\<close>

section \<open>Steps\<close>

datatype fs_step = CreateTemp | ChmodTemp | WriteTemp | SyncTemp | CloseTemp | RenameTemp | RemoveTemp

record 'v disk =
  dk_file :: "'v option"    \<comment> \<open>the content of the file under its name\<close>
  dk_durable :: bool        \<comment> \<open>the content was flushed to the disk (fsync) before it got its name\<close>
  dk_temps :: nat           \<comment> \<open>temporary files left behind\<close>

record 'v temp =
  tp_content :: 'v
  tp_synced :: bool

text \<open>
  \<open>works\<close> says which calls succeed, \<open>blank\<close> is the content of a new file. A failed creation leaves nothing to
  clean up; after any other failure the temporary file is removed, and left behind only if that fails too. A
  write that fails may have written a part, which goes with the temporary file. A rename without a temporary
  file fails.
\<close>

definition abandon :: "(fs_step \<Rightarrow> bool) \<Rightarrow> 'v temp option \<Rightarrow> 'v disk \<Rightarrow> 'v disk" where
  "abandon works temp d = (if temp = None \<or> works RemoveTemp then d else d\<lparr>dk_temps := dk_temps d + 1\<rparr>)"

fun run_steps :: "(fs_step \<Rightarrow> bool) \<Rightarrow> fs_step list \<Rightarrow> 'v \<Rightarrow> 'v \<Rightarrow> 'v temp option \<Rightarrow> 'v disk \<Rightarrow> bool \<times> 'v disk" where
  "run_steps works [] blank v temp d = (True, d)"
| "run_steps works (st # steps) blank v temp d =
     (if \<not> works st then (False, abandon works temp d)
      else case st of
          CreateTemp \<Rightarrow> run_steps works steps blank v (Some \<lparr>tp_content = blank, tp_synced = False\<rparr>) d
        | WriteTemp \<Rightarrow>
            run_steps works steps blank v (map_option (\<lambda>_. \<lparr>tp_content = v, tp_synced = False\<rparr>) temp) d
        | SyncTemp \<Rightarrow> run_steps works steps blank v (map_option (\<lambda>t. t\<lparr>tp_synced := True\<rparr>) temp) d
        | RenameTemp \<Rightarrow>
            (case temp of
               None \<Rightarrow> (False, d)
             | Some t \<Rightarrow>
                 run_steps works steps blank v None (d\<lparr>dk_file := Some (tp_content t), dk_durable := tp_synced t\<rparr>))
        | RemoveTemp \<Rightarrow> run_steps works steps blank v None d
        | _ \<Rightarrow> run_steps works steps blank v temp d)"

definition write_steps :: "(fs_step \<Rightarrow> bool) \<Rightarrow> fs_step list \<Rightarrow> 'v \<Rightarrow> 'v \<Rightarrow> 'v disk \<Rightarrow> bool \<times> 'v disk" where
  "write_steps works steps blank v d = run_steps works steps blank v None d"

section \<open>Replacing a file is atomic\<close>

text \<open>
  The sequences the code uses differ in permissions and \<open>fsync\<close>. All create first, write the content once and
  rename last; that makes the replacement atomic, and it is durable when an \<open>fsync\<close> stands behind the write.
\<close>

locale atomic_replacement =
  fixes steps :: "fs_step list" and before_write :: "fs_step list" and after_write :: "fs_step list"
  assumes shape: "steps = CreateTemp # before_write @ WriteTemp # after_write @ [RenameTemp]"
    and quiet: "set before_write \<union> set after_write \<subseteq> {ChmodTemp, SyncTemp, CloseTemp}"
begin

lemma run_quiet:
  "set ms \<subseteq> {ChmodTemp, SyncTemp, CloseTemp} \<Longrightarrow>
   run_steps works (ms @ rest) blank v (Some t) d =
     (if list_all works ms
      then run_steps works rest blank v (Some (t\<lparr>tp_synced := tp_synced t \<or> SyncTemp \<in> set ms\<rparr>)) d
      else (False, abandon works (Some t) d))"
proof (induction ms arbitrary: t)
  case (Cons st ms)
  have "abandon works (Some t') d = abandon works (Some t) d" for t' by (simp add: abandon_def)
  with Cons show ?case by (cases st) auto
qed simp

lemma outcome:
  "write_steps works steps blank v d =
     (if list_all works steps then (True, d\<lparr>dk_file := Some v, dk_durable := SyncTemp \<in> set after_write\<rparr>)
      else (False, if works CreateTemp \<and> \<not> works RemoveTemp then d\<lparr>dk_temps := dk_temps d + 1\<rparr> else d))"
  using quiet by (simp add: write_steps_def shape run_quiet) (auto simp: abandon_def)

lemma success: "fst (write_steps works steps blank v d) \<longleftrightarrow> list_all works steps"
  by (simp add: outcome)

lemma file_content:
  "dk_file (snd (write_steps works steps blank v d)) = (if list_all works steps then Some v else dk_file d)"
  by (simp add: outcome)

end

definition plain_steps :: "fs_step list" where
  "plain_steps = [CreateTemp, ChmodTemp, WriteTemp, CloseTemp, RenameTemp]"

definition synced_steps :: "fs_step list" where
  "synced_steps = [CreateTemp, WriteTemp, SyncTemp, CloseTemp, ChmodTemp, RenameTemp]"

interpretation plain: atomic_replacement plain_steps "[ChmodTemp]" "[CloseTemp]"
  by unfold_locales (simp_all add: plain_steps_def)

interpretation synced: atomic_replacement synced_steps "[]" "[SyncTemp, CloseTemp, ChmodTemp]"
  by unfold_locales (simp_all add: synced_steps_def)

end
