(* ===== verification/DeviceAcl.thy ===== *)
theory DeviceAcl
  imports Json Sha256 AtomicFile
begin

text \<open>
  The list of revoked device tokens (\<open>internal/deviceacl/acl.go\<close>): a set of SHA-256 digests in hex, the
  JSON file it is kept in, and its replacement on disk.
\<close>

section \<open>The list\<close>

record ACL =
  acl_items :: "string set"

definition New_ACL :: ACL where
  "New_ACL = \<lparr>acl_items = {}\<rparr>"

definition HashToken :: "string \<Rightarrow> string" where
  "HashToken token = sha256_hex token"

definition IsRevoked :: "ACL \<Rightarrow> string \<Rightarrow> bool" where
  "IsRevoked a token \<longleftrightarrow> HashToken token \<in> acl_items a"

definition Add :: "string \<Rightarrow> ACL \<Rightarrow> ACL" where
  "Add token a = a\<lparr>acl_items := insert (HashToken token) (acl_items a)\<rparr>"

definition Len :: "ACL \<Rightarrow> nat" where
  "Len a = card (acl_items a)"

definition Snapshot_ACL :: "ACL \<Rightarrow> string list" where
  "Snapshot_ACL a = sorted_list_of_set (acl_items a)"

definition IsRevokedHash :: "ACL \<Rightarrow> string \<Rightarrow> bool" where
  "IsRevokedHash a hash \<longleftrightarrow> hash \<in> acl_items a"

definition ConstantTimeContains :: "ACL \<Rightarrow> string \<Rightarrow> int" where
  "ConstantTimeContains a hash = (if hash \<in> acl_items a then 1 else 0)"

definition validHash :: "string \<Rightarrow> bool" where
  "validHash s \<longleftrightarrow>
     length s = 64 \<and> list_all (\<lambda>c. is_digit c \<or> 97 \<le> code c \<and> code c \<le> 102) (to_lower s)"

section \<open>The file\<close>

record Persisted =
  ps_SchemaVersion :: int
  ps_RevokedHashes :: "string list"

definition persisted_fields :: "Persisted fields" where
  "persisted_fields =
     [(''schema_version'', set_int (\<lambda>v r. r\<lparr>ps_SchemaVersion := v\<rparr>)),
      (''revoked_hashes'', set_strings (\<lambda>v r. r\<lparr>ps_RevokedHashes := v\<rparr>))]"

datatype acl_error =
    AclRead
  | AclParse
  | AclMalformed string
  | AclEmptyPath
  | AclMkdir
  | AclWrite

datatype acl_read = AclAbsent | AclUnreadable | AclText string

definition Load :: "acl_read \<Rightarrow> acl_error + ACL" where
  "Load outcome =
     (case outcome of
        AclAbsent \<Rightarrow> Inr New_ACL
      | AclUnreadable \<Rightarrow> Inl AclRead
      | AclText raw \<Rightarrow>
          (case unmarshal False persisted_fields \<lparr>ps_SchemaVersion = 0, ps_RevokedHashes = []\<rparr> raw of
             None \<Rightarrow> Inl AclParse
           | Some p \<Rightarrow>
               (case find (\<lambda>h. \<not> validHash h) (ps_RevokedHashes p) of
                  Some h \<Rightarrow> Inl (AclMalformed h)
                | None \<Rightarrow> Inr \<lparr>acl_items = set (ps_RevokedHashes p)\<rparr>)))"

text \<open>\<open>json.MarshalIndent\<close> of the list: two blanks per level, an empty list on one line.\<close>

fun hash_lines :: "string list \<Rightarrow> string" where
  "hash_lines [] = []"
| "hash_lines [h] = newline # ''    '' @ marshal_string h"
| "hash_lines (h # hs) = newline # ''    '' @ marshal_string h @ '','' @ hash_lines hs"

definition acl_text :: "ACL \<Rightarrow> string" where
  "acl_text a =
     ''{'' @ newline # ''  '' @ marshal_string ''schema_version'' @ '': 1,'' @
     newline # ''  '' @ marshal_string ''revoked_hashes'' @ '': ['' @
     hash_lines (Snapshot_ACL a) @ (if Snapshot_ACL a = [] then '']'' else newline # ''  ]'') @ newline # ''}''"

text \<open>\<open>Save\<close>: the directory is created, then the file replaced; the directory's fsync may fail unnoticed.\<close>

definition Save :: "bool \<Rightarrow> bool \<Rightarrow> (fs_step \<Rightarrow> bool) \<Rightarrow> ACL \<Rightarrow> string disk \<Rightarrow> acl_error option \<times> string disk" where
  "Save path_given dir_ok works a d =
     (if \<not> path_given then (Some AclEmptyPath, d)
      else if \<not> dir_ok then (Some AclMkdir, d)
      else case write_steps works synced_steps [] (acl_text a) d of
        (ok, d') \<Rightarrow> (if ok then None else Some AclWrite, d'))"

definition read_acl :: "string disk \<Rightarrow> acl_read" where
  "read_acl d = (case dk_file d of None \<Rightarrow> AclAbsent | Some raw \<Rightarrow> AclText raw)"

section \<open>Reading back what was written\<close>

lemma parse_hash_lines:
  "hs \<noteq> [] \<Longrightarrow> list_all (list_all verbatim) hs \<Longrightarrow> length hs < n \<Longrightarrow>
   parse_elements (Suc n) (hash_lines hs @ newline # '' '' @ '' ]'' @ r) = Some (map JString hs, r)"
proof (induction hs arbitrary: n rule: hash_lines.induct)
  case (2 h)
  then obtain m where n: "n = Suc m" by (cases n) auto
  have "parse_value n (newline # CHR '' '' # CHR '' '' # CHR '' '' # CHR '' '' # marshal_string h @ q) = Some (JString h, q)" for q
    using 2 by (simp add: n parse_value_space parse_verbatim)
  then show ?case by (simp add: parse_elements.simps)
next
  case (3 h g hs)
  then obtain m where n: "n = Suc m" by (cases n) auto
  have "parse_value n (newline # CHR '' '' # CHR '' '' # CHR '' '' # CHR '' '' # marshal_string h @ q) = Some (JString h, q)" for q
    using 3 by (simp add: n parse_value_space parse_verbatim)
  moreover have "parse_elements n (hash_lines (g # hs) @ newline # '' '' @ '' ]'' @ r) = Some (map JString (g # hs), r)"
    using 3 n by simp
  ultimately show ?case by (simp add: parse_elements.simps(2) [of n])
qed simp

lemma parse_hash_array:
  assumes "list_all (list_all verbatim) hs"
  shows "parse_value (Suc (Suc (Suc (length hs))))
    (''['' @ hash_lines hs @ (if hs = [] then '']'' else newline # ''  ]'') @ r) = Some (JArray (map JString hs), r)"
proof (cases hs)
  case Nil
  then show ?thesis by (simp add: parse_value.simps)
next
  case (Cons h hs')
  let ?s = "hash_lines hs @ newline # '' '' @ '' ]'' @ r"
  have elements: "parse_elements (Suc (Suc (length hs))) ?s = Some (map JString hs, r)"
    using assms Cons by (intro parse_hash_lines) simp_all
  have "\<exists>q. hash_lines hs = newline # CHR '' '' # CHR '' '' # CHR '' '' # CHR '' '' # quote # q"
    unfolding Cons by (cases hs') (simp_all add: marshal_string_def)
  then obtain q where "skip_space ?s = quote # q" by (auto simp: Cons)
  moreover from this have "parse_elements (Suc (Suc (length hs))) (quote # q) = Some (map JString hs, r)"
    using elements parse_elements_skip [of "length hs" ?s] by simp
  ultimately show ?thesis
    using Cons by (simp add: parse_value.simps(2) [of _ "CHR ''['' # _"] quote_def)
qed

lemma scan_one: "scan_number (CHR ''1'' # CHR '','' # r) = Some (JNumber ''1'', CHR '','' # r)"
  by (simp add: scan_number_def number_int_def number_frac_def number_exp_def is_digit_def)

lemma verbatim_keys [simp]: "list_all verbatim ''schema_version''" "list_all verbatim ''revoked_hashes''"
  by code_simp+

lemma parse_acl_text:
  assumes "list_all (list_all verbatim) (Snapshot_ACL a)"
  shows "\<exists>raw raw'. parse_json (acl_text a) =
    Some (JObject [(''schema_version'', raw, JNumber ''1''), (''revoked_hashes'', raw', JArray (map JString (Snapshot_ACL a)))])"
proof -
  let ?hs = "Snapshot_ACL a" and ?n = "Suc (Suc (Suc (length (Snapshot_ACL a))))"
  let ?arr = "''['' @ hash_lines ?hs @ (if ?hs = [] then '']'' else newline # ''  ]'')"
  have "parse_value ?n (CHR '' '' # ?arr @ newline # ''}'') = Some (JArray (map JString ?hs), newline # ''}'')"
    using parse_hash_array [OF assms, of "newline # ''}''"] by (simp only: parse_value_space [OF space_chars(2)] append_assoc)
  from parse_members_last [OF verbatim_keys(2) this, of "[]"]
  obtain raw' where last: "parse_members (Suc ?n) (marshal_string ''revoked_hashes'' @ CHR '':'' # CHR '' '' # ?arr @ newline # ''}'') =
      Some ([(''revoked_hashes'', raw', JArray (map JString ?hs))], [])" by auto
  let ?rest = "newline # CHR '' '' # CHR '' '' # marshal_string ''revoked_hashes'' @ CHR '':'' # CHR '' '' # ?arr @ newline # ''}''"
  have rest: "parse_members (Suc ?n) ?rest = Some ([(''revoked_hashes'', raw', JArray (map JString ?hs))], [])"
    using last by (simp only: parse_members_space [OF space_chars(1)] parse_members_space [OF space_chars(2)])
  have one: "parse_value (Suc ?n) (CHR '' '' # CHR ''1'' # CHR '','' # ?rest) = Some (JNumber ''1'', CHR '','' # ?rest)"
    by (simp add: parse_value_space) (simp add: parse_value.simps(2) [of _ "CHR ''1'' # _"] is_space_def quote_def scan_one)
  obtain raw where first: "parse_members (Suc (Suc ?n)) (marshal_string ''schema_version'' @ CHR '':'' # CHR '' '' # CHR ''1'' # CHR '','' # ?rest) =
      Some ([(''schema_version'', raw, JNumber ''1''), (''revoked_hashes'', raw', JArray (map JString ?hs))], [])"
    using parse_members_step [OF verbatim_keys(1) one _ rest] by auto
  define s where "s = marshal_string ''schema_version'' @ CHR '':'' # CHR '' '' # CHR ''1'' # CHR '','' # ?rest"
  have body: "acl_text a = CHR ''{'' # newline # CHR '' '' # CHR '' '' # s"
    by (simp add: acl_text_def s_def)
  obtain q where q: "s = quote # q" by (simp add: marshal_string_def s_def)
  have "parse_members (Suc (Suc ?n)) (quote # q) =
      Some ([(''schema_version'', raw, JNumber ''1''), (''revoked_hashes'', raw', JArray (map JString ?hs))], [])"
    unfolding q [symmetric] s_def by (rule first)
  then have "parse_value (Suc (Suc (Suc ?n))) (acl_text a) =
      Some (JObject [(''schema_version'', raw, JNumber ''1''), (''revoked_hashes'', raw', JArray (map JString ?hs))], [])"
    by (simp add: body q parse_value.simps(2) [of _ "CHR ''{'' # _"] quote_def space_chars(3) [unfolded quote_def])
  then have "parse_json (acl_text a) =
      Some (JObject [(''schema_version'', raw, JNumber ''1''), (''revoked_hashes'', raw', JArray (map JString ?hs))])"
    by (rule parse_json_intro) simp
  then show ?thesis by blast
qed

section \<open>The invariant and the round trip\<close>

definition acl_ok :: "ACL \<Rightarrow> bool" where
  "acl_ok a \<longleftrightarrow> finite (acl_items a) \<and> (\<forall>h\<in>acl_items a. validHash h)"

definition is_hex :: "char \<Rightarrow> bool" where
  "is_hex c \<longleftrightarrow> is_digit c \<or> 97 \<le> code c \<and> code c \<le> 102"

lemma validHash_hex: "validHash s \<longleftrightarrow> length s = 64 \<and> list_all is_hex (to_lower s)"
  by (simp add: validHash_def is_hex_def [abs_def])

lemma lower_hex_verbatim: "is_hex (lower_char c) \<Longrightarrow> verbatim c"
  by (auto simp: is_hex_def lower_char_def is_upper_def is_digit_def verbatim_def quote_def backslash_def split: if_splits)

lemma to_lower_hex_verbatim: "list_all is_hex (to_lower s) \<Longrightarrow> list_all verbatim s"
proof (induction s rule: to_lower.induct)
  case (1 a b c s)
  have "\<not> is_hex CHR ''k''" "\<not> is_hex CHR ''i''" by (simp_all add: is_hex_def is_digit_def)
  with 1 lower_hex_verbatim [of a] show ?case by (auto split: if_splits)
next
  case (2 a b)
  have "\<not> is_hex CHR ''i''" by (simp add: is_hex_def is_digit_def)
  with 2 show ?case by (auto simp: lower_hex_verbatim split: if_splits)
qed (simp_all add: lower_hex_verbatim)

lemma to_lower_plain: "list_all is_hex s \<Longrightarrow> to_lower s = s"
proof (induction s rule: to_lower.induct)
  case (1 a b c s)
  have "\<not> is_hex CHR 0xE2" "\<not> is_hex CHR 0xC4" by (simp_all add: is_hex_def is_digit_def)
  with 1 show ?case by (auto simp: kelvin_sign_def capital_dotted_i_def lower_char_def is_upper_def is_hex_def is_digit_def)
qed (auto simp: capital_dotted_i_def lower_char_def is_upper_def is_hex_def is_digit_def)

lemma HashToken_hex: "length (HashToken t) = 64 \<and> list_all is_hex (HashToken t)"
proof -
  have "is_hex_char c \<Longrightarrow> is_hex c" for c
    by (auto simp: is_hex_char_def is_hex_def)
  then show ?thesis using sha256_hex_shape [of t] by (auto simp: HashToken_def list_all_iff)
qed

lemma HashToken_valid: "validHash (HashToken t)"
  using HashToken_hex [of t] by (simp add: validHash_hex to_lower_plain)

lemma acl_ok_New: "acl_ok New_ACL" by (simp add: acl_ok_def New_ACL_def)

lemma acl_ok_Add: "acl_ok a \<Longrightarrow> acl_ok (Add t a)"
  by (simp add: acl_ok_def Add_def HashToken_valid)

lemma acl_ok_Load: "Load outcome = Inr a \<Longrightarrow> acl_ok a"
  using acl_ok_New by (auto simp: Load_def acl_ok_def find_None_iff split: acl_read.splits option.splits)

text \<open>
  The list survives a restart: what is written for a list of valid digests, \<open>Load\<close> reads back as the
  same list.
\<close>

theorem revocations_read_back:
  assumes "acl_ok a"
  shows "Load (AclText (acl_text a)) = Inr a"
proof -
  have snap: "set (Snapshot_ACL a) = acl_items a" using assms by (simp add: Snapshot_ACL_def acl_ok_def)
  have valid: "\<forall>h\<in>acl_items a. validHash h" using assms by (simp add: acl_ok_def)
  then have "list_all (list_all verbatim) (Snapshot_ACL a)"
    using snap to_lower_hex_verbatim by (auto simp: list_all_iff [of "list_all verbatim"] validHash_hex)
  then obtain raw raw' where "parse_json (acl_text a) = Some (JObject [(''schema_version'', raw, JNumber ''1''),
      (''revoked_hashes'', raw', JArray (map JString (Snapshot_ACL a)))])"
    using parse_acl_text by blast
  moreover have "string_elements (map JString hs) = Some hs" for hs by (induction hs) simp_all
  moreover have "atoi ''1'' = Some 1"
    by (simp add: atoi_def is_digit_def digits_value_def digit_value_def in_int64_def)
  ultimately have "unmarshal False persisted_fields \<lparr>ps_SchemaVersion = 0, ps_RevokedHashes = []\<rparr> (acl_text a) =
      Some \<lparr>ps_SchemaVersion = 1, ps_RevokedHashes = Snapshot_ACL a\<rparr>"
    by (simp add: unmarshal_def decode_struct_def find_field_def persisted_fields_def set_int_def set_strings_def)
  moreover have "find (\<lambda>h. \<not> validHash h) (Snapshot_ACL a) = None"
    using snap valid by (simp add: find_None_iff)
  ultimately show ?thesis by (simp add: Load_def snap)
qed

theorem revocations_read_back_witness:
  "Load (AclText (acl_text (Add ''token-1'' (Add ''token-0'' New_ACL)))) = Inr (Add ''token-1'' (Add ''token-0'' New_ACL))"
  by (intro revocations_read_back acl_ok_Add acl_ok_New)

text \<open>
  C30. Revoking is all or nothing. When \<open>Save\<close> reports success, a later \<open>Load\<close> knows the token as revoked,
  and every token revoked before too; when it reports an error, whatever call failed, the file still
  holds the previous list.
\<close>

theorem revocation_is_atomic:
  assumes "Load (read_acl d) = Inr a" "Save path_given dir_ok works (Add token a) d = (result, d')"
  shows "(result = None \<longrightarrow> (\<exists>a'. Load (read_acl d') = Inr a' \<and> IsRevoked a' token \<and>
            (\<forall>t. IsRevoked a t \<longrightarrow> IsRevoked a' t))) \<and>
    (result \<noteq> None \<longrightarrow> Load (read_acl d') = Inr a)"
proof -
  have "acl_ok (Add token a)" using acl_ok_Add [OF acl_ok_Load [OF assms(1)]] .
  then have again: "Load (AclText (acl_text (Add token a))) = Inr (Add token a)" by (rule revocations_read_back)
  have "IsRevoked (Add token a) token" "IsRevoked a t \<Longrightarrow> IsRevoked (Add token a) t" for t
    by (simp_all add: IsRevoked_def Add_def)
  then show ?thesis
    using assms again
    by (auto simp: Save_def read_acl_def synced.outcome split: if_splits)
qed

theorem revocation_is_atomic_witness:
  "\<exists>d'. Save True True (\<lambda>_. True) (Add ''token-0'' New_ACL) \<lparr>dk_file = None, dk_durable = True, dk_temps = 0\<rparr> = (None, d') \<and>
     (\<exists>a'. Load (read_acl d') = Inr a' \<and> IsRevoked a' ''token-0'')"
proof -
  let ?d = "\<lparr>dk_file = None, dk_durable = True, dk_temps = 0\<rparr> :: string disk"
  have load: "Load (read_acl ?d) = Inr New_ACL" by (simp add: read_acl_def Load_def)
  have "fst (Save True True (\<lambda>_. True) (Add ''token-0'' New_ACL) ?d) = None"
    by (simp add: Save_def synced.outcome) (simp add: synced_steps_def)
  then obtain d' where s: "Save True True (\<lambda>_. True) (Add ''token-0'' New_ACL) ?d = (None, d')"
    by (metis prod.collapse)
  from revocation_is_atomic [OF load s] s show ?thesis by blast
qed

text \<open>The digest of a token with its letters written in upper case.\<close>

definition upper_digest :: "string \<Rightarrow> string" where
  "upper_digest token = map upper_char (HashToken token)"

lemma is_hex_set:
  assumes "is_hex c"
  shows "c \<in> set ''0123456789abcdef''"
proof -
  have "code c \<in> {48, 49, 50, 51, 52, 53, 54, 55, 56, 57, 97, 98, 99, 100, 101, 102}"
    using assms unfolding is_hex_def is_digit_def insert_iff empty_iff by presburger
  then have "char_of (code c) \<in> char_of ` {48 :: nat, 49, 50, 51, 52, 53, 54, 55, 56, 57, 97, 98, 99, 100, 101, 102}"
    by (rule imageI)
  then show ?thesis by (simp only: char_of_char) (simp add: char_of_def bit_0)
qed

lemma lower_upper_hex:
  "is_hex c \<Longrightarrow> lower_char (upper_char c) = c \<and> verbatim (upper_char c) \<and> (upper_char c = c \<longleftrightarrow> is_digit c)"
proof -
  have "list_all (\<lambda>c. lower_char (upper_char c) = c \<and> verbatim (upper_char c) \<and> (upper_char c = c \<longleftrightarrow> is_digit c))
      ''0123456789abcdef''"
    by (simp add: lower_char_def upper_char_def is_lower_def is_upper_def is_digit_def verbatim_def quote_def backslash_def
        char_of_def bit_0)
  then show "is_hex c \<Longrightarrow> lower_char (upper_char c) = c \<and> verbatim (upper_char c) \<and> (upper_char c = c \<longleftrightarrow> is_digit c)"
    using is_hex_set [of c] unfolding list_all_iff by blast
qed

text \<open>
  A digest written with capital letters is accepted as a valid entry, but it revokes nothing: lookups
  use the lower-case digest, so unless the digest happens to have no letter the token still passes.
\<close>

theorem capital_digest_ignored:
  "\<exists>a. Load (AclText (acl_text \<lparr>acl_items = {upper_digest token}\<rparr>)) = Inr a \<and>
     (IsRevoked a token \<longleftrightarrow> list_all is_digit (HashToken token))"
proof -
  have hex: "list_all is_hex (HashToken token)" "length (HashToken token) = 64" using HashToken_hex by auto
  have low: "to_lower (map upper_char s) = s" if "list_all is_hex s" for s
    using that
  proof (induction s rule: to_lower.induct)
    case (1 x y z s)
    have "upper_char x \<noteq> CHR 0xE2" "upper_char x \<noteq> CHR 0xC4"
      using lower_upper_hex [of x] "1.prems" by (auto simp: verbatim_def)
    moreover have "x \<noteq> CHR 0xE2" "x \<noteq> CHR 0xC4" using "1.prems" by (auto simp: is_hex_def is_digit_def)
    ultimately show ?case using 1 lower_upper_hex [of x] by (simp add: kelvin_sign_def capital_dotted_i_def)
  next
    case (2 x y)
    have "upper_char x \<noteq> CHR 0xC4" using lower_upper_hex [of x] 2 by (auto simp: verbatim_def)
    with 2 show ?case using lower_upper_hex [of x] lower_upper_hex [of y] by (simp add: capital_dotted_i_def)
  qed (simp_all add: lower_upper_hex)
  have "acl_ok \<lparr>acl_items = {upper_digest token}\<rparr>"
    using hex low by (simp add: acl_ok_def validHash_hex upper_digest_def)
  moreover have "map upper_char s = s \<longleftrightarrow> list_all is_digit s" if "list_all is_hex s" for s
    using that by (induction s) (auto simp: lower_upper_hex)
  then have "map upper_char (HashToken token) = HashToken token \<longleftrightarrow> list_all is_digit (HashToken token)"
    using hex(1) by blast
  then have "IsRevoked \<lparr>acl_items = {upper_digest token}\<rparr> token \<longleftrightarrow> list_all is_digit (HashToken token)"
    by (simp only: IsRevoked_def upper_digest_def ACL.select_convs singleton_iff eq_commute [of "HashToken token"])
  ultimately show ?thesis using revocations_read_back by blast
qed

end
