(* ===== verification/StepMachine.thy ===== *)
theory StepMachine
  imports Prelude
begin

text \<open>
  Components that are a state and a set of operations share one contract: every permitted operation
  keeps the invariant. Where the component also counts its changes, an operation either leaves the
  state alone or raises the version by one. The locales state the two contracts, with what follows
  for whole runs; each component interprets them with its own operations.
\<close>

definition run :: "('s \<Rightarrow> 'op \<Rightarrow> 's) \<Rightarrow> 's \<Rightarrow> 'op list \<Rightarrow> 's" where
  "run step s ops = foldl step s ops"

lemma run_simps [simp]: "run step s [] = s" "run step s (op # ops) = run step (step s op) ops"
  by (simp_all add: run_def)

lemma run_append: "run step s (ops @ ops') = run step (run step s ops) ops'"
  by (simp add: run_def)

locale invariant_machine =
  fixes step :: "'s \<Rightarrow> 'op \<Rightarrow> 's" and inv :: "'s \<Rightarrow> bool" and allowed :: "'op \<Rightarrow> bool"
  assumes step_inv: "inv s \<Longrightarrow> allowed op \<Longrightarrow> inv (step s op)"
begin

lemma run_inv: "inv s \<Longrightarrow> list_all allowed ops \<Longrightarrow> inv (run step s ops)"
  by (induction ops arbitrary: s) (simp_all add: step_inv)

end

locale versioned_machine = invariant_machine step inv allowed
  for step :: "'s \<Rightarrow> 'op \<Rightarrow> 's" and inv :: "'s \<Rightarrow> bool" and allowed :: "'op \<Rightarrow> bool" +
  fixes version :: "'s \<Rightarrow> u64"
  assumes step_version:
    "inv s \<Longrightarrow> allowed op \<Longrightarrow> step s op = s \<or> version (step s op) = version s + 1"
begin

lemma run_version:
  "inv s \<Longrightarrow> list_all allowed ops \<Longrightarrow>
   \<exists>k \<le> length ops. version (run step s ops) = version s + of_nat k \<and> (k = 0 \<longrightarrow> run step s ops = s)"
proof (induction ops arbitrary: s)
  case (Cons op ops)
  then have "inv (step s op)" by (simp add: step_inv)
  with Cons obtain k where k: "k \<le> length ops"
    "version (run step (step s op) ops) = version (step s op) + of_nat k"
    "k = 0 \<longrightarrow> run step (step s op) ops = step s op"
    by auto
  from step_version Cons.prems consider "step s op = s" | "version (step s op) = version s + 1" by auto
  then show ?case
  proof cases
    case 1
    with k show ?thesis by (intro exI [of _ k]) auto
  next
    case 2
    with k show ?thesis by (intro exI [of _ "Suc k"]) (auto simp: algebra_simps)
  qed
qed simp

lemma run_version_mono:
  assumes "inv s" "list_all allowed ops" "unat (version s) + length ops < 2 ^ 64"
  shows "version s \<le> version (run step s ops)"
proof -
  obtain k where k: "k \<le> length ops" "version (run step s ops) = version s + of_nat k"
    using run_version [OF assms(1,2)] by blast
  have "unat (version s + of_nat k) = unat (version s) + k"
    using k(1) assms(3) by (simp add: unat_word_ariths unat_of_nat)
  then show ?thesis by (simp add: k(2) word_le_nat_alt)
qed

text \<open>Within one life of the process, the same version means the same state.\<close>

lemma same_version_same_state:
  assumes "inv s" "list_all allowed ops" "length ops < 2 ^ 64"
    and "version (run step s ops) = version s"
  shows "run step s ops = s"
proof -
  obtain k where k: "k \<le> length ops" "version (run step s ops) = version s + of_nat k"
    "k = 0 \<longrightarrow> run step s ops = s"
    using run_version [OF assms(1,2)] by blast
  with assms(4) have "(of_nat k :: u64) = 0" by simp
  then have "k mod 2 ^ 64 = 0" by (simp add: word_of_nat_eq_0_iff dvd_eq_mod_eq_0)
  with k(1) assms(3) have "k = 0" by simp
  with k(3) show ?thesis by simp
qed

end

text \<open>
  A machine with a budget: the invariant is kept while a counter is below its limit, and one
  operation raises the counter by at most one.
\<close>

locale budget_machine =
  fixes step :: "'s \<Rightarrow> 'op \<Rightarrow> 's" and inv :: "'s \<Rightarrow> bool" and allowed :: "'op \<Rightarrow> bool"
    and counter :: "'s \<Rightarrow> nat" and limit :: nat
  assumes step_inv: "inv s \<Longrightarrow> allowed op \<Longrightarrow> counter s < limit \<Longrightarrow> inv (step s op)"
    and step_counter: "inv s \<Longrightarrow> allowed op \<Longrightarrow> counter s < limit \<Longrightarrow>
      counter s \<le> counter (step s op) \<and> counter (step s op) \<le> Suc (counter s)"
begin

lemma run_inv_counter:
  "inv s \<Longrightarrow> list_all allowed ops \<Longrightarrow> counter s + length ops \<le> limit \<Longrightarrow>
   inv (run step s ops) \<and> counter s \<le> counter (run step s ops) \<and>
   counter (run step s ops) \<le> counter s + length ops"
proof (induction ops arbitrary: s)
  case (Cons op ops)
  then have "counter s < limit" "allowed op" by auto
  with step_inv [OF Cons.prems(1)] step_counter [OF Cons.prems(1)]
  have "inv (step s op)" "counter s \<le> counter (step s op)" "counter (step s op) \<le> Suc (counter s)"
    by blast+
  with Cons.IH [of "step s op"] Cons.prems(2,3) show ?case by simp
qed simp

lemmas run_inv = run_inv_counter [THEN conjunct1]
lemmas run_counter_mono = run_inv_counter [THEN conjunct2, THEN conjunct1]

text \<open>A relation between states that is kept by each step is kept by the run.\<close>

lemma run_relation:
  assumes "inv s" "list_all allowed ops" "counter s + length ops \<le> limit"
    and refl: "\<And>s. R s s" and trans: "\<And>s t u. R s t \<Longrightarrow> R t u \<Longrightarrow> R s u"
    and step: "\<And>s op. inv s \<Longrightarrow> allowed op \<Longrightarrow> counter s < limit \<Longrightarrow> R s (step s op)"
  shows "R s (run step s ops)"
  using assms(1-3)
proof (induction ops arbitrary: s)
  case (Cons op ops)
  then have lt: "counter s < limit" and al: "allowed op" by auto
  have "inv (step s op)" "counter (step s op) \<le> Suc (counter s)"
    using step_inv [OF Cons.prems(1) al lt] step_counter [OF Cons.prems(1) al lt] by blast+
  with Cons.IH [of "step s op"] Cons.prems(2,3) have "R (step s op) (run step (step s op) ops)" by simp
  with trans [OF step [OF Cons.prems(1) al lt]] show ?case by simp
qed (simp add: refl)

end

end
