(* ===== verification/CommandBus.thy ===== *)
theory CommandBus
  imports Commands Sha256 StepMachine
begin

text \<open>
  The daemon's command queue (\<open>internal/commandbus/bus.go\<close>): a bounded list of entries kept in memory
  and in one state file, written whole after every change. What the environment decides is an argument
  of each operation: the clock readings, the random bytes of a command identifier, and whether the file
  could be written. The state file is represented by the value it encodes; \<open>Open\<close> receives what
  \<open>ReadFile\<close> and \<open>Unmarshal\<close> gave. A subscriber's channel of capacity one is the Boolean that says
  whether a signal is waiting in it.
\<close>

section \<open>State\<close>

definition MaxPending :: nat where "MaxPending = 64"
definition MaxResults :: nat where "MaxResults = 256"

record Entry =
  en_Command :: DisplayCommand
  en_Result :: CommandResult

record stateFile =
  sf_Sequence :: u64
  sf_Entries :: "Entry list"

record Bus =
  bus_state :: stateFile
  bus_disk :: "stateFile option"   \<comment> \<open>what the state file holds\<close>
  bus_notify :: "bool gomap"

datatype bus_error =
    BInvalid string          \<comment> \<open>the request's validation code\<close>
  | BQueueFull
  | BRandom
  | BPersist
  | BDeviceMismatch
  | BSequenceMismatch
  | BInvalidStatus
  | BNotFound                \<comment> \<open>\<open>ErrNotFound\<close>\<close>
  | BStorage                 \<comment> \<open>directory, permission, rename or read failure in \<open>Open\<close>\<close>

definition empty_state :: stateFile where
  "empty_state = \<lparr>sf_Sequence = 0, sf_Entries = []\<rparr>"

section \<open>Identifiers and redaction\<close>

definition newUUID :: "nat list option \<Rightarrow> string option" where
  "newUUID random = map_option
     (\<lambda>value.
        let v = value[6 := value ! 6 mod 16 + 0x40, 8 := value ! 8 mod 64 + 0x80];
            raw = hex_encode v
        in take 8 raw @ ''-'' @ take 4 (drop 8 raw) @ ''-'' @ take 4 (drop 12 raw) @ ''-'' @
           take 4 (drop 16 raw) @ ''-'' @ drop 20 raw)
     random"

definition MessageAudit :: "string \<Rightarrow> int \<times> string" where
  "MessageAudit value = (int (length value), sha256_hex value)"

text \<open>\<open>json.Marshal\<close> of the audit map, its keys in order.\<close>

definition audit_body :: "int \<Rightarrow> string \<Rightarrow> string \<Rightarrow> int \<Rightarrow> string" where
  "audit_body len digest severity seconds = marshal_object
     [(''duration_seconds'', marshal_int seconds), (''severity'', marshal_string severity),
      (''text_length'', marshal_int len), (''text_sha256'', marshal_string digest)]"

definition redactParams :: "DisplayCommand \<Rightarrow> string" where
  "redactParams command =
     (if dc_Kind command \<noteq> CommandShowMessage then ''{}''
      else case decode_message (dc_Params command) of
        None \<Rightarrow> ''{}''
      | Some p \<Rightarrow>
          (case MessageAudit (mp_Text p) of
             (len, digest) \<Rightarrow> audit_body len digest (mp_Severity p) (mp_DurationSeconds p)))"

section \<open>Helpers under the lock\<close>

definition final_entry :: "Entry \<Rightarrow> bool" where
  "final_entry e \<longleftrightarrow> Final (rs_Status (en_Result e))"

definition pendingCountLocked :: "stateFile \<Rightarrow> nat" where
  "pendingCountLocked st = length (filter (\<lambda>e. \<not> final_entry e) (sf_Entries st))"

text \<open>An entry that ends without an answer from the device.\<close>

definition close_entry :: "CommandStatus \<Rightarrow> string \<Rightarrow> instant \<Rightarrow> int \<Rightarrow> Entry \<Rightarrow> Entry" where
  "close_entry status errcode now ms e =
     e\<lparr>en_Result := (en_Result e)\<lparr>rs_Status := status, rs_Code := errcode, rs_CompletedAt := Some now,
                                rs_DurationMS := ms\<rparr>,
       en_Command := (en_Command e)\<lparr>dc_Params := redactParams (en_Command e)\<rparr>\<rparr>"

fun drop_oldest_normal :: "instant \<Rightarrow> Entry list \<Rightarrow> Entry list \<times> bool" where
  "drop_oldest_normal now [] = ([], False)"
| "drop_oldest_normal now (e # es) =
     (if dc_Priority (en_Command e) \<noteq> PriorityNormal \<or> rs_Status (en_Result e) \<noteq> CommandPublished
      then (case drop_oldest_normal now es of (es', found) \<Rightarrow> (e # es', found))
      else (close_entry CommandFailed ''overflow'' now (rs_DurationMS (en_Result e)) e # es, True))"

definition dropOldestNormalLocked :: "instant \<Rightarrow> stateFile \<Rightarrow> stateFile \<times> bool" where
  "dropOldestNormalLocked now st =
     (case drop_oldest_normal now (sf_Entries st) of (es, found) \<Rightarrow> (st\<lparr>sf_Entries := es\<rparr>, found))"

definition expire_entry :: "instant \<Rightarrow> Entry \<Rightarrow> Entry \<times> bool" where
  "expire_entry now e =
     (let r = en_Result e; ms = duration_ms (time_sub now (rs_ReceivedAt r))
      in if Final (rs_Status r) then (e, False)
         else if rs_Status r = CommandPublished \<and> \<not> now < dc_ExpiresAt (en_Command e)
              then (close_entry CommandExpired ''expired'' now ms e, True)
         else if rs_Status r = CommandAccepted \<and> time_sub now (rs_ReceivedAt r) \<ge> MaxCommandTTL
              then (close_entry CommandFailed ''execution_timeout'' now ms e, True)
         else (e, False))"

definition expireLocked :: "instant \<Rightarrow> stateFile \<Rightarrow> stateFile \<times> bool" where
  "expireLocked now st =
     (st\<lparr>sf_Entries := map (fst \<circ> expire_entry now) (sf_Entries st)\<rparr>,
      list_ex (snd \<circ> expire_entry now) (sf_Entries st))"

fun remove_first_final :: "Entry list \<Rightarrow> Entry list" where
  "remove_first_final [] = []"
| "remove_first_final (e # es) = (if final_entry e then es else e # remove_first_final es)"

definition count_final :: "Entry list \<Rightarrow> nat" where
  "count_final es = length (filter final_entry es)"

definition trimLocked :: "stateFile \<Rightarrow> stateFile" where
  "trimLocked st =
     st\<lparr>sf_Entries := (remove_first_final ^^ (count_final (sf_Entries st) - MaxResults)) (sf_Entries st)\<rparr>"

definition signalLocked :: "string \<Rightarrow> Bus \<Rightarrow> Bus" where
  "signalLocked device b =
     (if mget (bus_notify b) device = None then b
      else b\<lparr>bus_notify := mput device True (bus_notify b)\<rparr>)"

text \<open>The temporary file is renamed over the state file as the last step, so a failure leaves it alone.\<close>

definition persistLocked :: "bool \<Rightarrow> Bus \<Rightarrow> bus_error option \<times> Bus" where
  "persistLocked ok b = (if ok then (None, b\<lparr>bus_disk := Some (bus_state b)\<rparr>) else (Some BPersist, b))"

section \<open>Operations\<close>

text \<open>
  \<open>Open\<close>: the file is absent, unreadable, or holds a document (\<open>None\<close> when it does not decode). The
  arguments say whether the directory could be prepared, the corrupt file renamed, the file protected
  and the empty state written.
\<close>

datatype read_outcome = NotExist | ReadError | Content "stateFile option"

definition Open :: "bool \<Rightarrow> bool \<Rightarrow> bool \<Rightarrow> bool \<Rightarrow> read_outcome \<Rightarrow> bus_error + Bus" where
  "Open dir_ok rename_ok chmod_ok persist_ok outcome =
     (let fresh = \<lparr>bus_state = empty_state, bus_disk = None, bus_notify = []\<rparr>;
          created = (case persistLocked persist_ok fresh of (Some e, _) \<Rightarrow> Inl e | (None, b) \<Rightarrow> Inr b)
      in if \<not> dir_ok then Inl BStorage
         else case outcome of
           NotExist \<Rightarrow> created
         | ReadError \<Rightarrow> Inl BStorage
         | Content doc \<Rightarrow>
             (case doc of
                None \<Rightarrow> if rename_ok then created else Inl BStorage
              | Some st \<Rightarrow>
                  if length (sf_Entries st) > MaxPending + MaxResults
                  then (if rename_ok then created else Inl BStorage)
                  else if chmod_ok then Inr \<lparr>bus_state = st, bus_disk = Some st, bus_notify = []\<rparr>
                  else Inl BStorage))"

definition new_command :: "string \<Rightarrow> CommandRequest \<Rightarrow> string \<Rightarrow> instant \<Rightarrow> u64 \<Rightarrow> DisplayCommand" where
  "new_command deviceID request commandID now sequence =
     \<lparr>dc_SchemaMajor = CommandSchemaMajor, dc_CommandID = commandID, dc_DeviceID = deviceID,
      dc_Kind = cr_Kind request, dc_Params = cr_Params request, dc_IssuedAt = now,
      dc_ExpiresAt = now + cr_TTLSeconds request * second, dc_Priority = cr_Priority request,
      dc_Sequence = sequence\<rparr>"

definition new_entry :: "DisplayCommand \<Rightarrow> instant \<Rightarrow> Entry" where
  "new_entry command now =
     \<lparr>en_Command = command,
      en_Result = \<lparr>rs_CommandID = dc_CommandID command, rs_Sequence = dc_Sequence command,
                   rs_Status = CommandPublished, rs_Code = [], rs_ReceivedAt = now,
                   rs_CompletedAt = None, rs_DurationMS = 0\<rparr>\<rparr>"

text \<open>The clock is read once when a command is dropped and once for the new command.\<close>

definition Publish ::
  "string \<Rightarrow> CommandRequest \<Rightarrow> instant \<Rightarrow> nat list option \<Rightarrow> instant \<Rightarrow> bool \<Rightarrow> Bus \<Rightarrow>
   (bus_error + Entry) \<times> Bus" where
  "Publish deviceID request drop_time random now persist_ok b =
     (case ValidateCommandRequest request of
        Some e \<Rightarrow> (Inl (BInvalid e), b)
      | None \<Rightarrow>
          let previous = bus_state b;
              full = (pendingCountLocked previous \<ge> MaxPending);
              (dropped, found) =
                (if full then dropOldestNormalLocked drop_time previous else (previous, True))
          in if \<not> found then (Inl BQueueFull, b\<lparr>bus_state := dropped\<rparr>)
             else case newUUID random of
               None \<Rightarrow> (Inl BRandom, b\<lparr>bus_state := dropped\<rparr>)
             | Some commandID \<Rightarrow>
                 let sequence = sf_Sequence dropped + 1;
                     entry = new_entry (new_command deviceID request commandID now sequence) now;
                     st = trimLocked \<lparr>sf_Sequence = sequence, sf_Entries = sf_Entries dropped @ [entry]\<rparr>
                 in (case persistLocked persist_ok (b\<lparr>bus_state := st\<rparr>) of
                       (Some e, b') \<Rightarrow> (Inl e, b'\<lparr>bus_state := previous\<rparr>)
                     | (None, b') \<Rightarrow> (Inr entry, signalLocked deviceID b')))"

definition is_pending_for :: "string \<Rightarrow> string set \<Rightarrow> Entry \<Rightarrow> bool" where
  "is_pending_for deviceID sent e \<longleftrightarrow>
     dc_DeviceID (en_Command e) = deviceID \<and> \<not> final_entry e \<and> dc_CommandID (en_Command e) \<notin> sent"

definition Pending ::
  "string \<Rightarrow> string set \<Rightarrow> instant \<Rightarrow> bool \<Rightarrow> Bus \<Rightarrow> (bus_error + DisplayCommand list) \<times> Bus" where
  "Pending deviceID sent now persist_ok b =
     (case expireLocked now (bus_state b) of
        (st, changed) \<Rightarrow>
          let commands = map en_Command (filter (is_pending_for deviceID sent) (sf_Entries st));
              b' = b\<lparr>bus_state := st\<rparr>
          in if changed then
               (case persistLocked persist_ok b' of
                  (Some e, b'') \<Rightarrow> (Inl e, b''\<lparr>bus_state := bus_state b\<rparr>)
                | (None, b'') \<Rightarrow> (Inr commands, b''))
             else (Inr commands, b'))"

text \<open>The entry with a result recorded in it.\<close>

definition record_result :: "CommandResult \<Rightarrow> instant \<Rightarrow> Entry \<Rightarrow> Entry" where
  "record_result result now e =
     (let r = (if is_zero_time (rs_ReceivedAt result) then result\<lparr>rs_ReceivedAt := now\<rparr> else result);
          c = (if Final (rs_Status result)
               then (en_Command e)\<lparr>dc_Params := redactParams (en_Command e)\<rparr> else en_Command e)
      in e\<lparr>en_Command := c, en_Result := r\<rparr>)"

fun find_entry :: "string \<Rightarrow> Entry list \<Rightarrow> nat option" where
  "find_entry cid [] = None"
| "find_entry cid (e # es) =
     (if dc_CommandID (en_Command e) = cid then Some 0 else map_option Suc (find_entry cid es))"

definition Record ::
  "string \<Rightarrow> CommandResult \<Rightarrow> instant \<Rightarrow> bool \<Rightarrow> Bus \<Rightarrow> (bus_error + Entry \<times> bool) \<times> Bus" where
  "Record deviceID result now persist_ok b =
     (case find_entry (rs_CommandID result) (sf_Entries (bus_state b)) of
        None \<Rightarrow> (Inl BNotFound, b)
      | Some i \<Rightarrow>
          let e = sf_Entries (bus_state b) ! i
          in if dc_DeviceID (en_Command e) \<noteq> deviceID then (Inl BDeviceMismatch, b)
             else if rs_Sequence result \<noteq> dc_Sequence (en_Command e) then (Inl BSequenceMismatch, b)
             else if final_entry e then (Inr (e, False), b)
             else if rs_Status result \<noteq> CommandAccepted \<and> \<not> Final (rs_Status result)
                  then (Inl BInvalidStatus, b)
             else
               let firstAccepted = (rs_Status result = CommandAccepted \<and>
                                    rs_Status (en_Result e) \<noteq> CommandAccepted);
                   updated = record_result result now e;
                   st = trimLocked ((bus_state b)\<lparr>sf_Entries := (sf_Entries (bus_state b))[i := updated]\<rparr>)
               in (case persistLocked persist_ok (b\<lparr>bus_state := st\<rparr>) of
                     (Some err, b') \<Rightarrow> (Inl err, b'\<lparr>bus_state := bus_state b\<rparr>)
                   | (None, b') \<Rightarrow>
                       (Inr (updated, firstAccepted), signalLocked (dc_DeviceID (en_Command e)) b')))"

definition Get :: "string \<Rightarrow> instant \<Rightarrow> bool \<Rightarrow> Bus \<Rightarrow> (bus_error + Entry) \<times> Bus" where
  "Get commandID now persist_ok b =
     (case expireLocked now (bus_state b) of
        (st, changed) \<Rightarrow>
          let b' = b\<lparr>bus_state := st\<rparr>
          in (case find_entry commandID (sf_Entries st) of
                None \<Rightarrow> (Inl BNotFound, b')
              | Some i \<Rightarrow>
                  if changed then
                    (case persistLocked persist_ok b' of
                       (Some e, b'') \<Rightarrow> (Inl e, b''\<lparr>bus_state := bus_state b\<rparr>)
                     | (None, b'') \<Rightarrow> (Inr (sf_Entries st ! i), b''))
                  else (Inr (sf_Entries st ! i), b')))"

definition Subscribe :: "string \<Rightarrow> Bus \<Rightarrow> Bus" where
  "Subscribe deviceID b =
     (if mget (bus_notify b) deviceID = None then b\<lparr>bus_notify := mput deviceID False (bus_notify b)\<rparr> else b)"

text \<open>
  The name a corrupt state file is moved to: the first candidate that does not exist. The loop ends
  because a directory holds finitely many files; \<open>taken\<close> lists them.
\<close>

definition candidate_path :: "string \<Rightarrow> nat \<Rightarrow> string" where
  "candidate_path base index = base @ (if index > 0 then ''-'' @ nat_digits index else [])"

partial_function (option) first_free :: "(string \<Rightarrow> bool) \<Rightarrow> string \<Rightarrow> nat \<Rightarrow> string option" where
  "first_free exists base index =
     (if exists (candidate_path base index) then first_free exists base (Suc index)
      else Some (candidate_path base index))"

definition availableStatePath :: "(string \<Rightarrow> bool) \<Rightarrow> string \<Rightarrow> int \<Rightarrow> string option" where
  "availableStatePath exists path timestamp =
     first_free exists (path @ ''.corrupt-'' @ format_int timestamp) 0"

section \<open>Lists of entries\<close>

definition is_redacted :: "string \<Rightarrow> bool" where
  "is_redacted p \<longleftrightarrow> p = ''{}'' \<or> (\<exists>text severity seconds.
     p = audit_body (int (length text)) (sha256_hex text) severity seconds)"

definition entry_ok :: "Entry \<Rightarrow> bool" where
  "entry_ok e \<longleftrightarrow>
     (rs_Status (en_Result e) = CommandPublished \<or> rs_Status (en_Result e) = CommandAccepted \<or>
      final_entry e \<and> is_redacted (dc_Params (en_Command e)))"

abbreviation entry_seq :: "Entry \<Rightarrow> u64" where
  "entry_seq e \<equiv> dc_Sequence (en_Command e)"

abbreviation count_pending :: "Entry list \<Rightarrow> nat" where
  "count_pending es \<equiv> length (filter (\<lambda>e. \<not> final_entry e) es)"

lemma count_split: "count_final es + count_pending es = length es"
  unfolding count_final_def by (rule sum_length_filter_compl)

lemma is_redacted_redactParams [simp]: "is_redacted (redactParams c)"
  by (auto simp: redactParams_def is_redacted_def MessageAudit_def split: option.splits)

lemma close_entry_simps [simp]:
  "entry_seq (close_entry status errcode now ms e) = entry_seq e"
  "Final status \<Longrightarrow> final_entry (close_entry status errcode now ms e)"
  "Final status \<Longrightarrow> entry_ok (close_entry status errcode now ms e)"
  by (simp_all add: close_entry_def final_entry_def entry_ok_def)

lemma drop_oldest_normal_found:
  "drop_oldest_normal now es = (es', True) \<Longrightarrow>
   \<exists>xs e ys. es = xs @ e # ys \<and>
     es' = xs @ close_entry CommandFailed ''overflow'' now (rs_DurationMS (en_Result e)) e # ys \<and>
     dc_Priority (en_Command e) = PriorityNormal \<and> rs_Status (en_Result e) = CommandPublished"
proof (induction es arbitrary: es')
  case (Cons e es)
  show ?case
  proof (cases "dc_Priority (en_Command e) \<noteq> PriorityNormal \<or> rs_Status (en_Result e) \<noteq> CommandPublished")
    case True
    with Cons.prems obtain es'' where "drop_oldest_normal now es = (es'', True)" "es' = e # es''"
      by (auto split: prod.splits)
    with Cons.IH [of es''] show ?thesis by (metis append_Cons)
  next
    case False
    with Cons.prems have "es' = close_entry CommandFailed ''overflow'' now (rs_DurationMS (en_Result e)) e # es"
      by simp
    with False show ?thesis by (intro exI [of _ "[]"]) auto
  qed
qed simp

lemma drop_oldest_normal_not_found: "drop_oldest_normal now es = (es', False) \<Longrightarrow> es' = es"
  by (induction es arbitrary: es') (auto split: prod.splits if_splits)

lemma drop_oldest_normal_facts:
  assumes "drop_oldest_normal now es = (es', True)"
  shows "map entry_seq es' = map entry_seq es" "count_pending es = Suc (count_pending es')"
    "list_all entry_ok es \<Longrightarrow> list_all entry_ok es'"
  using drop_oldest_normal_found [OF assms]
  by (auto simp: final_entry_def [of e for e :: Entry] close_entry_simps(2) [unfolded final_entry_def])

lemma expire_entry_simps [simp]: "entry_seq (fst (expire_entry now e)) = entry_seq e"
  by (simp add: expire_entry_def Let_def)

lemma expire_entry_ok: "entry_ok e \<Longrightarrow> entry_ok (fst (expire_entry now e))"
  by (simp add: expire_entry_def Let_def)

lemma expire_entry_final: "final_entry e \<Longrightarrow> expire_entry now e = (e, False)"
  by (simp add: expire_entry_def final_entry_def Let_def)

lemma expire_pending: "count_pending (map (fst \<circ> expire_entry now) es) \<le> count_pending es"
  by (induction es) (auto simp: expire_entry_final)

lemma expire_unchanged: "\<not> snd (expire_entry now e) \<Longrightarrow> fst (expire_entry now e) = e"
  by (auto simp: expire_entry_def Let_def split: if_splits)

lemma remove_first_final_subset: "set (remove_first_final es) \<subseteq> set es"
  by (induction es) auto

lemma remove_first_final_facts:
  "count_pending (remove_first_final es) = count_pending es"
  "count_final (remove_first_final es) = count_final es - 1"
  "sorted_wrt (<) (map entry_seq es) \<Longrightarrow> sorted_wrt (<) (map entry_seq (remove_first_final es))"
proof -
  show "count_pending (remove_first_final es) = count_pending es"
    "count_final (remove_first_final es) = count_final es - 1"
    by (induction es) (auto simp: count_final_def)
  show "sorted_wrt (<) (map entry_seq es) \<Longrightarrow> sorted_wrt (<) (map entry_seq (remove_first_final es))"
    by (induction es) (auto dest: subsetD [OF remove_first_final_subset])
qed

lemma trim_facts:
  fixes es :: "Entry list"
  defines "es' \<equiv> (remove_first_final ^^ (count_final es - MaxResults)) es"
  shows "count_pending es' = count_pending es" "count_final es' \<le> MaxResults" "set es' \<subseteq> set es"
    "sorted_wrt (<) (map entry_seq es) \<Longrightarrow> sorted_wrt (<) (map entry_seq es')"
proof -
  have pow: "count_pending ((remove_first_final ^^ k) es) = count_pending es \<and>
      count_final ((remove_first_final ^^ k) es) = count_final es - k \<and>
      set ((remove_first_final ^^ k) es) \<subseteq> set es \<and>
      (sorted_wrt (<) (map entry_seq es) \<longrightarrow> sorted_wrt (<) (map entry_seq ((remove_first_final ^^ k) es)))" for k
    by (induction k)
      (simp_all add: remove_first_final_facts subset_trans [OF remove_first_final_subset])
  show "count_pending es' = count_pending es" "set es' \<subseteq> set es"
    "sorted_wrt (<) (map entry_seq es) \<Longrightarrow> sorted_wrt (<) (map entry_seq es')"
    using pow [of "count_final es - MaxResults"] by (simp_all add: es'_def)
  show "count_final es' \<le> MaxResults"
    using pow [of "count_final es - MaxResults"] by (simp add: es'_def)
qed

lemma find_entry_Some:
  "find_entry cid es = Some i \<Longrightarrow> i < length es \<and> dc_CommandID (en_Command (es ! i)) = cid"
  by (induction es arbitrary: i) (auto split: if_splits)

section \<open>The invariant\<close>

definition state_inv :: "stateFile \<Rightarrow> bool" where
  "state_inv st \<longleftrightarrow>
     pendingCountLocked st \<le> MaxPending \<and> length (sf_Entries st) \<le> MaxPending + MaxResults \<and>
     list_all entry_ok (sf_Entries st) \<and> sorted_wrt (<) (map entry_seq (sf_Entries st)) \<and>
     (\<forall>e\<in>set (sf_Entries st). entry_seq e \<le> sf_Sequence st)"

definition inv :: "Bus \<Rightarrow> bool" where
  "inv b \<longleftrightarrow> state_inv (bus_state b) \<and>
     (\<exists>d. bus_disk b = Some d \<and> state_inv d \<and> sf_Sequence d = sf_Sequence (bus_state b))"

lemma empty_state_simps [simp]: "sf_Sequence empty_state = 0" "sf_Entries empty_state = []"
  by (simp_all add: empty_state_def)

lemma state_inv_empty [simp]: "state_inv empty_state"
  by (simp add: state_inv_def empty_state_def pendingCountLocked_def)

lemma signal_state [simp]:
  "bus_state (signalLocked dev b) = bus_state b" "bus_disk (signalLocked dev b) = bus_disk b"
  by (simp_all add: signalLocked_def)

lemma seq_mem: "map entry_seq es' = map entry_seq es \<Longrightarrow>
  (\<forall>e\<in>set es'. P (entry_seq e)) \<longleftrightarrow> (\<forall>e\<in>set es. P (entry_seq e))"
  by (metis (no_types, lifting) image_iff list.set_map)

text \<open>A change of entries in place: the sequence numbers stay, pending entries are not added.\<close>

lemma state_inv_same_seq:
  assumes "state_inv st" "map entry_seq es = map entry_seq (sf_Entries st)"
    and "count_pending es \<le> count_pending (sf_Entries st)" "list_all entry_ok es"
  shows "state_inv (st\<lparr>sf_Entries := es\<rparr>)"
proof -
  have "length es = length (sf_Entries st)" using assms(2) by (rule map_eq_imp_length_eq)
  then show ?thesis
    using assms seq_mem [OF assms(2), of "\<lambda>s. s \<le> sf_Sequence st"]
    by (simp add: state_inv_def pendingCountLocked_def)
qed

lemma state_inv_trim:
  assumes "count_pending (sf_Entries st) \<le> MaxPending" "list_all entry_ok (sf_Entries st)"
    and "sorted_wrt (<) (map entry_seq (sf_Entries st))" "\<forall>e\<in>set (sf_Entries st). entry_seq e \<le> sf_Sequence st"
  shows "state_inv (trimLocked st)"
  using assms trim_facts [of "sf_Entries st"]
    count_split [of "(remove_first_final ^^ (count_final (sf_Entries st) - MaxResults)) (sf_Entries st)"]
  by (auto simp: state_inv_def trimLocked_def pendingCountLocked_def list_all_iff dest: subsetD)

lemma trim_sequence [simp]: "sf_Sequence (trimLocked st) = sf_Sequence st"
  by (simp add: trimLocked_def)

lemma expire_sequence [simp]: "sf_Sequence (fst (expireLocked now st)) = sf_Sequence st"
  by (simp add: expireLocked_def)

lemma state_inv_expire: "state_inv st \<Longrightarrow> state_inv (fst (expireLocked now st))"
  unfolding expireLocked_def fst_conv
  using expire_pending [of now "sf_Entries st"]
  by (intro state_inv_same_seq) (auto simp: state_inv_def list_all_iff expire_entry_ok)

lemma inv_disk: "inv b \<Longrightarrow> \<exists>d. bus_disk b = Some d \<and> state_inv d \<and> sf_Sequence d = sf_Sequence (bus_state b)"
  by (simp add: inv_def)

lemma inv_set_state:
  "inv b \<Longrightarrow> state_inv st \<Longrightarrow> sf_Sequence st = sf_Sequence (bus_state b) \<Longrightarrow> inv (b\<lparr>bus_state := st\<rparr>)"
  by (simp add: inv_def)

lemma inv_persisted: "state_inv st \<Longrightarrow> inv (b\<lparr>bus_state := st, bus_disk := Some st\<rparr>)"
  by (simp add: inv_def)

lemma inv_signal: "inv (signalLocked dev b) \<longleftrightarrow> inv b"
  by (simp add: inv_def)

lemma inv_Subscribe: "inv b \<Longrightarrow> inv (Subscribe dev b)"
  by (simp add: inv_def Subscribe_def)

text \<open>The queue after room has been made for one more command.\<close>

definition room :: "instant \<Rightarrow> stateFile \<Rightarrow> stateFile \<times> bool" where
  "room t st = (if pendingCountLocked st \<ge> MaxPending then dropOldestNormalLocked t st else (st, True))"

lemma room_found:
  assumes "state_inv st" "room t st = (st', True)"
  shows "state_inv st'" "sf_Sequence st' = sf_Sequence st" "count_pending (sf_Entries st') < MaxPending"
proof -
  have "state_inv st' \<and> sf_Sequence st' = sf_Sequence st \<and> count_pending (sf_Entries st') < MaxPending"
  proof (cases "pendingCountLocked st \<ge> MaxPending")
    case True
    then obtain es where es: "drop_oldest_normal t (sf_Entries st) = (es, True)" "st' = st\<lparr>sf_Entries := es\<rparr>"
      using assms(2) by (auto simp: room_def dropOldestNormalLocked_def split: prod.splits)
    note facts = drop_oldest_normal_facts [OF es(1)]
    have "state_inv st'"
      unfolding es(2) using assms(1) facts by (intro state_inv_same_seq) (auto simp: state_inv_def)
    then show ?thesis
      using facts(2) assms(1) by (simp add: es(2) state_inv_def pendingCountLocked_def)
  next
    case False
    with assms show ?thesis by (auto simp: room_def pendingCountLocked_def)
  qed
  then show "state_inv st'" "sf_Sequence st' = sf_Sequence st"
    "count_pending (sf_Entries st') < MaxPending" by blast+
qed

lemma room_not_found: "room t st = (st', False) \<Longrightarrow> st' = st"
  by (auto simp: room_def dropOldestNormalLocked_def split: if_splits prod.splits
      dest: drop_oldest_normal_not_found)

definition published :: "string \<Rightarrow> CommandRequest \<Rightarrow> string \<Rightarrow> instant \<Rightarrow> stateFile \<Rightarrow> Entry" where
  "published dev request cid now st = new_entry (new_command dev request cid now (sf_Sequence st + 1)) now"

definition appended :: "stateFile \<Rightarrow> Entry \<Rightarrow> stateFile" where
  "appended st e = trimLocked \<lparr>sf_Sequence = sf_Sequence st + 1, sf_Entries = sf_Entries st @ [e]\<rparr>"

lemma Publish_cases:
  "Publish dev request t random now ok b =
     (if ValidateCommandRequest request \<noteq> None
      then (Inl (BInvalid (the (ValidateCommandRequest request))), b)
      else case room t (bus_state b) of
        (st, False) \<Rightarrow> (Inl BQueueFull, b\<lparr>bus_state := st\<rparr>)
      | (st, True) \<Rightarrow>
          (case newUUID random of
             None \<Rightarrow> (Inl BRandom, b\<lparr>bus_state := st\<rparr>)
           | Some cid \<Rightarrow>
               if ok then
                 (Inr (published dev request cid now st),
                  signalLocked dev (b\<lparr>bus_state := appended st (published dev request cid now st),
                    bus_disk := Some (appended st (published dev request cid now st))\<rparr>))
               else (Inl BPersist, b)))"
  by (auto simp: Publish_def room_def published_def appended_def persistLocked_def Let_def
      split: option.splits prod.splits bool.splits)

lemma Publish_outcome:
  obtains (refused) e where "Publish dev request t random now ok b = (Inl e, b)"
  | (no_id) st where "room t (bus_state b) = (st, True)"
      "Publish dev request t random now ok b = (Inl BRandom, b\<lparr>bus_state := st\<rparr>)"
  | (stored) st cid where "room t (bus_state b) = (st, True)" "newUUID random = Some cid" "ok"
      "ValidateCommandRequest request = None"
      "Publish dev request t random now ok b =
         (Inr (published dev request cid now st),
          signalLocked dev (b\<lparr>bus_state := appended st (published dev request cid now st),
            bus_disk := Some (appended st (published dev request cid now st))\<rparr>))"
proof (cases "ValidateCommandRequest request")
  case None
  obtain st found where room: "room t (bus_state b) = (st, found)" by (cases "room t (bus_state b)")
  show thesis
  proof (cases found)
    case False
    then have "st = bus_state b" using room room_not_found [of t "bus_state b" st] by simp
    with False room None show thesis by (intro refused [of BQueueFull]) (simp add: Publish_cases)
  next
    case True
    with room have r: "room t (bus_state b) = (st, True)" by simp
    show thesis
    proof (cases "newUUID random")
      case None
      with r \<open>ValidateCommandRequest request = None\<close> show thesis
        by (intro no_id [of st]) (simp_all add: Publish_cases)
    next
      case (Some cid)
      show thesis
      proof (cases ok)
        case True
        with r Some None show thesis by (intro stored [of st cid]) (simp_all add: Publish_cases)
      next
        case False
        with r Some None show thesis by (intro refused [of BPersist]) (simp add: Publish_cases)
      qed
    qed
  qed
qed (simp add: refused [of "BInvalid (the (ValidateCommandRequest request))"] Publish_cases)

lemma state_inv_appended:
  assumes "state_inv st" "count_pending (sf_Entries st) < MaxPending" "unat (sf_Sequence st) < 2 ^ 64 - 1"
  shows "state_inv (appended st (published dev request cid now st))"
proof -
  have less: "sf_Sequence st < sf_Sequence st + 1" using assms(3) by (rule u64_inc_less)
  have "\<forall>e\<in>set (sf_Entries st). entry_seq e < sf_Sequence st + 1"
    using assms(1) less by (auto simp: state_inv_def dest: le_less_trans)
  then show ?thesis
    unfolding appended_def using assms(1,2) less
    by (intro state_inv_trim)
      (auto simp: state_inv_def sorted_wrt_append published_def new_entry_def new_command_def entry_ok_def
        final_entry_def less_imp_le dest: le_less_trans)
qed

lemma inv_Publish:
  assumes "inv b" "unat (sf_Sequence (bus_state b)) < 2 ^ 64 - 1"
  shows "inv (snd (Publish dev request t random now ok b))"
proof (rule Publish_outcome [of dev request t random now ok b])
  have b: "state_inv (bus_state b)" using assms(1) by (simp add: inv_def)
  show "inv (snd (Publish dev request t random now ok b))"
    if "Publish dev request t random now ok b = (Inl e, b)" for e
    using that assms(1) by simp
  show "inv (snd (Publish dev request t random now ok b))"
    if "room t (bus_state b) = (st, True)"
      "Publish dev request t random now ok b = (Inl BRandom, b\<lparr>bus_state := st\<rparr>)" for st
    using that assms(1) room_found [OF b that(1)] by (simp add: inv_set_state)
  show "inv (snd (Publish dev request t random now ok b))"
    if "room t (bus_state b) = (st, True)" and
      "Publish dev request t random now ok b = (Inr (published dev request cid now st),
         signalLocked dev (b\<lparr>bus_state := appended st (published dev request cid now st),
           bus_disk := Some (appended st (published dev request cid now st))\<rparr>))" for st cid
    using that assms(2) room_found [OF b that(1)]
    by (simp add: inv_signal inv_persisted state_inv_appended)
qed

lemma Pending_state:
  "bus_state (snd (Pending dev sent now ok b)) \<in> {bus_state b, fst (expireLocked now (bus_state b))}"
  by (cases "expireLocked now (bus_state b)") (simp add: Pending_def persistLocked_def Let_def)

lemma Get_state:
  "bus_state (snd (Get cid now ok b)) \<in> {bus_state b, fst (expireLocked now (bus_state b))}"
  by (cases "expireLocked now (bus_state b)")
    (simp add: Get_def persistLocked_def Let_def split: option.split)

lemma inv_Pending: "inv b \<Longrightarrow> inv (snd (Pending dev sent now ok b))"
  using state_inv_expire [of "bus_state b" now] inv_disk [of b]
  by (auto simp: Pending_def persistLocked_def Let_def inv_def split: prod.splits)
    (metis expire_sequence fst_conv)+

lemma inv_Get: "inv b \<Longrightarrow> inv (snd (Get cid now ok b))"
  using state_inv_expire [of "bus_state b" now] inv_disk [of b]
  by (auto simp: Get_def persistLocked_def Let_def inv_def split: prod.splits option.splits)
    (metis expire_sequence fst_conv)+

lemma record_result_ok:
  assumes "rs_Status result = CommandAccepted \<or> Final (rs_Status result)"
  shows "entry_ok (record_result result now e)" "entry_seq (record_result result now e) = entry_seq e"
  using assms by (auto simp: record_result_def entry_ok_def final_entry_def Let_def)

lemma count_pending_update:
  "i < length es \<Longrightarrow> \<not> final_entry (es ! i) \<Longrightarrow> count_pending (es[i := e]) \<le> count_pending es"
proof (induction es arbitrary: i)
  case (Cons x es)
  then show ?case by (cases i) auto
qed simp

definition recorded :: "Bus \<Rightarrow> nat \<Rightarrow> CommandResult \<Rightarrow> instant \<Rightarrow> stateFile" where
  "recorded b i result now = trimLocked ((bus_state b)\<lparr>sf_Entries :=
     (sf_Entries (bus_state b))[i := record_result result now (sf_Entries (bus_state b) ! i)]\<rparr>)"

lemma Record_state:
  "snd (Record dev result now ok b) = b \<or>
   (\<exists>i. i < length (sf_Entries (bus_state b)) \<and> \<not> final_entry (sf_Entries (bus_state b) ! i) \<and>
        (rs_Status result = CommandAccepted \<or> Final (rs_Status result)) \<and>
        snd (Record dev result now ok b) = signalLocked (dc_DeviceID (en_Command (sf_Entries (bus_state b) ! i)))
          (b\<lparr>bus_state := recorded b i result now, bus_disk := Some (recorded b i result now)\<rparr>))"
  by (auto simp: Record_def persistLocked_def Let_def recorded_def split: option.split dest: find_entry_Some)

lemma state_inv_recorded:
  assumes "state_inv (bus_state b)" "i < length (sf_Entries (bus_state b))"
    and "\<not> final_entry (sf_Entries (bus_state b) ! i)"
    and "rs_Status result = CommandAccepted \<or> Final (rs_Status result)"
  shows "state_inv (recorded b i result now)"
proof -
  let ?es = "sf_Entries (bus_state b)"
  let ?e = "record_result result now (?es ! i)"
  have seq: "map entry_seq (?es[i := ?e]) = map entry_seq ?es"
    using assms(2) record_result_ok(2) [OF assms(4)]
    by (simp add: map_update list_update_same_conv)
  have "list_all entry_ok (?es[i := ?e])"
    using assms(1) record_result_ok(1) [OF assms(4)] set_update_subset_insert [of ?es i ?e]
    by (auto simp: state_inv_def list_all_iff)
  moreover have "count_pending (?es[i := ?e]) \<le> count_pending ?es"
    using assms(2,3) by (rule count_pending_update)
  ultimately have "state_inv ((bus_state b)\<lparr>sf_Entries := ?es[i := ?e]\<rparr>)"
    using assms(1) seq by (intro state_inv_same_seq)
  then show ?thesis
    unfolding recorded_def by (intro state_inv_trim) (simp_all add: state_inv_def pendingCountLocked_def)
qed

lemma inv_Record: "inv b \<Longrightarrow> inv (snd (Record dev result now ok b))"
  using Record_state [of dev result now ok b] state_inv_recorded [of b]
  by (auto simp: inv_signal inv_persisted inv_def [of b])

lemma inv_Open:
  assumes "Open dir_ok rename_ok chmod_ok persist_ok outcome = Inr b"
    and "\<And>st. outcome = Content (Some st) \<Longrightarrow> state_inv st"
  shows "inv b"
  using assms
  by (auto simp: Open_def persistLocked_def inv_def Let_def split: if_splits read_outcome.splits option.splits)

section \<open>The queue as a machine\<close>

text \<open>
  A life of the queue, restarts included: a restart reads back the state file, and when \<open>Open\<close> fails
  the process does not come up.
\<close>

datatype bus_op =
    OpPublish string CommandRequest instant "nat list option" instant bool
  | OpPending string "string set" instant bool
  | OpRecord string CommandResult instant bool
  | OpGet string instant bool
  | OpSubscribe string
  | OpRestart bool bool bool

fun bus_step :: "Bus \<Rightarrow> bus_op \<Rightarrow> Bus" where
  "bus_step b (OpPublish dev request t random now ok) = snd (Publish dev request t random now ok b)"
| "bus_step b (OpPending dev sent now ok) = snd (Pending dev sent now ok b)"
| "bus_step b (OpRecord dev result now ok) = snd (Record dev result now ok b)"
| "bus_step b (OpGet cid now ok) = snd (Get cid now ok b)"
| "bus_step b (OpSubscribe dev) = Subscribe dev b"
| "bus_step b (OpRestart rename_ok chmod_ok persist_ok) =
     (case Open True rename_ok chmod_ok persist_ok
             (case bus_disk b of None \<Rightarrow> NotExist | Some d \<Rightarrow> Content (Some d)) of
        Inl _ \<Rightarrow> b | Inr b' \<Rightarrow> b')"

fun is_restart :: "bus_op \<Rightarrow> bool" where
  "is_restart (OpRestart _ _ _) = True"
| "is_restart _ = False"

text \<open>A restart never finds the file too long, so it continues with what was persisted.\<close>

lemma restart_reads_back:
  assumes "inv b" "bus_disk b = Some d"
  shows "Open True rename_ok chmod_ok persist_ok (Content (Some d)) =
    (if chmod_ok then Inr \<lparr>bus_state = d, bus_disk = Some d, bus_notify = []\<rparr> else Inl BStorage)"
  using assms by (simp add: Open_def inv_def state_inv_def)

lemma inv_restart: "inv b \<Longrightarrow> inv (bus_step b (OpRestart r c p))"
proof -
  assume b: "inv b"
  then obtain d where d: "bus_disk b = Some d" "state_inv d" using inv_disk [of b] by auto
  then have "inv \<lparr>bus_state = d, bus_disk = Some d, bus_notify = []\<rparr>" by (simp add: inv_def)
  with b d(1) show ?thesis by (simp add: restart_reads_back)
qed

lemma bus_sequence_step:
  assumes "inv b" "unat (sf_Sequence (bus_state b)) < 2 ^ 64 - 1"
  shows "sf_Sequence (bus_state (bus_step b op)) = sf_Sequence (bus_state b) \<or>
    (\<exists>dev request t random now ok e. op = OpPublish dev request t random now ok \<and>
       fst (Publish dev request t random now ok b) = Inr e \<and>
       sf_Sequence (bus_state (bus_step b op)) = sf_Sequence (bus_state b) + 1)"
proof (cases op)
  case (OpPublish dev request t random now ok)
  have b: "state_inv (bus_state b)" using assms(1) by (simp add: inv_def)
  show ?thesis
  proof (rule Publish_outcome [of dev request t random now ok b])
    fix e assume "Publish dev request t random now ok b = (Inl e, b)"
    then show ?thesis by (simp add: OpPublish)
  next
    fix st assume "room t (bus_state b) = (st, True)"
      "Publish dev request t random now ok b = (Inl BRandom, b\<lparr>bus_state := st\<rparr>)"
    with room_found(2) [OF b] show ?thesis by (simp add: OpPublish)
  next
    fix st cid assume "room t (bus_state b) = (st, True)"
      and "Publish dev request t random now ok b =
         (Inr (published dev request cid now st),
          signalLocked dev (b\<lparr>bus_state := appended st (published dev request cid now st),
            bus_disk := Some (appended st (published dev request cid now st))\<rparr>))"
    with room_found(2) [OF b] show ?thesis by (auto simp: OpPublish appended_def)
  qed
next
  case (OpPending dev sent now ok)
  then show ?thesis using Pending_state [of dev sent now ok b] by auto
next
  case (OpGet cid now ok)
  then show ?thesis using Get_state [of cid now ok b] by auto
next
  case (OpRecord dev result now ok)
  then show ?thesis
    using Record_state [of dev result now ok b] by (auto simp: recorded_def)
next
  case (OpSubscribe dev)
  then show ?thesis by (simp add: Subscribe_def)
next
  case (OpRestart r c p)
  then show ?thesis using inv_disk [OF assms(1)] assms(1) by (auto simp: restart_reads_back)
qed

interpretation bus: budget_machine bus_step inv "\<lambda>op. True" "\<lambda>b. unat (sf_Sequence (bus_state b))" "2 ^ 64 - 1"
proof
  fix b op
  assume b: "inv b" and lt: "unat (sf_Sequence (bus_state b)) < 2 ^ 64 - 1"
  show "inv (bus_step b op)"
  proof (cases op)
    case (OpRestart r c p)
    with b show ?thesis using inv_restart by simp
  qed (use b lt in \<open>simp_all add: inv_Publish inv_Pending inv_Get inv_Record inv_Subscribe\<close>)
  show "unat (sf_Sequence (bus_state b)) \<le> unat (sf_Sequence (bus_state (bus_step b op))) \<and>
      unat (sf_Sequence (bus_state (bus_step b op))) \<le> Suc (unat (sf_Sequence (bus_state b)))"
    using bus_sequence_step [OF b lt, of op] u64_inc_unat [OF lt] by auto
qed

interpretation life: budget_machine bus_step inv "\<lambda>op. \<not> is_restart op"
  "\<lambda>b. unat (sf_Sequence (bus_state b))" "2 ^ 64 - 1"
  using bus.step_inv bus.step_counter by unfold_locales blast+

section \<open>How entries evolve\<close>

text \<open>
  Every entry of the later queue is newer than the earlier queue, or descends from an entry of the
  earlier queue with its sequence number: unchanged if that was final, and never back to published.
\<close>

definition descends :: "Entry \<Rightarrow> Entry \<Rightarrow> bool" where
  "descends e e' \<longleftrightarrow> entry_seq e = entry_seq e' \<and> (final_entry e \<longrightarrow> e' = e) \<and>
     (rs_Status (en_Result e') = CommandPublished \<longrightarrow> rs_Status (en_Result e) = CommandPublished)"

definition evolves :: "stateFile \<Rightarrow> stateFile \<Rightarrow> bool" where
  "evolves st st' \<longleftrightarrow> sf_Sequence st \<le> sf_Sequence st' \<and>
     (\<forall>e'\<in>set (sf_Entries st'). sf_Sequence st < entry_seq e' \<or> (\<exists>e\<in>set (sf_Entries st). descends e e'))"

lemma descends_refl [simp]: "descends e e"
  by (simp add: descends_def)

lemma descends_trans: "descends e e' \<Longrightarrow> descends e' e'' \<Longrightarrow> descends e e''"
  by (auto simp: descends_def)

lemma descends_mem: "e \<in> A \<Longrightarrow> \<exists>x\<in>A. descends x e"
  by (rule bexI [of _ e]) simp_all

lemma evolves_refl [simp]: "evolves st st"
  by (simp add: evolves_def descends_mem)

lemma evolves_trans:
  assumes "evolves s t" "evolves t u"
  shows "evolves s u"
  unfolding evolves_def
proof (intro conjI ballI)
  show "sf_Sequence s \<le> sf_Sequence u" using assms by (auto simp: evolves_def)
  fix e assume "e \<in> set (sf_Entries u)"
  then consider "sf_Sequence t < entry_seq e" | e' where "e' \<in> set (sf_Entries t)" "descends e' e"
    using assms(2) by (auto simp: evolves_def)
  then show "sf_Sequence s < entry_seq e \<or> (\<exists>x\<in>set (sf_Entries s). descends x e)"
  proof cases
    case 1
    with assms(1) show ?thesis by (auto simp: evolves_def dest: le_less_trans)
  next
    case 2
    then consider "sf_Sequence s < entry_seq e'" | x where "x \<in> set (sf_Entries s)" "descends x e'"
      using assms(1) by (auto simp: evolves_def)
    then show ?thesis
    proof cases
      case 1
      with 2(2) show ?thesis by (simp add: descends_def)
    next
      case 2
      with \<open>descends e' e\<close> show ?thesis by (blast intro: descends_trans)
    qed
  qed
qed

lemma evolves_pointwise:
  assumes "\<And>e. descends e (f e)"
  shows "evolves st (st\<lparr>sf_Entries := map f (sf_Entries st)\<rparr>)"
  using assms by (auto simp: evolves_def)

lemma evolves_trim [simp]: "evolves st (trimLocked st)"
  unfolding evolves_def trimLocked_def
  using subsetD [OF trim_facts(3) [of "sf_Entries st"]] by (simp add: descends_mem)

lemma descends_close:
  "\<not> final_entry e \<Longrightarrow> Final status \<Longrightarrow> descends e (close_entry status errcode now ms e)"
  by (auto simp: descends_def close_entry_def)

lemma evolves_expire: "evolves st (fst (expireLocked now st))"
  unfolding expireLocked_def fst_conv
proof (rule evolves_pointwise)
  fix e show "descends e ((fst \<circ> expire_entry now) e)"
    by (auto simp: expire_entry_def Let_def intro!: descends_close) (auto simp: final_entry_def)
qed

lemma evolves_drop:
  assumes "room t st = (st', True)"
  shows "evolves st st'"
proof (cases "pendingCountLocked st \<ge> MaxPending")
  case True
  then obtain es where es: "drop_oldest_normal t (sf_Entries st) = (es, True)" "st' = st\<lparr>sf_Entries := es\<rparr>"
    using assms by (auto simp: room_def dropOldestNormalLocked_def split: prod.splits)
  then obtain xs e ys where "sf_Entries st = xs @ e # ys"
    "es = xs @ close_entry CommandFailed ''overflow'' t (rs_DurationMS (en_Result e)) e # ys"
    "rs_Status (en_Result e) = CommandPublished"
    using drop_oldest_normal_found by blast
  moreover from this have "\<not> final_entry e" by (simp add: final_entry_def)
  moreover from this have "descends e (close_entry CommandFailed ''overflow'' t (rs_DurationMS (en_Result e)) e)"
    by (simp add: descends_close)
  ultimately show ?thesis
    using descends_mem [of _ "insert e (set xs \<union> set ys)"] by (auto simp: evolves_def es(2))
qed (use assms in \<open>auto simp: room_def\<close>)

lemma evolves_step:
  assumes "inv b" "\<not> is_restart op" "unat (sf_Sequence (bus_state b)) < 2 ^ 64 - 1"
  shows "evolves (bus_state b) (bus_state (bus_step b op))"
proof (cases op)
  case (OpPublish dev request t random now ok)
  have b: "state_inv (bus_state b)" using assms(1) by (simp add: inv_def)
  show ?thesis
  proof (rule Publish_outcome [of dev request t random now ok b])
    fix st cid assume room: "room t (bus_state b) = (st, True)"
      and out: "Publish dev request t random now ok b =
         (Inr (published dev request cid now st),
          signalLocked dev (b\<lparr>bus_state := appended st (published dev request cid now st),
            bus_disk := Some (appended st (published dev request cid now st))\<rparr>))"
    have "sf_Sequence st < sf_Sequence st + 1"
      using room_found(2) [OF b room] assms(3) by (intro u64_inc_less) simp
    then have "evolves st \<lparr>sf_Sequence = sf_Sequence st + 1,
        sf_Entries = sf_Entries st @ [published dev request cid now st]\<rparr>"
      by (auto simp: evolves_def published_def new_entry_def new_command_def intro: descends_refl)
    then have "evolves st (appended st (published dev request cid now st))"
      unfolding appended_def by (rule evolves_trans) simp
    with evolves_drop [OF room] have "evolves (bus_state b) (appended st (published dev request cid now st))"
      by (rule evolves_trans)
    then show ?thesis by (simp add: OpPublish out)
  qed (auto simp: OpPublish intro: evolves_drop)
next
  case (OpPending dev sent now ok)
  then show ?thesis using Pending_state [of dev sent now ok b] evolves_expire [of "bus_state b" now] by auto
next
  case (OpGet cid now ok)
  then show ?thesis using Get_state [of cid now ok b] evolves_expire [of "bus_state b" now] by auto
next
  case (OpRecord dev result now ok)
  have "evolves (bus_state b) (recorded b i result now)"
    if "i < length (sf_Entries (bus_state b))" "\<not> final_entry (sf_Entries (bus_state b) ! i)"
      "rs_Status result = CommandAccepted \<or> Final (rs_Status result)" for i
  proof -
    let ?e = "record_result result now (sf_Entries (bus_state b) ! i)"
    have "descends (sf_Entries (bus_state b) ! i) ?e"
      using that(2,3) by (auto simp: descends_def record_result_def Let_def)
    moreover have "set ((sf_Entries (bus_state b))[i := ?e]) \<subseteq> insert ?e (set (sf_Entries (bus_state b)))"
      by (rule set_update_subset_insert)
    ultimately have "evolves (bus_state b) ((bus_state b)\<lparr>sf_Entries := (sf_Entries (bus_state b))[i := ?e]\<rparr>)"
      using that(1) by (fastforce simp: evolves_def)
    then show ?thesis unfolding recorded_def by (rule evolves_trans) simp
  qed
  with OpRecord Record_state [of dev result now ok b] show ?thesis by auto
next
  case (OpSubscribe dev)
  then show ?thesis by (simp add: Subscribe_def)
qed (use assms(2) in simp)

lemma evolves_run:
  assumes "inv b" "list_all (\<lambda>op. \<not> is_restart op) ops"
    and "unat (sf_Sequence (bus_state b)) + length ops < 2 ^ 64"
  shows "evolves (bus_state b) (bus_state (run bus_step b ops))"
  using assms(1,2)
proof (rule life.run_relation [where R = "\<lambda>b b'. evolves (bus_state b) (bus_state b')"])
  show "unat (sf_Sequence (bus_state b)) + length ops \<le> 2 ^ 64 - 1" using assms(3) by simp
qed (auto intro: evolves_trans evolves_step)

text \<open>Entries are told apart by their sequence number.\<close>

lemma entry_by_seq:
  assumes "state_inv st" "e \<in> set (sf_Entries st)" "e' \<in> set (sf_Entries st)" "entry_seq e = entry_seq e'"
  shows "e = e'"
proof -
  have "distinct (map entry_seq (sf_Entries st))"
    using assms(1) by (auto simp: state_inv_def strict_sorted_iff)
  then show ?thesis using assms(2-4) by (auto simp: distinct_map dest: inj_onD)
qed

section \<open>Properties\<close>

lemma inv_opened: "Open dir_ok r c p NotExist = Inr b \<Longrightarrow> inv b \<and> sf_Sequence (bus_state b) = 0"
  by (auto simp: Open_def persistLocked_def inv_def Let_def split: if_splits option.splits)

definition example_bus :: Bus where
  "example_bus = \<lparr>bus_state = empty_state, bus_disk = Some empty_state, bus_notify = []\<rparr>"

lemma example_bus_opened: "Open True True True True NotExist = Inr example_bus"
  by (simp add: Open_def persistLocked_def example_bus_def Let_def)

lemma inv_example_bus: "inv example_bus"
  using inv_opened [OF example_bus_opened] by blast

text \<open>
  C3. The queue is bounded whatever is done with it, restarts included: at most 64 commands wait, at
  most 320 entries are kept, sequence numbers increase along the queue, and the state file is never so
  long that a restart would throw it away.
\<close>

theorem queue_bounded:
  assumes "Open dir_ok r c p NotExist = Inr b" "length ops < 2 ^ 64"
  shows "pendingCountLocked (bus_state (run bus_step b ops)) \<le> 64 \<and>
    length (sf_Entries (bus_state (run bus_step b ops))) \<le> 320 \<and>
    sorted_wrt (<) (map entry_seq (sf_Entries (bus_state (run bus_step b ops)))) \<and>
    (\<exists>d. bus_disk (run bus_step b ops) = Some d \<and>
       Open True r' True p' (Content (Some d)) = Inr \<lparr>bus_state = d, bus_disk = Some d, bus_notify = []\<rparr>)"
proof -
  have inv: "inv (run bus_step b ops)"
    using inv_opened [OF assms(1)] assms(2) by (intro bus.run_inv) (auto simp: list_all_iff)
  then obtain d where d: "bus_disk (run bus_step b ops) = Some d" using inv_disk by blast
  note restart_reads_back [OF inv d, of r' True p']
  with inv d show ?thesis by (auto simp: inv_def state_inv_def MaxPending_def MaxResults_def)
qed

theorem queue_bounded_witness:
  "pendingCountLocked (bus_state (run bus_step example_bus [OpGet ''x'' 3 True, OpRestart True True True])) \<le> 64"
  using queue_bounded [OF example_bus_opened, of "[OpGet ''x'' 3 True, OpRestart True True True]"] by simp

text \<open>
  C4. Sequence numbers are never reused: of two published commands the later one has the greater
  number, whatever happened in between, restarts of the daemon included.
\<close>

theorem sequence_never_reused:
  assumes "inv b" "unat (sf_Sequence (bus_state b)) + length ops + 2 < 2 ^ 64"
    and "Publish dev1 request1 t1 random1 now1 ok1 b = (Inr e1, b1)"
    and "Publish dev2 request2 t2 random2 now2 ok2 (run bus_step b1 ops) = (Inr e2, b2)"
  shows "entry_seq e1 < entry_seq e2"
proof -
  have seq: "entry_seq e = sf_Sequence (bus_state s) + 1 \<and> sf_Sequence (bus_state s') = sf_Sequence (bus_state s) + 1"
    if "inv s" "Publish dev request t random now ok s = (Inr e, s')" for s s' dev request t random now ok e
  proof (rule Publish_outcome [of dev request t random now ok s])
    fix st cid assume room: "room t (bus_state s) = (st, True)" and
      "Publish dev request t random now ok s = (Inr (published dev request cid now st),
         signalLocked dev (s\<lparr>bus_state := appended st (published dev request cid now st),
           bus_disk := Some (appended st (published dev request cid now st))\<rparr>))"
    with that(2) have e: "e = published dev request cid now st" and
      s': "bus_state s' = appended st (published dev request cid now st)" by auto
    have "state_inv (bus_state s)" using that(1) by (simp add: inv_def)
    from room_found(2) [OF this room] show ?thesis
      by (simp add: e s' published_def new_entry_def new_command_def appended_def)
  qed (use that(2) in auto)
  have b1: "inv b1" using inv_Publish [OF assms(1), of dev1 request1 t1 random1 now1 ok1] assms(2,3) by simp
  have bound: "unat (sf_Sequence (bus_state b1)) = unat (sf_Sequence (bus_state b)) + 1"
    using seq [OF assms(1,3)] assms(2) u64_inc_unat [of "sf_Sequence (bus_state b)"] by simp
  have mid: "inv (run bus_step b1 ops)"
    "unat (sf_Sequence (bus_state b1)) \<le> unat (sf_Sequence (bus_state (run bus_step b1 ops)))"
    "unat (sf_Sequence (bus_state (run bus_step b1 ops))) \<le> unat (sf_Sequence (bus_state b1)) + length ops"
    using bus.run_inv_counter [OF b1, of ops] bound assms(2) by (auto simp: list_all_iff)
  have "unat (sf_Sequence (bus_state (run bus_step b1 ops))) < 2 ^ 64 - 1"
    using mid(3) bound assms(2) by simp
  then have "sf_Sequence (bus_state (run bus_step b1 ops)) < entry_seq e2"
    using seq [OF mid(1) assms(4)] u64_inc_less by simp
  moreover have "entry_seq e1 = sf_Sequence (bus_state b1)" using seq [OF assms(1,3)] by simp
  ultimately show ?thesis using mid(2) by (simp add: word_less_nat_alt)
qed

definition example_request :: CommandRequest where
  "example_request = \<lparr>cr_Kind = CommandSetBrightness, cr_Params = requote ''{`level`:40}'',
     cr_Priority = PriorityNormal, cr_TTLSeconds = 30\<rparr>"

lemma example_request_valid: "ValidateCommandRequest example_request = None"
  by (simp add: ValidateCommandRequest_None example_request_def example_command_params CommandKind_valid_def
      defaultPriority_def)

definition example_random :: "nat list option" where
  "example_random = Some [0, 0, 0, 0, 0, 0, 0, 0, 0, 0, 0, 0, 0, 0, 0, 0]"

lemma list_update_Cons_pos: "0 < n \<Longrightarrow> (x # xs)[n := y] = x # xs[n - 1 := y]"
  by (cases n) simp_all

lemma hex_digit_simps [simp]:
  "hex_digit 0 = CHR ''0''" "hex_digit 4 = CHR ''4''" "hex_digit 8 = CHR ''8''" "hex_digit 9 = CHR ''9''"
  "hex_digit 10 = CHR ''a''" "hex_digit 11 = CHR ''b''"
  by code_simp+

lemma example_uuid: "newUUID example_random = Some ''00000000-0000-4000-8000-000000000000''"
  by (simp add: newUUID_def example_random_def hex_encode_def Let_def list_update_Cons_pos)

definition example_published :: "instant \<Rightarrow> u64 \<Rightarrow> Entry" where
  "example_published now n = new_entry (new_command ''d'' example_request
     ''00000000-0000-4000-8000-000000000000'' now n) now"

lemma example_publish:
  assumes "count_pending (sf_Entries (bus_state b)) < 64"
  shows "\<exists>b'. Publish ''d'' example_request t example_random now True b =
    (Inr (example_published now (sf_Sequence (bus_state b) + 1)), b') \<and>
    bus_state b' = appended (bus_state b) (example_published now (sf_Sequence (bus_state b) + 1))"
  using assms
  by (simp add: Publish_cases example_request_valid room_def pendingCountLocked_def MaxPending_def
      example_uuid published_def example_published_def)

theorem sequence_never_reused_witness: "entry_seq (example_published 5 1) < entry_seq (example_published 6 2)"
proof -
  obtain b1 where b1: "Publish ''d'' example_request 0 example_random 5 True example_bus =
      (Inr (example_published 5 1), b1)" "bus_state b1 = appended empty_state (example_published 5 1)"
    using example_publish [of example_bus 0 5] by (auto simp: example_bus_def empty_state_def)
  have "count_pending (sf_Entries (bus_state b1)) < 64 \<and> sf_Sequence (bus_state b1) = 1"
    by (simp add: b1(2) appended_def trimLocked_def count_final_def MaxResults_def example_published_def
        new_entry_def final_entry_def Final_def empty_state_def)
  then obtain b2 where b2: "Publish ''d'' example_request 0 example_random 6 True (run bus_step b1 []) =
      (Inr (example_published 6 2), b2)"
    using example_publish [of b1 0 6] by auto
  show ?thesis
    using b1(1) b2 by (rule sequence_never_reused [OF inv_example_bus, of "[]", rotated])
      (simp add: example_bus_def)
qed

text \<open>
  C5. A final result is final: within one life of the daemon an entry that has ended keeps its result
  for as long as it is kept; no later answer, expiry or overflow touches it.
\<close>

theorem final_result_stays:
  assumes "inv b" "list_all (\<lambda>op. \<not> is_restart op) ops"
    and "unat (sf_Sequence (bus_state b)) + length ops < 2 ^ 64"
    and "e \<in> set (sf_Entries (bus_state b))" "final_entry e"
    and "e' \<in> set (sf_Entries (bus_state (run bus_step b ops)))" "entry_seq e' = entry_seq e"
  shows "e' = e"
proof -
  have b: "state_inv (bus_state b)" using assms(1) by (simp add: inv_def)
  have "entry_seq e' \<le> sf_Sequence (bus_state b)"
    using b assms(4,7) by (auto simp: state_inv_def)
  then obtain x where x: "x \<in> set (sf_Entries (bus_state b))" "descends x e'"
    using evolves_run [OF assms(1-3)] assms(6) by (auto simp: evolves_def)
  then have "x = e" using entry_by_seq [OF b x(1) assms(4)] assms(7) by (simp add: descends_def)
  with x(2) assms(5) show ?thesis by (simp add: descends_def)
qed

text \<open>
  C18. The text of a message is not kept: once a command has ended, its stored parameters, in memory
  and in the state file alike, are an empty object or a length, a digest, a severity and a duration.
\<close>

theorem message_text_not_kept:
  assumes "Open dir_ok r c p NotExist = Inr b" "length ops < 2 ^ 64"
    and "st = bus_state (run bus_step b ops) \<or> Some st = bus_disk (run bus_step b ops)"
    and "e \<in> set (sf_Entries st)" "final_entry e"
  shows "is_redacted (dc_Params (en_Command e))"
proof -
  have "inv (run bus_step b ops)"
    using inv_opened [OF assms(1)] assms(2) by (intro bus.run_inv) (auto simp: list_all_iff)
  with assms(3) have "state_inv st" by (auto simp: inv_def)
  with assms(4) have "entry_ok e" by (auto simp: state_inv_def list_all_iff)
  with assms(5) show ?thesis by (auto simp: entry_ok_def final_entry_def)
qed

text \<open>
  When the queue is full only the oldest normal command that no device has accepted gives way:
  publishing leaves every waiting command of higher priority, and every accepted one, as it was.
\<close>

theorem overflow_spares:
  assumes "e \<in> set (sf_Entries (bus_state b))" "\<not> final_entry e"
    and "dc_Priority (en_Command e) \<noteq> PriorityNormal \<or> rs_Status (en_Result e) \<noteq> CommandPublished"
  shows "e \<in> set (sf_Entries (bus_state (snd (Publish dev request t random now ok b))))"
proof -
  have kept: "e \<in> set (sf_Entries st)" if room: "room t (bus_state b) = (st, True)" for st
  proof (cases "pendingCountLocked (bus_state b) \<ge> MaxPending")
    case True
    then obtain es where es: "drop_oldest_normal t (sf_Entries (bus_state b)) = (es, True)"
      "st = (bus_state b)\<lparr>sf_Entries := es\<rparr>"
      using room by (auto simp: room_def dropOldestNormalLocked_def split: prod.splits)
    with drop_oldest_normal_found [OF es(1)] assms(1,3) show ?thesis by auto
  qed (use room assms(1) in \<open>auto simp: room_def\<close>)
  have trim: "e \<in> set (sf_Entries (appended st x))" if "e \<in> set (sf_Entries st)" for st x
  proof -
    have pow: "filter (\<lambda>e. \<not> final_entry e) ((remove_first_final ^^ k) es) = filter (\<lambda>e. \<not> final_entry e) es"
      for k es
    proof (induction k)
      case (Suc k)
      have "filter (\<lambda>e. \<not> final_entry e) (remove_first_final xs) = filter (\<lambda>e. \<not> final_entry e) xs" for xs
        by (induction xs) auto
      with Suc show ?case by simp
    qed simp
    have "e \<in> set (filter (\<lambda>e. \<not> final_entry e) (sf_Entries (appended st x)))"
      using that assms(2) by (simp only: appended_def trimLocked_def stateFile.simps pow) simp
    then show ?thesis by simp
  qed
  show ?thesis
    by (rule Publish_outcome [of dev request t random now ok b]) (simp_all add: assms(1) kept trim)
qed

lemma hex_digits_lower: "list_all is_hex_lower (hex_encode bs)" if "\<forall>b\<in>set bs. b < 256"
proof -
  have "is_hex_char = is_hex_lower" by (auto simp: is_hex_char_def is_hex_lower_def)
  with hex_encode_hex [OF that] show ?thesis by simp
qed

lemma hex_digit_lower: "n < 16 \<Longrightarrow> is_hex_lower (hex_digit n)"
  using hex_digit_hex [of n] by (simp add: is_hex_char_def is_hex_lower_def)

lemma validUUID_parts:
  assumes "length a = 8" "length b = 4" "length c = 4" "length d = 4" "length e = 12"
    and "list_all is_hex_lower (a @ b @ c @ d @ e)" "hd c = CHR ''4''" "hd d \<in> set ''89ab''"
  shows "validUUID (a @ ''-'' @ b @ ''-'' @ c @ ''-'' @ d @ ''-'' @ e)" (is "validUUID ?u")
proof -
  note len = assms(1-5)
  have at: "i < 8 \<Longrightarrow> ?u ! i = a ! i" "?u ! 8 = CHR ''-''" "j < 4 \<Longrightarrow> ?u ! (9 + j) = b ! j"
    "?u ! 13 = CHR ''-''" "j < 4 \<Longrightarrow> ?u ! (14 + j) = c ! j" "?u ! 18 = CHR ''-''"
    "j < 4 \<Longrightarrow> ?u ! (19 + j) = d ! j" "?u ! 23 = CHR ''-''" "k < 12 \<Longrightarrow> ?u ! (24 + k) = e ! k"
    for i j k
    by (simp_all add: nth_append len)
  have parts: "list_all is_hex_lower a" "list_all is_hex_lower b" "list_all is_hex_lower c"
    "list_all is_hex_lower d" "list_all is_hex_lower e" using assms(6) by simp_all
  have hex: "i < 8 \<Longrightarrow> is_hex_lower (a ! i)" "j < 4 \<Longrightarrow> is_hex_lower (b ! j)"
    "j < 4 \<Longrightarrow> is_hex_lower (c ! j)" "j < 4 \<Longrightarrow> is_hex_lower (d ! j)"
    "k < 12 \<Longrightarrow> is_hex_lower (e ! k)" for i j k
    using parts by (simp_all add: list_all_length len)
  have cells: "if i \<in> {8, 13, 18, 23} then ?u ! i = CHR ''-'' else is_hex_lower (?u ! i)" if "i < 36" for i
  proof -
    have "is_hex_lower (?u ! i)" if "i < 8" for i using at(1) [OF that] hex(1) [OF that] by simp
    moreover have "is_hex_lower (?u ! i)" if "9 \<le> i" "i < 13" for i
      using that at(3) [of "i - 9"] hex(2) [of "i - 9"] by simp
    moreover have "is_hex_lower (?u ! i)" if "14 \<le> i" "i < 18" for i
      using that at(5) [of "i - 14"] hex(3) [of "i - 14"] by simp
    moreover have "is_hex_lower (?u ! i)" if "19 \<le> i" "i < 23" for i
      using that at(7) [of "i - 19"] hex(4) [of "i - 19"] by simp
    moreover have "is_hex_lower (?u ! i)" if "24 \<le> i" "i < 36" for i
      using that at(9) [of "i - 24"] hex(5) [of "i - 24"] by simp
    moreover have "i < 8 \<or> i = 8 \<or> 9 \<le> i \<and> i < 13 \<or> i = 13 \<or> 14 \<le> i \<and> i < 18 \<or> i = 18 \<or>
        19 \<le> i \<and> i < 23 \<or> i = 23 \<or> 24 \<le> i" by linarith
    ultimately show ?thesis using that at(2,4,6,8) by (elim disjE) (simp_all only: insert_iff refl if_True simp_thms, auto)
  qed
  have "\<forall>i\<in>set [0..<36]. if i \<in> {8, 13, 18, 23} then ?u ! i = CHR ''-'' else is_hex_lower (?u ! i)"
  proof
    fix i :: nat assume "i \<in> set [0..<36]"
    then have "i < 36" by (simp only: set_upt atLeastLessThan_iff)
    then show "if i \<in> {8, 13, 18, 23} then ?u ! i = CHR ''-'' else is_hex_lower (?u ! i)" by (rule cells)
  qed
  moreover have "?u ! 14 = CHR ''4''" "?u ! 19 \<in> set ''89ab''"
    using at(5) [of 0] at(7) [of 0] assms(7,8) len by (simp_all add: hd_conv_nth flip: length_0_conv)
  moreover have "length ?u = 36" using len by simp
  ultimately show ?thesis
    unfolding validUUID_def by (intro conjI)
qed

lemma newUUID_valid:
  assumes "newUUID (Some v) = Some u" "length v = 16" "\<forall>b\<in>set v. b < 256"
  shows "validUUID u"
proof -
  define w where "w = v[6 := v ! 6 mod 16 + 0x40, 8 := v ! 8 mod 64 + 0x80]"
  define raw where "raw = hex_encode w"
  have len: "length raw = 32" using assms(2) by (simp add: raw_def w_def)
  have bytes: "\<forall>b\<in>set w. b < 256"
  proof -
    have "v ! 6 mod 16 + 0x40 < 256" "v ! 8 mod 64 + 0x80 < 256" by presburger+
    with assms(3) show ?thesis
      unfolding w_def by (auto dest!: subsetD [OF set_update_subset_insert])
  qed
  have nth: "raw ! (2 * i) = hex_digit (w ! i div 16)" if "i < 16" for i
  proof -
    have "i < length xs \<Longrightarrow> hex_encode xs ! (2 * i) = hex_digit (xs ! i div 16)" for xs
      by (induction xs arbitrary: i) (auto simp: hex_encode_def nth_Cons' less_Suc_eq_0_disj)
    with that assms(2) show ?thesis by (simp add: raw_def w_def)
  qed
  have "w ! 6 div 16 = 4" "w ! 8 div 16 \<in> {8, 9, 10, 11}"
    using assms(2) by (auto simp: w_def) presburger?
  then have "raw ! 12 = CHR ''4''" "raw ! 16 \<in> set ''89ab''"
    using nth [of 6] nth [of 8] by auto
  moreover have "list_all is_hex_lower raw" using hex_digits_lower [OF bytes] by (simp add: raw_def)
  moreover have "u = take 8 raw @ ''-'' @ take 4 (drop 8 raw) @ ''-'' @ take 4 (drop 12 raw) @ ''-'' @
      take 4 (drop 16 raw) @ ''-'' @ drop 20 raw"
    using assms(1) by (simp add: newUUID_def w_def raw_def Let_def)
  ultimately show ?thesis
    using len by (simp only:, intro validUUID_parts)
      (auto simp: list_all_iff hd_drop_conv_nth dest: in_set_takeD in_set_dropD)
qed

lemma Publish_done:
  assumes "Publish dev request t random now ok b = (Inr e, b')"
  obtains st cid where "room t (bus_state b) = (st, True)" "newUUID random = Some cid" "ok"
    "ValidateCommandRequest request = None" "e = published dev request cid now st"
    "bus_state b' = appended st e" "bus_disk b' = Some (appended st e)"
  using assms by (cases rule: Publish_outcome [of dev request t random now ok b]) auto

lemma published_command_valid:
  assumes "Publish dev request t (Some random) now ok b = (Inr e, b')" "inv b"
    and "unat (sf_Sequence (bus_state b)) < 2 ^ 64 - 1"
    and "length random = 16" "\<forall>x\<in>set random. x < 256"
    and "safeCommandID dev" "0 < now"
    and "now - 30 * second \<le> later" "later < now + cr_TTLSeconds request * second"
  shows "DisplayCommand_Validate (en_Command e) later = None"
proof -
  obtain st cid where pub: "room t (bus_state b) = (st, True)" "newUUID (Some random) = Some cid"
    "ValidateCommandRequest request = None" "e = published dev request cid now st"
    using assms(1) by (rule Publish_done)
  have "state_inv (bus_state b)" using assms(2) by (simp add: inv_def)
  from room_found(2) [OF this pub(1)] have "sf_Sequence st + 1 \<noteq> 0"
    using u64_inc_unat [OF assms(3)] by auto
  moreover have "validUUID cid" using pub(2) assms(4,5) by (rule newUUID_valid)
  moreover have "5 \<le> cr_TTLSeconds request" "cr_TTLSeconds request \<le> 300"
    using pub(3) by (simp_all add: ValidateCommandRequest_None)
  ultimately show ?thesis
    using pub(3) assms(6-9)
    by (simp add: DisplayCommand_Validate_None ValidateCommandRequest_None pub(4) published_def new_entry_def
        new_command_def CommandSchemaMajor_def second_def minute_def)
qed

text \<open>
  C6. What the daemon publishes the display accepts: a command published for a device with a safe
  identifier, from a request with parameters, passes the display's validation from thirty seconds
  before it was issued until it expires.
\<close>

theorem published_command_accepted:
  assumes "Publish dev request t (Some random) now ok b = (Inr e, b')" "inv b"
    and "unat (sf_Sequence (bus_state b)) < 2 ^ 64 - 1"
    and "length random = 16" "\<forall>x\<in>set random. x < 256"
    and "safeCommandID dev" "cr_Params request \<noteq> []" "0 < now"
    and "now - 30 * second \<le> later" "later < now + cr_TTLSeconds request * second"
  shows "DisplayCommand_Validate (en_Command e) later = None"
  using assms(1-6,8-10) by (rule published_command_valid)

theorem published_command_accepted_witness:
  "DisplayCommand_Validate (en_Command (example_published (10 * second) 1)) (20 * second) = None"
proof -
  obtain b' where "Publish ''d'' example_request 0 example_random (10 * second) True example_bus =
      (Inr (example_published (10 * second) 1), b')"
    using example_publish [of example_bus 0 "10 * second"] by (auto simp: example_bus_def empty_state_def)
  then show ?thesis
    unfolding example_random_def
    by (rule published_command_accepted)
      (simp_all add: inv_example_bus [unfolded example_bus_def] example_bus_def safeCommandID_def is_ident_char_def is_lower_def
        example_request_def requote_def second_def)
qed

lemma example_run:
  "\<exists>b'. Publish ''d'' example_request 0 example_random 5 True example_bus = (Inr (example_published 5 1), b') \<and>
     inv b' \<and> bus_state b' = \<lparr>sf_Sequence = 1, sf_Entries = [example_published 5 1]\<rparr>"
proof -
  obtain b' where b': "Publish ''d'' example_request 0 example_random 5 True example_bus =
      (Inr (example_published 5 1), b')" "bus_state b' = appended empty_state (example_published 5 1)"
    using example_publish [of example_bus 0 5] by (auto simp: example_bus_def empty_state_def)
  have "inv b'"
    using inv_Publish [OF inv_example_bus, of "''d''" example_request 0 example_random 5 True] b'(1)
    by (simp add: example_bus_def)
  moreover have "appended empty_state (example_published 5 1) =
      \<lparr>sf_Sequence = 1, sf_Entries = [example_published 5 1]\<rparr>"
    by (simp add: appended_def trimLocked_def count_final_def MaxResults_def example_published_def
        new_entry_def final_entry_def Final_def)
  ultimately show ?thesis using b' by auto
qed

definition example_ended :: Entry where
  "example_ended = close_entry CommandExpired ''expired'' (60 * second) 60000 (example_published 5 1)"

definition example_ended_bus :: Bus where
  "example_ended_bus = \<lparr>bus_state = \<lparr>sf_Sequence = 1, sf_Entries = [example_ended]\<rparr>,
     bus_disk = Some \<lparr>sf_Sequence = 1, sf_Entries = [example_ended]\<rparr>, bus_notify = []\<rparr>"

lemma example_ended_facts: "final_entry example_ended" "entry_ok example_ended" "entry_seq example_ended = 1"
  by (simp_all add: example_ended_def) (simp add: example_published_def new_entry_def new_command_def)

lemma inv_example_ended: "inv example_ended_bus"
  by (simp add: inv_def example_ended_bus_def state_inv_def pendingCountLocked_def example_ended_facts
      MaxPending_def MaxResults_def)

theorem final_result_stays_witness:
  "sf_Entries (bus_state (run bus_step example_ended_bus [OpGet ''x'' 7 True])) ! 0 = example_ended"
proof (rule final_result_stays [OF inv_example_ended])
  have after: "bus_state (run bus_step example_ended_bus [OpGet ''x'' 7 True]) = bus_state example_ended_bus"
    by (simp add: Get_def expireLocked_def example_ended_bus_def expire_entry_final [OF example_ended_facts(1)]
        Let_def split: option.split)
  show "sf_Entries (bus_state (run bus_step example_ended_bus [OpGet ''x'' 7 True])) ! 0
      \<in> set (sf_Entries (bus_state (run bus_step example_ended_bus [OpGet ''x'' 7 True])))"
    by (simp only: after) (simp add: example_ended_bus_def)
  show "entry_seq (sf_Entries (bus_state (run bus_step example_ended_bus [OpGet ''x'' 7 True])) ! 0) =
      entry_seq example_ended"
    by (simp only: after) (simp add: example_ended_bus_def)
qed (simp_all add: example_ended_bus_def example_ended_facts)

definition example_life :: "bus_op list" where
  "example_life = [OpPublish ''d'' example_request 0 example_random 5 True, OpGet ''x'' (60 * second) True]"

theorem message_text_not_kept_witness:
  "is_redacted (dc_Params (en_Command (sf_Entries (bus_state (run bus_step example_bus example_life)) ! 0)))"
proof (rule message_text_not_kept [OF example_bus_opened _ disjI1 [OF refl]])
  obtain b' where b': "Publish ''d'' example_request 0 example_random 5 True example_bus = (Inr (example_published 5 1), b')"
    "bus_state b' = \<lparr>sf_Sequence = 1, sf_Entries = [example_published 5 1]\<rparr>"
    using example_run by blast
  have "\<not> 60 * second < dc_ExpiresAt (en_Command (example_published 5 1))"
    by (simp add: example_published_def new_entry_def new_command_def example_request_def second_def)
  moreover have "rs_Status (en_Result (example_published 5 1)) = CommandPublished"
    by (simp add: example_published_def new_entry_def)
  ultimately have "final_entry (fst (expire_entry (60 * second) (example_published 5 1)))"
    by (simp add: expire_entry_def Let_def)
  moreover have "sf_Entries (bus_state (run bus_step example_bus example_life)) =
      [fst (expire_entry (60 * second) (example_published 5 1))]"
    by (simp add: example_life_def b' Get_def expireLocked_def persistLocked_def Let_def split: option.split)
  ultimately show "sf_Entries (bus_state (run bus_step example_bus example_life)) ! 0
      \<in> set (sf_Entries (bus_state (run bus_step example_bus example_life)))"
    "final_entry (sf_Entries (bus_state (run bus_step example_bus example_life)) ! 0)"
    by simp_all
qed (simp add: example_life_def)

definition example_accepted :: Entry where
  "example_accepted = (example_published 5 1)\<lparr>en_Result :=
     (en_Result (example_published 5 1))\<lparr>rs_Status := CommandAccepted\<rparr>\<rparr>"

theorem overflow_spares_witness:
  "example_accepted \<in> set (sf_Entries (bus_state (snd (Publish ''d'' example_request 0 example_random 9 True
     \<lparr>bus_state = \<lparr>sf_Sequence = 1, sf_Entries = [example_accepted]\<rparr>, bus_disk = None, bus_notify = []\<rparr>))))"
  by (rule overflow_spares) (simp_all add: example_accepted_def final_entry_def)

section \<open>The name of a quarantined file\<close>

lemma inj_candidate_path: "inj (candidate_path base)"
proof (rule injI)
  fix i j assume "candidate_path base i = candidate_path base j"
  then have "(if i > 0 then ''-'' @ nat_digits i else []) = (if j > 0 then ''-'' @ nat_digits j else [])"
    by (simp add: candidate_path_def)
  then show "i = j"
    by (cases "i = 0"; cases "j = 0") (auto dest: arg_cong [where f = digits_value])
qed

lemma first_free_finds:
  "\<not> exists (candidate_path base (i + k)) \<Longrightarrow> \<forall>j < k. exists (candidate_path base (i + j)) \<Longrightarrow>
   first_free exists base i = Some (candidate_path base (i + k))"
proof (induction k arbitrary: i)
  case 0
  then show ?case by (simp add: first_free.simps)
next
  case (Suc k)
  have "exists (candidate_path base i)" using Suc.prems(2) by (metis add_0_right zero_less_Suc)
  moreover have "\<forall>j < k. exists (candidate_path base (Suc i + j))"
    using Suc.prems(2) by (metis Suc_less_eq add_Suc_shift)
  ultimately show ?case
    using Suc.IH [of "Suc i"] Suc.prems(1) by (simp add: first_free.simps [of exists base i])
qed

text \<open>
  The search for a name for a corrupt state file ends, and with a name no file has: a directory
  holds finitely many files and the candidates are all different.
\<close>

theorem quarantine_name_found:
  assumes "finite {p. exists p}"
  shows "\<exists>p. availableStatePath exists path timestamp = Some p \<and> \<not> exists p"
proof -
  let ?c = "candidate_path (path @ ''.corrupt-'' @ format_int timestamp)"
  have "infinite (range ?c)" using inj_candidate_path by (auto dest: finite_imageD)
  then obtain i where "\<not> exists (?c i)" using assms by (metis finite_subset image_subsetI mem_Collect_eq)
  then obtain k where "\<not> exists (?c k)" "\<forall>j < k. exists (?c j)"
    using exists_least_iff [of "\<lambda>i. \<not> exists (?c i)"] by blast
  then show ?thesis
    using first_free_finds [of exists "path @ ''.corrupt-'' @ format_int timestamp" 0 k]
    by (simp add: availableStatePath_def)
qed

theorem quarantine_name_found_witness:
  "\<exists>p. availableStatePath (\<lambda>p. p \<in> {''commands.json'', ''commands.json.corrupt-7''}) ''commands.json'' 7 = Some p \<and>
     \<not> p \<in> {''commands.json'', ''commands.json.corrupt-7''}"
  by (rule quarantine_name_found) simp

end
