(* ===== verification/Router.thy ===== *)
theory Router
  imports GoText StepMachine DecimalNum
begin

text \<open>
  Page rotation on the display (\<open>internal/ui/pages.go\<close>): the order of the five pages and their dwell
  times as configuration text, and the router that decides which page is shown: automatic rotation,
  a page asked for remotely, a temporary override of the rotation, and pre-emption by a page that has
  something critical. The mutex makes every operation atomic. The loop that advances the rotation runs
  for as long as the elapsed time covers dwell times, so it is an option: \<open>None\<close> would be a loop that
  does not end.
\<close>

section \<open>Pages and configuration\<close>

type_synonym Page = string

abbreviation (input) "PageCoding \<equiv> ''CODING''"
abbreviation (input) "PageAPI \<equiv> ''API''"
abbreviation (input) "PageHomeLab \<equiv> ''HOMELAB''"
abbreviation (input) "PageServices \<equiv> ''SERVICES''"
abbreviation (input) "PageSystem \<equiv> ''SYSTEM''"

definition DefaultPageOrderText :: string where
  "DefaultPageOrderText = ''CODING,API,HOMELAB,SERVICES,SYSTEM''"

definition DefaultPageDwellText :: string where
  "DefaultPageDwellText = ''CODING:15,API:15,HOMELAB:15,SERVICES:15,SYSTEM:15''"

definition MinDwellSeconds :: int where "MinDwellSeconds = 5"
definition MaxDwellSeconds :: int where "MaxDwellSeconds = 300"

definition allPages :: "Page list" where
  "allPages = [PageCoding, PageAPI, PageHomeLab, PageServices, PageSystem]"

datatype page_error =
    UnknownPage string
  | WrongPageCount
  | DuplicatePage Page
  | WrongDwellCount
  | InvalidDwell string
  | DuplicateDwell Page
  | DwellRange Page

definition ParsePage :: "string \<Rightarrow> page_error + Page" where
  "ParsePage v = (let page = to_upper (trim_space v)
                  in if page \<in> set allPages then Inr page else Inl (UnknownPage v))"

record RotationConfig =
  rc_Order :: "Page list"
  rc_Dwell :: "duration gomap"

fun parse_order :: "string list \<Rightarrow> Page list \<Rightarrow> page_error + Page list" where
  "parse_order [] order = Inr order"
| "parse_order (raw # parts) order =
     (case ParsePage raw of
        Inl e \<Rightarrow> Inl e
      | Inr page \<Rightarrow> if page \<in> set order then Inl (DuplicatePage page) else parse_order parts (order @ [page]))"

fun parse_dwell :: "string list \<Rightarrow> duration gomap \<Rightarrow> page_error + duration gomap" where
  "parse_dwell [] dwell = Inr dwell"
| "parse_dwell (raw # parts) dwell =
     (case cut CHR '':'' raw of
        (name, secondsText, ok) \<Rightarrow>
          let page = to_upper (trim_space name)
          in if \<not> ok \<or> page \<notin> set allPages then Inl (InvalidDwell raw)
             else if mget dwell page \<noteq> None then Inl (DuplicateDwell page)
             else case atoi (trim_space secondsText) of
               None \<Rightarrow> Inl (DwellRange page)
             | Some seconds \<Rightarrow>
                 if seconds < MinDwellSeconds \<or> seconds > MaxDwellSeconds then Inl (DwellRange page)
                 else parse_dwell parts (mput page (seconds * second) dwell))"

definition ParseRotationConfig :: "string \<Rightarrow> string \<Rightarrow> page_error + RotationConfig" where
  "ParseRotationConfig orderText dwellText =
     (let orderParts = split CHR '','' orderText; parts = split CHR '','' dwellText
      in if length orderParts \<noteq> length allPages then Inl WrongPageCount
         else case parse_order orderParts [] of
           Inl e \<Rightarrow> Inl e
         | Inr order \<Rightarrow>
             if length parts \<noteq> length allPages then Inl WrongDwellCount
             else case parse_dwell parts [] of
               Inl e \<Rightarrow> Inl e
             | Inr dwell \<Rightarrow> Inr \<lparr>rc_Order = order, rc_Dwell = dwell\<rparr>)"

definition dwell_of :: "RotationConfig \<Rightarrow> Page \<Rightarrow> duration" where
  "dwell_of c page = (case mget (rc_Dwell c) page of None \<Rightarrow> 0 | Some d \<Rightarrow> d)"

definition RotationConfig_Strings :: "RotationConfig \<Rightarrow> string \<times> string" where
  "RotationConfig_Strings c =
     (join CHR '','' (rc_Order c),
      join CHR '','' (map (\<lambda>page. page @ '':'' @ format_int (go_div (dwell_of c page) second)) (rc_Order c)))"

text \<open>\<open>None\<close> is the panic of a default that does not parse.\<close>

definition DefaultRotationConfig :: "RotationConfig option" where
  "DefaultRotationConfig =
     (case ParseRotationConfig DefaultPageOrderText DefaultPageDwellText of Inl _ \<Rightarrow> None | Inr c \<Rightarrow> Some c)"

section \<open>The router\<close>

record Router =
  rt_config :: RotationConfig
  rt_page :: Page
  rt_index :: nat
  rt_remaining :: duration
  rt_last :: instant
  rt_paused :: bool
  rt_remotePage :: Page
  rt_remoteUntil :: instant
  rt_rotationOverride :: bool
  rt_rotationEnabled :: bool
  rt_rotationInterval :: duration
  rt_rotationUntil :: instant
  rt_displayed :: Page
  rt_criticalActive :: bool

fun index_of :: "Page \<Rightarrow> Page list \<Rightarrow> nat option" where
  "index_of p [] = None"
| "index_of p (q # qs) = (if q = p then Some 0 else map_option Suc (index_of p qs))"

definition NewRouter :: "RotationConfig \<Rightarrow> instant \<Rightarrow> Router" where
  "NewRouter config now =
     \<lparr>rt_config = config, rt_page = PageCoding,
      rt_index = (case index_of PageCoding (rc_Order config) of None \<Rightarrow> 0 | Some i \<Rightarrow> i),
      rt_remaining = dwell_of config PageCoding, rt_last = now, rt_paused = False,
      rt_remotePage = [], rt_remoteUntil = 0, rt_rotationOverride = False, rt_rotationEnabled = True,
      rt_rotationInterval = 0, rt_rotationUntil = 0, rt_displayed = PageCoding, rt_criticalActive = False\<rparr>"

definition dwellLocked :: "Router \<Rightarrow> Page \<Rightarrow> duration" where
  "dwellLocked r page =
     (if rt_rotationOverride r \<and> rt_rotationEnabled r \<and> rt_rotationInterval r > 0
      then rt_rotationInterval r else dwell_of (rt_config r) page)"

text \<open>The loop of \<open>advanceLocked\<close>, over elapsed time, index, page and remaining time.\<close>

partial_function (option) advance_loop ::
  "(Page \<Rightarrow> duration) \<Rightarrow> Page list \<Rightarrow> duration \<Rightarrow> nat \<Rightarrow> Page \<Rightarrow> duration \<Rightarrow> (nat \<times> Page \<times> duration) option"
where
  "advance_loop dwell order elapsed i page remaining =
     (if elapsed \<ge> remaining then
        let i' = (i + 1) mod length order; page' = order ! i'
        in advance_loop dwell order (elapsed - remaining) i' page' (dwell page')
      else Some (i, page, remaining - elapsed))"

definition advanceLocked :: "duration \<Rightarrow> Router \<Rightarrow> Router option" where
  "advanceLocked elapsed r =
     (if elapsed \<le> 0 then Some r
      else map_option
        (\<lambda>(i, page, remaining). r\<lparr>rt_index := i, rt_page := page, rt_remaining := remaining\<rparr>)
        (advance_loop (dwellLocked r) (rc_Order (rt_config r)) elapsed (rt_index r) (rt_page r) (rt_remaining r)))"

definition firstCritical :: "Page set \<Rightarrow> Router \<Rightarrow> Page option" where
  "firstCritical critical r = find (\<lambda>p. p \<in> critical) (rc_Order (rt_config r))"

definition expire_remote :: "instant \<Rightarrow> Router \<Rightarrow> Router" where
  "expire_remote now r =
     (if \<not> is_zero_time (rt_remoteUntil r) \<and> \<not> now < rt_remoteUntil r
      then r\<lparr>rt_remotePage := [], rt_remoteUntil := 0\<rparr> else r)"

definition expire_override :: "instant \<Rightarrow> Router \<Rightarrow> Router" where
  "expire_override now r =
     (if rt_rotationOverride r \<and> \<not> now < rt_rotationUntil r
      then r\<lparr>rt_rotationOverride := False, rt_rotationEnabled := True, rt_rotationInterval := 0,
             rt_remaining := (if rt_remaining r > dwell_of (rt_config r) (rt_page r)
                              then dwell_of (rt_config r) (rt_page r) else rt_remaining r)\<rparr>
      else r)"

definition select_page :: "Page set \<Rightarrow> Router \<Rightarrow> Page \<times> Router" where
  "select_page critical r =
     (case firstCritical critical r of
        Some p \<Rightarrow> (p, r\<lparr>rt_paused := True, rt_displayed := p, rt_criticalActive := True\<rparr>)
      | None \<Rightarrow>
          if rt_remotePage r \<noteq> []
          then (rt_remotePage r,
                r\<lparr>rt_criticalActive := False, rt_paused := True, rt_displayed := rt_remotePage r\<rparr>)
          else (rt_page r,
                r\<lparr>rt_criticalActive := False, rt_paused := (rt_rotationOverride r \<and> \<not> rt_rotationEnabled r),
                  rt_displayed := rt_page r\<rparr>))"

definition Update :: "instant \<Rightarrow> Page set \<Rightarrow> Router \<Rightarrow> (Page \<times> Router) option" where
  "Update now critical r0 =
     (let r1 = (if now < rt_last r0 then r0\<lparr>rt_last := now\<rparr> else r0);
          elapsed = time_sub now (rt_last r1)
      in Option.bind (if rt_paused r1 then Some r1 else advanceLocked elapsed r1)
           (\<lambda>r2. Some (select_page critical
              (expire_override now (expire_remote now (r2\<lparr>rt_last := now\<rparr>))))))"

definition Position :: "Router \<Rightarrow> nat \<times> nat" where
  "Position r =
     (case index_of (rt_displayed r) (rc_Order (rt_config r)) of
        Some i \<Rightarrow> (i + 1, length (rc_Order (rt_config r)))
      | None \<Rightarrow> (1, length (rc_Order (rt_config r))))"

definition Dwell :: "Router \<Rightarrow> duration" where
  "Dwell r = dwellLocked r (rt_page r)"

definition RotationEnabled :: "Router \<Rightarrow> bool" where
  "RotationEnabled r \<longleftrightarrow> \<not> rt_rotationOverride r \<or> rt_rotationEnabled r"

definition CriticalActive :: "Router \<Rightarrow> bool" where
  "CriticalActive r = rt_criticalActive r"

definition freezeLocked :: "instant \<Rightarrow> Router \<Rightarrow> Router option" where
  "freezeLocked now r =
     map_option (\<lambda>r'. r'\<lparr>rt_last := now, rt_paused := True\<rparr>)
       (if now > rt_last r \<and> \<not> rt_paused r then advanceLocked (time_sub now (rt_last r)) r else Some r)"

definition ShowPage :: "Page \<Rightarrow> duration \<Rightarrow> instant \<Rightarrow> Router \<Rightarrow> Router option" where
  "ShowPage page duration now r =
     map_option (\<lambda>r'. r'\<lparr>rt_remotePage := page, rt_remoteUntil := now + duration\<rparr>) (freezeLocked now r)"

definition showStepLocked :: "int \<Rightarrow> duration \<Rightarrow> instant \<Rightarrow> Router \<Rightarrow> Router option" where
  "showStepLocked step duration now r =
     map_option
       (\<lambda>r'. let order = rc_Order (rt_config r');
                 base = (if rt_remotePage r' \<noteq> [] then
                           (case index_of (rt_remotePage r') order of None \<Rightarrow> rt_index r' | Some i \<Rightarrow> i)
                         else rt_index r');
                 base' = nat ((int base + step + int (length order)) mod int (length order))
             in r'\<lparr>rt_remotePage := order ! base', rt_remoteUntil := now + duration\<rparr>)
       (freezeLocked now r)"

definition NextPage :: "duration \<Rightarrow> instant \<Rightarrow> Router \<Rightarrow> Router option" where
  "NextPage = showStepLocked 1"

definition PreviousPage :: "duration \<Rightarrow> instant \<Rightarrow> Router \<Rightarrow> Router option" where
  "PreviousPage = showStepLocked (-1)"

definition SetRotation :: "bool \<Rightarrow> duration \<Rightarrow> duration \<Rightarrow> instant \<Rightarrow> Router \<Rightarrow> Router option" where
  "SetRotation enabled interval duration now r =
     map_option
       (\<lambda>r'. r'\<lparr>rt_last := now, rt_rotationOverride := True, rt_rotationEnabled := enabled,
                rt_rotationInterval := interval, rt_rotationUntil := now + duration,
                rt_remaining := (if enabled \<and> interval > 0 then interval else rt_remaining r'),
                rt_paused := (rt_remotePage r' \<noteq> [] \<or> \<not> enabled)\<rparr>)
       (if now > rt_last r \<and> \<not> rt_paused r then advanceLocked (time_sub now (rt_last r)) r else Some r)"

section \<open>Configurations\<close>

definition config_ok :: "RotationConfig \<Rightarrow> bool" where
  "config_ok c \<longleftrightarrow>
     distinct (rc_Order c) \<and> set (rc_Order c) = set allPages \<and>
     (\<forall>p\<in>set allPages. \<exists>n. dwell_of c p = n * second \<and> 5 \<le> n \<and> n \<le> 300)"

lemma distinct_allPages: "distinct allPages" "length allPages = 5"
  by (simp_all add: allPages_def)

lemma config_ok_length: "config_ok c \<Longrightarrow> length (rc_Order c) = 5"
  using distinct_allPages by (metis config_ok_def distinct_card)

lemma parse_order_ok:
  "parse_order parts order = Inr res \<Longrightarrow> distinct order \<Longrightarrow> set order \<subseteq> set allPages \<Longrightarrow>
   distinct res \<and> set res \<subseteq> set allPages \<and> length res = length order + length parts"
  by (induction parts order rule: parse_order.induct)
    (auto simp: ParsePage_def Let_def split: sum.splits if_splits)

definition dwell_ok :: "duration gomap \<Rightarrow> bool" where
  "dwell_ok m \<longleftrightarrow> wf_map m \<and> mkeys m \<subseteq> set allPages \<and>
     (\<forall>p d. mget m p = Some d \<longrightarrow> (\<exists>n. d = n * second \<and> 5 \<le> n \<and> n \<le> 300))"

lemma parse_dwell_ok:
  "parse_dwell parts m = Inr res \<Longrightarrow> dwell_ok m \<Longrightarrow>
   dwell_ok res \<and> card (mkeys res) = card (mkeys m) + length parts"
proof (induction parts m rule: parse_dwell.induct)
  case (2 raw parts m)
  obtain name secondsText ok where c: "cut CHR '':'' raw = (name, secondsText, ok)"
    by (cases "cut CHR '':'' raw")
  define page where "page = to_upper (trim_space name)"
  from "2.prems"(1) obtain n where ok: "ok" "page \<in> set allPages" "mget m page = None"
    "atoi (trim_space secondsText) = Some n" "5 \<le> n" "n \<le> 300"
    "parse_dwell parts (mput page (n * second) m) = Inr res"
    by (auto simp: c page_def Let_def MinDwellSeconds_def MaxDwellSeconds_def split: if_splits option.splits)
  have new: "dwell_ok (mput page (n * second) m)"
    using "2.prems"(2) ok(2,5,6) by (auto simp: dwell_ok_def mget_put mkeys_put)
  have fresh: "page \<notin> mkeys m" using ok(3) by (simp add: mget_None)
  have "dwell_ok res \<and> card (mkeys res) = card (mkeys (mput page (n * second) m)) + length parts"
    using "2.IH" [OF c [symmetric] refl] c ok new
    by (simp add: page_def MinDwellSeconds_def MaxDwellSeconds_def)
  then show ?case using fresh by (simp add: mkeys_put)
qed simp

lemma ParseRotationConfig_ok:
  assumes "ParseRotationConfig orderText dwellText = Inr c"
  shows "config_ok c"
proof -
  obtain order dwell where c: "c = \<lparr>rc_Order = order, rc_Dwell = dwell\<rparr>"
    and order: "parse_order (split CHR '','' orderText) [] = Inr order" "length (split CHR '','' orderText) = 5"
    and dwell: "parse_dwell (split CHR '','' dwellText) [] = Inr dwell" "length (split CHR '','' dwellText) = 5"
    using assms by (auto simp: ParseRotationConfig_def Let_def distinct_allPages split: if_splits sum.splits)
  have o: "distinct order" "set order \<subseteq> set allPages" "length order = 5"
    using parse_order_ok [OF order(1)] order(2) by auto
  then have "set order = set allPages"
    using distinct_allPages by (intro card_subset_eq) (auto simp: distinct_card)
  moreover have "dwell_ok []" by (simp add: dwell_ok_def)
  from parse_dwell_ok [OF dwell(1) this] dwell(2) have d: "dwell_ok dwell" "card (mkeys dwell) = 5" by auto
  then have "mkeys dwell = set allPages"
    using distinct_allPages by (intro card_subset_eq) (auto simp: distinct_card dwell_ok_def)
  then have "\<exists>n. dwell_of c p = n * second \<and> 5 \<le> n \<and> n \<le> 300" if "p \<in> set allPages" for p
    using that d(1) key_mget_Some [of p dwell] by (auto simp: dwell_of_def c dwell_ok_def)
  ultimately show ?thesis using o by (simp add: config_ok_def c)
qed

section \<open>The rotation loop\<close>

lemma advance_loop_total:
  assumes "\<And>p. p \<in> set order \<Longrightarrow> 0 < dwell p" "order \<noteq> []" "0 < remaining" "i < length order" "page = order ! i"
  shows "\<exists>i' page' rem'. advance_loop dwell order elapsed i page remaining = Some (i', page', rem') \<and>
    i' < length order \<and> page' = order ! i' \<and> 0 < rem'"
  using assms(3-5)
proof (induction "nat elapsed" arbitrary: elapsed i page remaining rule: less_induct)
  case less
  show ?case
  proof (cases "elapsed \<ge> remaining")
    case True
    let ?i = "(i + 1) mod length order"
    have i: "?i < length order" using assms(2) by simp
    then have "0 < dwell (order ! ?i)" using assms(1) by simp
    moreover have "nat (elapsed - remaining) < nat elapsed" using True less.prems(1) by simp
    ultimately show ?thesis
      using less.hyps [of "elapsed - remaining" "dwell (order ! ?i)" ?i "order ! ?i"] i True
      by (simp add: advance_loop.simps [of dwell order elapsed] Let_def)
  next
    case False
    then show ?thesis using less.prems by (simp add: advance_loop.simps [of dwell order elapsed])
  qed
qed

lemma advance_loop_add:
  assumes "\<And>p. p \<in> set order \<Longrightarrow> 0 < dwell p" "order \<noteq> []" "0 < remaining" "i < length order" "page = order ! i"
    and "0 \<le> a" "0 \<le> b" "advance_loop dwell order a i page remaining = Some (i', page', rem')"
  shows "advance_loop dwell order (a + b) i page remaining = advance_loop dwell order b i' page' rem'"
  using assms(3-6,8)
proof (induction "nat a" arbitrary: a i page remaining rule: less_induct)
  case less
  show ?case
  proof (cases "a \<ge> remaining")
    case True
    let ?i = "(i + 1) mod length order"
    have i: "?i < length order" using assms(2) by simp
    then have "0 < dwell (order ! ?i)" using assms(1) by simp
    moreover have "nat (a - remaining) < nat a" using True less.prems(1) by simp
    moreover have "advance_loop dwell order (a - remaining) ?i (order ! ?i) (dwell (order ! ?i)) = Some (i', page', rem')"
      using less.prems(5) True by (simp add: advance_loop.simps [of dwell order a] Let_def)
    ultimately have "advance_loop dwell order (a - remaining + b) ?i (order ! ?i) (dwell (order ! ?i)) =
        advance_loop dwell order b i' page' rem'"
      using less.hyps i True by simp
    then show ?thesis
      using True assms(7) by (simp add: advance_loop.simps [of dwell order "a + b"] Let_def algebra_simps)
  next
    case False
    have "i' = i" "page' = page" "rem' = remaining - a"
      using False less.prems(5) by (simp_all add: advance_loop.simps [of dwell order a])
    moreover have "a + b - remaining = b - (remaining - a)" "remaining - (a + b) = remaining - a - b"
      "remaining \<le> a + b \<longleftrightarrow> remaining - a \<le> b" by auto
    ultimately show ?thesis
      by (simp only: advance_loop.simps [of dwell order "a + b" i page remaining]
          advance_loop.simps [of dwell order b i page "remaining - a"])
  qed
qed

section \<open>The invariant\<close>

definition inv :: "Router \<Rightarrow> bool" where
  "inv r \<longleftrightarrow> config_ok (rt_config r) \<and> rt_index r < 5 \<and> rt_page r = rc_Order (rt_config r) ! rt_index r \<and>
     0 < rt_remaining r \<and> (rt_remotePage r = [] \<or> rt_remotePage r \<in> set allPages) \<and>
     rt_displayed r \<in> set allPages"

lemma dwell_positive: "config_ok c \<Longrightarrow> p \<in> set allPages \<Longrightarrow> 0 < dwell_of c p"
  by (fastforce simp: config_ok_def second_def)

lemma dwellLocked_positive: "config_ok (rt_config r) \<Longrightarrow> p \<in> set allPages \<Longrightarrow> 0 < dwellLocked r p"
  by (simp add: dwellLocked_def dwell_positive)

lemma order_page: "config_ok c \<Longrightarrow> i < 5 \<Longrightarrow> rc_Order c ! i \<in> set allPages"
  using config_ok_length [of c] by (metis config_ok_def nth_mem)

definition moved :: "nat \<Rightarrow> Page \<Rightarrow> duration \<Rightarrow> Router \<Rightarrow> Router" where
  "moved i page remaining r = r\<lparr>rt_index := i, rt_page := page, rt_remaining := remaining\<rparr>"

lemma advanceLocked_total:
  assumes "inv r"
  obtains i page remaining where "advanceLocked elapsed r = Some (moved i page remaining r)"
    "inv (moved i page remaining r)"
proof (cases "elapsed \<le> 0")
  case True
  then show thesis
    using assms by (intro that [of "rt_index r" "rt_page r" "rt_remaining r"]) (simp_all add: advanceLocked_def moved_def)
next
  case False
  have c: "config_ok (rt_config r)" using assms by (simp add: inv_def)
  then have order: "set (rc_Order (rt_config r)) = set allPages" "length (rc_Order (rt_config r)) = 5"
    using config_ok_length by (auto simp: config_ok_def)
  then have ne: "rc_Order (rt_config r) \<noteq> []" by auto
  obtain i page remaining where
    "advance_loop (dwellLocked r) (rc_Order (rt_config r)) elapsed (rt_index r) (rt_page r) (rt_remaining r) =
      Some (i, page, remaining)" "i < 5" "page = rc_Order (rt_config r) ! i" "0 < remaining"
    using advance_loop_total [of "rc_Order (rt_config r)" "dwellLocked r" "rt_remaining r" "rt_index r" "rt_page r" elapsed]
      dwellLocked_positive [OF c] order ne assms by (auto simp: inv_def)
  then show thesis
    using False assms by (intro that [of i page remaining]) (simp_all add: advanceLocked_def moved_def inv_def)
qed

lemma inv_select_page: "inv r \<Longrightarrow> inv (snd (select_page critical r))"
  by (auto simp: select_page_def inv_def firstCritical_def find_Some_iff config_ok_length order_page
      split: option.split)

lemma inv_expire_remote: "inv r \<Longrightarrow> inv (expire_remote now r)"
  by (simp add: expire_remote_def inv_def)

lemma inv_expire_override: "inv r \<Longrightarrow> inv (expire_override now r)"
  using dwell_positive order_page by (simp add: expire_override_def inv_def)

lemma inv_last [simp]: "inv (r\<lparr>rt_last := t\<rparr>) = inv r" "inv (r\<lparr>rt_paused := b\<rparr>) = inv r"
  by (simp_all add: inv_def)

lemma Update_total:
  assumes "inv r"
  obtains page r' where "Update now critical r = Some (page, r')" "inv r'" "page = rt_displayed r'"
proof -
  define r1 where "r1 = (if now < rt_last r then r\<lparr>rt_last := now\<rparr> else r)"
  have r1: "inv r1" using assms by (simp add: r1_def)
  obtain r2 where r2: "(if rt_paused r1 then Some r1 else advanceLocked (time_sub now (rt_last r1)) r1) = Some r2" "inv r2"
    using r1 advanceLocked_total [OF r1] by (metis (full_types))
  let ?r3 = "expire_override now (expire_remote now (r2\<lparr>rt_last := now\<rparr>))"
  have "inv ?r3" using r2(2) by (simp add: inv_expire_override inv_expire_remote)
  moreover have "fst (select_page critical ?r3) = rt_displayed (snd (select_page critical ?r3))"
    by (simp add: select_page_def split: option.split)
  moreover have "Update now critical r =
      Option.bind (if rt_paused r1 then Some r1 else advanceLocked (time_sub now (rt_last r1)) r1)
        (\<lambda>r2. Some (select_page critical (expire_override now (expire_remote now (r2\<lparr>rt_last := now\<rparr>)))))"
    by (simp only: Update_def Let_def r1_def)
  then have "Update now critical r = Some (select_page critical ?r3)"
    unfolding r2(1) by simp
  moreover obtain p r' where sel: "select_page critical ?r3 = (p, r')" by (cases "select_page critical ?r3")
  ultimately show thesis
    using inv_select_page [of ?r3 critical] by (intro that [of p r']) simp_all
qed

lemma freezeLocked_total:
  assumes "inv r"
  obtains i page remaining where "freezeLocked now r = Some ((moved i page remaining r)\<lparr>rt_last := now, rt_paused := True\<rparr>)"
    "inv (moved i page remaining r)"
proof (cases "now > rt_last r \<and> \<not> rt_paused r")
  case True
  obtain i page remaining where
    "advanceLocked (time_sub now (rt_last r)) r = Some (moved i page remaining r)" "inv (moved i page remaining r)"
    using advanceLocked_total [OF assms] by blast
  with True show thesis by (intro that [of i page remaining]) (simp_all add: freezeLocked_def)
next
  case False
  then show thesis
    using assms by (intro that [of "rt_index r" "rt_page r" "rt_remaining r"])
      (auto simp: freezeLocked_def moved_def)
qed

lemma index_of_Some: "index_of p ps = Some i \<Longrightarrow> i < length ps \<and> ps ! i = p"
  by (induction ps arbitrary: i) (auto split: if_splits)

lemma index_of_mem: "p \<in> set ps \<Longrightarrow> \<exists>i. index_of p ps = Some i"
  by (induction ps) auto

lemma ShowPage_total:
  assumes "inv r" "page \<in> set allPages"
  obtains r' where "ShowPage page d now r = Some r'" "inv r'"
proof -
  obtain i p remaining where "freezeLocked now r = Some ((moved i p remaining r)\<lparr>rt_last := now, rt_paused := True\<rparr>)"
    "inv (moved i p remaining r)" using freezeLocked_total [OF assms(1)] by blast
  then show thesis
    using assms(2) by (intro that [of "(moved i p remaining r)\<lparr>rt_last := now, rt_paused := True,
      rt_remotePage := page, rt_remoteUntil := now + d\<rparr>"]) (simp_all add: ShowPage_def inv_def)
qed

lemma showStepLocked_total:
  assumes "inv r"
  obtains r' where "showStepLocked step d now r = Some r'" "inv r'"
proof -
  obtain i p remaining where fr: "freezeLocked now r = Some ((moved i p remaining r)\<lparr>rt_last := now, rt_paused := True\<rparr>)"
    and inv: "inv (moved i p remaining r)" using freezeLocked_total [OF assms(1)] by blast
  let ?order = "rc_Order (rt_config r)"
  have c: "config_ok (rt_config r)" using assms by (simp add: inv_def)
  have "order_pos < 5 \<Longrightarrow> ?order ! order_pos \<in> set allPages" for order_pos using c by (rule order_page)
  moreover have "nat ((int base + step + 5) mod 5) < 5" for base
    by (simp add: nat_less_iff)
  ultimately have mem: "?order ! nat ((int base + step + int (length ?order)) mod int (length ?order)) \<in> set allPages"
    for base using config_ok_length [OF c] by simp
  obtain r' where r': "showStepLocked step d now r = Some r'" by (simp add: showStepLocked_def fr)
  moreover have "inv r'"
    using r' inv mem by (auto simp: showStepLocked_def fr inv_def Let_def moved_def)
  ultimately show thesis by (rule that)
qed

lemma SetRotation_total:
  assumes "inv r"
  obtains r' where "SetRotation enabled interval d now r = Some r'" "inv r'"
proof -
  obtain r1 where r1: "(if now > rt_last r \<and> \<not> rt_paused r then advanceLocked (time_sub now (rt_last r)) r
      else Some r) = Some r1" "inv r1"
    using assms advanceLocked_total [OF assms, of "time_sub now (rt_last r)"] by (cases "now > rt_last r \<and> \<not> rt_paused r") auto
  obtain r' where r': "SetRotation enabled interval d now r = Some r'"
    by (simp only: SetRotation_def r1(1) option.map)
  moreover have "inv r'"
    using r' r1(2) by (auto simp: SetRotation_def r1(1) inv_def simp del: if_split)
  ultimately show thesis by (rule that)
qed

lemma inv_NewRouter: "config_ok c \<Longrightarrow> inv (NewRouter c now)"
proof -
  assume c: "config_ok c"
  then have "PageCoding \<in> set (rc_Order c)" by (simp add: config_ok_def allPages_def)
  then obtain i where i: "index_of PageCoding (rc_Order c) = Some i" using index_of_mem by blast
  with c index_of_Some [OF i] show ?thesis
    by (auto simp: NewRouter_def inv_def config_ok_length dwell_positive allPages_def)
qed

section \<open>The router as a machine\<close>

datatype router_op =
    OpUpdate instant "Page set"
  | OpShowPage Page duration instant
  | OpNextPage duration instant
  | OpPreviousPage duration instant
  | OpSetRotation bool duration duration instant

fun router_step :: "Router \<Rightarrow> router_op \<Rightarrow> Router" where
  "router_step r (OpUpdate now critical) = (case Update now critical r of None \<Rightarrow> r | Some (_, r') \<Rightarrow> r')"
| "router_step r (OpShowPage page d now) = (case ShowPage page d now r of None \<Rightarrow> r | Some r' \<Rightarrow> r')"
| "router_step r (OpNextPage d now) = (case NextPage d now r of None \<Rightarrow> r | Some r' \<Rightarrow> r')"
| "router_step r (OpPreviousPage d now) = (case PreviousPage d now r of None \<Rightarrow> r | Some r' \<Rightarrow> r')"
| "router_step r (OpSetRotation enabled interval d now) =
     (case SetRotation enabled interval d now r of None \<Rightarrow> r | Some r' \<Rightarrow> r')"

fun known_page :: "router_op \<Rightarrow> bool" where
  "known_page (OpShowPage page d now) \<longleftrightarrow> page \<in> set allPages"
| "known_page _ \<longleftrightarrow> True"

text \<open>Whether the operation returned, for the claim that each one does.\<close>

fun returns :: "Router \<Rightarrow> router_op \<Rightarrow> bool" where
  "returns r (OpUpdate now critical) \<longleftrightarrow> Update now critical r \<noteq> None"
| "returns r (OpShowPage page d now) \<longleftrightarrow> ShowPage page d now r \<noteq> None"
| "returns r (OpNextPage d now) \<longleftrightarrow> NextPage d now r \<noteq> None"
| "returns r (OpPreviousPage d now) \<longleftrightarrow> PreviousPage d now r \<noteq> None"
| "returns r (OpSetRotation enabled interval d now) \<longleftrightarrow> SetRotation enabled interval d now r \<noteq> None"

lemma router_step_ok:
  assumes "inv r" "known_page op"
  shows "inv (router_step r op) \<and> returns r op"
proof (cases op)
  case (OpUpdate now critical)
  with assms show ?thesis by (auto elim: Update_total [of r now critical])
next
  case (OpShowPage page d now)
  with assms show ?thesis by (auto elim: ShowPage_total [of r page d now])
next
  case (OpNextPage d now)
  with assms show ?thesis by (auto simp: NextPage_def elim: showStepLocked_total [of r 1 d now])
next
  case (OpPreviousPage d now)
  with assms show ?thesis by (auto simp: PreviousPage_def elim: showStepLocked_total [of r "-1" d now])
next
  case (OpSetRotation enabled interval d now)
  with assms show ?thesis by (auto elim: SetRotation_total [of r enabled interval d now])
qed

interpretation router: invariant_machine router_step inv known_page
  by unfold_locales (simp add: router_step_ok)

section \<open>Rotation text round trip\<close>

lemma Router_page_text:
  assumes "p \<in> set allPages"
  shows "to_upper (trim_space p) = p" "CHR '','' \<notin> set p" "CHR '':'' \<notin> set p"
proof -
  have up: "to_upper p = p" and vis: "list_all is_visible p" and "CHR '','' \<notin> set p" "CHR '':'' \<notin> set p"
    using assms unfolding allPages_def
    by (auto simp: upper_char_def is_lower_def dotless_i_def long_s_def is_visible_def)
  then show "CHR '','' \<notin> set p" "CHR '':'' \<notin> set p" "to_upper (trim_space p) = p"
    by (simp_all add: trim_space_visible list_all_iff)
qed

lemma parse_order_pages:
  "set ps \<subseteq> set allPages \<Longrightarrow> distinct (order @ ps) \<Longrightarrow> parse_order ps order = Inr (order @ ps)"
proof (induction ps arbitrary: order)
  case (Cons p ps)
  then have "ParsePage p = Inr p" by (simp add: ParsePage_def Router_page_text Let_def)
  moreover have "p \<notin> set order" using Cons.prems(2) by simp
  moreover have "parse_order ps (order @ [p]) = Inr ((order @ [p]) @ ps)" using Cons by simp
  ultimately show ?case by simp
qed simp

definition dwell_text :: "RotationConfig \<Rightarrow> Page \<Rightarrow> string" where
  "dwell_text c page = page @ '':'' @ format_int (go_div (dwell_of c page) second)"

lemma format_int_text: "CHR '','' \<notin> set (format_int n)" "\<forall>c\<in>set (format_int n). is_visible c"
proof -
  have "is_digit c \<Longrightarrow> is_visible c \<and> c \<noteq> CHR '',''" for c
    by (auto simp: is_digit_def is_visible_def)
  then have *: "\<forall>c\<in>set (nat_digits k). is_visible c \<and> c \<noteq> CHR '',''" for k
    using nat_digits_digits [of k] by blast
  show "\<forall>c\<in>set (format_int n). is_visible c"
    using * by (auto simp: format_int_def is_visible_def)
  show "CHR '','' \<notin> set (format_int n)"
    using * by (auto simp: format_int_def)
qed

lemma parse_dwell_pages:
  assumes "config_ok c"
  shows "set ps \<subseteq> set allPages \<Longrightarrow> distinct ps \<Longrightarrow> mkeys m \<inter> set ps = {} \<Longrightarrow>
    \<exists>m'. parse_dwell (map (dwell_text c) ps) m = Inr m' \<and>
      (\<forall>p. mget m' p = (if p \<in> set ps then Some (dwell_of c p) else mget m p))"
proof (induction ps arbitrary: m)
  case (Cons p ps)
  then have p: "p \<in> set allPages" by simp
  with assms obtain n where n: "dwell_of c p = n * second" "5 \<le> n" "n \<le> 300"
    by (auto simp: config_ok_def)
  then have div: "go_div (dwell_of c p) second = n" by (simp add: go_div_nonneg second_def)
  have cut: "cut CHR '':'' (dwell_text c p) = (p, format_int n, True)"
    using Router_page_text(3) [OF p] by (simp add: dwell_text_def div)
  have at: "atoi (trim_space (format_int n)) = Some n"
    using n by (simp add: trim_space_visible format_int_text atoi_format_int in_int64_def)
  have "mget m p = None" using Cons.prems(3) by (simp add: mget_None)
  then have step: "parse_dwell (map (dwell_text c) (p # ps)) m =
      parse_dwell (map (dwell_text c) ps) (mput p (dwell_of c p) m)"
    using n p by (simp add: cut at Router_page_text(1) Let_def MinDwellSeconds_def MaxDwellSeconds_def)
  have "mkeys (mput p (dwell_of c p) m) \<inter> set ps = {}" using Cons.prems by (auto simp: mkeys_put)
  then obtain m' where m': "parse_dwell (map (dwell_text c) ps) (mput p (dwell_of c p) m) = Inr m'"
    "\<forall>q. mget m' q = (if q \<in> set ps then Some (dwell_of c q) else mget (mput p (dwell_of c p) m) q)"
    using Cons.IH [of "mput p (dwell_of c p) m"] Cons.prems by auto
  then show ?case unfolding step by (intro exI [of _ m']) (auto simp: mget_put)
qed simp

lemma Strings_parse:
  assumes c: "config_ok c"
  shows "\<exists>c'. ParseRotationConfig (fst (RotationConfig_Strings c)) (snd (RotationConfig_Strings c)) = Inr c' \<and>
    rc_Order c' = rc_Order c \<and> (\<forall>p\<in>set allPages. dwell_of c' p = dwell_of c p)"
proof -
  have ord: "set (rc_Order c) = set allPages" "distinct (rc_Order c)" "length (rc_Order c) = 5"
    using c config_ok_length by (auto simp: config_ok_def)
  then have ne: "rc_Order c \<noteq> []" by auto
  have s1: "split CHR '','' (fst (RotationConfig_Strings c)) = rc_Order c"
    using ne ord Router_page_text(2) by (simp add: RotationConfig_Strings_def split_join)
  have "\<forall>t\<in>set (map (dwell_text c) (rc_Order c)). CHR '','' \<notin> set t"
    using ord Router_page_text(2) format_int_text(1) by (auto simp: dwell_text_def)
  then have s2: "split CHR '','' (snd (RotationConfig_Strings c)) = map (dwell_text c) (rc_Order c)"
    using ne split_join [of "map (dwell_text c) (rc_Order c)"]
    by (simp add: RotationConfig_Strings_def dwell_text_def [abs_def])
  have "parse_order (rc_Order c) [] = Inr (rc_Order c)"
    using parse_order_pages [of "rc_Order c" "[]"] ord by simp
  moreover obtain m' where "parse_dwell (map (dwell_text c) (rc_Order c)) [] = Inr m'"
    "\<forall>p. mget m' p = (if p \<in> set (rc_Order c) then Some (dwell_of c p) else mget [] p)"
    using parse_dwell_pages [OF c, of "rc_Order c" "[]"] ord by auto
  ultimately show ?thesis
    using ord by (intro exI [of _ "\<lparr>rc_Order = rc_Order c, rc_Dwell = m'\<rparr>"])
      (simp add: ParseRotationConfig_def s1 s2 Let_def distinct_allPages dwell_of_def)
qed

text \<open>
  A configuration the parser accepted is written by \<open>Strings\<close> as text the parser accepts again,
  with the same order and the same dwell time of every page.
\<close>

theorem rotation_text_roundtrip:
  assumes "ParseRotationConfig orderText dwellText = Inr c"
  shows "\<exists>c'. ParseRotationConfig (fst (RotationConfig_Strings c)) (snd (RotationConfig_Strings c)) = Inr c' \<and>
    rc_Order c' = rc_Order c \<and> (\<forall>p\<in>set allPages. dwell_of c' p = dwell_of c p)"
  by (rule Strings_parse [OF ParseRotationConfig_ok [OF assms]])

lemma default_config:
  "\<exists>c. ParseRotationConfig DefaultPageOrderText DefaultPageDwellText = Inr c \<and> rc_Order c = allPages \<and>
     (\<forall>p\<in>set allPages. dwell_of c p = 15 * second)"
proof -
  define c where "c = \<lparr>rc_Order = allPages, rc_Dwell = map (\<lambda>p. (p, 15 * second)) allPages\<rparr>"
  have d: "dwell_of c p = 15 * second" if "p \<in> set allPages" for p
    using that by (auto simp: c_def dwell_of_def allPages_def)
  then have "config_ok c"
    using distinct_allPages by (auto simp: config_ok_def c_def)
  moreover have "RotationConfig_Strings c = (DefaultPageOrderText, DefaultPageDwellText)"
    unfolding c_def by code_simp
  ultimately show ?thesis
    using Strings_parse [of c] d by (auto simp: c_def)
qed

lemma rotation_text_roundtrip_witness:
  "\<exists>c. ParseRotationConfig DefaultPageOrderText DefaultPageDwellText = Inr c \<and>
     (\<exists>c'. ParseRotationConfig (fst (RotationConfig_Strings c)) (snd (RotationConfig_Strings c)) = Inr c' \<and>
       rc_Order c' = allPages)"
proof -
  obtain c where c: "ParseRotationConfig DefaultPageOrderText DefaultPageDwellText = Inr c" "rc_Order c = allPages"
    using default_config by blast
  from rotation_text_roundtrip [OF c(1)] c show ?thesis by auto
qed
section \<open>Behaviour\<close>

definition started :: "string \<Rightarrow> string \<Rightarrow> instant \<Rightarrow> Router option" where
  "started orderText dwellText now =
     (case ParseRotationConfig orderText dwellText of Inl _ \<Rightarrow> None | Inr c \<Rightarrow> Some (NewRouter c now))"

lemma started_inv: "started orderText dwellText now = Some r \<Longrightarrow> inv r"
  by (auto simp: started_def inv_NewRouter ParseRotationConfig_ok split: sum.splits)

text \<open>
  C39. From a parsed configuration, after any operations with known pages, each operation returns (the
  rotation loop ends), the base page is the one the index names and the page shown is one of the five.
\<close>

theorem router_operations_return:
  assumes "started orderText dwellText now = Some r0" "list_all known_page ops" "known_page op"
  shows "returns (run router_step r0 ops) op \<and>
    rt_page (run router_step r0 ops) = rc_Order (rt_config (run router_step r0 ops)) ! rt_index (run router_step r0 ops) \<and>
    rt_displayed (run router_step r0 ops) \<in> set allPages"
proof -
  have "inv (run router_step r0 ops)"
    using started_inv [OF assms(1)] assms(2) by (rule router.run_inv)
  with router_step_ok [OF this assms(3)] show ?thesis by (simp add: inv_def)
qed

lemma router_operations_return_witness:
  "\<exists>r. started DefaultPageOrderText DefaultPageDwellText 1000 = Some r \<and>
     returns (run router_step r [OpNextPage (5 * second) 2000, OpUpdate (40 * second) {}]) (OpUpdate (10 ^ 15) {PageSystem})"
proof -
  obtain r where r: "started DefaultPageOrderText DefaultPageDwellText 1000 = Some r"
    using default_config by (auto simp: started_def)
  with router_operations_return [OF r, of "[OpNextPage (5 * second) 2000, OpUpdate (40 * second) {}]"
      "OpUpdate (10 ^ 15) {PageSystem}"] show ?thesis by simp
qed

text \<open>An update of a router that rotates freely: no page asked for, no override, nothing critical.\<close>

definition rotating :: "Router \<Rightarrow> bool" where
  "rotating r \<longleftrightarrow> \<not> rt_paused r \<and> rt_remotePage r = [] \<and> rt_remoteUntil r = 0 \<and> \<not> rt_rotationOverride r"

lemma Update_rotating:
  assumes "rotating r" "firstCritical critical r = None" "rt_last r \<le> now"
  shows "Update now critical r =
    map_option (\<lambda>r'. (rt_page r', r'\<lparr>rt_last := now, rt_criticalActive := False, rt_displayed := rt_page r'\<rparr>))
      (advanceLocked (time_sub now (rt_last r)) r)"
proof (cases "advanceLocked (time_sub now (rt_last r)) r")
  case None
  then show ?thesis using assms by (simp add: Update_def rotating_def Let_def)
next
  case (Some r')
  then have "\<exists>i p rem. r' = r\<lparr>rt_index := i, rt_page := p, rt_remaining := rem\<rparr>"
    by (cases r) (auto simp: advanceLocked_def split: if_splits)
  then obtain i p remaining where "r' = r\<lparr>rt_index := i, rt_page := p, rt_remaining := remaining\<rparr>" by blast
  with Some assms show ?thesis
    by (simp add: Update_def rotating_def Let_def expire_remote_def expire_override_def select_page_def
        firstCritical_def is_zero_time_def)
qed


lemma advanceLocked_rotating:
  assumes "inv r" "\<not> rt_rotationOverride r" "0 \<le> e"
  shows "advanceLocked e r = map_option (\<lambda>(i, page, remaining). r\<lparr>rt_index := i, rt_page := page, rt_remaining := remaining\<rparr>)
    (advance_loop (dwell_of (rt_config r)) (rc_Order (rt_config r)) e (rt_index r) (rt_page r) (rt_remaining r))"
proof (cases "e = 0")
  case True
  have "0 < rt_remaining r" using assms(1) by (simp add: inv_def)
  with True show ?thesis
    by (simp add: advanceLocked_def advance_loop.simps [of _ _ 0])
next
  case False
  have "dwellLocked r = dwell_of (rt_config r)" using assms(2) by (simp add: dwellLocked_def fun_eq_iff)
  with False assms(3) show ?thesis by (simp add: advanceLocked_def)
qed

lemma Update_split:
  assumes r: "inv r" "rotating r" and crit: "firstCritical c1 r = None" "firstCritical c2 r = None"
    and t: "rt_last r \<le> t1" "t1 \<le> t2" "in_int64 (t2 - rt_last r)"
  shows "Update t2 c2 r = Option.bind (Update t1 c1 r) (\<lambda>(_, r1). Update t2 c2 r1)"
proof -
  let ?loop = "advance_loop (dwell_of (rt_config r)) (rc_Order (rt_config r))"
  let ?a = "t1 - rt_last r" and ?b = "t2 - t1"
  have c: "config_ok (rt_config r)" "rt_index r < 5" "rt_page r = rc_Order (rt_config r) ! rt_index r" "0 < rt_remaining r"
    using r(1) by (auto simp: inv_def)
  have ord: "set (rc_Order (rt_config r)) = set allPages" "length (rc_Order (rt_config r)) = 5"
    using c(1) config_ok_length by (auto simp: config_ok_def)
  then have ne: "rc_Order (rt_config r) \<noteq> []" by auto
  have pos: "p \<in> set (rc_Order (rt_config r)) \<Longrightarrow> 0 < dwell_of (rt_config r) p" for p
    using dwell_positive [OF c(1)] ord by simp
  have i64: "time_sub t1 (rt_last r) = ?a" "time_sub t2 (rt_last r) = ?a + ?b" "time_sub t2 t1 = ?b"
    using t by (auto simp: time_sub_def in_int64_def)
  have no: "\<not> rt_rotationOverride r" using r(2) by (simp add: rotating_def)
  obtain i' page' rem' where l1: "?loop ?a (rt_index r) (rt_page r) (rt_remaining r) = Some (i', page', rem')"
    and ok: "i' < 5" "page' = rc_Order (rt_config r) ! i'" "0 < rem'"
    using advance_loop_total [of "rc_Order (rt_config r)" "dwell_of (rt_config r)" "rt_remaining r" "rt_index r" "rt_page r" ?a]
      pos ne c ord by auto
  let ?r1 = "r\<lparr>rt_index := i', rt_page := page', rt_remaining := rem', rt_last := t1, rt_criticalActive := False,
    rt_displayed := page'\<rparr>"
  have "page' \<in> set allPages" using ok order_page [OF c(1)] by simp
  then have inv1: "inv ?r1" using r(1) ok by (simp add: inv_def)
  have rot1: "rotating ?r1" using r(2) by (simp add: rotating_def)
  have crit1: "firstCritical c2 ?r1 = None" using crit(2) by (simp add: firstCritical_def)
  have u1: "Update t1 c1 r = Some (page', ?r1)"
    using Update_rotating [OF r(2) crit(1) t(1)] advanceLocked_rotating [OF r(1) no, of ?a] t(1)
    by (simp add: i64 l1)
  have "?loop (?a + ?b) (rt_index r) (rt_page r) (rt_remaining r) = ?loop ?b i' page' rem'"
    using advance_loop_add [of "rc_Order (rt_config r)" "dwell_of (rt_config r)" "rt_remaining r" "rt_index r" "rt_page r"
      ?a ?b i' page' rem'] pos ne c ord l1 t by simp
  moreover have "Update t2 c2 r = map_option (\<lambda>r'. (rt_page r', r'\<lparr>rt_last := t2, rt_criticalActive := False, rt_displayed := rt_page r'\<rparr>))
      (advanceLocked (?a + ?b) r)"
    using Update_rotating [OF r(2) crit(2)] t i64(2) by simp
  moreover have "Update t2 c2 ?r1 = map_option (\<lambda>r'. (rt_page r', r'\<lparr>rt_last := t2, rt_criticalActive := False, rt_displayed := rt_page r'\<rparr>))
      (advanceLocked ?b ?r1)"
    using Update_rotating [OF rot1 crit1] t i64(3) by simp
  ultimately show ?thesis
    using advanceLocked_rotating [OF r(1) no, of "?a + ?b"] advanceLocked_rotating [OF inv1, of ?b] no t
    by (simp add: u1 option.map_comp comp_def case_prod_beta)
qed

text \<open>
  C40. While the router rotates freely, with no remote page, no override and no critical page at either update, and the
  time since its last step fits 64 bits, an extra update in between changes nothing: polling at \<open>t1\<close> and then at
  \<open>t2\<close> shows the same page and leaves the same router as polling at \<open>t2\<close> alone. The shown page depends
  on the clock, not on how often the display redraws.
\<close>

theorem polling_irrelevant:
  assumes "started orderText dwellText now = Some r0" "list_all known_page ops" "r = run router_step r0 ops"
    and "rotating r" "firstCritical c1 r = None" "firstCritical c2 r = None"
    and "rt_last r \<le> t1" "t1 \<le> t2" "in_int64 (t2 - rt_last r)"
  shows "Update t2 c2 r = Option.bind (Update t1 c1 r) (\<lambda>(_, r1). Update t2 c2 r1)"
  using router.run_inv [OF started_inv [OF assms(1)] assms(2)] assms(3-) by (auto intro: Update_split)

lemma polling_irrelevant_witness:
  "\<exists>r. started DefaultPageOrderText DefaultPageDwellText 1000 = Some r \<and>
     Update (10 ^ 12) {} r = Option.bind (Update (10 ^ 11) {} r) (\<lambda>(_, r1). Update (10 ^ 12) {} r1)"
proof -
  obtain r where r: "started DefaultPageOrderText DefaultPageDwellText 1000 = Some r"
    using default_config by (auto simp: started_def)
  then have "rotating r" "rt_last r = 1000" "firstCritical {} r = None"
    by (auto simp: started_def NewRouter_def rotating_def firstCritical_def find_None_iff split: sum.splits)
  with polling_irrelevant [OF r, of "[]" r "{}" "{}" "10 ^ 11" "10 ^ 12"] r show ?thesis
    by (simp add: in_int64_def)
qed
lemma advanceLocked_shape:
  "advanceLocked e r = Some r' \<Longrightarrow>
   \<exists>i p rem. r' = r\<lparr>rt_index := i, rt_page := p, rt_remaining := rem\<rparr>"
  by (cases r) (auto simp: advanceLocked_def split: if_splits)

lemma Update_Some:
  assumes "Update now critical r = Some (page, r')"
  obtains i p remaining where
    "(page, r') = select_page critical (expire_override now (expire_remote now
       (r\<lparr>rt_index := i, rt_page := p, rt_remaining := remaining, rt_last := now\<rparr>)))"
    "rt_paused r \<Longrightarrow> i = rt_index r \<and> p = rt_page r \<and> remaining = rt_remaining r"
proof (cases "rt_paused r")
  case True
  then show thesis
    using assms by (intro that [where i = "rt_index r" and p = "rt_page r" and remaining = "rt_remaining r"])
      (simp_all add: Update_def Let_def split: if_splits)
next
  case False
  let ?r1 = "if now < rt_last r then r\<lparr>rt_last := now\<rparr> else r"
  obtain r2 where r2: "advanceLocked (time_sub now (rt_last ?r1)) ?r1 = Some r2"
    "(page, r') = select_page critical (expire_override now (expire_remote now (r2\<lparr>rt_last := now\<rparr>)))"
    using assms False by (auto simp: Update_def Let_def bind_eq_Some_conv split: if_splits)
  from advanceLocked_shape [OF r2(1)] obtain i p remaining where
    "r2 = ?r1\<lparr>rt_index := i, rt_page := p, rt_remaining := remaining\<rparr>" by blast
  with r2(2) False show thesis by (intro that [where i = i and p = p and remaining = remaining]) (simp_all split: if_splits)
qed

lemma firstCritical_config [simp]:
  "firstCritical critical (expire_override now r) = firstCritical critical r"
  "firstCritical critical (expire_remote now r) = firstCritical critical r"
  "firstCritical critical (r\<lparr>rt_index := i, rt_page := p, rt_remaining := d, rt_last := t\<rparr>) = firstCritical critical r"
  by (simp_all add: firstCritical_def expire_override_def expire_remote_def)

text \<open>
  A critical page comes before everything else: whatever was asked for remotely, an update shows the
  first page of the order that is critical, and leaves the rotation paused.
\<close>

theorem critical_page_first:
  assumes "Update now critical r = Some (page, r')" "p \<in> critical" "p \<in> set (rc_Order (rt_config r))"
  shows "page \<in> critical \<and> rt_criticalActive r' \<and> rt_paused r' \<and> rt_displayed r' = page \<and>
    (\<exists>i < length (rc_Order (rt_config r)). rc_Order (rt_config r) ! i = page \<and>
      (\<forall>j < i. rc_Order (rt_config r) ! j \<notin> critical))"
proof -
  obtain i q remaining where u: "(page, r') = select_page critical (expire_override now (expire_remote now
       (r\<lparr>rt_index := i, rt_page := q, rt_remaining := remaining, rt_last := now\<rparr>)))"
    using Update_Some [OF assms(1)] by metis
  obtain c where c: "firstCritical critical r = Some c"
    using assms(2,3) by (cases "firstCritical critical r") (auto simp: firstCritical_def find_None_iff)
  then have "page = c" "rt_criticalActive r'" "rt_paused r'" "rt_displayed r' = c"
    using u by (simp_all add: select_page_def)
  then show ?thesis using c by (auto simp: firstCritical_def find_Some_iff)
qed

lemma critical_page_first_witness:
  "\<exists>r page r'. started DefaultPageOrderText DefaultPageDwellText 1000 = Some r \<and>
     Update (10 ^ 12) {PageSystem, PageAPI} r = Some (page, r') \<and> page = PageAPI"
proof -
  obtain c where c: "ParseRotationConfig DefaultPageOrderText DefaultPageDwellText = Inr c" "rc_Order c = allPages"
    using default_config by blast
  define r where "r = NewRouter c 1000"
  have started: "started DefaultPageOrderText DefaultPageDwellText 1000 = Some r"
    by (simp add: started_def c r_def)
  have o: "rc_Order (rt_config r) = allPages" by (simp add: r_def NewRouter_def c)
  obtain page r' where u: "Update (10 ^ 12) {PageSystem, PageAPI} r = Some (page, r')"
    using Update_total [OF started_inv [OF started]] by blast
  have "PageAPI \<in> set (rc_Order (rt_config r))" by (simp add: o allPages_def)
  from critical_page_first [OF u _ this] obtain i where i: "page \<in> {PageSystem, PageAPI}" "i < 5" "allPages ! i = page"
    "\<forall>j<i. allPages ! j \<notin> {PageSystem, PageAPI}"
    by (auto simp: o distinct_allPages)
  have "page = PageAPI"
  proof (rule ccontr)
    assume "page \<noteq> PageAPI"
    with i have "allPages ! i = PageSystem" by auto
    then have "i \<noteq> 0" "i \<noteq> 1" by (auto simp: allPages_def intro: gr0I)
    then have "1 < i" by simp
    with i(4) show False by (auto simp: allPages_def)
  qed
  with started u show ?thesis by blast
qed

text \<open>
  While the router is paused (by a critical page, a page asked for remotely or a stopped rotation),
  time does not move the rotation: an update keeps the base page, its place in the order and, unless a
  rotation override ends, the rest of its dwell time.
\<close>

theorem paused_base_frozen:
  assumes "rt_paused r" "Update now critical r = Some (page, r')"
  shows "rt_index r' = rt_index r \<and> rt_page r' = rt_page r \<and>
    (rt_rotationOverride r \<and> rt_rotationUntil r \<le> now \<or> rt_remaining r' = rt_remaining r)"
proof -
  obtain i q remaining where u: "(page, r') = select_page critical (expire_override now (expire_remote now
       (r\<lparr>rt_index := i, rt_page := q, rt_remaining := remaining, rt_last := now\<rparr>)))"
    "i = rt_index r \<and> q = rt_page r \<and> remaining = rt_remaining r"
    using Update_Some [OF assms(2)] assms(1) by metis
  then show ?thesis
    by (auto simp: select_page_def expire_override_def expire_remote_def split: option.splits if_splits)
qed

lemma paused_base_frozen_witness:
  "\<exists>r page r'. rt_paused r \<and> Update (10 ^ 12) {} r = Some (page, r') \<and> rt_page r' = PageCoding \<and>
     rt_remaining r' = 15 * second"
proof -
  obtain c where c: "ParseRotationConfig DefaultPageOrderText DefaultPageDwellText = Inr c"
    "\<forall>p\<in>set allPages. dwell_of c p = 15 * second" using default_config by blast
  define r where "r = (NewRouter c 1000)\<lparr>rt_paused := True\<rparr>"
  have "inv r" using inv_NewRouter [OF ParseRotationConfig_ok [OF c(1)]] by (simp add: r_def)
  then obtain page r' where u: "Update (10 ^ 12) {} r = Some (page, r')"
    using Update_total by blast
  have "PageCoding \<in> set allPages" by (simp add: allPages_def)
  then have r: "rt_paused r" "rt_page r = PageCoding" "rt_remaining r = 15 * second" "\<not> rt_rotationOverride r"
    using c(2) by (simp_all add: r_def NewRouter_def)
  with paused_base_frozen [OF r(1) u] r u show ?thesis by auto
qed

text \<open>
  A page asked for remotely is shown from the request on for its duration and not longer: an update
  before the deadline with nothing critical shows it, an update at or after the deadline shows the base
  page of the rotation and forgets the request. (A deadline at the zero time would never expire.)
\<close>

theorem remote_page_lasts_its_duration:
  assumes "ShowPage page d now r = Some r1" "page \<noteq> []" "now + d \<noteq> 0"
    and "firstCritical critical r = None" "Update t critical r1 = Some (shown, r2)"
  shows "(t < now + d \<longrightarrow> shown = page) \<and>
    (now + d \<le> t \<longrightarrow> shown = rt_page r1 \<and> rt_page r2 = rt_page r1 \<and> rt_remotePage r2 = [])"
proof -
  obtain r0 where r0: "freezeLocked now r = Some r0" and r1: "r1 = r0\<lparr>rt_remotePage := page, rt_remoteUntil := now + d\<rparr>"
    using assms(1) by (auto simp: ShowPage_def)
  from r0 have paused: "rt_paused r0" by (auto simp: freezeLocked_def)
  have "rt_config r0 = rt_config r"
    using r0 advanceLocked_shape [of _ r] by (fastforce simp: freezeLocked_def split: if_splits)
  then have crit: "firstCritical critical r1 = None" using assms(4) by (simp add: firstCritical_def r1)
  have "rt_paused r1" using paused by (simp add: r1)
  then obtain i q remaining where u: "(shown, r2) = select_page critical (expire_override t (expire_remote t
       (r1\<lparr>rt_index := i, rt_page := q, rt_remaining := remaining, rt_last := t\<rparr>)))" "q = rt_page r1"
    using Update_Some [OF assms(5)] by metis
  have f: "firstCritical critical (expire_override t (expire_remote t
       (r1\<lparr>rt_index := i, rt_page := q, rt_remaining := remaining, rt_last := t\<rparr>))) = None"
    using crit by simp
  show ?thesis
  proof (cases "t < now + d")
    case True
    with u f assms(2,3) show ?thesis
      by (simp add: select_page_def expire_override_def expire_remote_def r1 is_zero_time_def split: if_splits)
  next
    case False
    with u f assms(2,3) show ?thesis
      by (simp add: select_page_def expire_override_def expire_remote_def r1 is_zero_time_def split: if_splits)
  qed
qed

lemma remote_page_lasts_its_duration_witness:
  "\<exists>r r1 shown r2. started DefaultPageOrderText DefaultPageDwellText 1000 = Some r \<and>
     ShowPage PageServices (60 * second) 2000 r = Some r1 \<and> Update (59 * second) {} r1 = Some (shown, r2) \<and>
     shown = PageServices"
proof -
  obtain r where r: "started DefaultPageOrderText DefaultPageDwellText 1000 = Some r"
    using default_config by (auto simp: started_def)
  have "PageServices \<in> set allPages" by (simp add: allPages_def)
  then obtain r1 where r1: "ShowPage PageServices (60 * second) 2000 r = Some r1" "inv r1"
    using ShowPage_total [OF started_inv [OF r]] by metis
  obtain shown r2 where u: "Update (59 * second) {} r1 = Some (shown, r2)"
    using Update_total [OF r1(2)] by metis
  have "firstCritical {} r = None" by (simp add: firstCritical_def find_None_iff)
  with remote_page_lasts_its_duration [OF r1(1) _ _ _ u] r r1(1) u show ?thesis
    by (auto simp: second_def)
qed

end
