(* ===== verification/RemoteControl.thy ===== *)
theory RemoteControl
  imports Commands Router
begin

text \<open>
  The display's side of remote control (\<open>internal/remotecontrol\<close>): the ledger of command results
  (\<open>store.go\<close>), which makes a redelivered command harmless across restarts, and the controller
  (\<open>controller.go\<close>), which validates a command, admits it in sequence order, carries it out on the
  router, the message line or the backlight, and answers with its results. Clock readings, whether the
  ledger file could be written, and whether the backlight could be set are arguments. The ledger file is
  represented by the value it encodes; audit log lines are left out.
\<close>

section \<open>The ledger\<close>

definition maxRecords :: nat where "maxRecords = 256"

record LedgerRecord =
  lr_CommandID :: string
  lr_DeviceID :: string
  lr_Sequence :: u64
  lr_Kind :: CommandKind
  lr_IssuedAt :: instant
  lr_Result :: CommandResult
  lr_PendingRefresh :: bool
  lr_BaselineEpoch :: string
  lr_BaselineVersion :: u64

record storeState =
  ss_HighSequence :: u64
  ss_Records :: "LedgerRecord list"

record resultStore =
  store_data :: storeState
  store_disk :: "storeState option"   \<comment> \<open>what the ledger file holds\<close>

definition empty_ledger :: storeState where
  "empty_ledger = \<lparr>ss_HighSequence = 0, ss_Records = []\<rparr>"

text \<open>The new file is renamed over the old one as the last step: \<open>False\<close> is a failure that leaves it.\<close>

definition store_persist :: "bool \<Rightarrow> resultStore \<Rightarrow> bool \<times> resultStore" where
  "store_persist ok s = (if ok then (True, s\<lparr>store_disk := Some (store_data s)\<rparr>) else (False, s))"

definition interrupt_record :: "instant \<Rightarrow> LedgerRecord \<Rightarrow> LedgerRecord \<times> bool" where
  "interrupt_record stamp item =
     (if rs_Status (lr_Result item) = CommandAccepted \<and> \<not> lr_PendingRefresh item
      then (item\<lparr>lr_Result := (lr_Result item)\<lparr>rs_Status := CommandFailed, rs_Code := ''interrupted'',
              rs_CompletedAt := Some stamp,
              rs_DurationMS := duration_ms (time_sub stamp (rs_ReceivedAt (lr_Result item)))\<rparr>\<rparr>, True)
      else (item, False))"

datatype ledger_read = LedgerAbsent | LedgerUnreadable | LedgerText "storeState option"

definition openResultStore ::
  "bool \<Rightarrow> bool \<Rightarrow> bool \<Rightarrow> bool \<Rightarrow> instant \<Rightarrow> ledger_read \<Rightarrow> resultStore option" where
  "openResultStore dir_ok rename_ok chmod_ok persist_ok stamp outcome =
     (let created = (case store_persist persist_ok \<lparr>store_data = empty_ledger, store_disk = None\<rparr> of
                       (ok, s) \<Rightarrow> if ok then Some s else None)
      in if \<not> dir_ok then None
         else case outcome of
           LedgerUnreadable \<Rightarrow> None
         | LedgerAbsent \<Rightarrow> created
         | LedgerText None \<Rightarrow> if rename_ok then created else None
         | LedgerText (Some st) \<Rightarrow>
             if length (ss_Records st) > maxRecords then (if rename_ok then created else None)
             else
               let items = map (fst \<circ> interrupt_record stamp) (ss_Records st);
                   changed = list_ex (snd \<circ> interrupt_record stamp) (ss_Records st);
                   s = \<lparr>store_data = st\<lparr>ss_Records := items\<rparr>, store_disk = Some st\<rparr>
               in if changed then (case store_persist persist_ok s of (ok, s') \<Rightarrow> if ok then Some s' else None)
                  else if chmod_ok then Some s else None)"

definition lookup_record :: "string \<Rightarrow> resultStore \<Rightarrow> LedgerRecord option" where
  "lookup_record commandID s = find (\<lambda>item. lr_CommandID item = commandID) (ss_Records (store_data s))"

definition appendLocked :: "LedgerRecord \<Rightarrow> storeState \<Rightarrow> storeState" where
  "appendLocked item st =
     (let items = ss_Records st @ [item]
      in st\<lparr>ss_Records := (if length items > maxRecords then drop (length items - maxRecords) items else items)\<rparr>)"

definition new_record :: "DisplayCommand \<Rightarrow> CommandStatus \<Rightarrow> string \<Rightarrow> instant \<Rightarrow> instant option \<Rightarrow> LedgerRecord" where
  "new_record command status errcode now completed =
     \<lparr>lr_CommandID = dc_CommandID command, lr_DeviceID = dc_DeviceID command,
      lr_Sequence = dc_Sequence command, lr_Kind = dc_Kind command, lr_IssuedAt = dc_IssuedAt command,
      lr_Result = \<lparr>rs_CommandID = dc_CommandID command, rs_Sequence = dc_Sequence command, rs_Status = status,
        rs_Code = errcode, rs_ReceivedAt = now, rs_CompletedAt = completed, rs_DurationMS = 0\<rparr>,
      lr_PendingRefresh = False, lr_BaselineEpoch = [], lr_BaselineVersion = 0\<rparr>"

text \<open>\<open>accept\<close> returns the record, whether it is a duplicate, and whether the ledger was written.\<close>

definition accept_record ::
  "DisplayCommand \<Rightarrow> string \<Rightarrow> u64 \<Rightarrow> instant \<Rightarrow> bool \<Rightarrow> resultStore \<Rightarrow> (LedgerRecord \<times> bool \<times> bool) \<times> resultStore"
where
  "accept_record command baselineEpoch baselineVersion now persist_ok s =
     (case lookup_record (dc_CommandID command) s of
        Some item \<Rightarrow> ((item, True, True), s)
      | None \<Rightarrow>
          let item = (new_record command CommandAccepted [] now None)
                \<lparr>lr_BaselineEpoch := baselineEpoch, lr_BaselineVersion := baselineVersion\<rparr>
          in if dc_Sequence command \<le> ss_HighSequence (store_data s) then
               let item' = item\<lparr>lr_Result := (lr_Result item)\<lparr>rs_Status := CommandRejected,
                     rs_Code := ''out_of_order'', rs_CompletedAt := Some now\<rparr>\<rparr>
               in (case store_persist persist_ok (s\<lparr>store_data := appendLocked item' (store_data s)\<rparr>) of
                     (ok, s') \<Rightarrow> ((item', False, ok), s'))
             else
               let item' = item\<lparr>lr_PendingRefresh := (dc_Kind command = CommandRefreshData)\<rparr>;
                   st = appendLocked item' ((store_data s)\<lparr>ss_HighSequence := dc_Sequence command\<rparr>)
               in (case store_persist persist_ok (s\<lparr>store_data := st\<rparr>) of
                     (ok, s') \<Rightarrow> ((item', False, ok), s')))"

definition reject_record ::
  "DisplayCommand \<Rightarrow> CommandStatus \<Rightarrow> string \<Rightarrow> instant \<Rightarrow> bool \<Rightarrow> resultStore \<Rightarrow> LedgerRecord \<times> resultStore" where
  "reject_record command status errcode now persist_ok s =
     (case lookup_record (dc_CommandID command) s of
        Some item \<Rightarrow> (item, s)
      | None \<Rightarrow>
          let item = new_record command status errcode now (Some now)
          in (item, snd (store_persist persist_ok (s\<lparr>store_data := appendLocked item (store_data s)\<rparr>))))"

fun index_of_record :: "string \<Rightarrow> LedgerRecord list \<Rightarrow> nat option" where
  "index_of_record cid [] = None"
| "index_of_record cid (item # items) =
     (if lr_CommandID item = cid then Some 0 else map_option Suc (index_of_record cid items))"

definition completed_record :: "CommandStatus \<Rightarrow> string \<Rightarrow> instant \<Rightarrow> LedgerRecord \<Rightarrow> LedgerRecord" where
  "completed_record status errcode now item =
     item\<lparr>lr_Result := (lr_Result item)\<lparr>rs_Status := status, rs_Code := errcode, rs_CompletedAt := Some now,
            rs_DurationMS := duration_ms (time_sub now (rs_ReceivedAt (lr_Result item)))\<rparr>,
          lr_PendingRefresh := False\<rparr>"

text \<open>\<open>None\<close> is the error: the record is missing, or the ledger could not be written (it is changed in memory).\<close>

definition complete_record ::
  "string \<Rightarrow> CommandStatus \<Rightarrow> string \<Rightarrow> instant \<Rightarrow> bool \<Rightarrow> resultStore \<Rightarrow> LedgerRecord option \<times> resultStore" where
  "complete_record commandID status errcode now persist_ok s =
     (case index_of_record commandID (ss_Records (store_data s)) of
        None \<Rightarrow> (None, s)
      | Some i \<Rightarrow>
          let item = ss_Records (store_data s) ! i
          in if Final (rs_Status (lr_Result item)) then (Some item, s)
             else
               let item' = completed_record status errcode now item;
                   st = (store_data s)\<lparr>ss_Records := (ss_Records (store_data s))[i := item']\<rparr>
               in (case store_persist persist_ok (s\<lparr>store_data := st\<rparr>) of
                     (ok, s') \<Rightarrow> (if ok then Some item' else None, s')))"

definition pendingRefreshes :: "resultStore \<Rightarrow> LedgerRecord list" where
  "pendingRefreshes s =
     filter (\<lambda>item. lr_PendingRefresh item \<and> rs_Status (lr_Result item) = CommandAccepted) (ss_Records (store_data s))"

section \<open>The controller\<close>

record noticeState =
  ns_text :: string
  ns_severity :: string
  ns_expires :: instant

record RemoteNotice =
  rn_Text :: string
  rn_Severity :: string
  rn_Source :: string
  rn_ReturnIn :: duration

record Controller =
  ct_deviceID :: string
  ct_sourceNode :: string
  ct_router :: Router
  ct_brightness :: bool             \<comment> \<open>whether a backlight is attached\<close>
  ct_store :: resultStore
  ct_notice :: "noticeState option"
  ct_lastEpoch :: string
  ct_lastVersion :: u64

text \<open>
  What the environment answers during one call of \<open>Handle\<close>: the clock at its start, when the store
  admits, when it completes and when a failure is stamped; whether the two ledger writes succeed; and
  whether the backlight accepts the level.
\<close>

record HandleEnv =
  he_now :: instant
  he_admit :: instant
  he_complete :: instant
  he_failure :: instant
  he_admit_ok :: bool
  he_complete_ok :: bool
  he_backlight_ok :: bool

definition New_Controller :: "string \<Rightarrow> string \<Rightarrow> string \<Rightarrow> Router option \<Rightarrow> bool \<Rightarrow> resultStore option \<Rightarrow> Controller option" where
  "New_Controller dataDir device sourceNode router brightness store =
     (if dataDir = [] \<or> device = [] \<or> sourceNode = [] then None
      else case router of None \<Rightarrow> None | Some r \<Rightarrow>
        (case store of None \<Rightarrow> None | Some s \<Rightarrow>
           Some \<lparr>ct_deviceID = device, ct_sourceNode = sourceNode, ct_router = r, ct_brightness = brightness,
                 ct_store = s, ct_notice = None, ct_lastEpoch = [], ct_lastVersion = 0\<rparr>))"

definition commandDuration :: "int \<Rightarrow> duration \<Rightarrow> duration" where
  "commandDuration seconds fallback = (if seconds = 0 then fallback else wrap64 (seconds * second))"

definition transientFailure :: "DisplayCommand \<Rightarrow> string \<Rightarrow> instant \<Rightarrow> CommandResult" where
  "transientFailure command errcode now =
     \<lparr>rs_CommandID = dc_CommandID command, rs_Sequence = dc_Sequence command, rs_Status = CommandFailed,
      rs_Code = errcode, rs_ReceivedAt = now, rs_CompletedAt = Some now, rs_DurationMS = 0\<rparr>"

text \<open>The first half of \<open>Handle\<close>: everything up to the point where the command is carried out.\<close>

datatype admission =
    Answered "CommandResult list"   \<comment> \<open>\<open>Handle\<close> returns these\<close>
  | Admitted CommandResult          \<comment> \<open>carry it out; this is the first answer\<close>

definition admit :: "HandleEnv \<Rightarrow> DisplayCommand \<Rightarrow> Controller \<Rightarrow> admission \<times> Controller" where
  "admit env command c =
     (case lookup_record (dc_CommandID command) (ct_store c) of
        Some existing \<Rightarrow> (Answered [lr_Result existing], c)
      | None \<Rightarrow>
          (case DisplayCommand_Validate command (he_now env) of
             Some errcode \<Rightarrow>
               let status = (if errcode = ''expired'' then CommandExpired else CommandRejected)
               in (case reject_record command status errcode (he_admit env) (he_admit_ok env) (ct_store c) of
                     (item, s) \<Rightarrow> (Answered [lr_Result item], c\<lparr>ct_store := s\<rparr>))
           | None \<Rightarrow>
               if dc_DeviceID command \<noteq> ct_deviceID c then
                 (case reject_record command CommandRejected ''wrong_target'' (he_admit env) (he_admit_ok env) (ct_store c) of
                    (item, s) \<Rightarrow> (Answered [lr_Result item], c\<lparr>ct_store := s\<rparr>))
               else
                 (case accept_record command (ct_lastEpoch c) (ct_lastVersion c) (he_admit env) (he_admit_ok env) (ct_store c) of
                    ((item, duplicate, ok), s) \<Rightarrow>
                      let c' = c\<lparr>ct_store := s\<rparr>
                      in if \<not> ok then (Answered [transientFailure command ''state_unavailable'' (he_failure env)], c')
                         else if duplicate \<or> Final (rs_Status (lr_Result item)) then (Answered [lr_Result item], c')
                         else if dc_Kind command = CommandRefreshData then (Answered [lr_Result item], c')
                         else (Admitted (lr_Result item), c'))))"

definition page_of :: "PageCommandParams option \<Rightarrow> Page" where
  "page_of p = (case p of None \<Rightarrow> [] | Some q \<Rightarrow>
     (case ParsePage (pp_PageID q) of Inl _ \<Rightarrow> [] | Inr page \<Rightarrow> page))"

text \<open>The switch of \<open>Handle\<close>. A decoding error is ignored there: the parameters are then zero values.\<close>

definition carry_out ::
  "HandleEnv \<Rightarrow> DisplayCommand \<Rightarrow> Controller \<Rightarrow> ((CommandStatus \<times> string) \<times> Controller) option" where
  "carry_out env command c =
     (let now = he_now env; params = dc_Params command; r = ct_router c;
          routed = (\<lambda>moved. map_option (\<lambda>r'. ((CommandExecuted, []), c\<lparr>ct_router := r'\<rparr>)) moved)
      in if dc_Kind command = CommandShowPage then
           (let p = decode_page params
            in routed (ShowPage (page_of p) (commandDuration (case p of None \<Rightarrow> 0 | Some q \<Rightarrow> pp_DurationSeconds q) DefaultPageDuration) now r))
         else if dc_Kind command = CommandNextPage then
           (let p = decode_step params
            in routed (NextPage (commandDuration (case p of None \<Rightarrow> 0 | Some q \<Rightarrow> sp_DurationSeconds q) DefaultPageDuration) now r))
         else if dc_Kind command = CommandPreviousPage then
           (let p = decode_step params
            in routed (PreviousPage (commandDuration (case p of None \<Rightarrow> 0 | Some q \<Rightarrow> sp_DurationSeconds q) DefaultPageDuration) now r))
         else if dc_Kind command = CommandSetRotation then
           (let p = (case decode_rotation params of
                       None \<Rightarrow> \<lparr>rp_Enabled = False, rp_IntervalSeconds = 0, rp_DurationSeconds = 0\<rparr> | Some q \<Rightarrow> q)
            in routed (SetRotation (rp_Enabled p) (wrap64 (rp_IntervalSeconds p * second))
                         (commandDuration (rp_DurationSeconds p) (5 * minute)) now r))
         else if dc_Kind command = CommandShowMessage then
           (let p = (case decode_message params of
                       None \<Rightarrow> \<lparr>mp_Text = [], mp_Severity = [], mp_DurationSeconds = 0\<rparr> | Some q \<Rightarrow> q)
            in Some ((CommandExecuted, []),
                 c\<lparr>ct_notice := Some \<lparr>ns_text = mp_Text p, ns_severity = mp_Severity p,
                      ns_expires = now + commandDuration (mp_DurationSeconds p) DefaultPageDuration\<rparr>\<rparr>))
         else if dc_Kind command = CommandSetBrightness then
           Some (if \<not> ct_brightness c then (CommandFailed, ''unsupported_capability'')
                 else if \<not> he_backlight_ok env then (CommandFailed, ''brightness_failed'')
                 else (CommandExecuted, []), c)
         else Some ((CommandExecuted, []), c))"

definition Handle :: "HandleEnv \<Rightarrow> DisplayCommand \<Rightarrow> Controller \<Rightarrow> (CommandResult list \<times> Controller) option" where
  "Handle env command c =
     (case admit env command c of
        (Answered results, c') \<Rightarrow> Some (results, c')
      | (Admitted accepted, c') \<Rightarrow>
          Option.bind (carry_out env command c')
            (\<lambda>((status, errcode), c2).
               case complete_record (dc_CommandID command) status errcode (he_complete env) (he_complete_ok env) (ct_store c2) of
                 (None, s) \<Rightarrow> Some ([accepted, transientFailure command ''state_unavailable'' (he_failure env)], c2\<lparr>ct_store := s\<rparr>)
               | (Some completed, s) \<Rightarrow> Some ([accepted, lr_Result completed], c2\<lparr>ct_store := s\<rparr>)))"

text \<open>The completions of \<open>SnapshotApplied\<close>: \<open>env\<close> gives the clock and the ledger write of each.\<close>

fun complete_refreshes ::
  "string \<Rightarrow> u64 \<Rightarrow> (nat \<Rightarrow> instant \<times> bool) \<Rightarrow> nat \<Rightarrow> LedgerRecord list \<Rightarrow> resultStore \<Rightarrow> CommandResult list \<times> resultStore"
where
  "complete_refreshes epoch version env i [] s = ([], s)"
| "complete_refreshes epoch version env i (item # items) s =
     (if epoch \<noteq> lr_BaselineEpoch item \<or> version > lr_BaselineVersion item then
        (case complete_record (lr_CommandID item) CommandExecuted [] (fst (env i)) (snd (env i)) s of
           (answer, s1) \<Rightarrow>
             (case complete_refreshes epoch version env (Suc i) items s1 of
                (results, s2) \<Rightarrow>
                  (case answer of None \<Rightarrow> (results, s2) | Some completed \<Rightarrow> (lr_Result completed # results, s2))))
      else complete_refreshes epoch version env (Suc i) items s)"

definition SnapshotApplied ::
  "(nat \<Rightarrow> instant \<times> bool) \<Rightarrow> string \<Rightarrow> u64 \<Rightarrow> Controller \<Rightarrow> CommandResult list \<times> Controller" where
  "SnapshotApplied env epoch version c =
     (case complete_refreshes epoch version env 0 (pendingRefreshes (ct_store c)) (ct_store c) of
        (results, s) \<Rightarrow> (results, c\<lparr>ct_lastEpoch := epoch, ct_lastVersion := version, ct_store := s\<rparr>))"

definition Notice :: "instant \<Rightarrow> Controller \<Rightarrow> RemoteNotice option \<times> Controller" where
  "Notice now c =
     (case ct_notice c of
        None \<Rightarrow> (None, c)
      | Some n \<Rightarrow>
          if \<not> now < ns_expires n then (None, c\<lparr>ct_notice := None\<rparr>)
          else (Some \<lparr>rn_Text = ns_text n, rn_Severity = ns_severity n, rn_Source = ct_sourceNode c,
                      rn_ReturnIn = time_sub (ns_expires n) now\<rparr>, c))"

section \<open>The ledger's invariant\<close>

definition record_ok :: "LedgerRecord \<Rightarrow> bool" where
  "record_ok item \<longleftrightarrow>
     rs_CommandID (lr_Result item) = lr_CommandID item \<and>
     (rs_Status (lr_Result item) = CommandAccepted \<or> Final (rs_Status (lr_Result item))) \<and>
     (lr_PendingRefresh item \<longrightarrow> rs_Status (lr_Result item) = CommandAccepted)"

definition ledger_ok :: "storeState \<Rightarrow> bool" where
  "ledger_ok st \<longleftrightarrow>
     length (ss_Records st) \<le> maxRecords \<and> distinct (map lr_CommandID (ss_Records st)) \<and>
     list_all record_ok (ss_Records st)"

definition store_ok :: "resultStore \<Rightarrow> bool" where
  "store_ok s \<longleftrightarrow> ledger_ok (store_data s) \<and>
     (\<exists>d. store_disk s = Some d \<and> ledger_ok d \<and> ss_HighSequence d \<le> ss_HighSequence (store_data s))"

text \<open>The highest sequence number the ledger file vouches for.\<close>

definition disk_high :: "resultStore \<Rightarrow> u64" where
  "disk_high s = (case store_disk s of None \<Rightarrow> 0 | Some d \<Rightarrow> ss_HighSequence d)"

lemma disk_high_le: "store_ok s \<Longrightarrow> disk_high s \<le> ss_HighSequence (store_data s)"
  by (auto simp: store_ok_def disk_high_def)

lemma lookup_None: "lookup_record cid s = None \<longleftrightarrow> cid \<notin> lr_CommandID ` set (ss_Records (store_data s))"
  by (auto simp: lookup_record_def find_None_iff)

lemma lookup_Some:
  "lookup_record cid s = Some item \<Longrightarrow> item \<in> set (ss_Records (store_data s)) \<and> lr_CommandID item = cid"
  by (auto simp: lookup_record_def find_Some_iff)

lemma find_distinct:
  "distinct (map f xs) \<Longrightarrow> x \<in> set xs \<Longrightarrow> find (\<lambda>y. f y = f x) xs = Some x"
  by (induction xs) (auto simp: image_iff)

lemma lookup_member:
  assumes "ledger_ok (store_data s)"
  shows "lookup_record cid s = Some item \<longleftrightarrow> item \<in> set (ss_Records (store_data s)) \<and> lr_CommandID item = cid"
proof
  assume "item \<in> set (ss_Records (store_data s)) \<and> lr_CommandID item = cid"
  moreover have "distinct (map lr_CommandID (ss_Records (store_data s)))" using assms by (simp add: ledger_ok_def)
  ultimately show "lookup_record cid s = Some item"
    using find_distinct [of lr_CommandID "ss_Records (store_data s)" item] by (simp add: lookup_record_def)
qed (rule lookup_Some)

lemma index_of_record_None: "index_of_record cid items = None \<longleftrightarrow> cid \<notin> lr_CommandID ` set items"
  by (induction items) auto

lemma index_of_record_Some:
  "index_of_record cid items = Some i \<Longrightarrow> i < length items \<and> lr_CommandID (items ! i) = cid"
  by (induction items arbitrary: i) (auto split: if_splits)

text \<open>The write of a changed ledger: memory always changes, the file only when the write succeeds.\<close>

lemma store_ok_write:
  assumes "store_ok s" "ledger_ok st" "ss_HighSequence (store_data s) \<le> ss_HighSequence st"
  shows "store_ok (snd (store_persist ok (s\<lparr>store_data := st\<rparr>)))"
    and "disk_high s \<le> disk_high (snd (store_persist ok (s\<lparr>store_data := st\<rparr>)))"
  using assms by (auto simp: store_ok_def store_persist_def disk_high_def)

lemma store_persist_data [simp]:
  "store_data (snd (store_persist ok s)) = store_data s" "fst (store_persist ok s) = ok"
  by (simp_all add: store_persist_def)

lemma appendLocked_high [simp]: "ss_HighSequence (appendLocked item st) = ss_HighSequence st"
  by (simp add: appendLocked_def Let_def)

lemma appendLocked_records:
  "ss_Records (appendLocked item st) =
     drop (Suc (length (ss_Records st)) - maxRecords) (ss_Records st @ [item])"
  by (simp add: appendLocked_def Let_def)

lemma ledger_ok_append:
  assumes "ledger_ok st" "record_ok item" "lr_CommandID item \<notin> lr_CommandID ` set (ss_Records st)"
  shows "ledger_ok (appendLocked item st)"
proof -
  let ?items = "ss_Records st @ [item]"
  have "distinct (map lr_CommandID ?items)" "list_all record_ok ?items"
    using assms by (auto simp: ledger_ok_def)
  then have "distinct (map lr_CommandID (drop k ?items))" "list_all record_ok (drop k ?items)" for k
    by (simp_all only: drop_map [symmetric] distinct_drop list_all_iff) (meson in_set_dropD)
  then show ?thesis
    by (simp add: ledger_ok_def appendLocked_records maxRecords_def del: drop_append)
qed

lemma ledger_ok_high [simp]: "ledger_ok (st\<lparr>ss_HighSequence := h\<rparr>) = ledger_ok st"
  by (simp add: ledger_ok_def)

lemma record_ok_new [simp]:
  "Final status \<Longrightarrow> record_ok (new_record command status errcode now completed)"
  "lr_CommandID (new_record command status errcode now completed) = dc_CommandID command"
  by (simp_all add: record_ok_def new_record_def)

lemma reject_record_ok:
  assumes "store_ok s" "Final status"
  shows "store_ok (snd (reject_record command status errcode now ok s))"
    and "disk_high s \<le> disk_high (snd (reject_record command status errcode now ok s))"
proof -
  have "store_ok (snd (reject_record command status errcode now ok s)) \<and>
    disk_high s \<le> disk_high (snd (reject_record command status errcode now ok s))"
  proof (cases "lookup_record (dc_CommandID command) s")
    case None
    let ?item = "new_record command status errcode now (Some now)"
    have "ledger_ok (appendLocked ?item (store_data s))"
      using assms None by (intro ledger_ok_append) (auto simp: store_ok_def lookup_None)
    with store_ok_write [OF assms(1) this, of ok] None show ?thesis
      by (simp add: reject_record_def Let_def)
  qed (use assms in \<open>simp add: reject_record_def\<close>)
  then show "store_ok (snd (reject_record command status errcode now ok s))"
    "disk_high s \<le> disk_high (snd (reject_record command status errcode now ok s))" by blast+
qed

text \<open>\<open>accept\<close> has three outcomes: a known command, one out of order, one admitted.\<close>

definition out_of_order_record :: "DisplayCommand \<Rightarrow> string \<Rightarrow> u64 \<Rightarrow> instant \<Rightarrow> LedgerRecord" where
  "out_of_order_record command epoch version now =
     (new_record command CommandRejected ''out_of_order'' now (Some now))
       \<lparr>lr_BaselineEpoch := epoch, lr_BaselineVersion := version\<rparr>"

definition admitted_record :: "DisplayCommand \<Rightarrow> string \<Rightarrow> u64 \<Rightarrow> instant \<Rightarrow> LedgerRecord" where
  "admitted_record command epoch version now =
     (new_record command CommandAccepted [] now None)
       \<lparr>lr_BaselineEpoch := epoch, lr_BaselineVersion := version,
        lr_PendingRefresh := (dc_Kind command = CommandRefreshData)\<rparr>"

lemma special_records [simp]:
  "record_ok (out_of_order_record command epoch version now)"
  "record_ok (admitted_record command epoch version now)"
  "lr_CommandID (out_of_order_record command epoch version now) = dc_CommandID command"
  "lr_CommandID (admitted_record command epoch version now) = dc_CommandID command"
  by (simp_all add: record_ok_def out_of_order_record_def admitted_record_def new_record_def)

lemma accept_record_cases:
  "accept_record command epoch version now ok s =
     (case lookup_record (dc_CommandID command) s of
        Some item \<Rightarrow> ((item, True, True), s)
      | None \<Rightarrow>
          if dc_Sequence command \<le> ss_HighSequence (store_data s)
          then ((out_of_order_record command epoch version now, False, ok),
                snd (store_persist ok (s\<lparr>store_data := appendLocked (out_of_order_record command epoch version now) (store_data s)\<rparr>)))
          else ((admitted_record command epoch version now, False, ok),
                snd (store_persist ok (s\<lparr>store_data := appendLocked (admitted_record command epoch version now)
                       ((store_data s)\<lparr>ss_HighSequence := dc_Sequence command\<rparr>)\<rparr>))))"
  by (auto simp: accept_record_def out_of_order_record_def admitted_record_def new_record_def Let_def
      store_persist_def split: option.splits)

lemma accept_record_ok:
  assumes "store_ok s"
  shows "store_ok (snd (accept_record command epoch version now ok s))"
    and "disk_high s \<le> disk_high (snd (accept_record command epoch version now ok s))"
proof -
  have "store_ok (snd (accept_record command epoch version now ok s)) \<and>
    disk_high s \<le> disk_high (snd (accept_record command epoch version now ok s))"
  proof (cases "lookup_record (dc_CommandID command) s")
    case None
    then have new: "dc_CommandID command \<notin> lr_CommandID ` set (ss_Records (store_data s))"
      by (simp add: lookup_None)
    have ledger: "ledger_ok (store_data s)" using assms by (simp add: store_ok_def)
    have "ledger_ok (appendLocked (out_of_order_record command epoch version now) (store_data s))"
      using ledger new by (intro ledger_ok_append) simp_all
    note w1 = store_ok_write [OF assms this, of ok, simplified]
    have l2: "ledger_ok (appendLocked (admitted_record command epoch version now)
        ((store_data s)\<lparr>ss_HighSequence := dc_Sequence command\<rparr>))"
      using ledger new by (intro ledger_ok_append) simp_all
    show ?thesis
    proof (cases "dc_Sequence command \<le> ss_HighSequence (store_data s)")
      case True
      with None w1 show ?thesis by (simp add: accept_record_cases)
    next
      case False
      then have "ss_HighSequence (store_data s) \<le> dc_Sequence command" by simp
      with store_ok_write [OF assms l2, of ok] None False show ?thesis by (simp add: accept_record_cases)
    qed
  qed (use assms in \<open>simp add: accept_record_cases\<close>)
  then show "store_ok (snd (accept_record command epoch version now ok s))"
    "disk_high s \<le> disk_high (snd (accept_record command epoch version now ok s))" by blast+
qed

lemma ledger_ok_update:
  assumes "ledger_ok st" "i < length (ss_Records st)" "record_ok item" "lr_CommandID item = lr_CommandID (ss_Records st ! i)"
  shows "ledger_ok (st\<lparr>ss_Records := (ss_Records st)[i := item]\<rparr>)"
proof -
  have "map lr_CommandID ((ss_Records st)[i := item]) = map lr_CommandID (ss_Records st)"
    using assms(2,4) by (metis list_update_id map_update nth_map)
  then show ?thesis
    using assms(1,3) by (auto simp: ledger_ok_def list_all_iff dest: subsetD [OF set_update_subset_insert])
qed

lemma complete_record_ok:
  assumes "store_ok s" "Final status"
  shows "store_ok (snd (complete_record cid status errcode now ok s))"
    and "disk_high s \<le> disk_high (snd (complete_record cid status errcode now ok s))"
proof -
  have "store_ok (snd (complete_record cid status errcode now ok s)) \<and>
    disk_high s \<le> disk_high (snd (complete_record cid status errcode now ok s))"
  proof (cases "index_of_record cid (ss_Records (store_data s))")
    case (Some i)
    let ?items = "ss_Records (store_data s)"
    have i: "i < length ?items" using index_of_record_Some [OF Some] by blast
    then have "record_ok (?items ! i)" using assms(1) by (simp add: store_ok_def ledger_ok_def list_all_length)
    then have "record_ok (completed_record status errcode now (?items ! i))"
      using assms(2) by (simp add: record_ok_def completed_record_def)
    then have "ledger_ok ((store_data s)\<lparr>ss_Records := ?items[i := completed_record status errcode now (?items ! i)]\<rparr>)"
      using assms(1) i by (intro ledger_ok_update) (simp_all add: store_ok_def completed_record_def)
    with store_ok_write [OF assms(1) this, of ok] assms(1) Some show ?thesis
      by (auto simp: complete_record_def Let_def split: prod.splits)
  qed (use assms in \<open>simp add: complete_record_def\<close>)
  then show "store_ok (snd (complete_record cid status errcode now ok s))"
    "disk_high s \<le> disk_high (snd (complete_record cid status errcode now ok s))" by blast+
qed

lemma complete_refreshes_ok:
  "store_ok s \<Longrightarrow> store_ok (snd (complete_refreshes epoch version env i items s)) \<and>
   disk_high s \<le> disk_high (snd (complete_refreshes epoch version env i items s))"
proof (induction epoch version env i items s rule: complete_refreshes.induct)
  case (2 epoch version env i item items s)
  show ?case
  proof (cases "epoch \<noteq> lr_BaselineEpoch item \<or> version > lr_BaselineVersion item")
    case True
    obtain answer s1 where c: "complete_record (lr_CommandID item) CommandExecuted [] (fst (env i)) (snd (env i)) s = (answer, s1)"
      by (rule prod.exhaust)
    then have ok: "store_ok s1" "disk_high s \<le> disk_high s1"
      using complete_record_ok [OF "2.prems", of CommandExecuted "lr_CommandID item" "[]" "fst (env i)" "snd (env i)"]
      by simp_all
    from "2.IH"(1) [OF True c [symmetric] ok(1)] show ?thesis
      using True ok(2) by (auto simp: c split: option.split prod.split)
  next
    case False
    with 2 show ?thesis by simp
  qed
qed simp

lemma interrupt_simps [simp]:
  "lr_CommandID (fst (interrupt_record stamp item)) = lr_CommandID item"
  "record_ok item \<Longrightarrow> record_ok (fst (interrupt_record stamp item))"
  by (auto simp: interrupt_record_def record_ok_def)

lemma interrupt_map_id [simp]: "map (lr_CommandID \<circ> (fst \<circ> interrupt_record stamp)) items = map lr_CommandID items"
  by simp

lemma ledger_ok_interrupt:
  "ledger_ok st \<Longrightarrow> ledger_ok (st\<lparr>ss_Records := map (fst \<circ> interrupt_record stamp) (ss_Records st)\<rparr>)"
  by (simp add: ledger_ok_def list_all_iff comp_def)

text \<open>A restart reads the ledger the previous life wrote.\<close>

lemma reopened:
  assumes "store_ok s" "openResultStore dir_ok r c p stamp (LedgerText (store_disk s)) = Some s'"
  shows "store_ok s' \<and> disk_high s' = disk_high s"
proof -
  obtain d where d: "store_disk s = Some d" "ledger_ok d" using assms(1) by (auto simp: store_ok_def)
  with assms(2) show ?thesis
    by (auto simp: openResultStore_def Let_def ledger_ok_interrupt store_ok_def store_persist_def disk_high_def
        ledger_ok_def [of d] split: if_splits)
qed

lemma opened_new:
  assumes "openResultStore dir_ok r c p stamp LedgerAbsent = Some s"
  shows "store_ok s \<and> store_data s = empty_ledger"
  using assms
  by (auto simp: openResultStore_def Let_def store_ok_def store_persist_def ledger_ok_def empty_ledger_def
      split: if_splits)

section \<open>The controller as a machine\<close>

definition ctl_ok :: "Controller \<Rightarrow> bool" where
  "ctl_ok c \<longleftrightarrow> Router.inv (ct_router c) \<and> store_ok (ct_store c)"

lemma ctl_ok_update [simp]:
  "ctl_ok (c\<lparr>ct_notice := n\<rparr>) = ctl_ok c" "ctl_ok (c\<lparr>ct_lastEpoch := e\<rparr>) = ctl_ok c"
  "ctl_ok (c\<lparr>ct_lastVersion := v\<rparr>) = ctl_ok c"
  by (simp_all add: ctl_ok_def)

lemma admit_store:
  assumes "admit env command c = (a, c')"
  obtains s where "c' = c\<lparr>ct_store := s\<rparr>"
    "s = ct_store c \<or>
     (\<exists>status errcode. Final status \<and> s = snd (reject_record command status errcode (he_admit env) (he_admit_ok env) (ct_store c))) \<or>
     s = snd (accept_record command (ct_lastEpoch c) (ct_lastVersion c) (he_admit env) (he_admit_ok env) (ct_store c))"
proof (cases "lookup_record (dc_CommandID command) (ct_store c)")
  case (Some item)
  with assms show thesis by (intro that [of "ct_store c"]) (simp_all add: admit_def)
next
  case new: None
  show thesis
  proof (cases "DisplayCommand_Validate command (he_now env)")
    case (Some errcode)
    let ?status = "if errcode = ''expired'' then CommandExpired else CommandRejected"
    let ?s = "snd (reject_record command ?status errcode (he_admit env) (he_admit_ok env) (ct_store c))"
    have "c' = c\<lparr>ct_store := ?s\<rparr>" using assms new Some by (auto simp: admit_def Let_def split: prod.splits)
    moreover have "Final ?status" by simp
    ultimately show thesis by (intro that [of ?s]) blast+
  next
    case valid: None
    show thesis
    proof (cases "dc_DeviceID command = ct_deviceID c")
      case False
      let ?s = "snd (reject_record command CommandRejected ''wrong_target'' (he_admit env) (he_admit_ok env) (ct_store c))"
      have "c' = c\<lparr>ct_store := ?s\<rparr>" using assms new valid False by (simp add: admit_def split: prod.splits)
      moreover have "Final CommandRejected" by simp
      ultimately show thesis by (intro that [of ?s]) blast+
    next
      case True
      let ?s = "snd (accept_record command (ct_lastEpoch c) (ct_lastVersion c) (he_admit env) (he_admit_ok env) (ct_store c))"
      have "c' = c\<lparr>ct_store := ?s\<rparr>"
        using assms new valid True by (auto simp: admit_def Let_def split: prod.splits if_splits)
      then show thesis by (intro that [of ?s]) blast+
    qed
  qed
qed

lemma admit_ok:
  assumes "ctl_ok c" "admit env command c = (a, c')"
  shows "ctl_ok c' \<and> disk_high (ct_store c) \<le> disk_high (ct_store c') \<and> ct_router c' = ct_router c \<and>
    ct_deviceID c' = ct_deviceID c"
proof -
  have s: "store_ok (ct_store c)" "Router.inv (ct_router c)" using assms(1) by (simp_all add: ctl_ok_def)
  show ?thesis
    by (rule admit_store [OF assms(2)])
      (use s reject_record_ok [OF s(1)] accept_record_ok [OF s(1)] in \<open>auto simp: ctl_ok_def\<close>)
qed

lemma ParsePage_known: "ParsePage v = Inr p \<Longrightarrow> p \<in> set allPages"
  by (auto simp: ParsePage_def Let_def split: if_splits)

lemma validPage_parses:
  assumes "validPage v"
  shows "\<exists>p. ParsePage v = Inr p"
proof -
  have "to_upper v \<in> set allPages" using assms by (simp add: validPage_def allPages_def)
  moreover from this have "list_all is_upper (to_upper v)"
    unfolding allPages_def by (auto simp: is_upper_def)
  then have "trim_space v = v" by (rule trim_space_upper)
  ultimately show ?thesis by (simp add: ParsePage_def)
qed

text \<open>What \<open>admit\<close> lets through: a valid command for this device that the ledger file now records.\<close>

lemma admitted:
  assumes "admit env command c = (Admitted accepted, c')"
  shows "lookup_record (dc_CommandID command) (ct_store c) = None"
    "DisplayCommand_Validate command (he_now env) = None" "dc_DeviceID command = ct_deviceID c"
    "ss_HighSequence (store_data (ct_store c)) < dc_Sequence command" "he_admit_ok env"
    "dc_Kind command \<noteq> CommandRefreshData"
    "c' = c\<lparr>ct_store := snd (store_persist True ((ct_store c)\<lparr>store_data :=
       appendLocked (admitted_record command (ct_lastEpoch c) (ct_lastVersion c) (he_admit env))
         ((store_data (ct_store c))\<lparr>ss_HighSequence := dc_Sequence command\<rparr>)\<rparr>))\<rparr>"
    "accepted = lr_Result (admitted_record command (ct_lastEpoch c) (ct_lastVersion c) (he_admit env))"
  using assms
  by (auto simp: admit_def Let_def accept_record_cases out_of_order_record_def new_record_def
      split: option.splits prod.splits if_splits)

lemma carry_out_returns:
  assumes "Router.inv (ct_router c)" "DisplayCommand_Validate command now = None"
  obtains status errcode c2 where "carry_out env command c = Some ((status, errcode), c2)"
    "Router.inv (ct_router c2)" "ct_store c2 = ct_store c" "ct_deviceID c2 = ct_deviceID c" "Final status"
    "errcode \<in> {[], ''unsupported_capability'', ''brightness_failed''}"
proof -
  have "\<exists>status errcode c2. carry_out env command c = Some ((status, errcode), c2) \<and>
    Router.inv (ct_router c2) \<and> ct_store c2 = ct_store c \<and> ct_deviceID c2 = ct_deviceID c \<and> Final status \<and>
    errcode \<in> {[], ''unsupported_capability'', ''brightness_failed''}"
  proof -
    have moved: ?thesis if "carry_out env command c =
        map_option (\<lambda>r'. ((CommandExecuted, []), c\<lparr>ct_router := r'\<rparr>)) m" "m = Some r'" "Router.inv r'" for m r'
      using that by simp
    consider (page) "dc_Kind command = CommandShowPage" | (next_page) "dc_Kind command = CommandNextPage"
      | (previous) "dc_Kind command = CommandPreviousPage" | (rotation) "dc_Kind command = CommandSetRotation"
      | (other) "dc_Kind command \<notin> {CommandShowPage, CommandNextPage, CommandPreviousPage, CommandSetRotation}"
      by blast
    then show ?thesis
    proof cases
      case page
      have "validateCommandParams CommandShowPage (dc_Params command) = None"
        using assms(2) page by (simp add: DisplayCommand_Validate_None)
      then obtain p where p: "decode_page (if dc_Params command = [] then ''{}'' else dc_Params command) = Some p"
        "validPage (pp_PageID p)"
        by (auto simp: validateCommandParams_def Let_def split: if_splits option.splits)
      have "dc_Params command \<noteq> []"
      proof
        assume "dc_Params command = []"
        moreover have "decode_page ''{}'' = Some \<lparr>pp_PageID = [], pp_DurationSeconds = 0\<rparr>" by code_simp
        moreover have "\<not> validPage []" by (simp add: validPage_def)
        ultimately show False using p by auto
      qed
      with p have d: "decode_page (dc_Params command) = Some p" by simp
      obtain pg where pg: "ParsePage (pp_PageID p) = Inr pg" using validPage_parses [OF p(2)] by blast
      obtain r' where "ShowPage pg (commandDuration (pp_DurationSeconds p) DefaultPageDuration) (he_now env) (ct_router c) = Some r'"
        "Router.inv r'" using ShowPage_total [OF assms(1) ParsePage_known [OF pg]] by metis
      then show ?thesis
        by (intro moved) (simp_all add: carry_out_def page d page_of_def pg Let_def)
    next
      case next_page
      obtain r' where "showStepLocked 1 (commandDuration (case decode_step (dc_Params command) of None \<Rightarrow> 0
          | Some q \<Rightarrow> sp_DurationSeconds q) DefaultPageDuration) (he_now env) (ct_router c) = Some r'"
        "Router.inv r'" using showStepLocked_total [OF assms(1)] by metis
      then show ?thesis
        by (intro moved) (simp_all add: carry_out_def next_page NextPage_def Let_def)
    next
      case previous
      obtain r' where "showStepLocked (-1) (commandDuration (case decode_step (dc_Params command) of None \<Rightarrow> 0
          | Some q \<Rightarrow> sp_DurationSeconds q) DefaultPageDuration) (he_now env) (ct_router c) = Some r'"
        "Router.inv r'" using showStepLocked_total [OF assms(1)] by metis
      then show ?thesis
        by (intro moved) (simp_all add: carry_out_def previous PreviousPage_def Let_def)
    next
      case rotation
      define p where "p = (case decode_rotation (dc_Params command) of
         None \<Rightarrow> \<lparr>rp_Enabled = False, rp_IntervalSeconds = 0, rp_DurationSeconds = 0\<rparr> | Some q \<Rightarrow> q)"
      obtain r' where "SetRotation (rp_Enabled p) (wrap64 (rp_IntervalSeconds p * second))
          (commandDuration (rp_DurationSeconds p) (5 * minute)) (he_now env) (ct_router c) = Some r'"
        "Router.inv r'" using SetRotation_total [OF assms(1)] by metis
      then show ?thesis
        by (intro moved) (simp_all add: carry_out_def rotation p_def Let_def)
    next
      case other
      with assms(1) show ?thesis by (auto simp: carry_out_def Let_def)
    qed
  qed
  then show thesis using that by blast
qed

text \<open>\<open>Handle\<close> returns, keeps the invariant, and answers for the command it was given.\<close>

lemma Handle_total:
  assumes "ctl_ok c"
  obtains results c' where "Handle env command c = Some (results, c')" "ctl_ok c'"
    "disk_high (ct_store c) \<le> disk_high (ct_store c')"
    "\<And>accepted c1. admit env command c = (Admitted accepted, c1) \<Longrightarrow> dc_Sequence command \<le> disk_high (ct_store c')"
proof -
  obtain a c1 where a: "admit env command c = (a, c1)" by (rule prod.exhaust)
  note ok = admit_ok [OF assms a]
  show thesis
  proof (cases a)
    case (Answered results)
    with a ok show thesis by (intro that [of results c1]) (auto simp: Handle_def)
  next
    case (Admitted accepted)
    note adm = admitted [OF a [unfolded Admitted]]
    have "Router.inv (ct_router c1)" using ok unfolding ctl_ok_def by blast
    then obtain status errcode c2 where c2: "carry_out env command c1 = Some ((status, errcode), c2)"
      "Router.inv (ct_router c2)" "ct_store c2 = ct_store c1" "Final status"
      using carry_out_returns [OF _ adm(2)] by metis
    obtain answer s where s: "complete_record (dc_CommandID command) status errcode (he_complete env) (he_complete_ok env) (ct_store c2)
        = (answer, s)" by (rule prod.exhaust)
    have "store_ok (ct_store c2)" using ok c2(3) by (simp add: ctl_ok_def)
    from complete_record_ok [OF this c2(4), of "dc_CommandID command" errcode "he_complete env" "he_complete_ok env"] s
    have store: "store_ok s" "disk_high (ct_store c1) \<le> disk_high s" using c2(3) by simp_all
    have high: "disk_high (ct_store c1) = dc_Sequence command"
      by (simp add: adm(7) disk_high_def store_persist_def)
    have "\<exists>results. Handle env command c = Some (results, c2\<lparr>ct_store := s\<rparr>)"
      using a Admitted c2(1) s by (cases answer) (simp_all add: Handle_def)
    then obtain results where "Handle env command c = Some (results, c2\<lparr>ct_store := s\<rparr>)" by blast
    then show thesis
      using store ok high c2(2) by (intro that [of results "c2\<lparr>ct_store := s\<rparr>"]) (auto simp: ctl_ok_def)
  qed
qed

datatype control_op =
    OpHandle HandleEnv DisplayCommand
  | OpSnapshotApplied "nat \<Rightarrow> instant \<times> bool" string u64
  | OpNotice instant
  | OpRouter router_op
  | OpRestart bool bool bool instant Router

text \<open>A restart starts from a router of its own and the ledger file; when it fails, it can be tried again.\<close>

fun control_step :: "Controller \<Rightarrow> control_op \<Rightarrow> Controller" where
  "control_step c (OpHandle env command) = (case Handle env command c of None \<Rightarrow> c | Some (_, c') \<Rightarrow> c')"
| "control_step c (OpSnapshotApplied env epoch version) = snd (SnapshotApplied env epoch version c)"
| "control_step c (OpNotice now) = snd (Notice now c)"
| "control_step c (OpRouter op) = c\<lparr>ct_router := router_step (ct_router c) op\<rparr>"
| "control_step c (OpRestart rename_ok chmod_ok persist_ok stamp router) =
     (case New_Controller ''data'' (ct_deviceID c) (ct_sourceNode c) (Some router) (ct_brightness c)
             (openResultStore True rename_ok chmod_ok persist_ok stamp (LedgerText (store_disk (ct_store c)))) of
        None \<Rightarrow> c | Some c' \<Rightarrow> c')"

fun control_allowed :: "control_op \<Rightarrow> bool" where
  "control_allowed (OpRouter op) \<longleftrightarrow> known_page op"
| "control_allowed (OpRestart _ _ _ _ router) \<longleftrightarrow> Router.inv router"
| "control_allowed _ \<longleftrightarrow> True"

text \<open>The sequence number of the command an operation carries out, if it carries one out.\<close>

fun carried_out :: "Controller \<Rightarrow> control_op \<Rightarrow> u64 option" where
  "carried_out c (OpHandle env command) =
     (case fst (admit env command c) of Answered _ \<Rightarrow> None | Admitted _ \<Rightarrow> Some (dc_Sequence command))"
| "carried_out c _ = None"

lemma control_step_ok:
  assumes "ctl_ok c" "control_allowed op"
  shows "ctl_ok (control_step c op) \<and> disk_high (ct_store c) \<le> disk_high (ct_store (control_step c op)) \<and>
    (\<forall>n. carried_out c op = Some n \<longrightarrow>
       disk_high (ct_store c) < n \<and> n \<le> disk_high (ct_store (control_step c op)))"
proof (cases op)
  case (OpHandle env command)
  obtain results c' where h: "Handle env command c = Some (results, c')" "ctl_ok c'"
    "disk_high (ct_store c) \<le> disk_high (ct_store c')"
    "\<And>accepted c1. admit env command c = (Admitted accepted, c1) \<Longrightarrow> dc_Sequence command \<le> disk_high (ct_store c')"
    using Handle_total [OF assms(1)] by metis
  obtain a c1 where a: "admit env command c = (a, c1)" by (rule prod.exhaust)
  have le: "disk_high (ct_store c) \<le> ss_HighSequence (store_data (ct_store c))"
    using assms(1) by (simp add: ctl_ok_def disk_high_le)
  show ?thesis
  proof (cases a)
    case (Admitted accepted)
    from h(4) [OF a [unfolded Admitted]] admitted(4) [OF a [unfolded Admitted]] le h a Admitted show ?thesis
      by (simp add: OpHandle)
  qed (use a h in \<open>simp add: OpHandle\<close>)
next
  case (OpSnapshotApplied env epoch version)
  from complete_refreshes_ok [of "ct_store c" epoch version env 0 "pendingRefreshes (ct_store c)"] assms(1)
  show ?thesis by (auto simp: OpSnapshotApplied SnapshotApplied_def ctl_ok_def split: prod.splits)
next
  case (OpNotice now)
  with assms(1) show ?thesis by (auto simp: Notice_def ctl_ok_def split: option.splits)
next
  case (OpRouter rop)
  with assms show ?thesis by (simp add: ctl_ok_def router_step_ok)
next
  case (OpRestart rename_ok chmod_ok persist_ok stamp router)
  have "store_ok (ct_store c)" using assms(1) by (simp add: ctl_ok_def)
  note re = reopened [OF this, of True rename_ok chmod_ok persist_ok stamp]
  show ?thesis
  proof (cases "openResultStore True rename_ok chmod_ok persist_ok stamp (LedgerText (store_disk (ct_store c)))")
    case None
    with assms(1) OpRestart show ?thesis by (simp add: New_Controller_def)
  next
    case (Some s)
    with re [OF Some] assms OpRestart show ?thesis by (simp add: New_Controller_def ctl_ok_def)
  qed
qed

interpretation control: invariant_machine control_step ctl_ok control_allowed
  by unfold_locales (simp add: control_step_ok)

lemma disk_high_run:
  "ctl_ok c \<Longrightarrow> list_all control_allowed ops \<Longrightarrow> disk_high (ct_store c) \<le> disk_high (ct_store (run control_step c ops))"
proof (induction ops arbitrary: c)
  case (Cons op ops)
  from control_step_ok [OF Cons.prems(1), of op] Cons.IH [of "control_step c op"] Cons.prems(2) show ?case
    by (auto intro: order_trans)
qed simp

definition controller_started :: "Router \<Rightarrow> bool \<Rightarrow> instant \<Rightarrow> Controller option" where
  "controller_started router brightness stamp =
     New_Controller ''data'' ''d'' ''node'' (Some router) brightness
       (openResultStore True True True True stamp LedgerAbsent)"

lemma controller_started_ok: "controller_started router brightness stamp = Some c \<Longrightarrow> Router.inv router \<Longrightarrow> ctl_ok c"
  using opened_new by (auto simp: controller_started_def New_Controller_def ctl_ok_def split: option.splits)

text \<open>
  C1. A command is carried out at most once and in order: of two commands the display carries out, the
  later one has the greater sequence number, whatever happens in between, restarts and failed ledger
  writes included. A redelivered command is therefore never carried out again.
\<close>

theorem carried_out_in_order:
  assumes "controller_started router brightness stamp = Some c0" "Router.inv router"
    and "list_all control_allowed (before @ op1 # between @ [op2])"
    and "carried_out (run control_step c0 before) op1 = Some n1"
    and "carried_out (run control_step c0 (before @ op1 # between)) op2 = Some n2"
  shows "n1 < n2"
proof -
  let ?c1 = "run control_step c0 before"
  let ?c2 = "control_step ?c1 op1"
  let ?c3 = "run control_step ?c2 between"
  have ok0: "ctl_ok c0" using controller_started_ok [OF assms(1,2)] .
  have al: "list_all control_allowed before" "control_allowed op1" "list_all control_allowed between" "control_allowed op2"
    using assms(3) by simp_all
  have ok1: "ctl_ok ?c1" using ok0 al(1) by (rule control.run_inv)
  note s1 = control_step_ok [OF ok1 al(2)]
  then have ok2: "ctl_ok ?c2" by blast
  have ok3: "ctl_ok ?c3" using ok2 al(3) by (rule control.run_inv)
  have "n1 \<le> disk_high (ct_store ?c2)" using s1 assms(4) by blast
  also have "\<dots> \<le> disk_high (ct_store ?c3)" by (rule disk_high_run [OF ok2 al(3)])
  also have "\<dots> < n2"
    using control_step_ok [OF ok3 al(4)] assms(5) by (simp add: run_append)
  finally show ?thesis .
qed

section \<open>Examples\<close>

lemma admit_fresh:
  assumes "lookup_record (dc_CommandID command) (ct_store c) = None"
    "DisplayCommand_Validate command (he_now env) = None" "dc_DeviceID command = ct_deviceID c"
    "ss_HighSequence (store_data (ct_store c)) < dc_Sequence command" "he_admit_ok env"
  shows "admit env command c =
    ((if dc_Kind command = CommandRefreshData then Answered [lr_Result (admitted_record command (ct_lastEpoch c) (ct_lastVersion c) (he_admit env))]
      else Admitted (lr_Result (admitted_record command (ct_lastEpoch c) (ct_lastVersion c) (he_admit env)))),
     c\<lparr>ct_store := snd (store_persist True ((ct_store c)\<lparr>store_data :=
       appendLocked (admitted_record command (ct_lastEpoch c) (ct_lastVersion c) (he_admit env))
         ((store_data (ct_store c))\<lparr>ss_HighSequence := dc_Sequence command\<rparr>)\<rparr>))\<rparr>)"
proof -
  have "\<not> dc_Sequence command \<le> ss_HighSequence (store_data (ct_store c))" using assms(4) by simp
  then show ?thesis
    using assms by (simp add: admit_def accept_record_cases Let_def admitted_record_def new_record_def)
qed

definition example_env :: HandleEnv where
  "example_env = \<lparr>he_now = 20 * second, he_admit = 20 * second, he_complete = 21 * second, he_failure = 21 * second,
     he_admit_ok = True, he_complete_ok = True, he_backlight_ok = True\<rparr>"

definition second_command :: DisplayCommand where
  "second_command = example_command\<lparr>dc_CommandID := ''00000000-0000-4000-8000-000000000001'', dc_Sequence := 2\<rparr>"

lemma second_command_valid: "DisplayCommand_Validate second_command (20 * second) = None"
proof -
  have "validUUID ''00000000-0000-4000-8000-000000000001''" by code_simp
  then show ?thesis
    using example_command_valid by (simp add: DisplayCommand_Validate_None second_command_def)
qed

definition example_router :: Router where
  "example_router = NewRouter \<lparr>rc_Order = allPages, rc_Dwell = map (\<lambda>p. (p, 15 * second)) allPages\<rparr> 1000"

lemma inv_example_router: "Router.inv example_router"
proof -
  have "config_ok \<lparr>rc_Order = allPages, rc_Dwell = map (\<lambda>p. (p, 15 * second)) allPages\<rparr>"
    by (auto simp: config_ok_def dwell_of_def allPages_def)
  then show ?thesis unfolding example_router_def by (rule inv_NewRouter)
qed

definition example_controller :: Controller where
  "example_controller = \<lparr>ct_deviceID = ''d'', ct_sourceNode = ''node'', ct_router = example_router, ct_brightness = True,
     ct_store = \<lparr>store_data = empty_ledger, store_disk = Some empty_ledger\<rparr>, ct_notice = None,
     ct_lastEpoch = [], ct_lastVersion = 0\<rparr>"

lemma example_started: "controller_started example_router True 0 = Some example_controller"
  by (simp add: controller_started_def New_Controller_def openResultStore_def store_persist_def example_controller_def)

definition example_answer :: CommandResult where
  "example_answer = \<lparr>rs_CommandID = ''00000000-0000-4000-8000-000000000000'', rs_Sequence = 1,
     rs_Status = CommandExecuted, rs_Code = [], rs_ReceivedAt = 20 * second, rs_CompletedAt = Some (21 * second),
     rs_DurationMS = 1000\<rparr>"

definition example_record :: LedgerRecord where
  "example_record = (admitted_record example_command [] 0 (20 * second))\<lparr>lr_Result := example_answer\<rparr>"

definition example_ledger :: storeState where
  "example_ledger = \<lparr>ss_HighSequence = 1, ss_Records = [example_record]\<rparr>"

definition example_handled :: Controller where
  "example_handled = example_controller\<lparr>ct_store := \<lparr>store_data = example_ledger, store_disk = Some example_ledger\<rparr>\<rparr>"

lemma example_admit: "fst (admit example_env example_command example_controller) =
    Admitted (lr_Result (admitted_record example_command [] 0 (20 * second)))"
  using example_command_valid
  by (subst admit_fresh) (simp_all add: example_controller_def lookup_record_def empty_ledger_def example_env_def
      example_command_def)

lemma example_handle:
  "Handle example_env example_command example_controller =
     Some ([lr_Result (admitted_record example_command [] 0 (20 * second)), example_answer], example_handled)"
proof -
  have "admit example_env example_command example_controller =
      (Admitted (lr_Result (admitted_record example_command [] 0 (20 * second))),
       example_controller\<lparr>ct_store := snd (store_persist True ((ct_store example_controller)\<lparr>store_data :=
         appendLocked (admitted_record example_command [] 0 (20 * second)) (empty_ledger\<lparr>ss_HighSequence := 1\<rparr>)\<rparr>))\<rparr>)"
    using example_command_valid
    by (subst admit_fresh) (simp_all add: example_controller_def lookup_record_def empty_ledger_def example_env_def
        example_command_def)
  moreover have "dc_Kind example_command = CommandSetBrightness" "dc_CommandID example_command = ''00000000-0000-4000-8000-000000000000''"
    by (simp_all add: example_command_def)
  ultimately show ?thesis
    by (simp add: Handle_def carry_out_def example_controller_def example_handled_def store_persist_def appendLocked_def
        empty_ledger_def maxRecords_def complete_record_def completed_record_def example_env_def Let_def
        example_ledger_def example_record_def example_answer_def admitted_record_def new_record_def
        duration_ms_def go_div_nonneg time_sub_def second_def millisecond_def example_command_def)
qed

lemma example_handled_facts:
  "lookup_record ''00000000-0000-4000-8000-000000000000'' (ct_store example_handled) = Some example_record"
  "lr_Result example_record = example_answer" "rs_Status example_answer = CommandExecuted"
  "ss_Records (store_data (ct_store example_handled)) = [example_record]"
  by (simp_all add: example_handled_def lookup_record_def example_ledger_def example_record_def admitted_record_def
      new_record_def example_command_def example_answer_def)

theorem carried_out_in_order_witness:
  "carried_out example_controller (OpHandle example_env example_command) = Some 1 \<and>
   carried_out example_handled (OpHandle example_env second_command) = Some 2 \<and> (1 :: u64) < 2"
proof -
  have one: "carried_out example_controller (OpHandle example_env example_command) = Some 1"
    by (simp add: example_admit) (simp add: example_command_def)
  have "fst (admit example_env second_command example_handled) =
      Admitted (lr_Result (admitted_record second_command [] 0 (20 * second)))"
    using second_command_valid
    by (subst admit_fresh)
      (simp_all add: example_handled_def example_controller_def lookup_record_def example_ledger_def example_env_def
        example_record_def admitted_record_def new_record_def second_command_def example_command_def)
  then have two: "carried_out example_handled (OpHandle example_env second_command) = Some 2"
    by simp (simp add: second_command_def)
  have "(1 :: u64) < 2"
    using carried_out_in_order [OF example_started inv_example_router, of "[]" "OpHandle example_env example_command" "[]"
        "OpHandle example_env second_command" 1 2] one two
    by (simp add: example_handle)
  with one two show ?thesis by blast
qed

section \<open>Answers that stay\<close>

definition ended :: "LedgerRecord \<Rightarrow> bool" where
  "ended item \<longleftrightarrow> Final (rs_Status (lr_Result item))"

text \<open>At most \<open>n\<close> new records; while there is room for them, ended records stay as they are.\<close>

definition grows :: "nat \<Rightarrow> resultStore \<Rightarrow> resultStore \<Rightarrow> bool" where
  "grows n s s' \<longleftrightarrow>
     (let xs = ss_Records (store_data s); ys = ss_Records (store_data s')
      in length ys \<le> length xs + n \<and>
         (length xs + n \<le> maxRecords \<longrightarrow> (\<forall>item\<in>set xs. ended item \<longrightarrow> item \<in> set ys)))"

lemma grows_refl [simp]: "grows n s s"
  by (simp add: grows_def)

lemma grows_trans: "grows m s s' \<Longrightarrow> grows n s' s'' \<Longrightarrow> grows (m + n) s s''"
  by (auto simp: grows_def Let_def)

lemma grows_append:
  "grows (Suc 0) s (snd (store_persist ok (s\<lparr>store_data := appendLocked item ((store_data s)\<lparr>ss_HighSequence := h\<rparr>)\<rparr>)))"
  "grows (Suc 0) s (snd (store_persist ok (s\<lparr>store_data := appendLocked item (store_data s)\<rparr>)))"
  by (auto simp: grows_def appendLocked_records Let_def simp del: drop_append)

lemma grows_reject: "grows (Suc 0) s (snd (reject_record command status errcode now ok s))"
  by (auto simp: reject_record_def Let_def grows_append split: option.splits)

lemma grows_accept: "grows (Suc 0) s (snd (accept_record command epoch version now ok s))"
  by (auto simp: accept_record_cases grows_append split: option.splits)

lemma grows_complete: "grows 0 s (snd (complete_record cid status errcode now ok s))"
proof (cases "index_of_record cid (ss_Records (store_data s))")
  case (Some i)
  let ?xs = "ss_Records (store_data s)"
  have "item \<in> set (?xs[i := item'])" if "item \<in> set ?xs" "ended item" "\<not> ended (?xs ! i)" for item item'
    using that by (metis in_set_conv_nth length_list_update nth_list_update_neq)
  with Some show ?thesis
    by (auto simp: complete_record_def Let_def grows_def ended_def split: prod.splits)
      (auto simp: store_persist_def split: if_splits)
qed (simp add: complete_record_def)

lemma grows_refreshes: "grows 0 s (snd (complete_refreshes epoch version env i items s))"
proof (induction epoch version env i items s rule: complete_refreshes.induct)
  case (2 epoch version env i item items s)
  show ?case
  proof (cases "epoch \<noteq> lr_BaselineEpoch item \<or> version > lr_BaselineVersion item")
    case True
    obtain answer s1 where c: "complete_record (lr_CommandID item) CommandExecuted [] (fst (env i)) (snd (env i)) s = (answer, s1)"
      by (rule prod.exhaust)
    have "grows 0 s s1" using grows_complete [of s "lr_CommandID item" CommandExecuted "[]"] c by (metis snd_conv)
    with "2.IH"(1) [OF True c [symmetric]] have "grows (0 + 0) s (snd (complete_refreshes epoch version env (Suc i) items s1))"
      by (rule grows_trans [rotated])
    with True show ?thesis by (auto simp: c split: option.split prod.split)
  next
    case False
    with 2 show ?thesis by simp
  qed
qed simp

lemma grows_Handle:
  assumes "ctl_ok c" "Handle env command c = Some (results, c')"
  shows "grows (Suc 0) (ct_store c) (ct_store c')"
proof -
  obtain a c1 where a: "admit env command c = (a, c1)" by (rule prod.exhaust)
  obtain s where s: "c1 = c\<lparr>ct_store := s\<rparr>" "grows (Suc 0) (ct_store c) s"
    by (rule admit_store [OF a]) (metis grows_refl grows_reject grows_accept)
  show ?thesis
  proof (cases a)
    case (Answered r)
    with a assms(2) s show ?thesis by (auto simp: Handle_def)
  next
    case (Admitted accepted)
    have "Router.inv (ct_router c1)" using admit_ok [OF assms(1) a] unfolding ctl_ok_def by blast
    then obtain status errcode c2 where c2: "carry_out env command c1 = Some ((status, errcode), c2)" "ct_store c2 = ct_store c1"
      using carry_out_returns [OF _ admitted(2) [OF a [unfolded Admitted]]] by metis
    have "grows 0 (ct_store c2) (ct_store c')"
      using assms(2) a Admitted c2(1) grows_complete [of "ct_store c2" "dc_CommandID command" status errcode "he_complete env" "he_complete_ok env"]
      by (auto simp: Handle_def split: prod.splits option.splits)
    with s c2(2) grows_trans [of "Suc 0" "ct_store c" s 0 "ct_store c'"] show ?thesis by simp
  qed
qed

fun same_life :: "control_op \<Rightarrow> bool" where
  "same_life (OpRestart _ _ _ _ _) = False"
| "same_life _ = True"

lemma grows_step:
  assumes "ctl_ok c" "same_life op"
  shows "grows (Suc 0) (ct_store c) (ct_store (control_step c op))"
proof (cases op)
  case (OpHandle env command)
  obtain results c' where "Handle env command c = Some (results, c')" using Handle_total [OF assms(1)] by metis
  with grows_Handle [OF assms(1) this] show ?thesis by (simp add: OpHandle)
next
  case (OpSnapshotApplied env epoch version)
  have "grows 0 (ct_store c) (ct_store (control_step c op))"
    using grows_refreshes [of "ct_store c" epoch version env 0 "pendingRefreshes (ct_store c)"]
    by (auto simp: OpSnapshotApplied SnapshotApplied_def split: prod.splits)
  from grows_trans [OF this grows_refl [of "Suc 0"]] show ?thesis by simp
qed (use assms(2) in \<open>auto simp: Notice_def split: option.splits\<close>)

lemma grows_run:
  "ctl_ok c \<Longrightarrow> list_all (\<lambda>op. control_allowed op \<and> same_life op) ops \<Longrightarrow>
   grows (length ops) (ct_store c) (ct_store (run control_step c ops))"
proof (induction ops arbitrary: c)
  case (Cons op ops)
  have "ctl_ok (control_step c op)" using control_step_ok [OF Cons.prems(1)] Cons.prems(2) by simp
  with Cons have "grows (length ops) (ct_store (control_step c op)) (ct_store (run control_step (control_step c op) ops))"
    by simp
  from grows_trans [OF grows_step [OF Cons.prems(1), of op] this] Cons.prems(2) show ?case by simp
qed simp



section \<open>Restarts\<close>

text \<open>
  C27. Whatever happened before, a restart can read the ledger back: it is never too long and is not put
  aside, the highest sequence number is kept, and afterwards no command is left hanging: each record
  has a final result (\<open>interrupted\<close> when the process stopped in the middle) or is a refresh that still
  waits for data.
\<close>

theorem restart_settles_every_command:
  assumes "controller_started router brightness stamp = Some c0" "Router.inv router" "list_all control_allowed ops"
  shows "\<exists>d s. store_disk (ct_store (run control_step c0 ops)) = Some d \<and> length (ss_Records d) \<le> 256 \<and>
    openResultStore True rename_ok True True stamp' (LedgerText (Some d)) = Some s \<and>
    ss_HighSequence (store_data s) = ss_HighSequence d \<and>
    map lr_CommandID (ss_Records (store_data s)) = map lr_CommandID (ss_Records d) \<and>
    list_all (\<lambda>item. Final (rs_Status (lr_Result item)) \<or> lr_PendingRefresh item) (ss_Records (store_data s))"
proof -
  let ?c = "run control_step c0 ops"
  have "ctl_ok ?c" using controller_started_ok [OF assms(1,2)] assms(3) by (rule control.run_inv)
  then obtain d where d: "store_disk (ct_store ?c) = Some d" "ledger_ok d" by (auto simp: ctl_ok_def store_ok_def)
  define st where "st = d\<lparr>ss_Records := map (fst \<circ> interrupt_record stamp') (ss_Records d)\<rparr>"
  have "record_ok item \<Longrightarrow> Final (rs_Status (lr_Result (fst (interrupt_record stamp' item)))) \<or>
      lr_PendingRefresh (fst (interrupt_record stamp' item))" for item
    by (auto simp: interrupt_record_def record_ok_def)
  then have "list_all (\<lambda>item. Final (rs_Status (lr_Result item)) \<or> lr_PendingRefresh item) (ss_Records st)"
    using d(2) by (simp add: st_def ledger_ok_def list_all_iff)
  moreover have "\<exists>s. openResultStore True rename_ok True True stamp' (LedgerText (Some d)) = Some s \<and> store_data s = st"
    using d(2) by (simp add: openResultStore_def Let_def store_persist_def ledger_ok_def st_def)
  ultimately show ?thesis
    using d by (auto simp: ledger_ok_def maxRecords_def st_def)
qed

theorem restart_settles_every_command_witness:
  "\<exists>s. openResultStore True False True True 9 (LedgerText (store_disk (ct_store example_handled))) = Some s \<and>
     ss_HighSequence (store_data s) = 1"
proof -
  have "run control_step example_controller [OpHandle example_env example_command] = example_handled"
    by (simp add: example_handle)
  with restart_settles_every_command [OF example_started inv_example_router, of "[OpHandle example_env example_command]" False 9]
  show ?thesis by (auto simp: example_handled_def example_ledger_def)
qed

section \<open>Answers and the daemon\<close>

lemma validate_codes:
  "DisplayCommand_Validate command now = Some e \<Longrightarrow> safeCommandID e"
proof -
  assume e: "DisplayCommand_Validate command now = Some e"
  have "validateCommandParams k raw = Some e \<Longrightarrow> e = ''invalid_param''" for k raw
    by (auto simp: validateCommandParams_def Let_def split: if_splits)
  moreover have "Some e = err_if b x \<longleftrightarrow> b \<and> e = x" for b x by (auto simp: err_if_def)
  moreover note first_err_Some [OF e [unfolded DisplayCommand_Validate_def]]
  ultimately have "e \<in> set [''schema_unsupported'', ''invalid_command_id'', ''wrong_target'', ''invalid_sequence'', ''unknown_command'',
      ''invalid_priority'', ''invalid_time'', ''issued_in_future'', ''expired'', ''invalid_param'']"
    by (simp only: list.set insert_iff empty_iff) metis
  moreover have "list_all safeCommandID [''schema_unsupported'', ''invalid_command_id'', ''wrong_target'', ''invalid_sequence'',
      ''unknown_command'', ''invalid_priority'', ''invalid_time'', ''issued_in_future'', ''expired'', ''invalid_param'']"
    by code_simp
  ultimately show ?thesis unfolding list_all_iff by blast
qed

lemma other_codes:
  "safeCommandID ''wrong_target''" "safeCommandID ''out_of_order''" "safeCommandID ''state_unavailable''"
  "safeCommandID ''unsupported_capability''" "safeCommandID ''brightness_failed''"
  by code_simp+

text \<open>The clock of one call: set, and complete within five minutes of the admission.\<close>

definition sane_clock :: "HandleEnv \<Rightarrow> bool" where
  "sane_clock env \<longleftrightarrow> he_admit env \<noteq> 0 \<and> he_failure env \<noteq> 0 \<and> he_admit env \<le> he_complete env \<and>
     he_complete env \<le> he_admit env + MaxCommandDuration"

definition answers :: "DisplayCommand \<Rightarrow> CommandResult \<Rightarrow> bool" where
  "answers command r \<longleftrightarrow>
     rs_CommandID r = dc_CommandID command \<and> rs_Sequence r = dc_Sequence command \<and> result_checks r = None"

lemma elapsed_ok:
  assumes "sane_clock env"
  shows "0 \<le> duration_ms (time_sub (he_complete env) (he_admit env))"
    "duration_ms (time_sub (he_complete env) (he_admit env)) \<le> 300000"
proof -
  have "time_sub (he_complete env) (he_admit env) = he_complete env - he_admit env"
    using assms by (intro time_sub_exact) (simp add: sane_clock_def in_int64_def command_limits)
  then have d: "0 \<le> time_sub (he_complete env) (he_admit env)" "time_sub (he_complete env) (he_admit env) \<le> 300000 * millisecond"
    using assms by (simp_all add: sane_clock_def command_limits millisecond_def)
  show "0 \<le> duration_ms (time_sub (he_complete env) (he_admit env))" using d(1) by (rule duration_ms_nonneg)
  have "duration_ms (300000 * millisecond) = 300000" by (simp add: duration_ms_def go_div_def millisecond_def)
  with duration_ms_mono [OF d] show "duration_ms (time_sub (he_complete env) (he_admit env)) \<le> 300000" by simp
qed

lemma index_of_member:
  assumes "ledger_ok st" "item \<in> set (ss_Records st)"
  shows "\<exists>i. index_of_record (lr_CommandID item) (ss_Records st) = Some i \<and> ss_Records st ! i = item"
proof -
  obtain i where i: "index_of_record (lr_CommandID item) (ss_Records st) = Some i"
    using assms(2) index_of_record_None [of "lr_CommandID item" "ss_Records st"] by (metis image_eqI not_Some_eq)
  obtain j where j: "j < length (ss_Records st)" "ss_Records st ! j = item" using assms(2) by (auto simp: in_set_conv_nth)
  from index_of_record_Some [OF i] j assms(1) have "i = j"
    by (auto simp: ledger_ok_def distinct_conv_nth)
  with i j show ?thesis by blast
qed

lemma member_append: "item \<in> set (ss_Records (appendLocked item st))"
  by (simp add: appendLocked_records maxRecords_def)

lemma complete_admitted:
  assumes "ledger_ok (store_data s)" "item \<in> set (ss_Records (store_data s))" "\<not> ended item"
  shows "fst (complete_record (lr_CommandID item) status errcode now ok s) =
    (if ok then Some (completed_record status errcode now item) else None)"
proof -
  obtain i where "index_of_record (lr_CommandID item) (ss_Records (store_data s)) = Some i" "ss_Records (store_data s) ! i = item"
    using index_of_member [OF assms(1,2)] by blast
  with assms(3) show ?thesis by (simp add: complete_record_def Let_def ended_def store_persist_def)
qed

lemma answer_simps:
  "answers command r \<longleftrightarrow> rs_CommandID r = dc_CommandID command \<and> rs_Sequence r = dc_Sequence command \<and> result_ok r"
  by (simp add: answers_def result_checks_None)

text \<open>A result stamped by the clock of one call.\<close>

definition stamped :: "HandleEnv \<Rightarrow> CommandResult \<Rightarrow> bool" where
  "stamped env r \<longleftrightarrow> rs_ReceivedAt r \<in> {he_admit env, he_failure env} \<and>
     rs_CompletedAt r \<in> {None, Some (he_admit env), Some (he_complete env), Some (he_failure env)}"

text \<open>The four results a call can make.\<close>

lemma made_answers:
  assumes "sane_clock env" "validUUID (dc_CommandID command)" "dc_Sequence command \<noteq> 0"
  shows "Final status \<Longrightarrow> safeCommandID errcode \<Longrightarrow>
      answers command (lr_Result (new_record command status errcode (he_admit env) (Some (he_admit env)))) \<and>
      stamped env (lr_Result (new_record command status errcode (he_admit env) (Some (he_admit env))))"
    and "answers command (transientFailure command ''state_unavailable'' (he_failure env)) \<and>
      stamped env (transientFailure command ''state_unavailable'' (he_failure env)) \<and>
      Final (rs_Status (transientFailure command ''state_unavailable'' (he_failure env)))"
    and "answers command (lr_Result (admitted_record command epoch version (he_admit env))) \<and>
      stamped env (lr_Result (admitted_record command epoch version (he_admit env)))"
    and "Final status \<Longrightarrow> errcode \<in> {[], ''unsupported_capability'', ''brightness_failed''} \<Longrightarrow>
      answers command (lr_Result (completed_record status errcode (he_complete env) (admitted_record command epoch version (he_admit env)))) \<and>
      stamped env (lr_Result (completed_record status errcode (he_complete env) (admitted_record command epoch version (he_admit env))))"
  using assms elapsed_ok [OF assms(1)] other_codes
  by (auto simp: sane_clock_def answer_simps result_ok_def stamped_def new_record_def transientFailure_def
      admitted_record_def completed_record_def)

lemma out_of_order_result:
  "lr_Result (out_of_order_record command epoch version now) = lr_Result (new_record command CommandRejected ''out_of_order'' now (Some now))"
  by (simp add: out_of_order_record_def)

lemma lookup_appended:
  assumes "ctl_ok c" "store_data (ct_store c) = appendLocked item st" "lr_CommandID item = cid"
  shows "lookup_record cid (ct_store c) = Some item"
proof -
  have "ledger_ok (store_data (ct_store c))" using assms(1) by (simp add: ctl_ok_def store_ok_def)
  with lookup_member [OF this, of cid item] assms(2,3) show ?thesis by (simp add: member_append)
qed

lemma admit_answered:
  assumes "ctl_ok c" "lookup_record (dc_CommandID command) (ct_store c) = None" "sane_clock env"
    and "validUUID (dc_CommandID command)" "dc_Sequence command \<noteq> 0" "admit env command c = (Answered results, c')"
  shows "\<exists>r. results = [r] \<and> answers command r \<and> stamped env r \<and> (Final (rs_Status r) \<or> dc_Kind command = CommandRefreshData) \<and>
    (he_admit_ok env \<longrightarrow> (\<exists>item. lookup_record (dc_CommandID command) (ct_store c') = Some item \<and> lr_Result item = r))"
proof -
  note made = made_answers [OF assms(3-5)]
  have ok: "ctl_ok c'" using admit_ok [OF assms(1,6)] by blast
  have recorded: "lookup_record (dc_CommandID command) (ct_store c') = Some item"
    if "c' = c\<lparr>ct_store := snd (store_persist b ((ct_store c)\<lparr>store_data := appendLocked item st\<rparr>))\<rparr>"
      "lr_CommandID item = dc_CommandID command" for b item st
    using that by (intro lookup_appended [OF ok, of item st]) simp_all
  have rejected: ?thesis
    if "Final status" "safeCommandID errcode"
      "results = [lr_Result (new_record command status errcode (he_admit env) (Some (he_admit env)))]"
      "c' = c\<lparr>ct_store := snd (store_persist (he_admit_ok env) ((ct_store c)\<lparr>store_data :=
         appendLocked (new_record command status errcode (he_admit env) (Some (he_admit env))) st\<rparr>))\<rparr>" for status errcode st
    using made(1) [OF that(1,2)] recorded [OF that(4)] that by (auto simp: new_record_def)
  show ?thesis
  proof (cases "DisplayCommand_Validate command (he_now env)")
    case (Some errcode)
    let ?status = "if errcode = ''expired'' then CommandExpired else CommandRejected"
    show ?thesis
      by (rule rejected [of ?status errcode "store_data (ct_store c)"])
        (use assms(2,6) Some validate_codes [OF Some] in \<open>simp_all add: admit_def reject_record_def Let_def split: prod.splits\<close>)
  next
    case valid: None
    show ?thesis
    proof (cases "dc_DeviceID command = ct_deviceID c")
      case False
      show ?thesis
        by (rule rejected [of CommandRejected "''wrong_target''" "store_data (ct_store c)"])
          (use assms(2,6) valid False other_codes in \<open>simp_all add: admit_def reject_record_def Let_def\<close>)
    next
      case device: True
      define item where "item = (if dc_Sequence command \<le> ss_HighSequence (store_data (ct_store c))
        then out_of_order_record command (ct_lastEpoch c) (ct_lastVersion c) (he_admit env)
        else admitted_record command (ct_lastEpoch c) (ct_lastVersion c) (he_admit env))"
      define st where "st = (if dc_Sequence command \<le> ss_HighSequence (store_data (ct_store c)) then store_data (ct_store c)
        else (store_data (ct_store c))\<lparr>ss_HighSequence := dc_Sequence command\<rparr>)"
      have accept: "accept_record command (ct_lastEpoch c) (ct_lastVersion c) (he_admit env) (he_admit_ok env) (ct_store c) =
          ((item, False, he_admit_ok env), snd (store_persist (he_admit_ok env) ((ct_store c)\<lparr>store_data := appendLocked item st\<rparr>)))"
        by (simp add: accept_record_cases assms(2) item_def st_def)
      have c': "c' = c\<lparr>ct_store := snd (store_persist (he_admit_ok env) ((ct_store c)\<lparr>store_data := appendLocked item st\<rparr>))\<rparr>"
        using assms(2,6) valid device by (simp add: admit_def accept Let_def split: if_splits)
      have item: "answers command (lr_Result item) \<and> stamped env (lr_Result item)" "lr_CommandID item = dc_CommandID command"
        using made(1) [of CommandRejected "''out_of_order''"] made(3) other_codes
        by (simp_all add: item_def out_of_order_result)
      have R: "results = (if he_admit_ok env then [lr_Result item]
          else [transientFailure command ''state_unavailable'' (he_failure env)])"
        "he_admit_ok env \<longrightarrow> Final (rs_Status (lr_Result item)) \<or> dc_Kind command = CommandRefreshData"
        using assms(2,6) valid device by (auto simp: admit_def accept Let_def split: if_splits)
      show ?thesis
      proof (cases "he_admit_ok env")
        case False
        with R have "results = [transientFailure command ''state_unavailable'' (he_failure env)]" by simp
        with made(2) False show ?thesis by simp
      next
        case True
        with R have "results = [lr_Result item]" "Final (rs_Status (lr_Result item)) \<or> dc_Kind command = CommandRefreshData"
          by simp_all
        with item recorded [OF c' item(2)] show ?thesis by blast
      qed
    qed
  qed
qed

lemma completed_lookup:
  assumes "ledger_ok (store_data s)" "item \<in> set (ss_Records (store_data s))" "\<not> ended item"
    and "complete_record (lr_CommandID item) status errcode now True s = (answer, s')"
  shows "answer = Some (completed_record status errcode now item) \<and>
    completed_record status errcode now item \<in> set (ss_Records (store_data s'))"
proof -
  obtain i where i: "index_of_record (lr_CommandID item) (ss_Records (store_data s)) = Some i" "ss_Records (store_data s) ! i = item"
    using index_of_member [OF assms(1,2)] by blast
  moreover have "i < length (ss_Records (store_data s))" using index_of_record_Some [OF i(1)] by simp
  ultimately show ?thesis
    using assms(3,4) by (auto simp: complete_record_def Let_def ended_def store_persist_def set_update_memI)
qed

lemma admit_carried_out:
  assumes "ctl_ok c" "sane_clock env" "validUUID (dc_CommandID command)" "dc_Sequence command \<noteq> 0"
    and "admit env command c = (Admitted first, c1)"
  shows "\<exists>final c'. Handle env command c = Some ([first, final], c') \<and> list_all (answers command) [first, final] \<and>
    list_all (stamped env) [first, final] \<and> Final (rs_Status final) \<and>
    (he_complete_ok env \<longrightarrow> (\<exists>item. lookup_record (dc_CommandID command) (ct_store c') = Some item \<and> lr_Result item = final))"
proof -
  note made = made_answers [OF assms(2-4)] and adm = admitted [OF assms(5)]
  let ?item = "admitted_record command (ct_lastEpoch c) (ct_lastVersion c) (he_admit env)"
  have c1: "Router.inv (ct_router c1)" "ledger_ok (store_data (ct_store c1))"
    using admit_ok [OF assms(1,5)] unfolding ctl_ok_def store_ok_def by blast+
  obtain status errcode c2 where c2: "carry_out env command c1 = Some ((status, errcode), c2)"
    "ct_store c2 = ct_store c1" "Final status" "errcode \<in> {[], ''unsupported_capability'', ''brightness_failed''}"
    using carry_out_returns [OF c1(1) adm(2)] by metis
  have item: "?item \<in> set (ss_Records (store_data (ct_store c1)))" "\<not> ended ?item" "lr_CommandID ?item = dc_CommandID command"
    by (simp_all add: adm(7) member_append ended_def admitted_record_def new_record_def)
  obtain answer s where s: "complete_record (dc_CommandID command) status errcode (he_complete env) (he_complete_ok env) (ct_store c2)
      = (answer, s)" by (rule prod.exhaust)
  with complete_admitted [OF c1(2) item(1,2), of status errcode "he_complete env" "he_complete_ok env"] item(3) c2(2)
  have answer: "answer = (if he_complete_ok env then Some (completed_record status errcode (he_complete env) ?item) else None)"
    by simp
  show ?thesis
  proof (cases "he_complete_ok env")
    case True
    have H: "Handle env command c = Some ([first, lr_Result (completed_record status errcode (he_complete env) ?item)], c2\<lparr>ct_store := s\<rparr>)"
      using assms(5) c2 s answer True by (simp add: Handle_def)
    have "ctl_ok (c2\<lparr>ct_store := s\<rparr>)" using Handle_total [OF assms(1), of env command] H by (metis option.inject prod.inject)
    then have "ledger_ok (store_data s)" by (simp add: ctl_ok_def store_ok_def)
    moreover have "completed_record status errcode (he_complete env) ?item \<in> set (ss_Records (store_data s))"
      using completed_lookup [OF c1(2) item(1,2)] s True item(3) c2(2) by simp
    moreover have "lr_CommandID (completed_record status errcode (he_complete env) ?item) = dc_CommandID command"
      by (simp add: completed_record_def item(3))
    ultimately have "lookup_record (dc_CommandID command) s = Some (completed_record status errcode (he_complete env) ?item)"
      by (simp add: lookup_member)
    with H made(3,4) c2(3,4) adm(8) show ?thesis by (auto simp: completed_record_def)
  next
    case False
    then have "Handle env command c = Some ([first, transientFailure command ''state_unavailable'' (he_failure env)], c2\<lparr>ct_store := s\<rparr>)"
      using assms(5) c2 s answer by (simp add: Handle_def)
    with False made(2,3) adm(8) show ?thesis by simp
  qed
qed

text \<open>What a call answers to a command the ledger does not know, and what the ledger then knows.\<close>

lemma Handle_answers:
  assumes "ctl_ok c" "lookup_record (dc_CommandID command) (ct_store c) = None" "sane_clock env"
    and "validUUID (dc_CommandID command)" "dc_Sequence command \<noteq> 0"
  shows "\<exists>results c'. Handle env command c = Some (results, c') \<and> ctl_ok c' \<and> length results \<in> {1, 2} \<and>
    list_all (answers command) results \<and> list_all (stamped env) results \<and>
    (Final (rs_Status (last results)) \<or> dc_Kind command = CommandRefreshData) \<and>
    (he_admit_ok env \<and> he_complete_ok env \<longrightarrow>
       (\<exists>item. lookup_record (dc_CommandID command) (ct_store c') = Some item \<and> lr_Result item = last results))"
proof -
  obtain results c' where H: "Handle env command c = Some (results, c')" "ctl_ok c'"
    using Handle_total [OF assms(1)] by metis
  obtain a c1 where a: "admit env command c = (a, c1)" by (rule prod.exhaust)
  show ?thesis
  proof (cases a)
    case (Answered rs)
    with a H(1) have "rs = results" "c1 = c'" by (simp_all add: Handle_def)
    with admit_answered [OF assms(1-5)] a Answered H show ?thesis by fastforce
  next
    case (Admitted first)
    with admit_carried_out [OF assms(1,3-5)] a H show ?thesis by fastforce
  qed
qed

text \<open>
  The daemon accepts what the display answers: to a command it does not know yet, whatever is wrong
  with it otherwise, the display gives one or two results that name the command and its sequence number
  and pass the daemon's checks on results; the last one is final unless it is a refresh that waits for
  data. This needs a clock that does not run backwards and a completion within five minutes.
\<close>

theorem daemon_accepts_answers:
  assumes "ctl_ok c" "lookup_record (dc_CommandID command) (ct_store c) = None" "sane_clock env"
    and "validUUID (dc_CommandID command)" "dc_Sequence command \<noteq> 0"
  shows "\<exists>results c'. Handle env command c = Some (results, c') \<and> results \<noteq> [] \<and> list_all (answers command) results \<and>
    (Final (rs_Status (last results)) \<or> dc_Kind command = CommandRefreshData)"
  using Handle_answers [OF assms] by fastforce

theorem daemon_accepts_answers_witness:
  "\<exists>results c'. Handle example_env second_command example_handled = Some (results, c') \<and> results \<noteq> [] \<and>
     list_all (answers second_command) results"
proof -
  have "ctl_ok example_handled"
    using control_step_ok [of example_controller "OpHandle example_env example_command"]
      controller_started_ok [OF example_started inv_example_router] by (simp add: example_handle)
  moreover have "lookup_record (dc_CommandID second_command) (ct_store example_handled) = None"
    by (simp add: example_handled_def lookup_record_def example_ledger_def example_record_def admitted_record_def
        new_record_def second_command_def example_command_def)
  moreover have "sane_clock example_env" by (simp add: sane_clock_def example_env_def command_limits)
  moreover have "validUUID (dc_CommandID second_command)" "dc_Sequence second_command \<noteq> 0"
    using second_command_valid by (simp_all add: DisplayCommand_Validate_None)
  ultimately show ?thesis using daemon_accepts_answers [of example_handled second_command example_env] by blast
qed

text \<open>
  A command whose sequence number is not above the highest one admitted is refused as
  \<open>out_of_order\<close> and not carried out, however valid it is. So when the daemon's queue starts again at
  sequence number 1 (its state file was put aside) the display refuses every command until the count has
  passed the old one.
\<close>

theorem sequence_reset_refused:
  assumes "lookup_record (dc_CommandID command) (ct_store c) = None" "DisplayCommand_Validate command (he_now env) = None"
    and "dc_DeviceID command = ct_deviceID c" "dc_Sequence command \<le> ss_HighSequence (store_data (ct_store c))"
    and "he_admit_ok env"
  shows "\<exists>result c'. Handle env command c = Some ([result], c') \<and> rs_Status result = CommandRejected \<and>
    rs_Code result = ''out_of_order'' \<and> carried_out c (OpHandle env command) = None \<and> ct_router c' = ct_router c \<and>
    ct_notice c' = ct_notice c \<and> ss_HighSequence (store_data (ct_store c')) = ss_HighSequence (store_data (ct_store c))"
  using assms
  by (simp add: Handle_def admit_def accept_record_cases out_of_order_record_def new_record_def Let_def)

theorem sequence_reset_refused_witness:
  "\<exists>result c'. Handle example_env (second_command\<lparr>dc_Sequence := 1\<rparr>) example_handled = Some ([result], c') \<and>
     rs_Code result = ''out_of_order''"
proof -
  let ?cmd = "second_command\<lparr>dc_Sequence := 1\<rparr>"
  have "lookup_record (dc_CommandID ?cmd) (ct_store example_handled) = None" "dc_DeviceID ?cmd = ct_deviceID example_handled"
    "dc_Sequence ?cmd \<le> ss_HighSequence (store_data (ct_store example_handled))" "he_admit_ok example_env"
    by (simp_all add: example_handled_def lookup_record_def example_ledger_def example_record_def admitted_record_def
        new_record_def second_command_def example_command_def example_controller_def example_env_def)
  moreover have "DisplayCommand_Validate ?cmd (he_now example_env) = None"
    using second_command_valid by (simp add: DisplayCommand_Validate_None example_env_def)
  ultimately show ?thesis using sequence_reset_refused [of ?cmd example_handled example_env] by blast
qed

section \<open>Refreshes\<close>

lemma filter_update:
  "distinct xs \<Longrightarrow> i < length xs \<Longrightarrow> \<not> P y \<Longrightarrow> filter P (xs[i := y]) = filter (\<lambda>x. P x \<and> x \<noteq> xs ! i) xs"
proof (induction xs arbitrary: i)
  case (Cons x xs)
  show ?case
  proof (cases i)
    case 0
    have "filter P xs = filter (\<lambda>z. P z \<and> z \<noteq> x) xs" using Cons.prems(1) by (intro filter_cong) auto
    with 0 Cons.prems(3) show ?thesis by simp
  next
    case (Suc j)
    with Cons.prems have "xs ! j \<in> set xs" by simp
    with Cons.prems(1) have "x \<noteq> xs ! j" by auto
    with Suc Cons show ?thesis by simp
  qed
qed simp

definition advanced :: "string \<Rightarrow> u64 \<Rightarrow> LedgerRecord \<Rightarrow> bool" where
  "advanced epoch version item \<longleftrightarrow> epoch \<noteq> lr_BaselineEpoch item \<or> version > lr_BaselineVersion item"

lemma complete_pending:
  assumes "ledger_ok (store_data s)" "item \<in> set (pendingRefreshes s)"
  obtains s1 where "complete_record (lr_CommandID item) CommandExecuted [] now ok s =
      (if ok then Some (completed_record CommandExecuted [] now item) else None, s1)" "ledger_ok (store_data s1)"
    "pendingRefreshes s1 = filter (\<lambda>x. x \<noteq> item) (pendingRefreshes s)"
    "completed_record CommandExecuted [] now item \<in> set (ss_Records (store_data s1))"
    "set (filter (\<lambda>x. Final (rs_Status (lr_Result x))) (ss_Records (store_data s))) \<subseteq> set (ss_Records (store_data s1))"
proof -
  let ?xs = "ss_Records (store_data s)" and ?done = "completed_record CommandExecuted [] now item"
  have item: "item \<in> set ?xs" "rs_Status (lr_Result item) = CommandAccepted"
    using assms(2) by (auto simp: pendingRefreshes_def)
  obtain i where i: "index_of_record (lr_CommandID item) ?xs = Some i" "?xs ! i = item"
    using index_of_member [OF assms(1) item(1)] by blast
  have len: "i < length ?xs" using index_of_record_Some [OF i(1)] by blast
  let ?st = "(store_data s)\<lparr>ss_Records := ?xs[i := ?done]\<rparr>"
  have ok: "record_ok item" using assms(1) item(1) by (auto simp: ledger_ok_def list_all_iff)
  have "ledger_ok ?st"
    using assms(1) len i(2) ok by (intro ledger_ok_update) (simp_all add: completed_record_def record_ok_def)
  moreover have "distinct ?xs" using assms(1) by (auto simp: ledger_ok_def distinct_map)
  then have "filter (\<lambda>x. lr_PendingRefresh x \<and> rs_Status (lr_Result x) = CommandAccepted) (?xs[i := ?done]) =
      filter (\<lambda>x. x \<noteq> item) (filter (\<lambda>x. lr_PendingRefresh x \<and> rs_Status (lr_Result x) = CommandAccepted) ?xs)"
    using len i(2) by (simp add: filter_update completed_record_def conj_ac)
  moreover have "?done \<in> set (?xs[i := ?done])" using len by (rule set_update_memI)
  moreover have "set (filter (\<lambda>x. Final (rs_Status (lr_Result x))) ?xs) \<subseteq> set (?xs[i := ?done])"
  proof
    fix x
    assume "x \<in> set (filter (\<lambda>x. Final (rs_Status (lr_Result x))) ?xs)"
    then have x: "x \<in> set ?xs" "x \<noteq> ?xs ! i" using i(2) item(2) by auto
    then show "x \<in> set (?xs[i := ?done])"
      by (metis in_set_conv_nth length_list_update nth_list_update_neq)
  qed
  ultimately show thesis
    using i item by (intro that [of "s\<lparr>store_data := ?st, store_disk := if ok then Some ?st else store_disk s\<rparr>"])
      (simp_all add: complete_record_def Let_def store_persist_def pendingRefreshes_def)
qed

text \<open>The waiting refreshes that a snapshot is news for and whose completion can be written.\<close>

definition written_refreshes ::
  "string \<Rightarrow> u64 \<Rightarrow> (nat \<Rightarrow> instant \<times> bool) \<Rightarrow> nat \<Rightarrow> LedgerRecord list \<Rightarrow> LedgerRecord list" where
  "written_refreshes epoch version env i items =
     map snd (filter (\<lambda>(k, item). advanced epoch version item \<and> snd (env k)) (enumerate i items))"

definition executed_in :: "resultStore \<Rightarrow> LedgerRecord \<Rightarrow> bool" where
  "executed_in s item \<longleftrightarrow>
     (\<exists>x\<in>set (ss_Records (store_data s)). lr_CommandID x = lr_CommandID item \<and> rs_Status (lr_Result x) = CommandExecuted)"

lemma executed_completed: "completed_record CommandExecuted [] now item \<in> set (ss_Records (store_data s)) \<Longrightarrow> executed_in s item"
  unfolding executed_in_def by (intro bexI [of _ "completed_record CommandExecuted [] now item"]) (simp_all add: completed_record_def)

lemma executed_kept:
  assumes "executed_in s x"
    and "set (filter (\<lambda>x. Final (rs_Status (lr_Result x))) (ss_Records (store_data s))) \<subseteq> set (ss_Records (store_data s'))"
  shows "executed_in s' x"
  using assms unfolding executed_in_def by (fastforce simp: Final_def)

lemma complete_refreshes_all:
  "ledger_ok (store_data s) \<Longrightarrow> set items \<subseteq> set (pendingRefreshes s) \<Longrightarrow> distinct items \<Longrightarrow>
    complete_refreshes epoch version env i items s = (results, s') \<Longrightarrow>
    map rs_CommandID results = map (rs_CommandID \<circ> lr_Result) (written_refreshes epoch version env i items) \<and>
    list_all (\<lambda>r. rs_Status r = CommandExecuted) results \<and>
    pendingRefreshes s' = filter (\<lambda>x. \<not> (x \<in> set items \<and> advanced epoch version x)) (pendingRefreshes s) \<and>
    (\<forall>x. executed_in s x \<or> x \<in> set items \<and> advanced epoch version x \<longrightarrow> executed_in s' x)"
proof (induction epoch version env i items s arbitrary: results s' rule: complete_refreshes.induct)
  case (2 epoch version env i item items s)
  show ?case
  proof (cases "advanced epoch version item")
    case True
    then have adv: "epoch \<noteq> lr_BaselineEpoch item \<or> version > lr_BaselineVersion item" by (simp add: advanced_def)
    have "item \<in> set (pendingRefreshes s)" using "2.prems"(2) by simp
    then obtain s1 where s1: "complete_record (lr_CommandID item) CommandExecuted [] (fst (env i)) (snd (env i)) s =
        (if snd (env i) then Some (completed_record CommandExecuted [] (fst (env i)) item) else None, s1)"
      "ledger_ok (store_data s1)" "pendingRefreshes s1 = filter (\<lambda>x. x \<noteq> item) (pendingRefreshes s)"
      and new: "completed_record CommandExecuted [] (fst (env i)) item \<in> set (ss_Records (store_data s1))"
      and old: "set (filter (\<lambda>x. Final (rs_Status (lr_Result x))) (ss_Records (store_data s))) \<subseteq> set (ss_Records (store_data s1))"
      by (rule complete_pending [OF "2.prems"(1)])
    obtain rs where rs: "complete_refreshes epoch version env (Suc i) items s1 = (rs, s')"
      "results = (if snd (env i) then lr_Result (completed_record CommandExecuted [] (fst (env i)) item) # rs else rs)"
      using "2.prems"(4) adv s1(1) by (cases "snd (env i)") (auto split: prod.splits)
    have "set items \<subseteq> set (pendingRefreshes s1)" "distinct items" using "2.prems"(2,3) s1(3) by auto
    from "2.IH"(1) [OF adv s1(1) [symmetric] s1(2) this rs(1)]
    have ih: "map rs_CommandID rs = map (rs_CommandID \<circ> lr_Result) (written_refreshes epoch version env (Suc i) items)"
      "list_all (\<lambda>r. rs_Status r = CommandExecuted) rs"
      "pendingRefreshes s' = filter (\<lambda>x. \<not> (x \<in> set items \<and> advanced epoch version x)) (pendingRefreshes s1)"
      "\<And>x. executed_in s1 x \<or> x \<in> set items \<and> advanced epoch version x \<Longrightarrow> executed_in s' x"
      by blast+
    have "filter (\<lambda>x. \<not> (x \<in> set items \<and> advanced epoch version x) \<and> x \<noteq> item) (pendingRefreshes s) =
        filter (\<lambda>x. \<not> (x \<in> set (item # items) \<and> advanced epoch version x)) (pendingRefreshes s)"
      using True by (intro filter_cong) auto
    moreover have "executed_in s' x" if "executed_in s x \<or> x \<in> set (item # items) \<and> advanced epoch version x" for x
      using that ih(4) [of x] executed_completed [OF new] executed_kept [OF _ old, of x] by auto
    ultimately show ?thesis using ih(1-3) True rs(2) s1(3)
      by (simp add: completed_record_def conj_ac written_refreshes_def)
  next
    case False
    then have run: "complete_refreshes epoch version env (Suc i) items s = (results, s')"
      using "2.prems"(4) by (simp add: advanced_def)
    have "\<not> (epoch \<noteq> lr_BaselineEpoch item \<or> version > lr_BaselineVersion item)"
      using False by (simp only: advanced_def simp_thms)
    moreover have "set items \<subseteq> set (pendingRefreshes s)" "distinct items" using "2.prems"(2,3) by simp_all
    ultimately have ih:
      "map rs_CommandID results = map (rs_CommandID \<circ> lr_Result) (written_refreshes epoch version env (Suc i) items)"
      "list_all (\<lambda>r. rs_Status r = CommandExecuted) results"
      "pendingRefreshes s' = filter (\<lambda>x. \<not> (x \<in> set items \<and> advanced epoch version x)) (pendingRefreshes s)"
      "\<And>x. executed_in s x \<or> x \<in> set items \<and> advanced epoch version x \<Longrightarrow> executed_in s' x"
      using "2.IH"(2) [OF _ "2.prems"(1) _ _ run] by blast+
    have "filter (\<lambda>x. \<not> (x \<in> set items \<and> advanced epoch version x)) (pendingRefreshes s) =
        filter (\<lambda>x. \<not> (x \<in> set (item # items) \<and> advanced epoch version x)) (pendingRefreshes s)"
      using False by (intro filter_cong) auto
    moreover have "executed_in s' x" if "executed_in s x \<or> x \<in> set (item # items) \<and> advanced epoch version x" for x
      using that ih(4) [of x] False by auto
    ultimately show ?thesis using ih(1-3) False by (simp add: written_refreshes_def)
  qed
qed (simp add: written_refreshes_def)

text \<open>
  C28. New data completes the refreshes that waited for it, each once and in order. A snapshot of another
  epoch, or of a higher version than the one at hand when the command came, marks each such command executed in
  the ledger at hand and leaves waiting only the refreshes it is no news for. An \<open>executed\<close> answer is given for
  exactly those of them whose ledger write succeeds: the answer of the others is not sent.
\<close>

theorem new_data_completes_refreshes:
  assumes "ctl_ok c" "SnapshotApplied env epoch version c = (results, c')"
  shows "map rs_CommandID results = map lr_CommandID (written_refreshes epoch version env 0 (pendingRefreshes (ct_store c))) \<and>
    list_all (\<lambda>r. rs_Status r = CommandExecuted) results \<and>
    pendingRefreshes (ct_store c') = filter (\<lambda>item. \<not> advanced epoch version item) (pendingRefreshes (ct_store c)) \<and>
    list_all (executed_in (ct_store c')) (filter (advanced epoch version) (pendingRefreshes (ct_store c)))"
proof -
  let ?pending = "pendingRefreshes (ct_store c)"
  have ledger: "ledger_ok (store_data (ct_store c))" using assms(1) by (simp add: ctl_ok_def store_ok_def)
  have "distinct ?pending" using ledger by (auto simp: pendingRefreshes_def ledger_ok_def distinct_map)
  moreover obtain s where s: "complete_refreshes epoch version env 0 ?pending (ct_store c) = (results, s)" "ct_store c' = s"
    using assms(2) by (auto simp: SnapshotApplied_def split: prod.splits)
  ultimately have all: "map rs_CommandID results = map (rs_CommandID \<circ> lr_Result) (written_refreshes epoch version env 0 ?pending)"
    "list_all (\<lambda>r. rs_Status r = CommandExecuted) results"
    "pendingRefreshes s = filter (\<lambda>x. \<not> (x \<in> set ?pending \<and> advanced epoch version x)) ?pending"
    "\<And>x. x \<in> set ?pending \<and> advanced epoch version x \<Longrightarrow> executed_in s x"
    using complete_refreshes_all [of "ct_store c" ?pending epoch version env 0 results s] ledger by simp_all
  have "set (written_refreshes epoch version env 0 ?pending) \<subseteq> set ?pending"
    by (auto simp: written_refreshes_def in_set_enumerate_eq)
  moreover have "\<forall>item\<in>set ?pending. rs_CommandID (lr_Result item) = lr_CommandID item"
    using ledger by (auto simp: pendingRefreshes_def ledger_ok_def list_all_iff record_ok_def)
  ultimately have "map (rs_CommandID \<circ> lr_Result) (written_refreshes epoch version env 0 ?pending) =
      map lr_CommandID (written_refreshes epoch version env 0 ?pending)" by auto
  moreover have "filter (\<lambda>x. \<not> (x \<in> set ?pending \<and> advanced epoch version x)) ?pending =
      filter (\<lambda>x. \<not> advanced epoch version x) ?pending" by (intro filter_cong) auto
  ultimately show ?thesis using all s(2) by (simp add: list_all_iff)
qed

definition waiting_record :: LedgerRecord where
  "waiting_record = admitted_record (second_command\<lparr>dc_Kind := CommandRefreshData\<rparr>) ''e1'' 7 (20 * second)"

theorem new_data_completes_refreshes_witness:
  "\<exists>results c'. SnapshotApplied (\<lambda>_. (30 * second, True)) ''e1'' 8 (example_controller\<lparr>ct_store :=
       \<lparr>store_data = \<lparr>ss_HighSequence = 2, ss_Records = [waiting_record]\<rparr>, store_disk = Some empty_ledger\<rparr>\<rparr>) = (results, c') \<and>
     map rs_CommandID results = [''00000000-0000-4000-8000-000000000001''] \<and> pendingRefreshes (ct_store c') = []"
proof -
  let ?c = "example_controller\<lparr>ct_store :=
       \<lparr>store_data = \<lparr>ss_HighSequence = 2, ss_Records = [waiting_record]\<rparr>, store_disk = Some empty_ledger\<rparr>\<rparr>"
  let ?env = "\<lambda>_ :: nat. (30 * second, True)"
  have "ctl_ok ?c"
    using inv_example_router
    by (simp add: ctl_ok_def store_ok_def ledger_ok_def maxRecords_def empty_ledger_def waiting_record_def example_controller_def)
  moreover obtain results c' where r: "SnapshotApplied ?env ''e1'' 8 ?c = (results, c')" by (rule prod.exhaust)
  moreover have "pendingRefreshes (ct_store ?c) = [waiting_record]" "advanced ''e1'' 8 waiting_record"
    "lr_CommandID waiting_record = ''00000000-0000-4000-8000-000000000001''"
    by (simp_all add: pendingRefreshes_def waiting_record_def admitted_record_def new_record_def advanced_def second_command_def)
  ultimately show ?thesis
    using new_data_completes_refreshes [of ?c ?env "''e1''" 8 results c'] by (auto simp: written_refreshes_def)
qed

end
