(* ===== verification/Float64.thy ===== *)
theory Float64
  imports Prelude Complex_Main
begin

text \<open>
  Go's \<open>float64\<close> as the rationals its values are. \<open>fl\<close> rounds a rational to the nearest number with a
  significand of 53 bits, ties to even, which is what each operation of the language does with its
  exact result. Overflow, subnormal numbers, infinities, NaN and the sign of zero are outside it: the
  values the code computes with it lie between \<open>2^-60\<close> and \<open>2^70\<close>, or are 0.
\<close>

section \<open>Rounding\<close>

fun bit_length :: "nat \<Rightarrow> nat" where
  "bit_length n = (if n = 0 then 0 else Suc (bit_length (n div 2)))"

declare bit_length.simps [simp del]

definition exponent :: "rat \<Rightarrow> int" where
  "exponent x = (if 1 \<le> x then int (bit_length (nat \<lfloor>x\<rfloor>)) - 1
                 else - int (bit_length (nat (\<lceil>1 / x\<rceil> - 1))))"

definition round_even :: "rat \<Rightarrow> int" where
  "round_even y =
     (let n = \<lfloor>y\<rfloor>; d = y - of_int n in
      if d < 1 / 2 then n else if 1 / 2 < d then n + 1 else if even n then n else n + 1)"

definition fl :: "rat \<Rightarrow> rat" where
  "fl x = (if x = 0 then 0
           else let s = 2 powi (52 - exponent \<bar>x\<bar>) in of_int (round_even (x * s)) / s)"

text \<open>
  The conversion to \<open>int64\<close> (and \<open>time.Duration\<close>) drops the fraction. A value outside the type gives
  an implementation-defined integer, the argument \<open>oob\<close>.
\<close>

definition trunc :: "rat \<Rightarrow> int" where
  "trunc x = (if 0 \<le> x then \<lfloor>x\<rfloor> else \<lceil>x\<rceil>)"

definition to_int64 :: "(rat \<Rightarrow> int) \<Rightarrow> rat \<Rightarrow> int" where
  "to_int64 oob x = (if in_int64 (trunc x) then trunc x else oob x)"

section \<open>Facts\<close>

lemma bit_length_bounds: "0 < n \<Longrightarrow> 2 ^ (bit_length n - 1) \<le> n \<and> n < 2 ^ bit_length n \<and> 0 < bit_length n"
proof (induction n rule: bit_length.induct)
  case (1 n)
  show ?case
  proof (cases "n div 2 = 0")
    case True
    with 1(2) have "n = 1" by simp
    then show ?thesis by (simp add: bit_length.simps)
  next
    case False
    with 1 have ih: "2 ^ (bit_length (n div 2) - 1) \<le> n div 2" "n div 2 < 2 ^ bit_length (n div 2)"
      "0 < bit_length (n div 2)" by auto
    then obtain k where k: "bit_length (n div 2) = Suc k" by (cases "bit_length (n div 2)") auto
    with 1(2) have "bit_length n = Suc (Suc k)" by (simp add: bit_length.simps [of n])
    with ih k show ?thesis by (auto simp: algebra_simps)
  qed
qed

lemma exponent_bounds:
  assumes "0 < x"
  shows "2 powi exponent x \<le> x \<and> x < 2 powi (exponent x + 1)"
proof (cases "1 \<le> x")
  case True
  let ?n = "nat \<lfloor>x\<rfloor>"
  have n: "0 < ?n" "of_nat ?n \<le> x" "x < of_nat ?n + 1" using True by (auto simp: le_floor_iff; linarith)+
  note b = bit_length_bounds [OF n(1)]
  obtain k where k: "bit_length ?n = Suc k" using b by (cases "bit_length ?n") auto
  have "(2 ^ k :: rat) \<le> of_nat ?n"
    using b k by (metis diff_Suc_1 of_nat_le_iff of_nat_numeral of_nat_power)
  then have lo: "2 ^ k \<le> x" using n(2) by (rule order_trans)
  have "of_nat ?n + 1 \<le> (2 ^ Suc k :: rat)"
    using b k by (metis Suc_leI of_nat_Suc of_nat_le_iff of_nat_numeral of_nat_power add.commute)
  with n(3) have hi: "x < 2 ^ Suc k" by (rule less_le_trans)
  have e: "exponent x = int k" using True k by (simp add: exponent_def)
  have p: "(2 :: rat) powi int k = 2 ^ k" "(2 :: rat) powi (int k + 1) = 2 ^ Suc k"
    by (simp_all add: power_int_def nat_add_distrib)
  show ?thesis unfolding e p using lo hi by simp
next
  case False
  let ?m = "nat (\<lceil>1 / x\<rceil> - 1)"
  have x1: "1 < 1 / x" using False assms by simp
  then have c: "2 \<le> \<lceil>1 / x\<rceil>" by (simp add: le_ceiling_iff)
  have "int ?m = \<lceil>1 / x\<rceil> - 1" by (rule nat_0_le) (use c in linarith)
  then have mi: "(of_nat ?m :: rat) = of_int \<lceil>1 / x\<rceil> - 1" by (metis of_int_1 of_int_diff of_int_of_nat_eq)
  have m: "0 < ?m" "of_nat ?m < 1 / x" "1 / x \<le> of_nat ?m + 1"
    unfolding mi using c ceiling_correct [of "1 / x"] by simp_all
  note b = bit_length_bounds [OF m(1)]
  obtain k where k: "bit_length ?m = Suc k" using b by (cases "bit_length ?m") auto
  have "(2 ^ k :: rat) \<le> of_nat ?m"
    using b k by (metis diff_Suc_1 of_nat_le_iff of_nat_numeral of_nat_power)
  then have lo: "2 ^ k < 1 / x" using m(2) by (rule le_less_trans)
  have "of_nat ?m + 1 \<le> (2 ^ Suc k :: rat)"
    using b k by (metis Suc_leI of_nat_Suc of_nat_le_iff of_nat_numeral of_nat_power add.commute)
  with m(3) have hi: "1 / x \<le> 2 ^ Suc k" by (rule order_trans)
  have e: "exponent x = - int (Suc k)" using False k by (simp add: exponent_def)
  have p: "(2 :: rat) powi (- int (Suc k)) = 1 / 2 ^ Suc k" "(2 :: rat) powi (- int (Suc k) + 1) = 1 / 2 ^ k"
  proof -
    have "- int (Suc k) + 1 = - int k" by simp
    then show "(2 :: rat) powi (- int (Suc k)) = 1 / 2 ^ Suc k" "(2 :: rat) powi (- int (Suc k) + 1) = 1 / 2 ^ k"
      by (simp_all only: power_int_minus power_int_of_nat inverse_eq_divide)
  qed
  show ?thesis unfolding e p using lo hi assms
    by (metis divide_le_eq less_divide_eq mult.commute zero_less_numeral zero_less_power)
qed

lemma exponent_unique:
  assumes "2 powi e \<le> (x :: rat)" "x < 2 powi (e + 1)"
  shows "exponent x = e"
proof -
  have "0 < x" using assms(1) by (metis less_le_trans zero_less_numeral zero_less_power_int)
  note b = exponent_bounds [OF this]
  have "(2 :: rat) powi exponent x < 2 powi (e + 1)" "(2 :: rat) powi e < 2 powi (exponent x + 1)"
    using b assms by auto
  then have "\<not> e + 1 \<le> exponent x" "\<not> exponent x + 1 \<le> e"
    using power_int_increasing [of "e + 1" "exponent x" "2 :: rat"]
      power_int_increasing [of "exponent x + 1" e "2 :: rat"] by auto
  then show ?thesis by simp
qed

lemma round_even_of_int [simp]: "round_even (of_int n) = n"
  by (simp add: round_even_def)

lemma round_even_error: "\<bar>of_int (round_even y) - y\<bar> \<le> 1 / 2"
  using floor_correct [of y] by (auto simp: round_even_def Let_def abs_le_iff)

lemma fl_0 [simp]: "fl 0 = 0"
  by (simp add: fl_def)

text \<open>The relative error of one rounding.\<close>

lemma fl_error: "\<bar>fl x - x\<bar> \<le> \<bar>x\<bar> / 2 ^ 53"
proof (cases "x = 0")
  case False
  let ?e = "exponent \<bar>x\<bar>"
  let ?s = "2 powi (52 - ?e) :: rat"
  have s: "0 < ?s" by simp
  have "fl x - x = (of_int (round_even (x * ?s)) - x * ?s) / ?s"
    using False s by (simp add: fl_def Let_def diff_divide_distrib)
  then have "\<bar>fl x - x\<bar> = \<bar>of_int (round_even (x * ?s)) - x * ?s\<bar> / ?s"
    using s by (simp add: abs_divide)
  also have "\<dots> \<le> (1 / 2) / ?s"
    using round_even_error s by (intro divide_right_mono) auto
  also have "(1 / 2) / ?s = 2 powi ?e / 2 ^ 53"
    by (simp add: power_int_diff)
  also have "\<dots> \<le> \<bar>x\<bar> / 2 ^ 53"
    using exponent_bounds [of "\<bar>x\<bar>"] False by (intro divide_right_mono) auto
  finally show ?thesis .
qed simp

text \<open>A number that has 53 significant bits is itself.\<close>

lemma fl_int [simp]:
  assumes "\<bar>n\<bar> \<le> 2 ^ 53"
  shows "fl (of_int n) = of_int n"
proof (cases "n = 0")
  case False
  let ?e = "exponent (of_int \<bar>n\<bar>)"
  have b: "2 powi ?e \<le> (of_int \<bar>n\<bar> :: rat)" "(of_int \<bar>n\<bar> :: rat) < 2 powi (?e + 1)"
    using exponent_bounds [of "of_int \<bar>n\<bar>"] False by auto
  have "(of_int \<bar>n\<bar> :: rat) \<le> 2 ^ 53" using assms by (metis of_int_le_iff of_int_numeral of_int_power)
  then have hi: "?e \<le> 53"
    using b(1) power_int_increasing [of 54 "?e" "2 :: rat"] by (cases "54 \<le> ?e") auto
  have lo: "0 \<le> ?e"
  proof (rule ccontr)
    assume "\<not> 0 \<le> ?e"
    then have "(2 :: rat) powi (?e + 1) \<le> 2 powi 0" by (intro power_int_increasing) auto
    with b(2) False show False by simp
  qed
  show ?thesis
  proof (cases "?e = 53")
    case True
    then have "(of_int \<bar>n\<bar> :: rat) = 2 ^ 53"
      using b(1) \<open>(of_int \<bar>n\<bar> :: rat) \<le> 2 ^ 53\<close> by simp
    then have n: "\<bar>n\<bar> = 2 ^ 53" by (metis of_int_eq_iff of_int_numeral of_int_power)
    then have "n = 2 ^ 53 \<or> n = - (2 ^ 53)" by linarith
    then have "of_int n * (2 powi (52 - ?e) :: rat) = of_int (n div 2)"
      using True by (auto simp: power_int_minus)
    then show ?thesis using False True
      by (simp add: fl_def Let_def)
  next
    case False': False
    then have "52 - ?e = int (nat (52 - ?e))" using hi by simp
    then have s: "(2 powi (52 - ?e) :: rat) = of_int (2 ^ nat (52 - ?e))"
      by (metis of_int_numeral of_int_power power_int_of_nat)
    have "fl (of_int n) = of_int (round_even (of_int n * 2 powi (52 - ?e))) / 2 powi (52 - ?e)"
      using False by (simp add: fl_def Let_def)
    then show ?thesis unfolding s of_int_mult [symmetric] round_even_of_int by simp
  qed
qed simp

lemma exponent_scale: "0 < x \<Longrightarrow> exponent (x * 2 powi k) = exponent x + k"
proof -
  assume x: "0 < x"
  note b = exponent_bounds [OF x]
  have "(0 :: rat) < 2 powi k" by simp
  with b show ?thesis
    by (intro exponent_unique) (simp_all add: power_int_add mult.assoc mult.left_commute)
qed

lemma fl_scale: "fl (x * 2 powi k) = fl x * 2 powi k"
proof (cases "x = 0")
  case False
  have e: "exponent \<bar>x * 2 powi k\<bar> = exponent \<bar>x\<bar> + k"
    using exponent_scale [of "\<bar>x\<bar>" k] False by (simp add: abs_mult)
  have s: "(2 :: rat) powi (52 - (exponent \<bar>x\<bar> + k)) = 2 powi (52 - exponent \<bar>x\<bar>) / 2 powi k"
    by (simp add: power_int_diff power_int_add)
  show ?thesis unfolding fl_def Let_def e s using False by simp
qed simp

lemma fl_int_scaled: "\<bar>n\<bar> \<le> 2 ^ 53 \<Longrightarrow> fl (of_int n * 2 ^ k) = of_int n * 2 ^ k"
  using fl_scale [of "of_int n" "int k"] by (simp add: power_int_def)

lemma trunc_of_int [simp]: "trunc (of_int n) = n"
  by (simp add: trunc_def)

lemma trunc_error: "\<bar>of_int (trunc x) - x\<bar> < 1"
  using of_int_floor_le [of x] le_of_int_ceiling [of x] floor_correct [of x] ceiling_correct [of x]
  unfolding trunc_def abs_less_iff by (cases "0 \<le> x"; simp only: if_True if_False; linarith)

lemma trunc_mono: "x \<le> y \<Longrightarrow> trunc x \<le> trunc y"
proof -
  assume xy: "x \<le> y"
  then have "\<lfloor>x\<rfloor> \<le> \<lfloor>y\<rfloor>" "\<lceil>x\<rceil> \<le> \<lceil>y\<rceil>" by (simp_all add: floor_mono ceiling_mono)
  moreover have "\<lceil>x\<rceil> \<le> 0" if "x < 0" using that by (simp add: ceiling_le_iff)
  ultimately show ?thesis using xy by (auto simp: trunc_def intro: order_trans [of _ 0])
qed

lemma to_int64_of_int [simp]: "in_int64 n \<Longrightarrow> to_int64 oob (of_int n) = n"
  by (simp add: to_int64_def)

lemma to_int64_near:
  assumes "\<bar>x - of_int d\<bar> \<le> of_int k" "- (2 ^ 63) < d - k - 1" "d + k + 1 < 2 ^ 63"
  shows "to_int64 oob x = trunc x \<and> \<bar>trunc x - d\<bar> \<le> k"
proof -
  have "of_int (d - k) \<le> x" "x \<le> of_int (d + k)" using assms(1) by (auto simp: abs_le_iff)
  then have "d - k \<le> trunc x" "trunc x \<le> d + k" by (metis trunc_mono trunc_of_int)+
  with assms(2,3) show ?thesis by (auto simp: to_int64_def in_int64_def)
qed
text \<open>One rounding of a value known up to an error.\<close>

lemma fl_near:
  assumes "\<bar>x - y\<bar> \<le> e" "\<bar>y\<bar> \<le> m"
  shows "\<bar>fl x - y\<bar> \<le> e + (m + e) / 2 ^ 53"
proof -
  have "\<bar>x\<bar> \<le> m + e" using assms by (auto simp: abs_le_iff)
  then have "\<bar>x\<bar> / 2 ^ 53 \<le> (m + e) / 2 ^ 53" by (rule divide_right_mono) simp
  with fl_error [of x] assms(1) show ?thesis by linarith
qed

end
