(* ===== verification/GoDuration.thy ===== *)
theory GoDuration
  imports Float64 Json
begin

text \<open>
  Durations on the wire and in configuration files: \<open>time.ParseDuration\<close> and \<open>Duration.String\<close> of the
  standard library, and the JSON forms of \<open>protocol.Duration\<close> (\<open>internal/protocol/snapshot.go\<close>).
\<close>

section \<open>Reading\<close>

fun leading_int :: "nat \<Rightarrow> string \<Rightarrow> (nat \<times> string) option" where
  "leading_int x [] = Some (x, [])"
| "leading_int x (c # s) =
     (if \<not> is_digit c then Some (x, c # s)
      else if x > 2 ^ 63 div 10 then None
      else let y = 10 * x + digit_value c
           in if y > 2 ^ 63 then None else leading_int y s)"

text \<open>Digits that would overflow are skipped; \<open>scale\<close> is a \<open>float64\<close>.\<close>

fun leading_fraction :: "nat \<Rightarrow> rat \<Rightarrow> bool \<Rightarrow> string \<Rightarrow> nat \<times> rat \<times> string" where
  "leading_fraction x scale over [] = (x, scale, [])"
| "leading_fraction x scale over (c # s) =
     (if \<not> is_digit c then (x, scale, c # s)
      else if over \<or> x > (2 ^ 63 - 1) div 10 then leading_fraction x scale True s
      else let y = 10 * x + digit_value c
           in if y > 2 ^ 63 then leading_fraction x scale True s
              else leading_fraction y (fl (scale * 10)) False s)"

definition micro_sign :: string where "micro_sign = [CHR 0xC2, CHR 0xB5]"
definition greek_mu :: string where "greek_mu = [CHR 0xCE, CHR 0xBC]"

definition unit_map :: "(string \<times> nat) list" where
  "unit_map = [(''ns'', 1), (''us'', 1000), (micro_sign @ ''s'', 1000), (greek_mu @ ''s'', 1000),
     (''ms'', 1000000), (''s'', 1000000000), (''m'', 60000000000), (''h'', 3600000000000)]"

definition unit_end :: "char \<Rightarrow> bool" where
  "unit_end c \<longleftrightarrow> c = CHR ''.'' \<or> is_digit c"

text \<open>One number with its unit: its value in nanoseconds and the rest.\<close>

definition parse_component :: "string \<Rightarrow> (nat \<times> string) option" where
  "parse_component s =
     (if s = [] \<or> \<not> unit_end (hd s) then None
      else case leading_int 0 s of
        None \<Rightarrow> None
      | Some (v, s1) \<Rightarrow>
          let dot = (s1 \<noteq> [] \<and> hd s1 = CHR ''.'');
              (f, scale, s2) = (if dot then leading_fraction 0 1 False (tl s1) else (0, 1, s1));
              pre = (length s1 \<noteq> length s);
              post = (dot \<and> length s2 \<noteq> length (tl s1));
              u = takeWhile (\<lambda>c. \<not> unit_end c) s2;
              s3 = dropWhile (\<lambda>c. \<not> unit_end c) s2
          in if \<not> pre \<and> \<not> post then None
             else if u = [] then None
             else case map_of unit_map u of
               None \<Rightarrow> None
             | Some unit \<Rightarrow>
                 if v > 2 ^ 63 div unit then None
                 else
                   let w = v * unit +
                         (if f > 0 then nat (trunc (fl (fl (of_nat f) * fl (of_nat unit / scale)))) else 0)
                   in if f > 0 \<and> w > 2 ^ 63 then None else Some (w, s3))"

lemma leading_int_length: "leading_int x s = Some (y, r) \<Longrightarrow> length r \<le> length s"
  by (induction x s rule: leading_int.induct) (auto simp: Let_def split: if_splits)

lemma leading_fraction_length: "length (snd (snd (leading_fraction x sc ov s))) \<le> length s"
  by (induction x sc ov s rule: leading_fraction.induct) (auto simp: Let_def)

lemma length_takeWhile_dropWhile: "length (takeWhile P xs) + length (dropWhile P xs) = length xs"
  by (metis length_append takeWhile_dropWhile_id)

lemma parse_component_shorter:
  assumes "parse_component s = Some (w, r)"
  shows "length r < length s"
proof -
  obtain v s1 where i: "leading_int 0 s = Some (v, s1)"
    using assms by (auto simp: parse_component_def split: if_splits option.splits)
  obtain f sc s2 where f: "(if s1 \<noteq> [] \<and> hd s1 = CHR ''.'' then leading_fraction 0 1 False (tl s1) else (0, 1, s1)) = (f, sc, s2)"
    by (cases "(if s1 \<noteq> [] \<and> hd s1 = CHR ''.'' then leading_fraction 0 1 False (tl s1) else (0 :: nat, 1 :: rat, s1))") auto
  have "length s1 \<le> length s" using i by (rule leading_int_length)
  moreover have "length s2 \<le> length s1"
    using f leading_fraction_length [of 0 1 False "tl s1"] by (auto split: if_splits)
  moreover have "takeWhile (\<lambda>c. \<not> unit_end c) s2 \<noteq> []" "r = dropWhile (\<lambda>c. \<not> unit_end c) s2"
    using assms i f by (auto simp: parse_component_def Let_def split: if_splits option.splits)
  ultimately show ?thesis
    using length_takeWhile_dropWhile [of "\<lambda>c. \<not> unit_end c" s2]
    by (metis le_trans length_greater_0_conv less_add_same_cancel2 less_le_trans)
qed

function parse_components :: "nat \<Rightarrow> string \<Rightarrow> nat option" where
  "parse_components d s =
     (if s = [] then Some d
      else case parse_component s of
        None \<Rightarrow> None
      | Some (w, r) \<Rightarrow>
          let d' = (d + w) mod 2 ^ 64
          in if d' > 2 ^ 63 then None else parse_components d' r)"
  by pat_completeness auto
termination
  by (relation "measure (length \<circ> snd)") (auto dest: parse_component_shorter)

declare parse_components.simps [simp del]

definition ParseDuration :: "string \<Rightarrow> duration option" where
  "ParseDuration s =
     (let neg = (s \<noteq> [] \<and> hd s = CHR ''-'');
          t = (if s \<noteq> [] \<and> hd s \<in> set ''+-'' then tl s else s)
      in if t = ''0'' then Some 0
         else if t = [] then None
         else case parse_components 0 t of
           None \<Rightarrow> None
         | Some d \<Rightarrow>
             if neg then Some (- int d)
             else if d > 2 ^ 63 - 1 then None else Some (int d))"

section \<open>Printing\<close>

text \<open>
  \<open>format\<close> works from the right; read from the left it is the whole part, the fraction without
  trailing zeros, and the unit.
\<close>

definition strip_zeros :: "string \<Rightarrow> string" where
  "strip_zeros s = rev (dropWhile (\<lambda>c. c = CHR ''0'') (rev s))"

definition fixed_digits :: "nat \<Rightarrow> nat \<Rightarrow> string" where
  "fixed_digits n v = replicate (n - length (nat_digits v)) CHR ''0'' @ nat_digits v"

definition fraction_text :: "nat \<Rightarrow> nat \<Rightarrow> string" where
  "fraction_text n v =
     (let ds = strip_zeros (fixed_digits n v) in if v = 0 then [] else CHR ''.'' # ds)"

definition duration_magnitude :: "nat \<Rightarrow> string" where
  "duration_magnitude u =
     (if u = 0 then ''0s''
      else if u < 1000 then nat_digits u @ ''ns''
      else if u < 1000000 then nat_digits (u div 1000) @ fraction_text 3 (u mod 1000) @ micro_sign @ ''s''
      else if u < 1000000000 then nat_digits (u div 1000000) @ fraction_text 6 (u mod 1000000) @ ''ms''
      else
        let secs = u div 1000000000;
            tail = nat_digits (secs mod 60) @ fraction_text 9 (u mod 1000000000) @ ''s'';
            mins = secs div 60
        in if mins = 0 then tail
           else if mins div 60 = 0 then nat_digits (mins mod 60) @ ''m'' @ tail
           else nat_digits (mins div 60) @ ''h'' @ nat_digits (mins mod 60) @ ''m'' @ tail)"

definition Duration_String :: "duration \<Rightarrow> string" where
  "Duration_String d = (if d < 0 then [CHR ''-''] else []) @ duration_magnitude (nat \<bar>d\<bar>)"

section \<open>JSON\<close>

definition Duration_MarshalJSON :: "duration \<Rightarrow> string" where
  "Duration_MarshalJSON d = quote # Duration_String d @ [quote]"

text \<open>The integer form is accumulated without an overflow check.\<close>

definition duration_digits :: "string \<Rightarrow> int" where
  "duration_digits s = foldl (\<lambda>ns c. wrap64 (wrap64 (ns * 10) + int (digit_value c))) 0 s"

definition Duration_UnmarshalJSON :: "string \<Rightarrow> duration option" where
  "Duration_UnmarshalJSON b =
     (if b = ''null'' then Some 0
      else if length b \<ge> 2 \<and> hd b = quote then ParseDuration (butlast (tl b))
      else if list_all is_digit b then Some (duration_digits b) else None)"
section \<open>Printed durations are read back\<close>

lemma digit_values: "\<forall>c\<in>set ds. is_digit c \<Longrightarrow> digits_value (c # ds) = digit_value c * 10 ^ length ds + digits_value ds"
  using digits_value_concat [of "[c]" ds] by (simp add: digits_value_def)

lemma leading_int_digits:
  assumes "\<forall>c\<in>set ds. is_digit c" "r = [] \<or> \<not> is_digit (hd r)"
    and "x * 10 ^ length ds + digits_value ds \<le> 2 ^ 63"
  shows "leading_int x (ds @ r) = Some (x * 10 ^ length ds + digits_value ds, r)"
  using assms
proof (induction ds arbitrary: x)
  case Nil
  then show ?case by (cases r) (auto simp: digits_value_def)
next
  case (Cons c ds)
  let ?y = "10 * x + digit_value c"
  have v: "x * 10 ^ length (c # ds) + digits_value (c # ds) = ?y * 10 ^ length ds + digits_value ds"
    using Cons.prems(1) by (simp add: digit_values algebra_simps)
  have "?y * 1 \<le> ?y * 10 ^ length ds" by (intro mult_le_mono2) simp
  then have y: "?y \<le> 2 ^ 63"
    using Cons.prems(3) unfolding v mult_1_right by (metis add_leD1 le_trans)
  then have "x \<le> 2 ^ 63 div 10" by simp
  moreover have "leading_int ?y (ds @ r) = Some (?y * 10 ^ length ds + digits_value ds, r)"
    using Cons.prems unfolding v by (intro Cons.IH) auto
  ultimately show ?case using Cons.prems(1) y v by (simp add: Let_def)
qed

lemma leading_fraction_digits:
  assumes "\<forall>c\<in>set ds. is_digit c" "r = [] \<or> \<not> is_digit (hd r)"
    and "x * 10 ^ length ds + digits_value ds < 2 ^ 63" "k * 10 ^ length ds \<le> (2 :: nat) ^ 53"
  shows "leading_fraction x (of_nat k) False (ds @ r) =
    (x * 10 ^ length ds + digits_value ds, of_nat (k * 10 ^ length ds), r)"
  using assms
proof (induction ds arbitrary: x k)
  case Nil
  then show ?case by (cases r) (auto simp: digits_value_def)
next
  case (Cons c ds)
  let ?y = "10 * x + digit_value c"
  have v: "x * 10 ^ length (c # ds) + digits_value (c # ds) = ?y * 10 ^ length ds + digits_value ds"
    using Cons.prems(1) by (simp add: digit_values algebra_simps)
  have "?y * 1 \<le> ?y * 10 ^ length ds" by (intro mult_le_mono2) simp
  then have y: "?y < 2 ^ 63"
    using Cons.prems(3) unfolding v mult_1_right by (metis add_lessD1 le_less_trans)
  then have x: "x \<le> (2 ^ 63 - 1) div 10" by simp
  have k: "k * 10 * 10 ^ length ds \<le> 2 ^ 53" using Cons.prems(4) by (simp add: ac_simps)
  have "k * 10 * 1 \<le> k * 10 * 10 ^ length ds" by (intro mult_le_mono2) simp
  then have "k * 10 \<le> 2 ^ 53" using k unfolding mult_1_right by (rule le_trans)
  then have "int (k * 10) \<le> int (2 ^ 53)" by (simp only: of_nat_le_iff)
  then have "fl (of_int (int (k * 10))) = of_int (int (k * 10))" by (intro fl_int) simp
  then have s: "fl (of_nat k * 10) = of_nat (k * 10)" by simp
  have "leading_fraction ?y (of_nat (k * 10)) False (ds @ r) =
      (?y * 10 ^ length ds + digits_value ds, of_nat (k * 10 * 10 ^ length ds), r)"
    using Cons.prems k unfolding v by (intro Cons.IH) auto
  moreover have "leading_fraction x (of_nat k) False ((c # ds) @ r) =
      leading_fraction ?y (of_nat (k * 10)) False (ds @ r)"
    using Cons.prems(1) x y s by (simp add: Let_def)
  moreover have "k * 10 * 10 ^ length ds = k * 10 ^ length (c # ds)" by simp
  ultimately show ?case unfolding v by simp
qed

lemma unit_names:
  assumes "map_of unit_map u = Some n"
  shows "u \<noteq> []" "\<forall>c\<in>set u. \<not> unit_end c" "0 < n"
proof -
  have "(u, n) \<in> set unit_map" using assms by (rule map_of_SomeD)
  then show "u \<noteq> []" "\<forall>c\<in>set u. \<not> unit_end c" "0 < n"
    by (auto simp: unit_map_def micro_sign_def greek_mu_def unit_end_def is_digit_def)
qed

lemma digit_run_hd:
  assumes "ds \<noteq> []" "\<forall>c\<in>set ds. is_digit c"
  shows "ds @ r \<noteq> [] \<and> unit_end (hd (ds @ r))"
  using assms by (cases ds) (auto simp: unit_end_def)

lemma unit_split:
  assumes "\<forall>c\<in>set u. \<not> unit_end c" "r = [] \<or> unit_end (hd r)"
  shows "takeWhile (\<lambda>c. \<not> unit_end c) (u @ r) = u" "dropWhile (\<lambda>c. \<not> unit_end c) (u @ r) = r"
  using assms by (cases r; simp add: takeWhile_append2 dropWhile_append2)+

lemma parse_component_whole:
  assumes u: "map_of unit_map u = Some n" and r: "r = [] \<or> unit_end (hd r)" and v: "v * n \<le> 2 ^ 63"
  shows "parse_component (nat_digits v @ u @ r) = Some (v * n, r)"
proof -
  note names = unit_names [OF u]
  obtain c u' where cu: "u = c # u'" "\<not> unit_end c" using names(1,2) by (cases u) auto
  have "v * 1 \<le> v * n" using names(3) by (intro mult_le_mono2) simp
  then have "v \<le> 2 ^ 63" using v unfolding mult_1_right by (rule le_trans)
  moreover have "u @ r = [] \<or> \<not> is_digit (hd (u @ r))" using cu by (auto simp: unit_end_def)
  ultimately have i: "leading_int 0 (nat_digits v @ u @ r) = Some (v, u @ r)"
    using leading_int_digits [of "nat_digits v" "u @ r" 0] nat_digits_digits [of v] by simp
  have "c \<noteq> CHR ''.''" using cu by (auto simp: unit_end_def)
  moreover have "\<not> v > 2 ^ 63 div n" using v names(3) by (simp add: less_eq_div_iff_mult_less_eq not_less)
  ultimately show ?thesis
    using i u cu unit_split [OF names(2) r] digit_run_hd [OF nat_digits_nonempty nat_digits_digits, of v "u @ r"]
    by (simp add: parse_component_def Let_def)
qed

lemma strip_zeros_split: "\<exists>z. s = strip_zeros s @ replicate z CHR ''0''"
proof (induction s rule: rev_induct)
  case (snoc c s)
  then obtain z where z: "s = strip_zeros s @ replicate z CHR ''0''" by blast
  show ?case
  proof (cases "c = CHR ''0''")
    case True
    then have "strip_zeros (s @ [c]) = strip_zeros s" by (simp add: strip_zeros_def)
    moreover have "s @ [c] = strip_zeros s @ replicate (Suc z) CHR ''0''"
      using z True by (metis append_assoc replicate_append_same replicate_Suc)
    ultimately show ?thesis by metis
  next
    case False
    then have "s @ [c] = strip_zeros (s @ [c]) @ replicate 0 CHR ''0''" by (simp add: strip_zeros_def)
    then show ?thesis by blast
  qed
qed (simp add: strip_zeros_def)

lemma digits_value_trailing: "digits_value (s @ replicate z CHR ''0'') = digits_value s * 10 ^ z"
  using digits_value_concat [of s "replicate z CHR ''0''"] digits_value_zeros [of z "[]"]
  by (simp add: digits_value_def)

lemma fixed_digits_facts:
  assumes "v < 10 ^ n" "0 < n"
  shows "length (fixed_digits n v) = n" "digits_value (fixed_digits n v) = v"
    "\<forall>c\<in>set (fixed_digits n v). is_digit c"
  using nat_digits_length [OF assms] nat_digits_digits [of v]
  by (auto simp: fixed_digits_def digits_value_zeros is_digit_def)

lemma parse_component_fraction:
  assumes u: "map_of unit_map u = Some (10 ^ n)" and n: "0 < n" "n \<le> 9" and f: "f < 10 ^ n"
    and r: "r = [] \<or> unit_end (hd r)" and v: "v * 10 ^ n + f \<le> 2 ^ 63"
  shows "parse_component (nat_digits v @ fraction_text n f @ u @ r) = Some (v * 10 ^ n + f, r)"
proof (cases "f = 0")
  case True
  then show ?thesis using parse_component_whole [OF u r, of v] v by (simp add: fraction_text_def)
next
  case False
  note names = unit_names [OF u]
  note fixd = fixed_digits_facts [OF f n(1)]
  let ?ds = "strip_zeros (fixed_digits n f)"
  obtain z where z: "fixed_digits n f = ?ds @ replicate z CHR ''0''" using strip_zeros_split by blast
  have len: "length ?ds + z = n" using fixd(1) arg_cong [OF z, of length] by simp
  have val: "digits_value ?ds * 10 ^ z = f" using fixd(2) digits_value_trailing [of ?ds z] z by simp
  have dig: "\<forall>c\<in>set ?ds. is_digit c" using fixd(3) z by (metis Un_iff set_append)
  have ne: "?ds \<noteq> []" using val False by (auto simp: digits_value_def)
  let ?u = "u @ r" and ?v = "v * 10 ^ n"
  obtain c u' where cu: "u = c # u'" "\<not> unit_end c" using names(1,2) by (cases u) auto
  have nd: "?u = [] \<or> \<not> is_digit (hd ?u)" using cu by (auto simp: unit_end_def)
  have "v * 1 \<le> v * 10 ^ n" by (intro mult_le_mono2) simp
  then have v1: "v \<le> 2 ^ 63" using v unfolding mult_1_right by linarith
  then have i: "leading_int 0 (nat_digits v @ CHR ''.'' # ?ds @ ?u) = Some (v, CHR ''.'' # ?ds @ ?u)"
    using leading_int_digits [of "nat_digits v" "CHR ''.'' # ?ds @ ?u" 0] nat_digits_digits [of v]
    by (simp add: is_digit_def)
  have "(10 :: nat) ^ length ?ds \<le> 10 ^ 9" using len n(2) by (intro power_increasing) auto
  then have p53: "1 * 10 ^ length ?ds \<le> (2 :: nat) ^ 53" by simp
  have "digits_value ?ds < 10 ^ length ?ds" by (rule digits_value_bound [OF dig])
  with \<open>(10 :: nat) ^ length ?ds \<le> 10 ^ 9\<close> have d63: "digits_value ?ds < 10 ^ 9" by linarith
  have fr: "leading_fraction 0 1 False (?ds @ ?u) = (digits_value ?ds, of_nat (10 ^ length ?ds), ?u)"
    using leading_fraction_digits [OF dig nd _ p53, of 0] d63 by simp
  have q: "(of_nat (10 ^ n) :: rat) / of_nat (10 ^ length ?ds) = of_int (10 ^ z)"
    using len by (simp add: field_simps flip: power_add)
  have "(10 :: int) ^ z \<le> 10 ^ 9" using len n(2) by (intro power_increasing) auto
  then have e1: "fl (of_int (10 ^ z)) = of_int (10 ^ z)" by (intro fl_int) simp
  have e2: "fl (of_int (int (digits_value ?ds))) = of_int (int (digits_value ?ds))"
    using d63 by (intro fl_int) simp
  have "int (digits_value ?ds) * 10 ^ z = int f" using arg_cong [OF val, of int] by simp
  then have prod: "of_int (int (digits_value ?ds)) * of_int (10 ^ z) = (of_int (int f) :: rat)"
    by (metis of_int_mult)
  have "(10 :: nat) ^ n \<le> 10 ^ 9" using n(2) by (intro power_increasing) auto
  then have e3: "fl (of_int (int f)) = of_int (int f)" using f by (intro fl_int) simp
  have frac: "nat (trunc (fl (fl (of_nat (digits_value ?ds)) * fl (of_nat (10 ^ n) / of_nat (10 ^ length ?ds))))) = f"
    unfolding q e1 using e2 e3 prod trunc_of_int [of "int f"] by simp
  have pos: "0 < digits_value ?ds" using val False by (cases "digits_value ?ds") auto
  have vn: "\<not> v > 2 ^ 63 div 10 ^ n" using v by (simp add: less_eq_div_iff_mult_less_eq not_less)
  have s: "nat_digits v @ fraction_text n f @ u @ r = nat_digits v @ CHR ''.'' # ?ds @ ?u"
    using False by (simp add: fraction_text_def Let_def)
  show ?thesis
    unfolding s
    using i fr u cu ne frac pos vn v unit_split [OF names(2) r]
      digit_run_hd [OF nat_digits_nonempty nat_digits_digits, of v "CHR ''.'' # ?ds @ ?u"]
    by (simp add: parse_component_def Let_def)
qed

lemma parse_components_empty: "parse_components d [] = Some d"
  by (simp add: parse_components.simps)

lemma parse_components_step:
  "s \<noteq> [] \<Longrightarrow> parse_component s = Some (w, r) \<Longrightarrow> d + w \<le> 2 ^ 63 \<Longrightarrow>
   parse_components d s = parse_components (d + w) r"
  by (subst parse_components.simps) (simp add: Let_def)

lemma parse_whole_step:
  assumes "map_of unit_map u = Some n" "r = [] \<or> unit_end (hd r)" "d + v * n \<le> 2 ^ 63"
  shows "parse_components d (nat_digits v @ u @ r) = parse_components (d + v * n) r"
  by (rule parse_components_step)
    (use assms parse_component_whole [OF assms(1,2), of v] in \<open>simp_all\<close>)

lemma parse_fraction_last:
  assumes "map_of unit_map u = Some (10 ^ n)" "0 < n" "n \<le> 9" "f < 10 ^ n" "d + (v * 10 ^ n + f) \<le> 2 ^ 63"
  shows "parse_components d (nat_digits v @ fraction_text n f @ u) = Some (d + (v * 10 ^ n + f))"
proof -
  have "parse_component (nat_digits v @ fraction_text n f @ u @ []) = Some (v * 10 ^ n + f, [])"
    using assms by (intro parse_component_fraction) auto
  then have "parse_components d (nat_digits v @ fraction_text n f @ u) = parse_components (d + (v * 10 ^ n + f)) []"
    using assms(5) by (intro parse_components_step) auto
  then show ?thesis by (simp add: parse_components_empty)
qed

lemma unit_values [simp]:
  "map_of unit_map ''ns'' = Some 1" "map_of unit_map (micro_sign @ ''s'') = Some (10 ^ 3)"
  "map_of unit_map ''ms'' = Some (10 ^ 6)" "map_of unit_map ''s'' = Some (10 ^ 9)"
  "map_of unit_map ''m'' = Some 60000000000" "map_of unit_map ''h'' = Some 3600000000000"
  by (simp_all add: unit_map_def micro_sign_def greek_mu_def)

lemma nat_digits_unit_end: "unit_end (hd (nat_digits v @ r))"
  using digit_run_hd [OF nat_digits_nonempty nat_digits_digits, of v r] by simp

text \<open>The seconds, with the minutes and hours before them.\<close>

lemma parse_clock:
  assumes "u = secs * 1000000000 + ns" "ns < 1000000000" "u \<le> 2 ^ 63"
  defines "tail \<equiv> nat_digits (secs mod 60) @ fraction_text 9 ns @ ''s''"
  shows "parse_components 0 (nat_digits ((secs div 60) div 60) @ ''h'' @
           nat_digits ((secs div 60) mod 60) @ ''m'' @ tail) = Some u"
    and "secs div 60 div 60 = 0 \<Longrightarrow> parse_components 0 (nat_digits ((secs div 60) mod 60) @ ''m'' @ tail) = Some u"
    and "secs div 60 = 0 \<Longrightarrow> parse_components 0 tail = Some u"
proof -
  let ?h = "(secs div 60) div 60" and ?m = "(secs div 60) mod 60" and ?s = "secs mod 60"
  have split: "secs = ?h * 3600 + ?m * 60 + ?s"
    using div_mult_mod_eq [of secs 60] div_mult_mod_eq [of "secs div 60" 60] by linarith
  have total: "?h * 3600000000000 + ?m * 60000000000 + (?s * 10 ^ 9 + ns) = u"
    using arg_cong [OF split, of "\<lambda>x. x * 1000000000"] assms(1) by (simp add: algebra_simps)
  have last: "parse_components d tail = Some (d + (?s * 10 ^ 9 + ns))" if "d + (?s * 10 ^ 9 + ns) \<le> 2 ^ 63" for d
    unfolding tail_def using assms(2) that by (intro parse_fraction_last) auto
  have hd: "unit_end (hd tail)" unfolding tail_def by (rule nat_digits_unit_end)
  have mins: "parse_components d (nat_digits ?m @ ''m'' @ tail) = Some (d + ?m * 60000000000 + (?s * 10 ^ 9 + ns))"
    if "d + ?m * 60000000000 + (?s * 10 ^ 9 + ns) \<le> 2 ^ 63" for d
    using parse_whole_step [of "''m''" 60000000000 tail d ?m] last [OF that] hd that by simp
  show "parse_components 0 (nat_digits ?h @ ''h'' @ nat_digits ?m @ ''m'' @ tail) = Some u"
    using parse_whole_step [of "''h''" 3600000000000 "nat_digits ?m @ ''m'' @ tail" 0 ?h]
      mins [of "?h * 3600000000000"] total assms(3) nat_digits_unit_end [of ?m "''m'' @ tail"] by simp
  show "parse_components 0 (nat_digits ?m @ ''m'' @ tail) = Some u" if "?h = 0"
    using mins [of 0] total assms(3) that by simp
  show "parse_components 0 tail = Some u" if "secs div 60 = 0"
    using last [of 0] total assms(3) that by simp
qed

lemma parse_magnitude:
  assumes "0 < u" "u \<le> 2 ^ 63"
  shows "parse_components 0 (duration_magnitude u) = Some u"
proof -
  consider "u < 1000" | "1000 \<le> u" "u < 1000000" | "1000000 \<le> u" "u < 1000000000" | "1000000000 \<le> u"
    by linarith
  then show ?thesis
  proof cases
    case 1
    then show ?thesis
      using parse_whole_step [of "''ns''" 1 "[]" 0 u] assms
      by (simp add: duration_magnitude_def parse_components_empty)
  next
    case 2
    then show ?thesis
      using parse_fraction_last [of "micro_sign @ ''s''" 3 "u mod 1000" 0 "u div 1000"] assms
      by (simp add: duration_magnitude_def)
  next
    case 3
    then show ?thesis
      using parse_fraction_last [of "''ms''" 6 "u mod 1000000" 0 "u div 1000000"] assms
      by (simp add: duration_magnitude_def)
  next
    case 4
    let ?secs = "u div 1000000000"
    have d: "u = ?secs * 1000000000 + u mod 1000000000" "u mod 1000000000 < 1000000000" by simp_all
    note clock = parse_clock [OF d assms(2)]
    have "duration_magnitude u =
        (if ?secs div 60 = 0 then nat_digits (?secs mod 60) @ fraction_text 9 (u mod 1000000000) @ ''s''
         else if ?secs div 60 div 60 = 0
           then nat_digits (?secs div 60 mod 60) @ ''m'' @ nat_digits (?secs mod 60) @ fraction_text 9 (u mod 1000000000) @ ''s''
         else nat_digits (?secs div 60 div 60) @ ''h'' @ nat_digits (?secs div 60 mod 60) @ ''m'' @
           nat_digits (?secs mod 60) @ fraction_text 9 (u mod 1000000000) @ ''s'')"
      using 4 by (simp only: duration_magnitude_def Let_def) simp
    with clock show ?thesis by metis
  qed
qed

lemma nat_digits_Cons: "\<exists>c s. nat_digits v = c # s \<and> is_digit c"
  using nat_digits_digits [of v] by (cases "nat_digits v") auto

lemma magnitude_hd: "\<exists>c s. duration_magnitude u = c # s \<and> is_digit c"
proof -
  have "\<exists>v r. duration_magnitude u = nat_digits v @ r"
  proof (cases "u = 0")
    case True
    then have "duration_magnitude u = nat_digits 0 @ ''s''"
      by (simp add: duration_magnitude_def nat_digits.simps digit_char_simps)
    then show ?thesis by blast
  next
    case False
    then show ?thesis unfolding duration_magnitude_def Let_def by (simp split: if_split) blast
  qed
  then show ?thesis using nat_digits_Cons by (metis append_Cons)
qed

text \<open>The text form of a duration is read back as the same duration, for every value of the type,
  down to nanoseconds and at both ends of the range.\<close>

lemma unmarshal_duration:
  assumes "in_int64 d"
  shows "Duration_UnmarshalJSON (Duration_MarshalJSON d) = Some d"
proof -
  let ?u = "nat \<bar>d\<bar>"
  obtain c s where c: "duration_magnitude ?u = c # s" "is_digit c" using magnitude_hd by blast
  have sign: "c \<notin> set ''+-''" using c(2) by (auto simp: is_digit_def)
  have u: "?u \<le> 2 ^ 63" using assms by (auto simp: in_int64_def)
  have unitless: "parse_components 0 ''0'' = None"
    by (simp add: parse_components.simps parse_component_def is_digit_def unit_end_def digit_value_def)
  have "ParseDuration (Duration_String d) = Some d"
  proof (cases "d = 0")
    case True
    then show ?thesis
      by (simp add: Duration_String_def duration_magnitude_def ParseDuration_def parse_components.simps
          parse_component_def is_digit_def unit_end_def digit_value_def unit_map_def micro_sign_def greek_mu_def)
  next
    case False
    then have p: "parse_components 0 (duration_magnitude ?u) = Some ?u"
      using u by (intro parse_magnitude) auto
    have "duration_magnitude ?u \<noteq> ''0''"
      using p unitless by auto
    with p c sign False assms show ?thesis
      by (auto simp: Duration_String_def ParseDuration_def Let_def in_int64_def)
  qed
  then show ?thesis
    by (simp add: Duration_UnmarshalJSON_def Duration_MarshalJSON_def quote_def)
qed

end
