(* ===== verification/GoTime.thy ===== *)
theory GoTime
  imports GoDuration
begin

text \<open>
  The text of an instant: \<open>time.Time\<close> in UTC under the layout RFC 3339 with nanoseconds, which is
  also its JSON form, and that reading it gives the instant back.
\<close>

section \<open>Dates\<close>

text \<open>Year and day of the year (from 0) of a day counted from 1 January of year 1.\<close>

definition year_of_day :: "int \<Rightarrow> int \<times> int" where
  "year_of_day n =
     (let a = n div 146097; r = n mod 146097;
          b = min 3 (r div 36524); r = r - 36524 * b;
          c = r div 1461; r = r mod 1461;
          e = min 3 (r div 365)
      in (400 * a + 100 * b + 4 * c + e + 1, r - 365 * e))"

fun month_of_day :: "int list \<Rightarrow> int \<Rightarrow> int \<Rightarrow> int \<times> int" where
  "month_of_day [] m d = (m, d)"
| "month_of_day (l # ls) m d = (if d < l then (m, d) else month_of_day ls (m + 1) (d - l))"

definition fixed_text :: "nat \<Rightarrow> int \<Rightarrow> string" where
  "fixed_text n v = fixed_digits n (nat v)"

definition format_time :: "instant \<Rightarrow> string option" where
  "format_time t =
     (let secs = t div second; ns = t mod second; sod = secs mod 86400;
          (y, yday) = year_of_day (secs div 86400);
          (mo, d) = month_of_day (month_lengths y) 1 yday
      in if 0 \<le> y \<and> y \<le> 9999
         then Some (fixed_text 4 y @ ''-'' @ fixed_text 2 mo @ ''-'' @ fixed_text 2 (d + 1) @ ''T'' @
                fixed_text 2 (sod div 3600) @ '':'' @ fixed_text 2 (sod div 60 mod 60) @ '':'' @
                fixed_text 2 (sod mod 60) @ fraction_text 9 (nat ns) @ ''Z'')
         else None)"

definition marshal_time :: "instant \<Rightarrow> string option" where
  "marshal_time t = map_option (\<lambda>s. quote # s @ [quote]) (format_time t)"

section \<open>The calendar is consistent\<close>

definition year_length :: "int \<Rightarrow> int" where
  "year_length y = (if is_leap y then 366 else 365)"

lemma mod_full:
  fixes k m q :: int
  assumes "0 < k" "k \<le> m"
  shows "(m * q + k) mod m = 0 \<longleftrightarrow> k = m"
  using assms by (cases "k = m") (simp_all add: mod_pos_pos_trivial)

lemma split_year:
  fixes a b c e :: int
  assumes "0 \<le> b" "b \<le> 3" "0 \<le> c" "c \<le> 24" "0 \<le> e" "e \<le> 3"
  defines "y \<equiv> 400 * a + 100 * b + 4 * c + e + 1"
  shows "days_before_year y = 146097 * a + 36524 * b + 1461 * c + 365 * e"
    and "is_leap y \<longleftrightarrow> e = 3 \<and> (c \<noteq> 24 \<or> b = 3)"
proof -
  have d: "(y - 1) div 4 = 100 * a + 25 * b + c" "(y - 1) div 100 = 4 * a + b" "(y - 1) div 400 = a"
    using assms by (simp_all add: y_def; linarith)+
  show "days_before_year y = 146097 * a + 36524 * b + 1461 * c + 365 * e"
    unfolding days_before_year_def d by (simp add: y_def)
  have m4: "y mod 4 = 0 \<longleftrightarrow> e + 1 = 4"
  proof -
    have "y = 4 * (100 * a + 25 * b + c) + (e + 1)" by (simp add: y_def)
    then show ?thesis using assms(1-6) by (simp only: mod_full)
  qed
  have m100: "y mod 100 = 0 \<longleftrightarrow> 4 * c + e + 1 = 100"
  proof -
    have "y = 100 * (4 * a + b) + (4 * c + e + 1)" by (simp add: y_def)
    then show ?thesis using mod_full [of "4 * c + e + 1" 100] assms(1-6) by (simp only:)
  qed
  have m400: "y mod 400 = 0 \<longleftrightarrow> 100 * b + 4 * c + e + 1 = 400"
  proof -
    have "y = 400 * a + (100 * b + 4 * c + e + 1)" by (simp add: y_def)
    then show ?thesis using mod_full [of "100 * b + 4 * c + e + 1" 400] assms(1-6) by (simp only:)
  qed
  from m4 m100 m400 have "y mod 4 = 0 \<longleftrightarrow> e = 3" "y mod 100 = 0 \<longleftrightarrow> c = 24 \<and> e = 3" "y mod 400 = 0 \<longleftrightarrow> b = 3 \<and> c = 24 \<and> e = 3"
    using assms(1-6) by auto
  then show "is_leap y \<longleftrightarrow> e = 3 \<and> (c \<noteq> 24 \<or> b = 3)" by (auto simp: is_leap_def)
qed

lemma year_of_day_correct:
  assumes "year_of_day n = (y, d)"
  shows "days_before_year y + d = n \<and> 0 \<le> d \<and> d < year_length y"
proof -
  define a where "a = n div 146097"
  define r1 where "r1 = n mod 146097"
  define b where "b = min 3 (r1 div 36524)"
  define r2 where "r2 = r1 - 36524 * b"
  define c where "c = r2 div 1461"
  define r3 where "r3 = r2 mod 1461"
  define e where "e = min 3 (r3 div 365)"
  have "year_of_day n = (400 * a + 100 * b + 4 * c + e + 1, r3 - 365 * e)"
    unfolding year_of_day_def Let_def e_def r3_def c_def r2_def b_def r1_def a_def by (rule refl)
  with assms have yd: "y = 400 * a + 100 * b + 4 * c + e + 1" "d = r3 - 365 * e" by (simp_all only: prod.inject)
  have n: "n = 146097 * a + r1" unfolding a_def r1_def by (rule mult_div_mod_eq [symmetric])
  have r1: "0 \<le> r1" "r1 < 146097" by (simp_all add: r1_def)
  have b: "0 \<le> b" "b \<le> 3" "0 \<le> r2" "r2 \<le> 36524" "b < 3 \<longrightarrow> r2 < 36524"
    using r1 by (auto simp: b_def r2_def min_def)
  have r2: "r2 = 1461 * c + r3" unfolding c_def r3_def by (rule mult_div_mod_eq [symmetric])
  have r3: "0 \<le> r3" "r3 < 1461" by (simp_all add: r3_def)
  have c: "0 \<le> c" "c \<le> 24" using b r2 r3 by linarith+
  have e: "0 \<le> e" "e \<le> 3" "0 \<le> r3 - 365 * e" "r3 - 365 * e \<le> 365" "e < 3 \<longrightarrow> r3 - 365 * e < 365"
    using r3 by (auto simp: e_def min_def)
  note sy = split_year [OF b(1,2) c e(1,2), of a, folded yd(1)]
  have "days_before_year y + d = n" using sy(1) n r2 yd(2) by (simp add: r2_def)
  moreover have "d < year_length y"
  proof (cases "e = 3 \<and> (c \<noteq> 24 \<or> b = 3)")
    case True
    then have "year_length y = 366" by (simp add: year_length_def sy(2))
    then show ?thesis using e(4) yd(2) by linarith
  next
    case False
    then have y: "year_length y = 365" by (simp add: year_length_def sy(2))
    show ?thesis
    proof (cases "e = 3")
      case True
      with False have "c = 24" "b < 3" using b(2) by auto
      with b(5) r2 yd(2) True y show ?thesis by linarith
    next
      case False
      with e(2,5) yd(2) y show ?thesis by linarith
    qed
  qed
  ultimately show ?thesis using e(3) yd(2) by simp
qed

lemma month_of_day_correct:
  assumes "month_of_day ls m d = (mo, r)" "0 \<le> d" "d < sum_list ls"
  shows "m \<le> mo \<and> mo < m + int (length ls) \<and> 0 \<le> r \<and> r < ls ! nat (mo - m) \<and>
         d = sum_list (take (nat (mo - m)) ls) + r"
  using assms
proof (induction ls m d rule: month_of_day.induct)
  case (2 l ls m d)
  show ?case
  proof (cases "d < l")
    case False
    with 2 have ih: "m + 1 \<le> mo" "mo < m + 1 + int (length ls)" "0 \<le> r" "r < ls ! nat (mo - (m + 1))"
      "d - l = sum_list (take (nat (mo - (m + 1))) ls) + r" by auto
    then have "nat (mo - m) = Suc (nat (mo - (m + 1)))" by simp
    with ih show ?thesis by simp
  qed (use 2 in auto)
qed simp

lemma year_length_months: "sum_list (month_lengths y) = year_length y"
  by (simp add: month_lengths_def year_length_def)

lemma month_lengths_bound: "m < 12 \<Longrightarrow> month_lengths y ! m \<le> 31"
  by (auto simp: month_lengths_def less_Suc_eq numeral_eq_Suc)

section \<open>Printed instants are read back\<close>

lemma clock_split: "(x :: int) = x div 3600 * 3600 + x div 60 mod 60 * 60 + x mod 60"
proof -
  have "x div 60 div 60 = x div 3600" using zdiv_zmult2_eq [of 60 x 60] by simp
  then show ?thesis using div_mult_mod_eq [of x 60] div_mult_mod_eq [of "x div 60" 60] by linarith
qed

lemma civil_sum:
  "(q :: int) = h * 3600 + mi * 60 + sec \<Longrightarrow> b + m + d = p \<Longrightarrow> p * 86400 + q = n \<Longrightarrow>
   (b + m + (d + 1 - 1)) * 86400 + h * 3600 + mi * 60 + sec = n"
  by simp

lemma fixed_text_chars:
  assumes "0 \<le> v" "v < 10 ^ n" "0 < n"
  shows "length (fixed_text n v) = n" "int (digits_value (fixed_text n v)) = v" "list_all is_digit (fixed_text n v)"
proof -
  have "nat v < 10 ^ n" using assms by (simp add: nat_less_iff)
  from fixed_digits_facts [OF this assms(3)] assms(1)
  show "length (fixed_text n v) = n" "int (digits_value (fixed_text n v)) = v" "list_all is_digit (fixed_text n v)"
    by (simp_all add: fixed_text_def list_all_iff)
qed

lemma two_chars: "length s = 2 \<longleftrightarrow> (\<exists>a b. s = [a, b])"
  by (auto simp: length_Suc_conv numeral_eq_Suc)

lemma four_chars: "length s = 4 \<longleftrightarrow> (\<exists>a b c d. s = [a, b, c, d])"
  by (auto simp: length_Suc_conv numeral_eq_Suc)

lemma fixed_two:
  assumes "0 \<le> v" "v < 100"
  obtains a b where "fixed_text 2 v = [a, b]" "is_digit a" "is_digit b" "int (digits_value [a, b]) = v"
  using fixed_text_chars [of v 2] assms by (auto simp: two_chars intro: that)

lemma fixed_four:
  assumes "0 \<le> v" "v < 10000"
  obtains a b c d where "fixed_text 4 v = [a, b, c, d]" "is_digit a" "is_digit b" "is_digit c" "is_digit d"
    "int (digits_value [a, b, c, d]) = v"
  using fixed_text_chars [of v 4] assms by (auto simp: four_chars intro: that)

lemma fraction_read:
  assumes "0 < f" "f < 10 ^ 9"
  obtains ds where "fraction_text 9 f = CHR ''.'' # ds" "ds \<noteq> []" "\<forall>c\<in>set ds. is_digit c" "fraction_ns ds = int f"
proof -
  let ?ds = "strip_zeros (fixed_digits 9 f)"
  note fixd = fixed_digits_facts [OF assms(2)]
  obtain z where z: "fixed_digits 9 f = ?ds @ replicate z CHR ''0''" using strip_zeros_split by blast
  have len: "length ?ds + z = 9" using fixd(1) arg_cong [OF z, of length] by simp
  have val: "digits_value ?ds * 10 ^ z = f" using fixd(2) digits_value_trailing [of ?ds z] z by simp
  have "int (digits_value ?ds) * 10 ^ z = int f" using arg_cong [OF val, of int] by simp
  moreover have "z = 9 - length ?ds" using len by simp
  moreover have "take 9 ?ds = ?ds" using len by simp
  ultimately have "fraction_ns ?ds = int f" by (simp add: fraction_ns_def)
  moreover have "\<forall>c\<in>set ?ds. is_digit c" using fixd(3) z by (metis Un_iff set_append zero_less_numeral)
  moreover have "?ds \<noteq> []" using val assms(1) by (auto simp: digits_value_def)
  ultimately show thesis using assms(1) by (intro that) (simp_all add: fraction_text_def Let_def)
qed

lemma parse_time_text:
  assumes y: "0 \<le> y" "y < 10000" and mo: "1 \<le> mo" "mo \<le> 12" and d: "1 \<le> d" "d \<le> month_lengths y ! nat (mo - 1)"
    and h: "0 \<le> h" "h < 24" and mi: "0 \<le> mi" "mi < 60" and s: "0 \<le> sec" "sec < 60" and f: "0 \<le> ns" "ns < second"
  shows "parse_rfc3339 (fixed_text 4 y @ ''-'' @ fixed_text 2 mo @ ''-'' @ fixed_text 2 d @ ''T'' @
           fixed_text 2 h @ '':'' @ fixed_text 2 mi @ '':'' @ fixed_text 2 sec @ fraction_text 9 (nat ns) @ ''Z'') =
         Some (civil_seconds y mo d h mi sec * second + ns)"
proof -
  have "nat (mo - 1) < 12" using mo by simp
  then have d31: "d \<le> 31" using d(2) month_lengths_bound [of "nat (mo - 1)" y] by linarith
  obtain y1 y2 y3 y4 where Y: "fixed_text 4 y = [y1, y2, y3, y4]" "is_digit y1" "is_digit y2" "is_digit y3" "is_digit y4"
    "int (digits_value [y1, y2, y3, y4]) = y" by (rule fixed_four [OF y])
  obtain m1 m2 where M: "fixed_text 2 mo = [m1, m2]" "is_digit m1" "is_digit m2" "int (digits_value [m1, m2]) = mo"
    using fixed_two [of mo] mo by auto
  obtain d1 d2 where D: "fixed_text 2 d = [d1, d2]" "is_digit d1" "is_digit d2" "int (digits_value [d1, d2]) = d"
    using fixed_two [of d] d d31 by auto
  obtain h1 h2 where H: "fixed_text 2 h = [h1, h2]" "is_digit h1" "is_digit h2" "int (digits_value [h1, h2]) = h"
    using fixed_two [of h] h by auto
  obtain i1 i2 where I: "fixed_text 2 mi = [i1, i2]" "is_digit i1" "is_digit i2" "int (digits_value [i1, i2]) = mi"
    using fixed_two [of mi] mi by auto
  obtain s1 s2 where S: "fixed_text 2 sec = [s1, s2]" "is_digit s1" "is_digit s2" "int (digits_value [s1, s2]) = sec"
    using fixed_two [of sec] s by auto
  note parts = Y(1) M(1) D(1) H(1) I(1) S(1) and digits = Y(2-5) M(2,3) D(2,3) H(2,3) I(2,3) S(2,3)
    and vals = Y(6) M(4) D(4) H(4) I(4) S(4)
  show ?thesis
  proof (cases "ns = 0")
    case True
    then show ?thesis using y mo d h mi s
      by (simp add: parse_rfc3339_def parts digits_at_def digits vals zone_seconds_def fraction_text_def)
  next
    case False
    then have "0 < nat ns" "nat ns < 10 ^ 9" using f by (auto simp: second_def)
    then obtain ds where F: "fraction_text 9 (nat ns) = CHR ''.'' # ds" "ds \<noteq> []" "\<forall>c\<in>set ds. is_digit c"
      "fraction_ns ds = int (nat ns)" by (rule fraction_read)
    have z: "\<not> is_digit CHR ''Z''" by (simp add: is_digit_def)
    have td: "takeWhile is_digit (ds @ ''Z'') = ds" "dropWhile is_digit (ds @ ''Z'') = ''Z''"
      using F(3) z by (simp_all add: takeWhile_append2 dropWhile_append2)
    show ?thesis using y mo d h mi s f
      by (simp add: parse_rfc3339_def parts digits_at_def digits vals zone_seconds_def F td)
  qed
qed

text \<open>Every instant that has a text form is read back exactly, to the nanosecond and across leap
  years and centuries.\<close>

lemma unquote_marshal_time:
  assumes "marshal_time t = Some s"
  shows "unquote_time s = Some t"
proof -
  let ?secs = "t div second" and ?ns = "t mod second"
  let ?sod = "?secs mod 86400"
  obtain y yday where yd: "year_of_day (?secs div 86400) = (y, yday)" by (cases "year_of_day (?secs div 86400)")
  obtain mo d where md: "month_of_day (month_lengths y) 1 yday = (mo, d)"
    by (cases "month_of_day (month_lengths y) 1 yday")
  obtain u where u: "format_time t = Some u" "s = quote # u @ [quote]" using assms by (auto simp: marshal_time_def)
  then have range: "0 \<le> y" "y \<le> 9999" by (auto simp: format_time_def yd md Let_def split: if_splits)
  note Y = year_of_day_correct [OF yd]
  then have "0 \<le> yday" "yday < sum_list (month_lengths y)" by (simp_all add: year_length_months)
  note M = month_of_day_correct [OF md this]
  then have mo: "1 \<le> mo" "mo \<le> 12" by (simp_all add: month_lengths_def)
  have day: "civil_seconds y mo (d + 1) (?sod div 3600) (?sod div 60 mod 60) (?sod mod 60) = ?secs"
  proof -
    have "days_before_year y + sum_list (take (nat (mo - 1)) (month_lengths y)) + d = ?secs div 86400"
      using Y M by simp
    then show ?thesis
      unfolding civil_seconds_def by (rule civil_sum [OF clock_split _ div_mult_mod_eq])
  qed
  have text_u: "u = fixed_text 4 y @ ''-'' @ fixed_text 2 mo @ ''-'' @ fixed_text 2 (d + 1) @ ''T'' @
      fixed_text 2 (?sod div 3600) @ '':'' @ fixed_text 2 (?sod div 60 mod 60) @ '':'' @
      fixed_text 2 (?sod mod 60) @ fraction_text 9 (nat ?ns) @ ''Z''"
    using u(1) range unfolding format_time_def Let_def yd md prod.case by (simp only: if_True simp_thms option.inject)
  have d: "1 \<le> d + 1" "d + 1 \<le> month_lengths y ! nat (mo - 1)" using M by simp_all
  have clock: "0 \<le> ?sod div 3600" "?sod div 3600 < 24" "0 \<le> ?sod div 60 mod 60" "?sod div 60 mod 60 < 60"
    "0 \<le> ?sod mod 60" "?sod mod 60 < 60" "0 \<le> ?ns" "?ns < second"
    by (simp_all add: second_def)
  have "y < 10000" using range by simp
  from parse_time_text [OF range(1) this mo d clock]
  have "parse_rfc3339 u = Some t" unfolding text_u day div_mult_mod_eq .
  then show ?thesis by (simp add: u(2) unquote_time_def)
qed

end
