(* ===== verification/JsonText.thy ===== *)
theory JsonText
  imports GoTime
begin

text \<open>
  What \<open>encoding/json\<close> writes is what it reads: printed strings, numbers, arrays and objects parse back to
  the values they were printed for, whatever text follows. The lemmas compose, so a codec is proved field
  by field.
\<close>

section \<open>Texts that print and read back\<close>

text \<open>Valid UTF-8, what every Go string the program builds from decoded JSON or from literals is.\<close>

function (sequential) utf8_text :: "string \<Rightarrow> bool" where
  "utf8_text [] = True"
| "utf8_text (c # s) =
     (if code c < 128 then utf8_text s
      else case utf8_width (c # s) of None \<Rightarrow> False | Some n \<Rightarrow> utf8_text (drop (n - 1) s))"
  by pat_completeness auto
termination by (relation "measure length") auto

declare utf8_text.simps [simp del]

lemma utf8_width_prefix:
  assumes "utf8_width s = Some n"
  shows "2 \<le> n \<and> n \<le> length s \<and> utf8_width (take n s @ r) = Some n"
proof -
  obtain a b u where s: "s = a # b # u" using assms by (cases s rule: utf8_width.cases) auto
  consider "u = []" | c where "u = [c]" | c d w where "u = c # d # w"
    by (metis list.exhaust)
  then show ?thesis
    using assms unfolding s by cases (simp_all only: utf8_width.simps list.case split: if_split_asm, simp_all)
qed

lemma utf8_width_bound: "utf8_width s = Some n \<Longrightarrow> 2 \<le> n \<and> n \<le> length s"
  using utf8_width_prefix by blast

lemma utf8_width_high: "utf8_width (c # s) = Some n \<Longrightarrow> 128 \<le> code c"
  by (cases "c # s" rule: utf8_width.cases) (auto simp: in_bytes_def split: if_splits list.splits)

text \<open>Each escape stands for the character it was written for.\<close>

lemma short_escape_read: "short_escape c = Some e \<Longrightarrow> e \<noteq> CHR ''u'' \<and> simple_escape e = Some c"
  by (auto simp: short_escape_def simple_escape_def quote_def backslash_def split: if_splits
      dest!: arg_cong [where f = "char_of :: nat \<Rightarrow> char"])

lemma hex_value_digit: "d < 16 \<Longrightarrow> hex_value (if d < 10 then digit_char d else char_of (87 + d)) = Some d"
  by (auto simp: hex_value_def is_digit_def)

lemma ascii_escape_read:
  assumes "code c < 128"
  shows "unicode_escape (CHR ''0'' # CHR ''0'' # digit_char (code c div 16) #
      (if code c mod 16 < 10 then digit_char (code c mod 16) else char_of (87 + code c mod 16)) # r) = Some ([c], 4)"
proof -
  have "code c div 16 < 8" using assms by simp
  then have "hex_value (digit_char (code c div 16)) = Some (code c div 16)"
    using hex_value_digit [of "code c div 16"] by simp
  moreover have "hex_value CHR ''0'' = Some 0" by (simp add: hex_value_def is_digit_def)
  moreover have "code c div 16 * 16 + code c mod 16 = code c" by simp
  ultimately show ?thesis
    using assms hex_value_digit [of "code c mod 16"]
    by (simp add: unicode_escape_def utf8_encode_def del: mult_div_mod_eq)
qed

lemma separator_chars:
  "char_of (226 :: nat) = CHR 0xE2" "char_of (128 :: nat) = CHR 0x80" "char_of (168 :: nat) = CHR 0xA8"
  "char_of (169 :: nat) = CHR 0xA9"
  by code_simp+

lemma separator_escape_read:
  "unicode_escape (CHR ''2'' # CHR ''0'' # CHR ''2'' # CHR ''8'' # r) = Some ([CHR 0xE2, CHR 0x80, CHR 0xA8], 4)"
  "unicode_escape (CHR ''2'' # CHR ''0'' # CHR ''2'' # CHR ''9'' # r) = Some ([CHR 0xE2, CHR 0x80, CHR 0xA9], 4)"
  by (simp_all add: unicode_escape_def hex_value_def is_digit_def utf8_encode_def separator_chars)

lemma string_body_unicode:
  "string_body (backslash # CHR ''u'' # s) =
     (case unicode_escape s of None \<Rightarrow> None | Some (t, n) \<Rightarrow> prepend t (string_body (drop n s)))"
  by (subst string_body.simps(2)) (simp add: quote_def backslash_def)

lemma string_body_simple:
  "e \<noteq> CHR ''u'' \<Longrightarrow> simple_escape e = Some d \<Longrightarrow> string_body (backslash # e # s) = prepend [d] (string_body s)"
  by (subst string_body.simps(2)) (simp add: quote_def backslash_def)

lemma string_body_escape:
  "utf8_text t \<Longrightarrow> string_body (escape t @ quote # r) = Some (t, r)"
proof (induction t rule: utf8_text.induct)
  case 1
  show ?case by (simp add: escape.simps string_body.simps)
next
  case (2 c s)
  show ?case
  proof (cases "short_escape c")
    case (Some e)
    then have "code c < 128" by (auto simp: short_escape_def quote_def backslash_def split: if_splits)
    with 2 have "string_body (escape s @ quote # r) = Some (s, r)" by (simp add: utf8_text.simps)
    with Some short_escape_read [OF Some] show ?thesis
      by (simp add: escape.simps(2) [of c] string_body_simple prepend_def)
  next
    case None
    then have plain: "c \<noteq> quote" "c \<noteq> backslash" by (auto simp: short_escape_def)
    show ?thesis
    proof (cases "code c < 32 \<or> c \<in> set ''<>&''")
      case True
      then have "code c < 128" by auto
      with 2 have "string_body (escape s @ quote # r) = Some (s, r)" by (simp add: utf8_text.simps)
      moreover have "escape (c # s) = backslash # CHR ''u'' # CHR ''0'' # CHR ''0'' # digit_char (code c div 16) #
          (if code c mod 16 < 10 then digit_char (code c mod 16) else char_of (87 + code c mod 16)) # escape s"
        using True None by (simp add: escape.simps(2) [of c] unicode_literal_def)
      ultimately show ?thesis
        using \<open>code c < 128\<close> by (simp only: append_Cons string_body_unicode ascii_escape_read) (simp add: prepend_def)
    next
      case visible: False
      show ?thesis
      proof (cases "code c < 128")
        case True
        with 2 visible plain None show ?thesis
          by (simp add: escape.simps(2) [of c] utf8_text.simps string_body.simps(2) [of c] prepend_def)
      next
        case False
        with 2 obtain n where n: "utf8_width (c # s) = Some n" "utf8_text (drop (n - 1) s)"
          by (auto simp: utf8_text.simps split: option.splits)
        with 2 False have ih: "string_body (escape (drop (n - 1) s) @ quote # r) = Some (drop (n - 1) s, r)"
          by simp
        from utf8_width_bound [OF n(1)] have len: "2 \<le> n" "n - 1 \<le> length s" by auto
        then have split: "take n (c # s) = c # take (n - 1) s" by (cases n) auto
        have esc: "escape (c # s) =
            (if take n (c # s) = [CHR 0xE2, CHR 0x80, CHR 0xA8] then unicode_literal ''2028''
             else if take n (c # s) = [CHR 0xE2, CHR 0x80, CHR 0xA9] then unicode_literal ''2029''
             else take n (c # s)) @ escape (drop (n - 1) s)"
          using None visible False n(1) by (simp add: escape.simps(2) [of c])
        have whole: "c # s = take n (c # s) @ drop (n - 1) s" using split by simp
        have escaped: "string_body (escape (c # s) @ quote # r) = Some (c # s, r)"
          if "take n (c # s) = t" "escape (c # s) = unicode_literal d @ escape (drop (n - 1) s)"
            "\<And>z. unicode_escape (d @ z) = Some (t, 4)" "length d = 4" for d t
        proof -
          from that(3,4) ih have "string_body ((unicode_literal d @ escape (drop (n - 1) s)) @ quote # r) =
              Some (t @ drop (n - 1) s, r)"
            by (simp add: unicode_literal_def string_body_unicode prepend_def that(4))
          with whole that(1,2) show ?thesis by simp
        qed
        consider "take n (c # s) = [CHR 0xE2, CHR 0x80, CHR 0xA8]" | "take n (c # s) = [CHR 0xE2, CHR 0x80, CHR 0xA9]"
          | "take n (c # s) \<noteq> [CHR 0xE2, CHR 0x80, CHR 0xA8]" "take n (c # s) \<noteq> [CHR 0xE2, CHR 0x80, CHR 0xA9]"
          by blast
        then show ?thesis
        proof cases
          case 1
          show ?thesis
            by (rule escaped [where d = "''2028''", OF 1]) (simp_all only: esc 1 if_True simp_thms, simp_all add: separator_escape_read)
        next
          case 2
          show ?thesis
            by (rule escaped [where d = "''2029''", OF 2]) (simp_all only: esc 2 if_False if_True list.inject char.inject simp_thms, simp_all add: separator_escape_read)
        next
          case 3
          have "utf8_width (c # take (n - 1) s @ z) = Some n" for z
            using utf8_width_prefix [OF n(1), of z] split by simp
          moreover have "take n (c # take (n - 1) s @ z) = take n (c # s)" "drop (n - 1) (take (n - 1) s @ z) = z" for z
            using len split by (simp_all add: take_Cons' split: if_splits)
          moreover have "escape (c # s) = c # take (n - 1) s @ escape (drop (n - 1) s)"
            by (simp only: esc 3 if_False) (simp add: split)
          ultimately show ?thesis
            using visible False ih len plain split by (simp add: string_body.simps(2) [of c] prepend_def)
        qed
      qed
    qed
  qed
qed

text \<open>
  A text reads as a value when the parser, given enough fuel, takes exactly that text off the input and
  leaves the rest, whatever a document may have behind a value. Texts of JSON values start with no space,
  so an object's member keeps them as its raw text.
\<close>

definition value_end :: "string \<Rightarrow> bool" where
  "value_end r \<longleftrightarrow> r = [] \<or> hd r \<in> set '',}]''"

definition reads :: "string \<Rightarrow> json \<Rightarrow> bool" where
  "reads s v \<longleftrightarrow> s \<noteq> [] \<and> \<not> is_space (hd s) \<and>
     (\<exists>n. \<forall>r. value_end r \<longrightarrow> parse_value n (s @ r) = Some (v, r))"

lemma readsI:
  "s \<noteq> [] \<Longrightarrow> \<not> is_space (hd s) \<Longrightarrow> (\<And>r. value_end r \<Longrightarrow> parse_value n (s @ r) = Some (v, r)) \<Longrightarrow> reads s v"
  unfolding reads_def by blast

lemma reads_parse_json: "reads s v \<Longrightarrow> parse_json s = Some v"
  unfolding reads_def value_end_def
  by (metis append_Nil2 dropWhile.simps(1) parse_json_intro)

lemma reads_skip: "reads s v \<Longrightarrow> skip_space (s @ r) = s @ r"
  by (cases s) (auto simp: reads_def)

lemma value_end_space: "value_end r \<Longrightarrow> skip_space r = r"
  by (cases r) (auto simp: value_end_def is_space_def)

lemma reads_null: "reads ''null'' JNull"
  by (rule readsI [where n = 1]) (auto simp: parse_value.simps is_space_def quote_def scan_word_def)

lemma reads_bool: "reads (if b then ''true'' else ''false'') (JBool b)"
  by (rule readsI [where n = 1]) (auto simp: parse_value.simps is_space_def quote_def scan_word_def)

lemma reads_string: "utf8_text t \<Longrightarrow> reads (marshal_string t) (JString t)"
  by (rule readsI [where n = 1])
    (simp_all add: marshal_string_def parse_value.simps is_space_def quote_def string_body_escape [unfolded quote_def])

text \<open>Numbers: what stops the scanner is not part of a number.\<close>

lemma value_end_number: "value_end r \<Longrightarrow> takeWhile is_digit r = [] \<and> dropWhile is_digit r = r \<and>
    (r = [] \<or> hd r \<noteq> CHR ''.'' \<and> hd r \<notin> set ''eE'')"
  by (cases r) (auto simp: value_end_def is_digit_def)

lemma reads_digits:
  assumes "\<forall>c\<in>set ds. is_digit c" "ds \<noteq> []" "hd ds = CHR ''0'' \<longrightarrow> ds = ''0''" "sign = [] \<or> sign = ''-''"
  shows "reads (sign @ ds) (JNumber (sign @ ds))"
proof -
  obtain d es where ds: "ds = d # es" using assms(2) by (cases ds) auto
  have d: "is_digit d" and es: "\<forall>c\<in>set es. is_digit c" using assms(1) ds by auto
  have scan: "scan_number (sign @ ds @ r) = Some (JNumber (sign @ ds), r)" if "value_end r" for r
  proof -
    have "number_int (sign @ ds @ r) = Some r"
      using assms(3,4) d es ds value_end_number [OF that]
      by (auto simp: number_int_def Let_def dropWhile_append2 is_digit_def)
    moreover have "number_frac r = Some r" "number_exp r = Some r"
      using value_end_number [OF that] by (auto simp: number_frac_def number_exp_def)
    ultimately show ?thesis by (simp add: scan_number_def)
  qed
  have hd: "hd (sign @ ds) = CHR ''-'' \<or> is_digit (hd (sign @ ds))" using assms(4) d ds by auto
  show ?thesis
  proof (rule readsI [where n = 1])
    fix r assume r: "value_end r"
    obtain c t where c: "sign @ ds = c # t" using ds by (cases "sign @ ds") auto
    with hd have "c = CHR ''-'' \<or> is_digit c" by simp
    then have "c \<noteq> CHR ''{'' \<and> c \<noteq> CHR ''['' \<and> c \<noteq> quote \<and> c \<noteq> CHR ''t'' \<and> c \<noteq> CHR ''f'' \<and> c \<noteq> CHR ''n'' \<and> \<not> is_space c"
      by (auto simp: is_digit_def is_space_def quote_def)
    moreover have "scan_number (c # t @ r) = Some (JNumber (c # t), r)"
      using scan [OF r] c by (metis append.assoc append_Cons)
    ultimately show "parse_value 1 ((sign @ ds) @ r) = Some (JNumber (sign @ ds), r)"
      using c by (simp add: parse_value.simps)
  qed (use hd assms(2) in \<open>auto simp: is_digit_def is_space_def\<close>)
qed

lemma nat_digits_leading: "hd (nat_digits n) = CHR ''0'' \<Longrightarrow> nat_digits n = ''0''"
proof (induction n rule: nat_digits.induct)
  case (1 n)
  show ?case
  proof (cases "n < 10")
    case True
    then have "code (digit_char n) = 48 + n" by simp
    with True "1.prems" have "n = 0" by (auto simp: nat_digits.simps [of n])
    then show ?thesis by (simp add: nat_digits.simps [of 0])
  next
    case False
    with "1.prems" have "hd (nat_digits (n div 10)) = CHR ''0''" by (simp add: nat_digits.simps [of n])
    with 1 False have "nat_digits (n div 10) = ''0''" by simp
    then have "nat_digits (n div 10) = nat_digits 0" by (simp add: nat_digits.simps [of 0])
    then have "n div 10 = 0" by (metis digits_value_nat_digits)
    with False show ?thesis by simp
  qed
qed

lemma reads_int: "reads (marshal_int n) (JNumber (format_int n))"
  using reads_digits [of "nat_digits (nat n)" "[]"] reads_digits [of "nat_digits (nat (- n))" "''-''"]
    nat_digits_digits nat_digits_leading
  by (auto simp: marshal_int_def format_int_def)

text \<open>Arrays and objects, put together from what their parts read as.\<close>

fun marshal_list :: "string list \<Rightarrow> string" where
  "marshal_list [] = '']''"
| "marshal_list (t # ts) = t @ (if ts = [] then '']'' else CHR '','' # marshal_list ts)"

definition marshal_array :: "string list \<Rightarrow> string" where
  "marshal_array ts = CHR ''['' # marshal_list ts"

lemma parse_elements_text:
  "list_all2 reads ts vs \<Longrightarrow> ts \<noteq> [] \<Longrightarrow> \<exists>n. \<forall>r. parse_elements n (marshal_list ts @ r) = Some (vs, r)"
proof (induction ts arbitrary: vs)
  case (Cons t ts)
  then obtain v us where vs: "vs = v # us" and t: "reads t v" and ts: "list_all2 reads ts us"
    by (auto simp: list_all2_Cons1)
  from t obtain n where n: "\<And>r. value_end r \<Longrightarrow> parse_value n (t @ r) = Some (v, r)"
    by (auto simp: reads_def)
  show ?case
  proof (cases "ts = []")
    case True
    with ts vs n have "\<forall>r. parse_elements (Suc n) (marshal_list (t # ts) @ r) = Some (vs, r)"
      by (simp add: parse_elements.simps value_end_def is_space_def)
    then show ?thesis by blast
  next
    case False
    with Cons.IH [OF ts] obtain m where m: "\<And>r. parse_elements m (marshal_list ts @ r) = Some (us, r)" by auto
    have "parse_value (max n m) (t @ CHR '','' # z) = Some (v, CHR '','' # z)" for z
      by (rule parse_more_fuel(1) [OF max.cobounded1 n]) (simp add: value_end_def)
    moreover have "parse_elements (max n m) (marshal_list ts @ r) = Some (us, r)" for r
      by (rule parse_more_fuel(2) [OF max.cobounded2 m])
    ultimately have "\<forall>r. parse_elements (Suc (max n m)) (marshal_list (t # ts) @ r) = Some (vs, r)"
      using False vs by (simp add: parse_elements.simps is_space_def)
    then show ?thesis by blast
  qed
qed simp

lemma reads_array:
  assumes "list_all2 reads ts vs"
  shows "reads (marshal_array ts) (JArray vs)"
proof (cases ts)
  case Nil
  with assms show ?thesis
    by (intro readsI [where n = 1]) (auto simp: marshal_array_def parse_value.simps is_space_def)
next
  case (Cons t us)
  with assms obtain v ws where v: "vs = v # ws" "reads t v" by (auto simp: list_all2_Cons1)
  from parse_elements_text [OF assms] Cons obtain n where
    n: "\<And>r. parse_elements n (marshal_list ts @ r) = Some (vs, r)" by auto
  obtain c z where c: "t = c # z" "\<not> is_space c" using v(2) by (cases t) (auto simp: reads_def)
  have "c \<noteq> CHR '']''"
  proof
    assume "c = CHR '']''"
    moreover from v(2) obtain m where "\<forall>r. value_end r \<longrightarrow> parse_value m (t @ r) = Some (v, r)"
      by (auto simp: reads_def)
    then have "parse_value m (t @ []) = Some (v, [])" by (simp add: value_end_def)
    ultimately show False
      using c by (cases m) (auto simp: parse_value.simps quote_def scan_number_def number_int_def is_digit_def is_space_def Let_def split: if_splits)
  qed
  with n c Cons have "parse_value (Suc n) (marshal_array ts @ r) = Some (JArray vs, r)" for r
    by (auto simp: marshal_array_def parse_value.simps is_space_def dest: meta_spec [of _ r])
  then show ?thesis by (intro readsI) (auto simp: marshal_array_def is_space_def)
qed

lemma reads_nonempty: "reads t v \<Longrightarrow> t \<noteq> []"
  by (simp add: reads_def)

fun marshal_members :: "(string \<times> string) list \<Rightarrow> string" where
  "marshal_members [] = ''}''"
| "marshal_members ((k, t) # ms) =
     marshal_string k @ CHR '':'' # t @ (if ms = [] then ''}'' else CHR '','' # marshal_members ms)"

lemma marshal_members_alt:
  "foldr (\<lambda>(k, v) r. marshal_string k @ '':'' @ v @ (if r = ''}'' then r else CHR '','' # r)) ms ''}'' = marshal_members ms"
proof (induction ms)
  case (Cons m ms)
  have "marshal_members ms = ''}'' \<longleftrightarrow> ms = []"
    by (cases ms rule: marshal_members.cases) (simp_all add: marshal_string_def quote_def)
  with Cons show ?case by (cases m) auto
qed simp

lemma marshal_object_alt: "marshal_object ms = CHR ''{'' # marshal_members ms"
  unfolding marshal_object_def marshal_members_alt by simp

text \<open>Keys are field names or the keys of a map: any text.\<close>

definition member_reads :: "string \<times> string \<Rightarrow> string \<times> string \<times> json \<Rightarrow> bool" where
  "member_reads m e \<longleftrightarrow> utf8_text (fst m) \<and> fst e = fst m \<and> fst (snd e) = snd m \<and> reads (snd m) (snd (snd e))"

lemma skip_colon: "skip_space (CHR '':'' # s) = CHR '':'' # s"
  by simp

lemma parse_member:
  assumes "utf8_text k" "reads t v" "value_end r" "\<And>r. value_end r \<Longrightarrow> parse_value n (t @ r) = Some (v, r)"
  shows "parse_members (Suc n) (marshal_string k @ CHR '':'' # t @ r) =
    (case r of [] \<Rightarrow> None
     | e # q \<Rightarrow> if e = CHR ''}'' then Some ([(k, t, v)], q)
               else if e = CHR '','' then map_option (\<lambda>(ms, q). ((k, t, v) # ms, q)) (parse_members n q) else None)"
proof -
  have raw: "take (length (t @ r) - length r) (t @ r) = t" by simp
  have "skip_space (marshal_string k @ CHR '':'' # t @ r) = quote # escape k @ quote # CHR '':'' # t @ r"
    by (simp add: marshal_string_def)
  then show ?thesis
    unfolding parse_members.simps
    by (simp only: list.case string_body_escape [OF assms(1)] option.case prod.case simp_thms if_False if_True
        assms(4) [OF assms(3)] reads_skip [OF assms(2)] value_end_space [OF assms(3)] Let_def raw
        skip_colon)
qed

lemma parse_members_text:
  "list_all2 member_reads ms es \<Longrightarrow> ms \<noteq> [] \<Longrightarrow> \<exists>n. \<forall>r. parse_members n (marshal_members ms @ r) = Some (es, r)"
proof (induction ms arbitrary: es)
  case (Cons m ms)
  obtain k t where m: "m = (k, t)" by (cases m)
  from Cons.prems obtain e fs where e: "es = e # fs" "member_reads m e" and ms: "list_all2 member_reads ms fs"
    by (auto simp: list_all2_Cons1)
  with m obtain v where es: "es = (k, t, v) # fs" and k: "utf8_text k" and t: "reads t v"
    by (cases e) (auto simp: member_reads_def)
  from t obtain n where n: "\<And>r. value_end r \<Longrightarrow> parse_value n (t @ r) = Some (v, r)"
    by (auto simp: reads_def)
  show ?case
  proof (cases "ms = []")
    case True
    with ms es m parse_member [OF k t _ n] have
      "\<forall>r. parse_members (Suc n) (marshal_members (m # ms) @ r) = Some (es, r)"
      by (simp add: value_end_def)
    then show ?thesis by blast
  next
    case False
    with Cons.IH [OF ms] obtain l where l: "\<And>r. parse_members l (marshal_members ms @ r) = Some (fs, r)" by auto
    have step: "value_end r \<Longrightarrow> parse_value (max n l) (t @ r) = Some (v, r)" for r
      by (rule parse_more_fuel(1) [OF max.cobounded1 n])
    have "parse_members (max n l) (marshal_members ms @ r) = Some (fs, r)" for r
      by (rule parse_more_fuel(3) [OF max.cobounded2 l])
    with parse_member [OF k t _ step] False es m
    have "\<forall>r. parse_members (Suc (max n l)) (marshal_members (m # ms) @ r) = Some (es, r)"
      by (simp add: value_end_def)
    then show ?thesis by blast
  qed
qed simp

lemma reads_object:
  assumes "list_all2 member_reads ms es"
  shows "reads (marshal_object ms) (JObject es)"
proof (cases ms)
  case Nil
  with assms show ?thesis
    by (intro readsI [where n = 1]) (auto simp: marshal_object_alt parse_value.simps is_space_def)
next
  case (Cons m ns)
  from parse_members_text [OF assms] Cons obtain n where
    n: "\<And>r. parse_members n (marshal_members ms @ r) = Some (es, r)" by auto
  have "\<exists>z. marshal_members ms = quote # z" using Cons by (cases m) (auto simp: marshal_string_def)
  then obtain z where z: "marshal_members ms = quote # z" by blast
  with n have "parse_value (Suc n) (marshal_object ms @ r) = Some (JObject es, r)" for r
    using n [of r] by (simp add: marshal_object_alt parse_value.simps is_space_def quote_def)
  then show ?thesis by (intro readsI) (auto simp: marshal_object_alt is_space_def)
qed

end
