(* ===== verification/Protocol.thy ===== *)
theory Protocol
  imports DecimalNum
begin

text \<open>
  The wire data model of \<open>internal/protocol\<close>: the enumerations of \<open>enums.go\<close>, the snapshot and its
  metrics (\<open>snapshot.go\<close>), the HomeLab entities (\<open>homelab.go\<close>), and the derivation of severities,
  display badges and the link badge (\<open>status.go\<close>).

  The enumerations are open string types in Go (a decoder stores whatever text it read), so they are
  strings here too, and \<open>Valid\<close> is membership in the table. A pointer field is an option.
\<close>

section \<open>Enumerations\<close>

type_synonym MetricKind = string
type_synonym Window = string
type_synonym Precision = string
type_synonym SourceKind = string
type_synonym MetricStatus = string
type_synonym ErrorClass = string
type_synonym ConnectorState = string

abbreviation (input) "KindQuota \<equiv> ''quota''"
abbreviation (input) "KindBalance \<equiv> ''balance''"
abbreviation (input) "KindCost \<equiv> ''cost''"
abbreviation (input) "KindTokens \<equiv> ''tokens''"
abbreviation (input) "KindRequests \<equiv> ''requests''"
abbreviation (input) "KindAvailability \<equiv> ''availability''"

definition metricKinds :: "MetricKind list" where
  "metricKinds = [KindQuota, KindBalance, KindCost, KindTokens, KindRequests, KindAvailability]"

definition MetricKind_Valid :: "MetricKind \<Rightarrow> bool" where
  "MetricKind_Valid k \<longleftrightarrow> k \<in> set metricKinds"

definition windows :: "Window list" where
  "windows = [''rolling_5h'', ''daily'', ''weekly'', ''monthly'', ''billing_cycle'', ''prepaid'', ''instant'']"

definition Window_Valid :: "Window \<Rightarrow> bool" where
  "Window_Valid w \<longleftrightarrow> w \<in> set windows"

abbreviation (input) "PrecisionExact \<equiv> ''exact''"
abbreviation (input) "PrecisionVerified \<equiv> ''verified''"
abbreviation (input) "PrecisionEstimated \<equiv> ''estimated''"
abbreviation (input) "PrecisionManual \<equiv> ''manual''"
abbreviation (input) "PrecisionUnavailable \<equiv> ''unavailable''"

definition precisions :: "Precision list" where
  "precisions = [PrecisionExact, PrecisionVerified, PrecisionEstimated, PrecisionManual, PrecisionUnavailable]"

definition Precision_Valid :: "Precision \<Rightarrow> bool" where
  "Precision_Valid p \<longleftrightarrow> p \<in> set precisions"

definition Precision_Soft :: "Precision \<Rightarrow> bool" where
  "Precision_Soft p \<longleftrightarrow> p = PrecisionEstimated \<or> p = PrecisionManual"

definition sourceKinds :: "SourceKind list" where
  "sourceKinds = [''official_api'', ''official_cli'', ''official_export'', ''manual'', ''compatibility_api'', ''mock'']"

definition SourceKind_Valid :: "SourceKind \<Rightarrow> bool" where
  "SourceKind_Valid k \<longleftrightarrow> k \<in> set sourceKinds"

abbreviation (input) "StatusOK \<equiv> ''ok''"
abbreviation (input) "StatusWarning \<equiv> ''warning''"
abbreviation (input) "StatusCritical \<equiv> ''critical''"
abbreviation (input) "StatusUnknown \<equiv> ''unknown''"
abbreviation (input) "StatusError \<equiv> ''error''"
abbreviation (input) "StatusStale \<equiv> ''stale''"

definition metricStatuses :: "MetricStatus list" where
  "metricStatuses = [StatusOK, StatusWarning, StatusCritical, StatusUnknown, StatusError, StatusStale]"

definition MetricStatus_Valid :: "MetricStatus \<Rightarrow> bool" where
  "MetricStatus_Valid s \<longleftrightarrow> s \<in> set metricStatuses"

abbreviation (input) "ErrNone \<equiv> ''''"
abbreviation (input) "ErrAuth \<equiv> ''auth''"
abbreviation (input) "ErrRateLimited \<equiv> ''rate_limited''"
abbreviation (input) "ErrTimeout \<equiv> ''timeout''"
abbreviation (input) "ErrNetwork \<equiv> ''network''"
abbreviation (input) "ErrSchemaChanged \<equiv> ''schema_changed''"
abbreviation (input) "ErrUnsupported \<equiv> ''unsupported''"
abbreviation (input) "ErrInvalidConfig \<equiv> ''invalid_config''"
abbreviation (input) "ErrUpstream \<equiv> ''upstream''"

definition errorClasses :: "ErrorClass list" where
  "errorClasses = [ErrNone, ErrAuth, ErrRateLimited, ErrTimeout, ErrNetwork, ErrSchemaChanged,
     ErrUnsupported, ErrInvalidConfig, ErrUpstream]"

definition ErrorClass_Valid :: "ErrorClass \<Rightarrow> bool" where
  "ErrorClass_Valid e \<longleftrightarrow> e \<in> set errorClasses"

abbreviation (input) "ConnOK \<equiv> ''ok''"
abbreviation (input) "ConnDegraded \<equiv> ''degraded''"
abbreviation (input) "ConnBlockedAuth \<equiv> ''blocked_auth''"
abbreviation (input) "ConnError \<equiv> ''error''"
abbreviation (input) "ConnDisabled \<equiv> ''disabled''"

definition connectorStates :: "ConnectorState list" where
  "connectorStates = [ConnOK, ConnDegraded, ConnBlockedAuth, ConnError, ConnDisabled]"

definition ConnectorState_Valid :: "ConnectorState \<Rightarrow> bool" where
  "ConnectorState_Valid c \<longleftrightarrow> c \<in> set connectorStates"

text \<open>The badges are only ever derived, never decoded, so they are closed types.\<close>

datatype DisplayStatus = DisplayOK | DisplayWarn | DisplayCrit | DisplayDelayed | DisplayStale
  | DisplayAuth | DisplayNA | DisplayError

datatype LinkStatus = LinkLive | LinkOffline | LinkWait | LinkCrit

section \<open>Snapshot data\<close>

record ProviderMetric =
  pm_ID :: string
  pm_Provider :: string
  pm_AccountLabel :: string
  pm_DisplayName :: string
  pm_MetricKind :: MetricKind
  pm_Value :: "decimal option"
  pm_Limit :: "decimal option"
  pm_Unit :: string
  pm_Window :: Window
  pm_ResetsAt :: "instant option"
  pm_ObservedAt :: instant
  pm_Precision :: Precision
  pm_SourceKind :: SourceKind
  pm_Status :: MetricStatus
  pm_StaleAfter :: duration
  pm_ErrorClass :: ErrorClass
  pm_Derived :: "string list"
  pm_Message :: string
  pm_Order :: int
  pm_Group :: string

record ConnectorHealth =
  ch_ConnectorID :: string
  ch_Provider :: string
  ch_Enabled :: bool
  ch_State :: ConnectorState
  ch_LastAttemptAt :: "instant option"
  ch_LastSuccessAt :: "instant option"
  ch_NextAttemptAt :: "instant option"
  ch_ConsecutiveFailures :: int
  ch_ErrorClass :: ErrorClass
  ch_Message :: string

record HomeLabNode =
  hn_ID :: string
  hn_Name :: string
  hn_Online :: "bool option"
  hn_CPUPercent :: "int option"
  hn_MemoryPercent :: "int option"
  hn_DiskPercent :: "int option"
  hn_NetworkReceiveBPS :: "int option"
  hn_NetworkTransmitBPS :: "int option"
  hn_ObservedAt :: instant
  hn_StaleAfter :: duration
  hn_Status :: MetricStatus
  hn_ErrorClass :: ErrorClass
  hn_Message :: string
  hn_Order :: int

record HomeLabService =
  hs_ID :: string
  hs_Name :: string
  hs_Kind :: string
  hs_Version :: string
  hs_APIGeneration :: string
  hs_Healthy :: "bool option"
  hs_FiringAlerts :: "int option"
  hs_EnvironmentsTotal :: "int option"
  hs_EnvironmentsOnline :: "int option"
  hs_ContainersRunning :: "int option"
  hs_ContainersStopped :: "int option"
  hs_ContainersFailed :: "int option"
  hs_Stacks :: "int option"
  hs_ObservedAt :: instant
  hs_StaleAfter :: duration
  hs_Status :: MetricStatus
  hs_ErrorClass :: ErrorClass
  hs_Message :: string
  hs_Order :: int

record HomeLabReport =
  hr_Nodes :: "HomeLabNode list"
  hr_Services :: "HomeLabService list"

record MetricSnapshot =
  ms_SchemaVersion :: string
  ms_SourceEpoch :: string
  ms_SnapshotVersion :: u64
  ms_GeneratedAt :: instant
  ms_SourceNode :: string
  ms_SourceNodeLabel :: string
  ms_Metrics :: "ProviderMetric list"
  ms_ConnectorHealth :: "ConnectorHealth list"
  ms_HomeLabNodes :: "HomeLabNode list"
  ms_HomeLabServices :: "HomeLabService list"

definition SchemaVersion :: string where "SchemaVersion = ''1.1''"
definition SchemaMajor :: int where "SchemaMajor = 1"
definition MaxHomeLabNodes :: nat where "MaxHomeLabNodes = 100"
definition MaxHomeLabServices :: nat where "MaxHomeLabServices = 32"

section \<open>Amounts on the wire\<close>

definition Percent :: "ProviderMetric \<Rightarrow> int option" where
  "Percent m =
     (case (pm_Value m, pm_Limit m) of
        (Some v, Some l) \<Rightarrow> PercentOf v l
      | _ \<Rightarrow> None)"

text \<open>
  The text \<open>ProviderMetric.MarshalJSON\<close> writes for the value or limit: money is rescaled to two
  decimals, every other kind keeps the exact text.
\<close>

definition marshal_amount :: "MetricKind \<Rightarrow> decimal \<Rightarrow> string option" where
  "marshal_amount kind d =
     (if kind \<noteq> KindBalance \<and> kind \<noteq> KindCost then String d else Some (Rescale d 2))"

section \<open>Severity and badges\<close>

definition DefaultStaleAfter :: duration where
  "DefaultStaleAfter = 3 * minute"

record Thresholds =
  WarnPercentLeft :: int
  CritPercentLeft :: int
  WarnAmount :: "decimal option"
  CritAmount :: "decimal option"

definition DefaultThresholds :: Thresholds where
  "DefaultThresholds = \<lparr>WarnPercentLeft = 20, CritPercentLeft = 10, WarnAmount = None, CritAmount = None\<rparr>"

definition at_most_amount :: "decimal \<Rightarrow> decimal option \<Rightarrow> bool" where
  "at_most_amount v limit = (case limit of None \<Rightarrow> False | Some a \<Rightarrow> Cmp v a \<le> 0)"

definition Severity :: "Thresholds \<Rightarrow> ProviderMetric \<Rightarrow> MetricStatus" where
  "Severity t m =
     (if pm_MetricKind m = KindQuota then
        (case Percent m of
           None \<Rightarrow> StatusUnknown
         | Some pct \<Rightarrow>
             if CritPercentLeft t > 0 \<and> pct \<le> CritPercentLeft t then StatusCritical
             else if WarnPercentLeft t > 0 \<and> pct \<le> WarnPercentLeft t then StatusWarning
             else StatusOK)
      else if pm_MetricKind m = KindBalance then
        (case pm_Value m of
           None \<Rightarrow> StatusUnknown
         | Some v \<Rightarrow>
             if at_most_amount v (CritAmount t) then StatusCritical
             else if at_most_amount v (WarnAmount t) then StatusWarning
             else StatusOK)
      else if MetricStatus_Valid (pm_Status m) then pm_Status m
      else StatusUnknown)"

definition IsStale :: "ProviderMetric \<Rightarrow> instant \<Rightarrow> bool" where
  "IsStale m now =
     (let budget = (if pm_StaleAfter m \<le> 0 then DefaultStaleAfter else pm_StaleAfter m)
      in time_sub now (pm_ObservedAt m) > budget)"

definition badge_of_severity :: "MetricStatus \<Rightarrow> DisplayStatus" where
  "badge_of_severity s =
     (if s = StatusCritical then DisplayCrit
      else if s = StatusWarning then DisplayWarn
      else if s = StatusUnknown then DisplayNA
      else DisplayOK)"

definition DeriveDisplayStatus :: "ProviderMetric \<Rightarrow> Thresholds \<Rightarrow> instant \<Rightarrow> DisplayStatus" where
  "DeriveDisplayStatus m t now =
     (let ec = pm_ErrorClass m in
      if ec = ErrAuth then DisplayAuth
      else if ec = ErrUnsupported then DisplayNA
      else if ec = ErrSchemaChanged \<or> ec = ErrInvalidConfig \<or> ec = ErrUpstream then DisplayError
      else if ec = ErrRateLimited then DisplayDelayed
      else if pm_Precision m = PrecisionUnavailable then DisplayNA
      else if pm_Status m = StatusError then DisplayError
      else if ec = ErrTimeout \<or> ec = ErrNetwork \<or> IsStale m now then DisplayStale
      else
        let severity = Severity t m;
            severity' = (if Precision_Soft (pm_Precision m) \<and> severity = StatusCritical
                         then StatusWarning else severity)
        in badge_of_severity severity')"

fun Alerting :: "DisplayStatus \<Rightarrow> bool" where
  "Alerting DisplayWarn = True"
| "Alerting DisplayCrit = True"
| "Alerting DisplayAuth = True"
| "Alerting DisplayError = True"
| "Alerting _ = False"

definition DisplayStatus_Critical :: "DisplayStatus \<Rightarrow> bool" where
  "DisplayStatus_Critical d \<longleftrightarrow> d = DisplayCrit"

definition DeriveLinkStatus :: "bool \<Rightarrow> bool \<Rightarrow> bool \<Rightarrow> LinkStatus" where
  "DeriveLinkStatus hasSnapshot linked anyCritical =
     (if \<not> hasSnapshot then LinkWait
      else if \<not> linked then LinkOffline
      else if anyCritical then LinkCrit
      else LinkLive)"

section \<open>When a badge can be critical\<close>

definition live_reading :: "ProviderMetric \<Rightarrow> instant \<Rightarrow> bool" where
  "live_reading m now \<longleftrightarrow>
     pm_ErrorClass m \<notin> set [ErrAuth, ErrUnsupported, ErrSchemaChanged, ErrInvalidConfig, ErrUpstream,
       ErrRateLimited, ErrTimeout, ErrNetwork] \<and>
     pm_Precision m \<noteq> PrecisionUnavailable \<and> pm_Status m \<noteq> StatusError \<and> \<not> IsStale m now"

lemma badge_of_severity_iff [simp]:
  "badge_of_severity s = DisplayCrit \<longleftrightarrow> s = StatusCritical"
  "badge_of_severity s = DisplayWarn \<longleftrightarrow> s = StatusWarning"
  by (simp_all add: badge_of_severity_def)

lemma DeriveDisplayStatus_live:
  "live_reading m now \<Longrightarrow>
   DeriveDisplayStatus m t now =
     badge_of_severity (if Precision_Soft (pm_Precision m) \<and> Severity t m = StatusCritical
                        then StatusWarning else Severity t m)"
  by (simp add: DeriveDisplayStatus_def live_reading_def Let_def)

lemma DeriveDisplayStatus_not_live:
  "\<not> live_reading m now \<Longrightarrow>
   DeriveDisplayStatus m t now \<in> {DisplayAuth, DisplayNA, DisplayError, DisplayDelayed, DisplayStale}"
  by (auto simp: DeriveDisplayStatus_def live_reading_def Let_def)

lemma DeriveDisplayStatus_crit_iff:
  "DeriveDisplayStatus m t now = DisplayCrit \<longleftrightarrow>
     live_reading m now \<and> \<not> Precision_Soft (pm_Precision m) \<and> Severity t m = StatusCritical"
proof (cases "live_reading m now")
  case True
  then show ?thesis by (auto simp: DeriveDisplayStatus_live)
next
  case False
  then show ?thesis using DeriveDisplayStatus_not_live [of m now t] by auto
qed

section \<open>Severity grows as the amount left shrinks\<close>

definition severity_rank :: "MetricStatus \<Rightarrow> nat" where
  "severity_rank s = (if s = StatusCritical then 2 else if s = StatusWarning then 1 else 0)"

lemma round_half_away_floor: "0 < b \<Longrightarrow> round_half_away a b = (2 * a + b) div (2 * b)"
proof -
  assume b: "0 < b"
  have a: "2 * a + b = 2 * b * (a div b) + (2 * (a mod b) + b)"
    by (metis (no_types, lifting) add.assoc distrib_left mult.assoc mult_div_mod_eq)
  have "(2 * (a mod b) + b) div (2 * b) = (if b \<le> 2 * (a mod b) then 1 else 0)"
  proof (cases "b \<le> 2 * (a mod b)")
    case True
    moreover have "a mod b < b" using b by simp
    ultimately have "2 * b \<le> 2 * (a mod b) + b" "2 * (a mod b) + b < 2 * b + 2 * b" by linarith+
    then show ?thesis using True
      by (metis One_nat_def add.right_neutral div_nat_eqI mult.commute mult.right_neutral mult_Suc_right)
  next
    case False
    then show ?thesis by simp
  qed
  then show ?thesis
    unfolding a using b by (simp add: round_half_away_def)
qed

lemma round_half_away_mono: "0 < b \<Longrightarrow> a \<le> a' \<Longrightarrow> round_half_away a b \<le> round_half_away a' b"
  by (simp add: round_half_away_floor div_le_mono)

lemma round_quotient_mono: "0 < b \<Longrightarrow> a \<le> a' \<Longrightarrow> round_quotient a b \<le> round_quotient a' b"
  using round_half_away_mono [of "nat b" "nat \<bar>a\<bar>" "nat \<bar>a'\<bar>"]
    round_half_away_mono [of "nat b" "nat \<bar>a'\<bar>" "nat \<bar>a\<bar>"]
  by (auto simp: round_quotient_def signed_def)

lemma round_half_away_scale:
  assumes "0 < k" and "0 < b"
  shows "round_half_away (a * k) (b * k) = round_half_away a b"
proof -
  have "2 * (a * k) + b * k = (2 * a + b) * k" "2 * (b * k) = 2 * b * k"
    by (simp_all add: algebra_simps)
  with assms show ?thesis by (simp add: round_half_away_floor)
qed

lemma round_quotient_scale: "0 < k \<Longrightarrow> 0 < b \<Longrightarrow> round_quotient (a * k) (b * k) = round_quotient a b"
  using round_half_away_scale [of "nat k" "nat b" "nat \<bar>a\<bar>"]
  by (simp add: round_quotient_def abs_mult nat_mult_distrib mult_less_0_iff)

lemma round_quotient_ratio_mono:
  assumes "0 < b" "0 < b'" "of_int a / of_int b \<le> (of_int a' / of_int b' :: rat)"
  shows "round_quotient a b \<le> round_quotient a' b'"
proof -
  have "of_int (a * b') \<le> (of_int (a' * b) :: rat)"
    using assms by (simp add: field_simps)
  then have "a * b' \<le> a' * b" by (simp only: of_int_le_iff)
  then have "round_quotient (a * b') (b * b') \<le> round_quotient (a' * b) (b' * b)"
    using assms by (simp add: round_quotient_mono mult.commute)
  then show ?thesis
    using round_quotient_scale [of b' b a] round_quotient_scale [of b b' a'] assms by simp
qed

lemma PercentOf_mono:
  assumes "PercentOf d limit = Some p" "PercentOf d' limit = Some p'" "Rat d \<le> Rat d'"
  shows "p \<le> p'"
proof -
  from assms(1) have pos: "0 < unscaled limit" by (auto simp: PercentOf_eq Let_def split: if_splits)
  then have "0 < Rat limit" by (simp add: Rat_def)
  with assms(3) have "100 * Rat d / Rat limit \<le> 100 * Rat d' / Rat limit"
    by (simp add: divide_right_mono)
  with pos have "round_quotient (unscaled d * pow10 (scale limit) * 100) (unscaled limit * pow10 (scale d)) \<le>
      round_quotient (unscaled d' * pow10 (scale limit) * 100) (unscaled limit * pow10 (scale d'))"
    by (intro round_quotient_ratio_mono) (simp_all only: percent_ratio, simp_all)
  with assms(1,2) show ?thesis by (auto simp: PercentOf_eq Let_def split: if_splits)
qed

lemma at_most_amount_mono: "at_most_amount v a \<Longrightarrow> Rat v' \<le> Rat v \<Longrightarrow> at_most_amount v' a"
  by (auto simp: at_most_amount_def Cmp_le split: option.splits)

lemma rank_step: "severity_rank (if c then StatusCritical else if w then StatusWarning else StatusOK) =
    (if c then 2 else if w then 1 else 0)"
  by (simp add: severity_rank_def)

lemma Severity_quota_mono:
  assumes "pm_MetricKind m = KindQuota" "Percent m = Some p" "Percent (m\<lparr>pm_Value := Some v'\<rparr>) = Some p'"
    and "pm_Value m = Some v" "Rat v' \<le> Rat v"
  shows "severity_rank (Severity t m) \<le> severity_rank (Severity t (m\<lparr>pm_Value := Some v'\<rparr>))"
proof -
  obtain l where l: "pm_Limit m = Some l" "PercentOf v l = Some p" "PercentOf v' l = Some p'"
    using assms by (auto simp: Percent_def split: option.splits)
  then have "p' \<le> p" using PercentOf_mono assms(5) by blast
  then show ?thesis
    using assms(1-3) by (simp add: Severity_def rank_step)
qed

lemma Severity_balance_mono:
  assumes "pm_MetricKind m = KindBalance" "pm_Value m = Some v" "Rat v' \<le> Rat v"
  shows "severity_rank (Severity t m) \<le> severity_rank (Severity t (m\<lparr>pm_Value := Some v'\<rparr>))"
  using assms at_most_amount_mono [OF _ assms(3)] by (auto simp: Severity_def rank_step)

text \<open>
  A critical badge is never shown for an approximation or for old data: it appears exactly when
  no error class is recorded that hides the value, the reading is available, fresh and of a precise
  tier, and the numeric severity is critical.
\<close>

theorem critical_badge_only_when_confirmed:
  "DeriveDisplayStatus m t now = DisplayCrit \<longleftrightarrow>
     live_reading m now \<and> \<not> Precision_Soft (pm_Precision m) \<and> Severity t m = StatusCritical"
  by (rule DeriveDisplayStatus_crit_iff)

text \<open>
  Severity is monotone: with the same limit, thresholds and kind, a smaller amount left never
  lowers the severity of a balance, nor of a quota whose percentage is defined.
\<close>

theorem severity_monotone:
  assumes "pm_Value m = Some v" "Rat v' \<le> Rat v"
    and "pm_MetricKind m = KindBalance \<or> pm_MetricKind m = KindQuota \<and> Percent m \<noteq> None \<and>
         Percent (m\<lparr>pm_Value := Some v'\<rparr>) \<noteq> None"
  shows "severity_rank (Severity t m) \<le> severity_rank (Severity t (m\<lparr>pm_Value := Some v'\<rparr>))"
  using assms Severity_balance_mono [OF _ assms(1,2)] Severity_quota_mono [OF _ _ _ assms(1,2)]
  by auto

definition example_metric :: ProviderMetric where
  "example_metric =
     \<lparr>pm_ID = ''deepseek.balance'', pm_Provider = ''deepseek'', pm_AccountLabel = ''main'',
      pm_DisplayName = ''DeepSeek'', pm_MetricKind = KindBalance, pm_Value = Some (New 820 2),
      pm_Limit = None, pm_Unit = ''CNY'', pm_Window = ''prepaid'', pm_ResetsAt = None,
      pm_ObservedAt = 5 * second, pm_Precision = PrecisionExact, pm_SourceKind = ''official_api'',
      pm_Status = StatusOK, pm_StaleAfter = 0, pm_ErrorClass = ErrNone, pm_Derived = [],
      pm_Message = '''', pm_Order = 1, pm_Group = ''api''\<rparr>"

theorem severity_monotone_witness:
  "severity_rank (Severity (DefaultThresholds\<lparr>CritAmount := Some (New 1 0)\<rparr>) example_metric) \<le>
   severity_rank (Severity (DefaultThresholds\<lparr>CritAmount := Some (New 1 0)\<rparr>)
     (example_metric\<lparr>pm_Value := Some (New 90 2)\<rparr>))"
  by (rule severity_monotone [where v = "New 820 2"])
    (simp_all add: example_metric_def Rat_def New_def pow10_def)

text \<open>
  Amounts on the wire: money (balances and costs) is printed with exactly two decimals, within
  half a cent of the exact value; every other amount is printed so that it parses back unchanged.
\<close>

theorem wire_amounts:
  assumes "wf_decimal d"
  shows "if kind = KindBalance \<or> kind = KindCost
         then \<exists>m. marshal_amount kind d = Some (fixed_point (unscaled d < 0) (nat \<bar>m\<bar>) 2) \<and>
                  \<bar>of_int m - Rat d * 100\<bar> \<le> 1 / 2
         else \<exists>t. marshal_amount kind d = Some t \<and> Parse t = Inr d"
  using rescaled_nearest [of d 2] Parse_String [OF assms] Rescale_eq [of d 2]
  by (auto simp: marshal_amount_def)

theorem wire_amounts_witness:
  "if KindBalance = KindBalance \<or> KindBalance = KindCost
   then \<exists>m. marshal_amount KindBalance (New 8205 3) =
              Some (fixed_point (unscaled (New 8205 3) < 0) (nat \<bar>m\<bar>) 2) \<and>
            \<bar>of_int m - Rat (New 8205 3) * 100\<bar> \<le> 1 / 2
   else \<exists>t. marshal_amount KindBalance (New 8205 3) = Some t \<and> Parse t = Inr (New 8205 3)"
  by (rule wire_amounts) (simp add: wf_decimal_def New_def)

end
