(* ===== verification/EntityStore.thy ===== *)
theory EntityStore
  imports Prelude "HOL-Library.Product_Lexorder"
begin

text \<open>
  The shape four parts of the daemon state share: a Go map from an entity's identifier to the
  entity, read out as a list sorted by display order and identifier. The locale \<open>entity\<close> is the
  interface between the validators of the protocol and the stores that rely on them.
\<close>

definition wf_store :: "('a \<Rightarrow> string) \<Rightarrow> ('a \<Rightarrow> bool) \<Rightarrow> 'a gomap \<Rightarrow> bool" where
  "wf_store ident valid m \<longleftrightarrow> wf_map m \<and> (\<forall>(k, x)\<in>set m. ident x = k \<and> valid x)"

definition listing :: "('a \<Rightarrow> int) \<Rightarrow> ('a \<Rightarrow> string) \<Rightarrow> 'a gomap \<Rightarrow> 'a list" where
  "listing order ident m = sort_key (\<lambda>x. (order x, ident x)) (map snd m)"

section \<open>Entities with an owner\<close>

text \<open>
  HomeLab nodes and services are kept in two maps, the entity and the connector that owns it. The
  loops over them have the same form for both kinds: drop what the connector owned and no longer
  reports, store what it reports, annotate what it owns.
\<close>

definition count_owned :: "string \<Rightarrow> string gomap \<Rightarrow> nat" where
  "count_owned cid owners = length (filter (\<lambda>(k, owner). owner = cid) owners)"

text \<open>The first reported identifier that another connector owns.\<close>

definition foreign_owner :: "string \<Rightarrow> string gomap \<Rightarrow> string list \<Rightarrow> string option" where
  "foreign_owner cid owners ids =
     find (\<lambda>k. case mget owners k of None \<Rightarrow> False | Some owner \<Rightarrow> owner \<noteq> cid) ids"

fun drop_unreported ::
  "string \<Rightarrow> string list \<Rightarrow> string gomap \<Rightarrow> 'v gomap \<times> string gomap \<Rightarrow> 'v gomap \<times> string gomap" where
  "drop_unreported cid seen [] st = st"
| "drop_unreported cid seen ((k, owner) # rest) (vals, owners) =
     drop_unreported cid seen rest
       (if owner = cid \<and> k \<notin> set seen then (mdel k vals, mdel k owners) else (vals, owners))"

definition upsert_owned ::
  "('v \<Rightarrow> string) \<Rightarrow> ('v gomap \<Rightarrow> 'v \<Rightarrow> 'v) \<Rightarrow> string \<Rightarrow> 'v \<Rightarrow> 'v gomap \<times> string gomap \<Rightarrow>
   'v gomap \<times> string gomap" where
  "upsert_owned ident merge cid x st = (case st of (vals, owners) \<Rightarrow>
     (mput (ident x) (merge vals x) vals, mput (ident x) cid owners))"

text \<open>Reading a missing key of a Go map gives the zero value of the element type.\<close>

definition get_or :: "'v \<Rightarrow> 'v gomap \<Rightarrow> string \<Rightarrow> 'v" where
  "get_or zero m k = (case mget m k of None \<Rightarrow> zero | Some v \<Rightarrow> v)"

definition annotate_owned ::
  "'v \<Rightarrow> ('v \<Rightarrow> bool) \<Rightarrow> ('v \<Rightarrow> 'v) \<Rightarrow> string \<Rightarrow> string \<times> string \<Rightarrow> 'v gomap \<times> nat \<Rightarrow> 'v gomap \<times> nat" where
  "annotate_owned zero done_already upd cid entry st = (case (entry, st) of ((k, owner), (vals, changed)) \<Rightarrow>
     if owner \<noteq> cid then st
     else
       let v = get_or zero vals k in
       if done_already v then st
       else (mput k (upd v) vals, changed + 1))"

definition wf_owned :: "('a \<Rightarrow> string) \<Rightarrow> ('a \<Rightarrow> bool) \<Rightarrow> 'a gomap \<times> string gomap \<Rightarrow> bool" where
  "wf_owned ident valid st \<longleftrightarrow>
     wf_store ident valid (fst st) \<and> wf_map (snd st) \<and> mkeys (snd st) = mkeys (fst st)"

definition owned_keys :: "string \<Rightarrow> string gomap \<Rightarrow> string set" where
  "owned_keys cid owners = {k. mget owners k = Some cid}"

lemma filter_dropped_Cons:
  "filter (\<lambda>(j, _). \<not> ((j, cid) \<in> set ((k, owner) # xs) \<and> j \<notin> set seen)) m =
   filter (\<lambda>(j, _). \<not> ((j, cid) \<in> set xs \<and> j \<notin> set seen))
     (if owner = cid \<and> k \<notin> set seen then mdel k m else m)"
  by (auto simp: AList.delete_eq intro!: filter_cong)

lemma drop_unreported_filter:
  "drop_unreported cid seen xs (vals, owners) =
     (filter (\<lambda>(k, _). \<not> ((k, cid) \<in> set xs \<and> k \<notin> set seen)) vals,
      filter (\<lambda>(k, _). \<not> ((k, cid) \<in> set xs \<and> k \<notin> set seen)) owners)"
proof (induction xs arbitrary: vals owners)
  case (Cons e xs)
  obtain k owner where e: "e = (k, owner)" by (cases e)
  show ?case
    unfolding e filter_dropped_Cons using Cons.IH by (simp del: set_simps)
qed simp

lemma owned_keys_set: "wf_map owners \<Longrightarrow> (k, cid) \<in> set owners \<longleftrightarrow> k \<in> owned_keys cid owners"
  by (simp add: owned_keys_def mget_in_set)

lemma owned_keys_subset: "owned_keys cid owners \<subseteq> mkeys owners"
  by (auto simp: owned_keys_def dest: mget_Some_key)

lemma count_owned_card: "wf_map owners \<Longrightarrow> count_owned cid owners = card (owned_keys cid owners)"
proof -
  assume wf: "wf_map owners"
  let ?f = "filter (\<lambda>(k, owner). owner = cid) owners"
  have "mkeys ?f = owned_keys cid owners"
    using wf by (force simp: owned_keys_set [symmetric] mkeys_def)
  then show ?thesis
    using length_mkeys [of ?f] wf by (simp add: count_owned_def)
qed

lemma foreign_owner_None:
  "foreign_owner cid owners ids = None \<longleftrightarrow> (\<forall>k\<in>set ids. mget owners k \<noteq> None \<longrightarrow> mget owners k = Some cid)"
  by (auto simp: foreign_owner_def find_None_iff split: option.splits)

locale entity =
  fixes ident :: "'a \<Rightarrow> string" and order :: "'a \<Rightarrow> int"
    and validator :: "'a \<Rightarrow> 'e option" and valid :: "'a \<Rightarrow> bool"
  assumes validator_sound: "validator x = None \<longleftrightarrow> valid x"
    and ident_nonempty: "valid x \<Longrightarrow> ident x \<noteq> []"
begin

lemma wf_store_empty: "wf_store ident valid []"
  by (simp add: wf_store_def)

lemma wf_store_map: "wf_store ident valid m \<Longrightarrow> wf_map m"
  by (simp add: wf_store_def)

lemma wf_store_get:
  "wf_store ident valid m \<Longrightarrow> mget m k = Some x \<Longrightarrow> ident x = k \<and> valid x"
  by (auto simp: wf_store_def dest!: map_of_SomeD)

lemma wf_store_put:
  assumes "wf_store ident valid m" and "validator x = None"
  shows "wf_store ident valid (mput (ident x) x m)"
proof -
  have wf: "wf_map (mput (ident x) x m)" using assms by (simp add: wf_store_def)
  have "ident y = k \<and> valid y" if "(k, y) \<in> set (mput (ident x) x m)" for k y
  proof -
    from that wf have "mget (mput (ident x) x m) k = Some y" by (simp add: mget_in_set)
    then have "y = x \<and> k = ident x \<or> mget m k = Some y"
      by (auto simp: mget_put split: if_splits)
    then show ?thesis using assms wf_store_get validator_sound by blast
  qed
  with wf show ?thesis by (auto simp: wf_store_def)
qed

lemma wf_store_filter: "wf_store ident valid m \<Longrightarrow> wf_store ident valid (filter P m)"
  by (auto simp: wf_store_def)

lemma wf_store_del: "wf_store ident valid m \<Longrightarrow> wf_store ident valid (mdel k m)"
  by (simp add: AList.delete_eq wf_store_filter)

lemma wf_store_update:
  assumes "wf_store ident valid m"
    and "\<And>k x. (k, x) \<in> set m \<Longrightarrow> valid x \<Longrightarrow> ident (f k x) = ident x \<and> valid (f k x)"
  shows "wf_store ident valid (map (\<lambda>(k, x). (k, f k x)) m)"
  using assms by (auto simp: wf_store_def)

lemma distinct_idents: "wf_store ident valid m \<Longrightarrow> distinct (map ident (map snd m))"
proof -
  assume wf: "wf_store ident valid m"
  then have "map ident (map snd m) = map fst m" by (auto simp: wf_store_def)
  with wf show ?thesis by (simp only: wf_store_def wf_map_def)
qed

lemma no_empty_key: "wf_store ident valid m \<Longrightarrow> mget m [] = None"
  using ident_nonempty by (fastforce simp: wf_store_def map_of_eq_None_iff)

lemma set_listing: "set (listing order ident m) = snd ` set m"
  by (simp add: listing_def)

lemma length_listing: "length (listing order ident m) = length m"
  by (simp add: listing_def)

lemma sorted_listing: "sorted (map (\<lambda>x. (order x, ident x)) (listing order ident m))"
  by (simp add: listing_def)

lemma distinct_listing:
  assumes "wf_store ident valid m"
  shows "distinct (map ident (listing order ident m))"
proof -
  have "mset (map ident (listing order ident m)) = mset (map ident (map snd m))"
    by (simp only: mset_map listing_def mset_sort)
  then show ?thesis
    using distinct_idents [OF assms] by (metis mset_eq_imp_distinct_iff)
qed

lemma distinct_sort_keys:
  "wf_store ident valid m \<Longrightarrow> distinct (map (\<lambda>x. (order x, ident x)) (map snd m))"
  using distinct_idents [of m] by (auto simp: distinct_map inj_on_def)

text \<open>The listing depends on the lookups only, not on the order in which the map is ranged over.\<close>

lemma listing_order_independent:
  assumes "wf_store ident valid m" "wf_store ident valid m'" "map_of m = map_of m'"
  shows "listing order ident m = listing order ident m'"
proof -
  have "mset (map snd m) = mset (map snd m')"
    using mset_gomap_cong [OF wf_store_map [OF assms(1)] wf_store_map [OF assms(2)] assms(3)]
    by simp
  then show ?thesis
    unfolding listing_def using distinct_sort_keys [OF assms(1)] by (rule sort_key_unique)
qed

text \<open>Any list with the entries of the map, sorted by the key, is the listing.\<close>

lemma listing_unique:
  assumes "wf_store ident valid m" "mset ys = mset (map snd m)"
    and "sorted (map (\<lambda>x. (order x, ident x)) ys)"
  shows "ys = listing order ident m"
  unfolding listing_def using assms(2,3) distinct_sort_keys [OF assms(1)]
  by (rule sort_key_characterised)

lemma listing_valid: "wf_store ident valid m \<Longrightarrow> x \<in> set (listing order ident m) \<Longrightarrow> valid x"
  by (auto simp: set_listing wf_store_def)

lemma check_listing:
  "wf_store ident valid m \<Longrightarrow>
   check_entities validator ident wrap dup [] i (listing order ident m) = None"
  using distinct_listing [of m] listing_valid [of m]
  by (simp add: check_entities_None validator_sound)

lemma listing_lookup:
  "wf_store ident valid m \<Longrightarrow> x \<in> set (listing order ident m) \<longleftrightarrow> mget m (ident x) = Some x"
  by (force simp: set_listing wf_store_def mget_in_set)

end

context entity
begin

lemma wf_owned_drop:
  "wf_owned ident valid (vals, owners) \<Longrightarrow> wf_owned ident valid (drop_unreported cid seen xs (vals, owners))"
  by (simp add: wf_owned_def drop_unreported_filter wf_store_filter mkeys_filter_key)

lemma drop_keys:
  assumes "wf_owned ident valid (vals, owners)"
  shows "mkeys (fst (drop_unreported cid seen owners (vals, owners))) =
         mkeys vals - (owned_keys cid owners - set seen)"
  using assms
  by (auto simp: wf_owned_def drop_unreported_filter mkeys_filter_key owned_keys_set)

lemma drop_lookup:
  assumes "wf_owned ident valid (vals, owners)"
  shows "mget (fst (drop_unreported cid seen owners (vals, owners))) k =
         (if k \<in> owned_keys cid owners \<and> k \<notin> set seen then None else mget vals k)"
  using assms
  by (auto simp: wf_owned_def wf_store_def drop_unreported_filter mget_filter owned_keys_set
      split: option.splits)

lemma drop_owner_lookup:
  assumes "wf_owned ident valid (vals, owners)"
  shows "mget (snd (drop_unreported cid seen owners (vals, owners))) k =
         (if k \<in> owned_keys cid owners \<and> k \<notin> set seen then None else mget owners k)"
  using assms
  by (auto simp: wf_owned_def wf_store_def drop_unreported_filter mget_filter owned_keys_set
      split: option.splits)

lemma wf_owned_upsert:
  assumes "wf_owned ident valid st" "ident (merge (fst st) x) = ident x" "validator (merge (fst st) x) = None"
  shows "wf_owned ident valid (upsert_owned ident merge cid x st)"
  using assms wf_store_put [of "fst st" "merge (fst st) x"]
  by (cases st) (simp add: wf_owned_def upsert_owned_def mkeys_put)

lemma upsert_keys: "mkeys (fst (upsert_owned ident merge cid x st)) = insert (ident x) (mkeys (fst st))"
  by (cases st) (simp add: upsert_owned_def mkeys_put)

lemma wf_owned_upserts:
  assumes merge: "\<And>vals x. wf_store ident valid vals \<Longrightarrow> valid x \<Longrightarrow>
      ident (merge vals x) = ident x \<and> valid (merge vals x)"
  shows "wf_owned ident valid st \<Longrightarrow> \<forall>x\<in>set xs. valid x \<Longrightarrow>
    wf_owned ident valid (fold (upsert_owned ident merge cid) xs st) \<and>
    mkeys (fst (fold (upsert_owned ident merge cid) xs st)) = mkeys (fst st) \<union> ident ` set xs"
proof (induction xs arbitrary: st)
  case (Cons x xs)
  have "wf_store ident valid (fst st)" using Cons.prems(1) by (simp add: wf_owned_def)
  then have "wf_owned ident valid (upsert_owned ident merge cid x st)"
    using Cons.prems merge validator_sound by (intro wf_owned_upsert) auto
  with Cons show ?case by (auto simp: upsert_keys)
qed simp

lemma fold_upsert_owner:
  "mget (snd (fold (upsert_owned ident merge cid) xs st)) k =
     (if k \<in> ident ` set xs then Some cid else mget (snd st) k)"
  by (induction xs arbitrary: st) (auto simp: upsert_owned_def mget_put split: prod.splits)

lemma fold_upsert_other:
  "k \<notin> ident ` set xs \<Longrightarrow>
   mget (fst (fold (upsert_owned ident merge cid) xs st)) k = mget (fst st) k"
  by (induction xs arbitrary: st) (auto simp: upsert_owned_def mget_put split: prod.splits)

text \<open>
  With distinct reported identifiers every reported entity ends up as its merge with the entity
  stored before, provided the merge looks at nothing but that entity.
\<close>

lemma fold_upsert_reported:
  assumes merge_local: "\<And>vals vals' x. mget vals (ident x) = mget vals' (ident x) \<Longrightarrow>
      merge vals x = merge vals' x"
  shows "distinct (map ident xs) \<Longrightarrow> x \<in> set xs \<Longrightarrow>
    mget (fst (fold (upsert_owned ident merge cid) xs st)) (ident x) = Some (merge (fst st) x)"
proof (induction xs arbitrary: st)
  case (Cons y xs)
  show ?case
  proof (cases "x = y")
    case True
    with Cons.prems have "ident x \<notin> ident ` set xs" by auto
    then have "mget (fst (fold (upsert_owned ident merge cid) xs (upsert_owned ident merge cid y st)))
        (ident x) = mget (fst (upsert_owned ident merge cid y st)) (ident x)"
      by (rule fold_upsert_other)
    moreover have "mget (fst (upsert_owned ident merge cid y st)) (ident y) = Some (merge (fst st) y)"
      by (cases st) (simp add: upsert_owned_def mget_put)
    ultimately show ?thesis using True by simp
  next
    case False
    with Cons.prems have x: "x \<in> set xs" by simp
    then have "ident x \<in> ident ` set xs" by blast
    with Cons.prems have ne: "ident x \<noteq> ident y" by auto
    from ne have "mget (fst (upsert_owned ident merge cid y st)) (ident x) = mget (fst st) (ident x)"
      by (cases st) (simp add: upsert_owned_def mget_put)
    then have "merge (fst (upsert_owned ident merge cid y st)) x = merge (fst st) x"
      by (rule merge_local)
    with Cons.IH [OF _ x] Cons.prems show ?thesis by simp
  qed
qed simp

lemma replaced_keys_bound:
  assumes wf: "wf_owned ident valid (vals, owners)"
    and foreign: "foreign_owner cid owners (map ident xs) = None"
    and dist: "distinct (map ident xs)"
    and bound: "int (length vals) - int (count_owned cid owners) + int (length xs) \<le> int n"
  shows "card (mkeys vals - (owned_keys cid owners - ident ` set xs) \<union> ident ` set xs) \<le> n"
proof -
  let ?K = "mkeys vals" and ?O = "owned_keys cid owners" and ?R = "ident ` set xs"
  have own: "?O \<subseteq> ?K" "mkeys owners = ?K"
    using wf owned_keys_subset [of cid owners] by (simp_all add: wf_owned_def)
  have "?R \<inter> ?K \<subseteq> ?O"
    using foreign own by (auto simp: foreign_owner_None owned_keys_def mget_None)
  then have split: "?K - (?O - ?R) \<union> ?R = (?K - ?O) \<union> ?R" by auto
  have R: "card ?R = length xs" using dist by (metis distinct_card length_map list.set_map)
  have K: "card ?K = length vals" using wf by (simp add: wf_owned_def wf_store_def length_mkeys)
  have O: "card ?O = count_owned cid owners" using wf by (simp add: wf_owned_def count_owned_card)
  have fin: "finite ?K" by simp
  then have le: "card ?O \<le> card ?K" using own(1) by (rule card_mono)
  have "card (?K - ?O) = card ?K - card ?O"
    using own(1) fin by (simp add: card_Diff_subset finite_subset)
  with card_Un_le [of "?K - ?O" ?R] le bound show ?thesis
    unfolding split using R K O by linarith
qed

text \<open>Annotating every owned entity is one map over the store.\<close>

lemma annotate_step_lookup:
  "mget (fst (annotate_owned zero skip upd cid (k, owner) (vals, n))) j =
     (if owner = cid \<and> j = k \<and> \<not> skip (get_or zero vals k) then Some (upd (get_or zero vals k))
      else mget vals j)"
  by (simp add: annotate_owned_def Let_def mget_put)

lemma wf_store_annotate:
  assumes upd: "\<And>x. valid x \<Longrightarrow> valid (upd x) \<and> ident (upd x) = ident x"
  shows "wf_store ident valid vals \<Longrightarrow> mkeys entries \<subseteq> mkeys vals \<Longrightarrow>
    wf_store ident valid (fst (fold (annotate_owned zero skip upd cid) entries (vals, n))) \<and>
    mkeys (fst (fold (annotate_owned zero skip upd cid) entries (vals, n))) = mkeys vals"
proof (induction entries arbitrary: vals n)
  case (Cons e es)
  obtain k owner where e: "e = (k, owner)" by (cases e)
  obtain vals' n' where st: "annotate_owned zero skip upd cid e (vals, n) = (vals', n')"
    by (cases "annotate_owned zero skip upd cid e (vals, n)")
  obtain x where x: "mget vals k = Some x"
    using Cons.prems(2) key_mget_Some [of k vals] by (auto simp: e mkeys_def)
  have vx: "valid x" "ident x = k" using wf_store_get [OF Cons.prems(1) x] by simp_all
  have "wf_store ident valid vals'" "mkeys vals' = mkeys vals"
    using st wf_store_put [OF Cons.prems(1), of "upd x"] upd [OF vx(1)] vx(2) Cons.prems x
      mget_Some_key [OF x]
    by (auto simp: e annotate_owned_def get_or_def Let_def validator_sound mkeys_put split: if_splits)
  moreover have "mkeys es \<subseteq> mkeys vals" using Cons.prems(2) by (auto simp: mkeys_def)
  ultimately show ?case using Cons.IH st by simp
qed simp

lemma annotate_count_zero:
  "snd (fold (annotate_owned zero skip upd cid) entries (vals, n)) = n \<Longrightarrow>
   fst (fold (annotate_owned zero skip upd cid) entries (vals, n)) = vals"
  and annotate_count_mono:
  "n \<le> snd (fold (annotate_owned zero skip upd cid) entries (vals, n))"
proof (induction entries arbitrary: vals n)
  case (Cons e es)
  {
    case 1
    obtain vals' n' where st: "annotate_owned zero skip upd cid e (vals, n) = (vals', n')"
      by (cases "annotate_owned zero skip upd cid e (vals, n)")
    then have cases: "vals' = vals \<and> n' = n \<or> n' = n + 1"
      by (cases e) (auto simp: annotate_owned_def Let_def split: if_splits)
    have "n' \<le> snd (fold (annotate_owned zero skip upd cid) es (vals', n'))" by (rule Cons.IH(2))
    with 1 st cases have "vals' = vals" "n' = n" by auto
    with 1 st Cons.IH(1) show ?case by simp
  next
    case 2
    obtain vals' n' where st: "annotate_owned zero skip upd cid e (vals, n) = (vals', n')"
      by (cases "annotate_owned zero skip upd cid e (vals, n)")
    then have "n \<le> n'" by (cases e) (auto simp: annotate_owned_def Let_def split: if_splits)
    with Cons.IH(2) [of n' vals'] st show ?case by simp
  }
qed simp_all

end

section \<open>Annotation as one map over the store\<close>

lemma fold_annotate_lookup:
  "wf_map entries \<Longrightarrow>
   mget (fst (fold (annotate_owned zero skip upd cid) entries (vals, n))) k =
     (if mget entries k = Some cid \<and> \<not> skip (get_or zero vals k) then Some (upd (get_or zero vals k))
      else mget vals k)"
proof (induction entries arbitrary: vals n)
  case (Cons e es)
  obtain j owner where e: "e = (j, owner)" by (cases e)
  obtain vals' n' where st: "annotate_owned zero skip upd cid e (vals, n) = (vals', n')"
    by (cases "annotate_owned zero skip upd cid e (vals, n)")
  have look: "mget vals' i = (if owner = cid \<and> i = j \<and> \<not> skip (get_or zero vals j)
      then Some (upd (get_or zero vals j)) else mget vals i)" for i
    using st by (auto simp: e annotate_owned_def Let_def mget_put split: if_splits)
  have j: "mget es j = None" and es: "wf_map es"
    using Cons.prems by (auto simp: e wf_map_def map_of_eq_None_iff)
  show ?case
  proof (cases "k = j")
    case True
    with Cons.IH [OF es] st j look show ?thesis by (auto simp: e)
  next
    case False
    then have "get_or zero vals' k = get_or zero vals k" by (simp add: get_or_def look)
    with Cons.IH [OF es] st look False show ?thesis by (auto simp: e)
  qed
qed simp

lemma fold_annotate_owned:
  assumes "wf_map entries" "mkeys entries \<subseteq> mkeys vals" "\<And>v. skip v \<Longrightarrow> upd v = v"
  shows "mget (fst (fold (annotate_owned zero skip upd cid) entries (vals, n))) k =
     (if mget entries k = Some cid then map_option upd (mget vals k) else mget vals k)"
proof (cases "mget entries k = Some cid")
  case True
  then obtain v where "mget vals k = Some v"
    using assms(2) key_mget_Some [of k vals] mget_Some_key [of entries k] by blast
  with True assms show ?thesis by (auto simp: fold_annotate_lookup get_or_def)
qed (simp add: fold_annotate_lookup assms(1))

end
