(* ===== verification/Validate.thy ===== *)
theory Validate
  imports Protocol EntityStore
begin

text \<open>
  Structural validation of everything that crosses the wire (\<open>internal/protocol/validate.go\<close> and the
  \<open>Validate\<close> methods of \<open>homelab.go\<close>), the binding of a display to one node, and the rule that
  decides whether a snapshot replaces another.
\<close>

section \<open>Errors\<close>

datatype validation_error =
    EEmpty string                    \<comment> \<open>must not be empty\<close>
  | ETooLong string nat              \<comment> \<open>longer than n characters\<close>
  | EDisallowed string char          \<comment> \<open>contains disallowed character\<close>
  | EControl string char             \<comment> \<open>contains control character\<close>
  | EEnum string string              \<comment> \<open>unknown value\<close>
  | ENotSet string                   \<comment> \<open>must be set\<close>
  | ENegative string                 \<comment> \<open>must not be negative\<close>
  | EPercent string                  \<comment> \<open>must be 0..100\<close>
  | EExceedsTotal                    \<comment> \<open>environments_online exceeds environments_total\<close>
  | ESchemaText string               \<comment> \<open>not major.minor\<close>
  | ESchemaMajor int                 \<comment> \<open>\<open>ErrSchemaMajor\<close>\<close>
  | EAt string nat validation_error  \<comment> \<open>wrapped with the list and the index\<close>
  | EDuplicate string nat string     \<comment> \<open>duplicate id\<close>
  | ETooMany string nat nat          \<comment> \<open>more entries than the bound\<close>
  | ENil                             \<comment> \<open>nil snapshot\<close>
  | ENoBinding                       \<comment> \<open>no node configured\<close>
  | EWrongSource string string       \<comment> \<open>\<open>ErrWrongSource\<close>\<close>
  | EVersionRegressed u64 u64 string \<comment> \<open>\<open>ErrVersionRegressed\<close>\<close>

section \<open>Identifiers and text\<close>

definition validID :: "string \<Rightarrow> string \<Rightarrow> validation_error option" where
  "validID field v =
     (if v = [] then Some (EEmpty field)
      else if length v > 64 then Some (ETooLong field 64)
      else map_option (EDisallowed field) (find (\<lambda>c. \<not> is_ident_char c) v))"

definition safeText :: "string \<Rightarrow> string \<Rightarrow> nat \<Rightarrow> validation_error option" where
  "safeText field v maxLen =
     (if length v > maxLen then Some (ETooLong field maxLen)
      else map_option (EControl field) (find is_control v))"

definition CheckSchema :: "string \<Rightarrow> validation_error option" where
  "CheckSchema version =
     (if version = [] then Some (EEmpty ''schema_version'')
      else case cut CHR ''.'' version of (majorText, _, _) \<Rightarrow>
        case atoi majorText of
          None \<Rightarrow> Some (ESchemaText version)
        | Some major \<Rightarrow> if major \<noteq> SchemaMajor then Some (ESchemaMajor major) else None)"

definition ident_ok :: "string \<Rightarrow> bool" where
  "ident_ok v \<longleftrightarrow> v \<noteq> [] \<and> length v \<le> 64 \<and> (\<forall>c\<in>set v. is_ident_char c)"

definition text_ok :: "string \<Rightarrow> nat \<Rightarrow> bool" where
  "text_ok v n \<longleftrightarrow> length v \<le> n \<and> (\<forall>c\<in>set v. \<not> is_control c)"

lemma validID_None [err_simps]: "validID field v = None \<longleftrightarrow> ident_ok v"
  by (auto simp: validID_def ident_ok_def find_None_iff)

lemma safeText_None [err_simps]: "safeText field v n = None \<longleftrightarrow> text_ok v n"
  by (auto simp: safeText_def text_ok_def find_None_iff)

lemma ident_ok_text_ok: "ident_ok v \<Longrightarrow> text_ok v 64"
  by (auto simp: ident_ok_def text_ok_def dest: ident_char_printable printable_not_control)

section \<open>Metrics, health, HomeLab entities\<close>

definition ProviderMetric_Validate :: "ProviderMetric \<Rightarrow> validation_error option" where
  "ProviderMetric_Validate m = first_err
     [validID ''id'' (pm_ID m),
      validID ''provider'' (pm_Provider m),
      safeText ''account_label'' (pm_AccountLabel m) 64,
      safeText ''display_name'' (pm_DisplayName m) 64,
      safeText ''unit'' (pm_Unit m) 16,
      safeText ''message'' (pm_Message m) 160,
      err_if (\<not> MetricKind_Valid (pm_MetricKind m)) (EEnum ''metric_kind'' (pm_MetricKind m)),
      err_if (\<not> Window_Valid (pm_Window m)) (EEnum ''window'' (pm_Window m)),
      err_if (\<not> Precision_Valid (pm_Precision m)) (EEnum ''precision'' (pm_Precision m)),
      err_if (\<not> SourceKind_Valid (pm_SourceKind m)) (EEnum ''source_kind'' (pm_SourceKind m)),
      err_if (\<not> MetricStatus_Valid (pm_Status m)) (EEnum ''status'' (pm_Status m)),
      err_if (pm_ErrorClass m \<noteq> ErrNone \<and> \<not> ErrorClass_Valid (pm_ErrorClass m))
        (EEnum ''error_class'' (pm_ErrorClass m)),
      err_if (is_zero_time (pm_ObservedAt m)) (ENotSet ''observed_at''),
      err_if (pm_Unit m = []) (EEmpty ''unit'')]"

definition ConnectorHealth_Validate :: "ConnectorHealth \<Rightarrow> validation_error option" where
  "ConnectorHealth_Validate c = first_err
     [validID ''connector_id'' (ch_ConnectorID c),
      validID ''provider'' (ch_Provider c),
      err_if (\<not> ConnectorState_Valid (ch_State c)) (EEnum ''state'' (ch_State c)),
      err_if (ch_ErrorClass c \<noteq> ErrNone \<and> \<not> ErrorClass_Valid (ch_ErrorClass c))
        (EEnum ''error_class'' (ch_ErrorClass c)),
      safeText ''message'' (ch_Message c) 160,
      err_if (ch_ConsecutiveFailures c < 0) (ENegative ''consecutive_failures'')]"

text \<open>
  The checks on optional counters. Go ranges over a map literal, so which of several bad fields is
  named is open there; the list order below is one such order.
\<close>

definition bad_percent :: "int option \<Rightarrow> bool" where
  "bad_percent v = (case v of None \<Rightarrow> False | Some x \<Rightarrow> x < 0 \<or> x > 100)"

definition bad_count :: "int option \<Rightarrow> bool" where
  "bad_count v = (case v of None \<Rightarrow> False | Some x \<Rightarrow> x < 0)"

definition exceeds :: "int option \<Rightarrow> int option \<Rightarrow> bool" where
  "exceeds a b = (case (a, b) of (Some x, Some y) \<Rightarrow> x > y | _ \<Rightarrow> False)"

definition HomeLabNode_Validate :: "HomeLabNode \<Rightarrow> validation_error option" where
  "HomeLabNode_Validate n = first_err
     [validID ''id'' (hn_ID n),
      safeText ''name'' (hn_Name n) 64,
      err_if (hn_Name n = []) (EEmpty ''name''),
      err_if (bad_percent (hn_CPUPercent n)) (EPercent ''cpu_percent''),
      err_if (bad_percent (hn_MemoryPercent n)) (EPercent ''memory_percent''),
      err_if (bad_percent (hn_DiskPercent n)) (EPercent ''disk_percent''),
      err_if (bad_count (hn_NetworkReceiveBPS n)) (ENegative ''network_receive_bps''),
      err_if (bad_count (hn_NetworkTransmitBPS n)) (ENegative ''network_transmit_bps''),
      err_if (is_zero_time (hn_ObservedAt n)) (ENotSet ''observed_at''),
      err_if (hn_StaleAfter n < 0) (ENegative ''stale_after''),
      err_if (\<not> MetricStatus_Valid (hn_Status n)) (EEnum ''status'' (hn_Status n)),
      err_if (hn_ErrorClass n \<noteq> ErrNone \<and> \<not> ErrorClass_Valid (hn_ErrorClass n))
        (EEnum ''error_class'' (hn_ErrorClass n)),
      safeText ''message'' (hn_Message n) 160]"

definition service_counts :: "HomeLabService \<Rightarrow> (string \<times> int option) list" where
  "service_counts s =
     [(''firing_alerts'', hs_FiringAlerts s),
      (''environments_total'', hs_EnvironmentsTotal s),
      (''environments_online'', hs_EnvironmentsOnline s),
      (''containers_running'', hs_ContainersRunning s),
      (''containers_stopped'', hs_ContainersStopped s),
      (''containers_failed'', hs_ContainersFailed s),
      (''stacks'', hs_Stacks s)]"

definition HomeLabService_Validate :: "HomeLabService \<Rightarrow> validation_error option" where
  "HomeLabService_Validate s = first_err
     ([validID ''id'' (hs_ID s),
       safeText ''name'' (hs_Name s) 64,
       err_if (hs_Name s = []) (EEmpty ''name''),
       validID ''kind'' (hs_Kind s),
       safeText ''version'' (hs_Version s) 64,
       safeText ''api_generation'' (hs_APIGeneration s) 32] @
      map (\<lambda>(field, v). err_if (bad_count v) (ENegative field)) (service_counts s) @
      [err_if (exceeds (hs_EnvironmentsOnline s) (hs_EnvironmentsTotal s)) EExceedsTotal,
       err_if (is_zero_time (hs_ObservedAt s)) (ENotSet ''observed_at''),
       err_if (hs_StaleAfter s < 0) (ENegative ''stale_after''),
       err_if (\<not> MetricStatus_Valid (hs_Status s)) (EEnum ''status'' (hs_Status s)),
       err_if (hs_ErrorClass s \<noteq> ErrNone \<and> \<not> ErrorClass_Valid (hs_ErrorClass s))
         (EEnum ''error_class'' (hs_ErrorClass s)),
       safeText ''message'' (hs_Message s) 160])"

section \<open>Snapshots\<close>

fun check_all :: "('a \<Rightarrow> 'e option) \<Rightarrow> (nat \<Rightarrow> 'e \<Rightarrow> 'f) \<Rightarrow> nat \<Rightarrow> 'a list \<Rightarrow> 'f option" where
  "check_all val wrap i [] = None"
| "check_all val wrap i (x # xs) =
     (case val x of Some e \<Rightarrow> Some (wrap i e) | None \<Rightarrow> check_all val wrap (Suc i) xs)"

lemma check_all_None [err_simps]: "check_all val wrap i xs = None \<longleftrightarrow> (\<forall>x\<in>set xs. val x = None)"
  by (induction xs arbitrary: i) (auto split: option.splits)

definition MetricSnapshot_Validate :: "MetricSnapshot option \<Rightarrow> validation_error option" where
  "MetricSnapshot_Validate snap =
     (case snap of
        None \<Rightarrow> Some ENil
      | Some s \<Rightarrow> first_err
          [CheckSchema (ms_SchemaVersion s),
           validID ''source_epoch'' (ms_SourceEpoch s),
           validID ''source_node'' (ms_SourceNode s),
           safeText ''source_node_label'' (ms_SourceNodeLabel s) 64,
           err_if (is_zero_time (ms_GeneratedAt s)) (ENotSet ''generated_at''),
           check_entities ProviderMetric_Validate pm_ID (EAt ''metrics'') (EDuplicate ''metrics'') [] 0
             (ms_Metrics s),
           check_all ConnectorHealth_Validate (EAt ''connector_health'') 0 (ms_ConnectorHealth s),
           err_if (length (ms_HomeLabNodes s) > MaxHomeLabNodes)
             (ETooMany ''homelab_nodes'' (length (ms_HomeLabNodes s)) MaxHomeLabNodes),
           check_entities HomeLabNode_Validate hn_ID (EAt ''homelab_nodes'') (EDuplicate ''homelab_nodes'')
             [] 0 (ms_HomeLabNodes s),
           err_if (length (ms_HomeLabServices s) > MaxHomeLabServices)
             (ETooMany ''homelab_services'' (length (ms_HomeLabServices s)) MaxHomeLabServices),
           check_entities HomeLabService_Validate hs_ID (EAt ''homelab_services'')
             (EDuplicate ''homelab_services'') [] 0 (ms_HomeLabServices s)])"

section \<open>Source binding and replacement\<close>

record SourceBinding =
  sb_NodeID :: string

definition Accept :: "SourceBinding \<Rightarrow> MetricSnapshot option \<Rightarrow> validation_error option" where
  "Accept b snap =
     (if sb_NodeID b = [] then Some ENoBinding
      else case snap of
        None \<Rightarrow> Some ENil
      | Some s \<Rightarrow>
          if ms_SourceNode s \<noteq> sb_NodeID b then Some (EWrongSource (ms_SourceNode s) (sb_NodeID b))
          else None)"

text \<open>\<open>Supersedes\<close>: the Boolean, or the error that goes with \<open>false\<close>.\<close>

definition Supersedes ::
  "MetricSnapshot option \<Rightarrow> MetricSnapshot option \<Rightarrow> validation_error + bool" where
  "Supersedes prev next =
     (case next of
        None \<Rightarrow> Inl ENil
      | Some n \<Rightarrow>
          (case prev of
             None \<Rightarrow> Inr True
           | Some p \<Rightarrow>
               if ms_SourceEpoch p \<noteq> ms_SourceEpoch n then Inr True
               else if ms_SnapshotVersion n > ms_SnapshotVersion p then Inr True
               else Inl (EVersionRegressed (ms_SnapshotVersion n) (ms_SnapshotVersion p)
                          (ms_SourceEpoch p))))"

definition Age :: "MetricSnapshot \<Rightarrow> instant \<Rightarrow> duration" where
  "Age s now = time_sub now (ms_GeneratedAt s)"

section \<open>What the validators accept\<close>

text \<open>The well-formedness of each record, stated once and independently of the order of the checks.\<close>

definition error_class_ok :: "ErrorClass \<Rightarrow> bool" where
  "error_class_ok c \<longleftrightarrow> c \<in> set errorClasses"

lemma error_class_check [err_simps]: "(c \<noteq> ErrNone \<and> \<not> ErrorClass_Valid c) \<longleftrightarrow> \<not> error_class_ok c"
  by (auto simp: error_class_ok_def ErrorClass_Valid_def errorClasses_def)

definition metric_ok :: "ProviderMetric \<Rightarrow> bool" where
  "metric_ok m \<longleftrightarrow>
     ident_ok (pm_ID m) \<and> ident_ok (pm_Provider m) \<and>
     text_ok (pm_AccountLabel m) 64 \<and> text_ok (pm_DisplayName m) 64 \<and>
     text_ok (pm_Unit m) 16 \<and> pm_Unit m \<noteq> [] \<and> text_ok (pm_Message m) 160 \<and>
     pm_MetricKind m \<in> set metricKinds \<and> pm_Window m \<in> set windows \<and>
     pm_Precision m \<in> set precisions \<and> pm_SourceKind m \<in> set sourceKinds \<and>
     pm_Status m \<in> set metricStatuses \<and> error_class_ok (pm_ErrorClass m) \<and> pm_ObservedAt m \<noteq> 0"

definition health_ok :: "ConnectorHealth \<Rightarrow> bool" where
  "health_ok c \<longleftrightarrow>
     ident_ok (ch_ConnectorID c) \<and> ident_ok (ch_Provider c) \<and> ch_State c \<in> set connectorStates \<and>
     error_class_ok (ch_ErrorClass c) \<and> text_ok (ch_Message c) 160 \<and> 0 \<le> ch_ConsecutiveFailures c"

definition in_range :: "int \<Rightarrow> int option \<Rightarrow> bool" where
  "in_range hi v \<longleftrightarrow> (\<forall>x. v = Some x \<longrightarrow> 0 \<le> x \<and> x \<le> hi)"

definition nonneg :: "int option \<Rightarrow> bool" where
  "nonneg v \<longleftrightarrow> (\<forall>x. v = Some x \<longrightarrow> 0 \<le> x)"

definition node_ok :: "HomeLabNode \<Rightarrow> bool" where
  "node_ok n \<longleftrightarrow>
     ident_ok (hn_ID n) \<and> text_ok (hn_Name n) 64 \<and> hn_Name n \<noteq> [] \<and>
     in_range 100 (hn_CPUPercent n) \<and> in_range 100 (hn_MemoryPercent n) \<and> in_range 100 (hn_DiskPercent n) \<and>
     nonneg (hn_NetworkReceiveBPS n) \<and> nonneg (hn_NetworkTransmitBPS n) \<and>
     hn_ObservedAt n \<noteq> 0 \<and> 0 \<le> hn_StaleAfter n \<and> hn_Status n \<in> set metricStatuses \<and>
     error_class_ok (hn_ErrorClass n) \<and> text_ok (hn_Message n) 160"

definition service_ok :: "HomeLabService \<Rightarrow> bool" where
  "service_ok s \<longleftrightarrow>
     ident_ok (hs_ID s) \<and> text_ok (hs_Name s) 64 \<and> hs_Name s \<noteq> [] \<and> ident_ok (hs_Kind s) \<and>
     text_ok (hs_Version s) 64 \<and> text_ok (hs_APIGeneration s) 32 \<and>
     (\<forall>c\<in>set (service_counts s). nonneg (snd c)) \<and>
     (\<forall>on total. hs_EnvironmentsOnline s = Some on \<longrightarrow> hs_EnvironmentsTotal s = Some total \<longrightarrow> on \<le> total) \<and>
     hs_ObservedAt s \<noteq> 0 \<and> 0 \<le> hs_StaleAfter s \<and> hs_Status s \<in> set metricStatuses \<and>
     error_class_ok (hs_ErrorClass s) \<and> text_ok (hs_Message s) 160"

lemma bad_percent_iff: "\<not> bad_percent v \<longleftrightarrow> in_range 100 v"
  by (auto simp: bad_percent_def in_range_def split: option.splits)

lemma bad_count_iff: "\<not> bad_count v \<longleftrightarrow> nonneg v"
  by (auto simp: bad_count_def nonneg_def split: option.splits)

lemma exceeds_iff: "\<not> exceeds a b \<longleftrightarrow> (\<forall>x y. a = Some x \<longrightarrow> b = Some y \<longrightarrow> x \<le> y)"
  by (auto simp: exceeds_def split: option.splits)

lemma first_err_append [err_simps]:
  "first_err (es @ fs) = None \<longleftrightarrow> first_err es = None \<and> first_err fs = None"
  by (auto simp: first_err_None)

lemma first_err_map [err_simps]:
  "first_err (map f xs) = None \<longleftrightarrow> (\<forall>x\<in>set xs. f x = None)"
  by (auto simp: first_err_None)

lemmas valid_simps = err_simps MetricKind_Valid_def Window_Valid_def Precision_Valid_def
  SourceKind_Valid_def MetricStatus_Valid_def ConnectorState_Valid_def is_zero_time_def
  bad_percent_iff bad_count_iff exceeds_iff not_less

lemma ProviderMetric_Validate_iff: "ProviderMetric_Validate m = None \<longleftrightarrow> metric_ok m"
  by (auto simp: ProviderMetric_Validate_def metric_ok_def valid_simps)

lemma ConnectorHealth_Validate_iff: "ConnectorHealth_Validate c = None \<longleftrightarrow> health_ok c"
  by (auto simp: ConnectorHealth_Validate_def health_ok_def valid_simps)

lemma HomeLabNode_Validate_iff: "HomeLabNode_Validate n = None \<longleftrightarrow> node_ok n"
  by (auto simp: HomeLabNode_Validate_def node_ok_def valid_simps)

lemma HomeLabService_Validate_iff: "HomeLabService_Validate s = None \<longleftrightarrow> service_ok s"
  by (auto simp: HomeLabService_Validate_def service_ok_def valid_simps case_prod_beta)

section \<open>The entity interface holds for the four kinds of record\<close>

interpretation metric: entity pm_ID pm_Order ProviderMetric_Validate metric_ok
  by unfold_locales (auto simp: ProviderMetric_Validate_iff metric_ok_def ident_ok_def)

interpretation health: entity ch_ConnectorID "\<lambda>_. 0" ConnectorHealth_Validate health_ok
  by unfold_locales (auto simp: ConnectorHealth_Validate_iff health_ok_def ident_ok_def)

interpretation node: entity hn_ID hn_Order HomeLabNode_Validate node_ok
  by unfold_locales (auto simp: HomeLabNode_Validate_iff node_ok_def ident_ok_def)

interpretation service: entity hs_ID hs_Order HomeLabService_Validate service_ok
  by unfold_locales (auto simp: HomeLabService_Validate_iff service_ok_def ident_ok_def)

section \<open>Valid snapshots\<close>

definition schema_ok :: "string \<Rightarrow> bool" where
  "schema_ok v \<longleftrightarrow> atoi (fst (cut CHR ''.'' v)) = Some SchemaMajor"

lemma CheckSchema_None: "CheckSchema v = None \<longleftrightarrow> schema_ok v"
proof (cases "v = []")
  case True
  have "atoi [] = None" by (simp add: atoi_def)
  with True show ?thesis by (simp add: CheckSchema_def schema_ok_def)
next
  case False
  obtain b a f where "cut CHR ''.'' v = (b, a, f)" by (cases "cut CHR ''.'' v") auto
  with False show ?thesis
    by (cases "atoi b") (simp_all add: CheckSchema_def schema_ok_def)
qed

definition snapshot_ok :: "MetricSnapshot \<Rightarrow> bool" where
  "snapshot_ok s \<longleftrightarrow>
     schema_ok (ms_SchemaVersion s) \<and> ident_ok (ms_SourceEpoch s) \<and> ident_ok (ms_SourceNode s) \<and>
     text_ok (ms_SourceNodeLabel s) 64 \<and> ms_GeneratedAt s \<noteq> 0 \<and>
     (\<forall>m\<in>set (ms_Metrics s). metric_ok m) \<and> distinct (map pm_ID (ms_Metrics s)) \<and>
     (\<forall>c\<in>set (ms_ConnectorHealth s). health_ok c) \<and>
     length (ms_HomeLabNodes s) \<le> MaxHomeLabNodes \<and>
     (\<forall>n\<in>set (ms_HomeLabNodes s). node_ok n) \<and> distinct (map hn_ID (ms_HomeLabNodes s)) \<and>
     length (ms_HomeLabServices s) \<le> MaxHomeLabServices \<and>
     (\<forall>v\<in>set (ms_HomeLabServices s). service_ok v) \<and> distinct (map hs_ID (ms_HomeLabServices s))"

lemma MetricSnapshot_Validate_iff: "MetricSnapshot_Validate (Some s) = None \<longleftrightarrow> snapshot_ok s"
  by (auto simp: MetricSnapshot_Validate_def snapshot_ok_def valid_simps CheckSchema_None
      metric.validator_sound health.validator_sound node.validator_sound service.validator_sound)

end
