(* ===== verification/CurrentState.thy ===== *)
theory CurrentState
  imports Validate StepMachine
begin

text \<open>
  \<open>internal/state/current.go\<close>: the daemon's single source of truth. Every operation of \<open>Current\<close>
  holds the store's lock for its whole body, so each is one step on the state below. An operation
  returns its Go results, an error as \<open>Inl\<close>, together with the new state.
\<close>

section \<open>State\<close>

record Current =
  cur_nodeID :: string
  cur_nodeLabel :: string
  cur_epoch :: string
  cur_version :: u64
  cur_metrics :: "ProviderMetric gomap"
  cur_observedSeq :: "u64 gomap"
  cur_metricOwners :: "string gomap"
  cur_health :: "ConnectorHealth gomap"
  cur_nodes :: "HomeLabNode gomap"
  cur_services :: "HomeLabService gomap"
  cur_nodeOwners :: "string gomap"
  cur_serviceOwners :: "string gomap"

datatype state_error =
    SNodeIDRequired | SEpochRequired | SConnectorRequired
  | SReportLimit | SMergedLimit
  | SInvalid string nat validation_error
  | SDuplicate string string
  | SOwnedByOther string string
  | SErrorClass ErrorClass
  | SAnnotate string validation_error
  | SHealth validation_error

definition New_Current :: "string \<Rightarrow> string \<Rightarrow> string \<Rightarrow> state_error + Current" where
  "New_Current nodeID nodeLabel epoch =
     (if nodeID = [] then Inl SNodeIDRequired
      else if epoch = [] then Inl SEpochRequired
      else Inr \<lparr>cur_nodeID = nodeID, cur_nodeLabel = (if nodeLabel = [] then nodeID else nodeLabel),
        cur_epoch = epoch, cur_version = 0, cur_metrics = [], cur_observedSeq = [],
        cur_metricOwners = [], cur_health = [], cur_nodes = [], cur_services = [],
        cur_nodeOwners = [], cur_serviceOwners = []\<rparr>)"

definition bump_version :: "Current \<Rightarrow> Current" where
  "bump_version c = c\<lparr>cur_version := cur_version c + 1\<rparr>"

section \<open>HomeLab reports\<close>

definition inherit :: "'a option \<Rightarrow> 'a option \<Rightarrow> 'a option" where
  "inherit next previous = (case next of None \<Rightarrow> previous | Some v \<Rightarrow> Some v)"

definition inheritNodeValues :: "HomeLabNode \<Rightarrow> HomeLabNode \<Rightarrow> HomeLabNode" where
  "inheritNodeValues next previous = next\<lparr>
     hn_CPUPercent := inherit (hn_CPUPercent next) (hn_CPUPercent previous),
     hn_MemoryPercent := inherit (hn_MemoryPercent next) (hn_MemoryPercent previous),
     hn_DiskPercent := inherit (hn_DiskPercent next) (hn_DiskPercent previous),
     hn_NetworkReceiveBPS := inherit (hn_NetworkReceiveBPS next) (hn_NetworkReceiveBPS previous),
     hn_NetworkTransmitBPS := inherit (hn_NetworkTransmitBPS next) (hn_NetworkTransmitBPS previous)\<rparr>"

text \<open>
  The node to store: an offline report keeps the values of the current node it does not carry.
\<close>

definition merge_node :: "HomeLabNode gomap \<Rightarrow> HomeLabNode \<Rightarrow> HomeLabNode" where
  "merge_node nodes n =
     (if hn_Online n = Some False
      then (case mget nodes (hn_ID n) of Some previous \<Rightarrow> inheritNodeValues n previous | None \<Rightarrow> n)
      else n)"

definition store_node ::
  "string \<Rightarrow> HomeLabNode \<Rightarrow> HomeLabNode gomap \<times> string gomap \<Rightarrow> HomeLabNode gomap \<times> string gomap" where
  "store_node = upsert_owned hn_ID merge_node"

definition store_service ::
  "string \<Rightarrow> HomeLabService \<Rightarrow> HomeLabService gomap \<times> string gomap \<Rightarrow>
   HomeLabService gomap \<times> string gomap" where
  "store_service = upsert_owned hs_ID (\<lambda>_ v. v)"

definition homelab_report_error :: "Current \<Rightarrow> string \<Rightarrow> HomeLabReport \<Rightarrow> state_error option" where
  "homelab_report_error c cid report = first_err
     [err_if (cid = []) SConnectorRequired,
      err_if (length (hr_Nodes report) > MaxHomeLabNodes \<or>
              length (hr_Services report) > MaxHomeLabServices) SReportLimit,
      check_entities HomeLabNode_Validate hn_ID (SInvalid ''nodes'') (\<lambda>_. SDuplicate ''node'') [] 0
        (hr_Nodes report),
      check_entities HomeLabService_Validate hs_ID (SInvalid ''services'') (\<lambda>_. SDuplicate ''service'')
        [] 0 (hr_Services report),
      err_if (int (length (cur_nodes c)) - int (count_owned cid (cur_nodeOwners c)) +
                int (length (hr_Nodes report)) > int MaxHomeLabNodes \<or>
              int (length (cur_services c)) - int (count_owned cid (cur_serviceOwners c)) +
                int (length (hr_Services report)) > int MaxHomeLabServices) SMergedLimit,
      map_option (SOwnedByOther ''node'')
        (foreign_owner cid (cur_nodeOwners c) (map hn_ID (hr_Nodes report))),
      map_option (SOwnedByOther ''service'')
        (foreign_owner cid (cur_serviceOwners c) (map hs_ID (hr_Services report)))]"

definition ApplyConnectorHomeLab ::
  "Current \<Rightarrow> string \<Rightarrow> HomeLabReport \<Rightarrow> (state_error + unit) \<times> Current" where
  "ApplyConnectorHomeLab c cid report =
     (case homelab_report_error c cid report of
        Some e \<Rightarrow> (Inl e, c)
      | None \<Rightarrow>
          let kept_n = drop_unreported cid (map hn_ID (hr_Nodes report)) (cur_nodeOwners c)
                (cur_nodes c, cur_nodeOwners c);
              (nodes, nodeOwners) = fold (store_node cid) (hr_Nodes report) kept_n;
              kept_s = drop_unreported cid (map hs_ID (hr_Services report)) (cur_serviceOwners c)
                (cur_services c, cur_serviceOwners c);
              (services, serviceOwners) = fold (store_service cid) (hr_Services report) kept_s
          in (Inr (), bump_version (c\<lparr>cur_nodes := nodes, cur_nodeOwners := nodeOwners,
                        cur_services := services, cur_serviceOwners := serviceOwners\<rparr>)))"

section \<open>Metric batches\<close>

text \<open>The guard \<open>prev, ok := observedSeq[id]; ok && seq <= prev\<close>.\<close>

definition outdated :: "u64 gomap \<Rightarrow> string \<Rightarrow> u64 \<Rightarrow> bool" where
  "outdated seqs k s = (case mget seqs k of None \<Rightarrow> False | Some prev \<Rightarrow> s \<le> prev)"

type_synonym metric_maps = "ProviderMetric gomap \<times> string gomap \<times> u64 gomap \<times> nat"

definition remove_metric :: "string \<Rightarrow> u64 \<Rightarrow> string list \<Rightarrow> string \<times> string \<Rightarrow> metric_maps \<Rightarrow> metric_maps" where
  "remove_metric cid s seen entry st = (case (entry, st) of
     ((k, owner), (metrics, owners, seqs, removed)) \<Rightarrow>
       if owner \<noteq> cid \<or> k \<in> set seen then st
       else if outdated seqs k s then st
       else (mdel k metrics, mdel k owners, mput k s seqs, removed + 1))"

definition store_metric :: "string \<Rightarrow> u64 \<Rightarrow> ProviderMetric \<Rightarrow> metric_maps \<Rightarrow> metric_maps" where
  "store_metric cid s m st = (case st of (metrics, owners, seqs, applied) \<Rightarrow>
     if outdated seqs (pm_ID m) s then st
     else (mput (pm_ID m) m metrics, (if cid \<noteq> [] then mput (pm_ID m) cid owners else owners),
           mput (pm_ID m) s seqs, applied + 1))"

definition applyMetrics ::
  "Current \<Rightarrow> string \<Rightarrow> u64 \<Rightarrow> ProviderMetric list \<Rightarrow> (state_error + nat) \<times> Current" where
  "applyMetrics c cid s metrics =
     (case check_entities ProviderMetric_Validate pm_ID (SInvalid ''metrics'') (\<lambda>_. SDuplicate ''metric'')
             [] 0 metrics of
        Some e \<Rightarrow> (Inl e, c)
      | None \<Rightarrow>
          let (ms, owners, seqs, removed) =
                (if cid \<noteq> []
                 then fold (remove_metric cid s (map pm_ID metrics)) (cur_metricOwners c)
                        (cur_metrics c, cur_metricOwners c, cur_observedSeq c, 0)
                 else (cur_metrics c, cur_metricOwners c, cur_observedSeq c, 0));
              (ms', owners', seqs', applied) = fold (store_metric cid s) metrics (ms, owners, seqs, 0);
              c' = c\<lparr>cur_metrics := ms', cur_metricOwners := owners', cur_observedSeq := seqs'\<rparr>
          in (Inr applied, if applied > 0 \<or> removed > 0 then bump_version c' else c'))"

definition ApplyMetrics ::
  "Current \<Rightarrow> u64 \<Rightarrow> ProviderMetric list \<Rightarrow> (state_error + nat) \<times> Current" where
  "ApplyMetrics c s metrics = applyMetrics c [] s metrics"

definition ApplyConnectorMetrics ::
  "Current \<Rightarrow> string \<Rightarrow> u64 \<Rightarrow> ProviderMetric list \<Rightarrow> (state_error + nat) \<times> Current" where
  "ApplyConnectorMetrics c cid s metrics =
     (if cid = [] then (Inl SConnectorRequired, c) else applyMetrics c cid s metrics)"

section \<open>Failures\<close>

text \<open>Reading a missing key of a Go map gives the zero value of the element type.\<close>

definition zero_metric :: ProviderMetric where
  "zero_metric = \<lparr>pm_ID = [], pm_Provider = [], pm_AccountLabel = [], pm_DisplayName = [],
     pm_MetricKind = [], pm_Value = None, pm_Limit = None, pm_Unit = [], pm_Window = [],
     pm_ResetsAt = None, pm_ObservedAt = 0, pm_Precision = [], pm_SourceKind = [], pm_Status = [],
     pm_StaleAfter = 0, pm_ErrorClass = [], pm_Derived = [], pm_Message = [], pm_Order = 0, pm_Group = []\<rparr>"

definition zero_health :: ConnectorHealth where
  "zero_health = \<lparr>ch_ConnectorID = [], ch_Provider = [], ch_Enabled = False, ch_State = [],
     ch_LastAttemptAt = None, ch_LastSuccessAt = None, ch_NextAttemptAt = None,
     ch_ConsecutiveFailures = 0, ch_ErrorClass = [], ch_Message = []\<rparr>"

definition zero_node :: HomeLabNode where
  "zero_node = \<lparr>hn_ID = [], hn_Name = [], hn_Online = None, hn_CPUPercent = None,
     hn_MemoryPercent = None, hn_DiskPercent = None, hn_NetworkReceiveBPS = None,
     hn_NetworkTransmitBPS = None, hn_ObservedAt = 0, hn_StaleAfter = 0, hn_Status = [],
     hn_ErrorClass = [], hn_Message = [], hn_Order = 0\<rparr>"

definition zero_service :: HomeLabService where
  "zero_service = \<lparr>hs_ID = [], hs_Name = [], hs_Kind = [], hs_Version = [], hs_APIGeneration = [],
     hs_Healthy = None, hs_FiringAlerts = None, hs_EnvironmentsTotal = None,
     hs_EnvironmentsOnline = None, hs_ContainersRunning = None, hs_ContainersStopped = None,
     hs_ContainersFailed = None, hs_Stacks = None, hs_ObservedAt = 0, hs_StaleAfter = 0,
     hs_Status = [], hs_ErrorClass = [], hs_Message = [], hs_Order = 0\<rparr>"

text \<open>
  The loop over the owned metrics stops at the first metric the annotation makes invalid, leaving
  those it already rewrote; the loops over nodes and services do not validate.
\<close>

fun annotate_metrics ::
  "string \<Rightarrow> ErrorClass \<Rightarrow> string \<Rightarrow> string gomap \<Rightarrow> ProviderMetric gomap \<times> nat \<Rightarrow>
   state_error option \<times> ProviderMetric gomap \<times> nat" where
  "annotate_metrics cid ec msg [] st = (None, st)"
| "annotate_metrics cid ec msg ((k, owner) # rest) (metrics, changed) =
     (if owner \<noteq> cid then annotate_metrics cid ec msg rest (metrics, changed)
      else
        let m = get_or zero_metric metrics k in
        if pm_ErrorClass m = ec \<and> pm_Message m = msg then annotate_metrics cid ec msg rest (metrics, changed)
        else
          let m' = m\<lparr>pm_ErrorClass := ec, pm_Message := msg\<rparr> in
          case ProviderMetric_Validate m' of
            Some e \<Rightarrow> (Some (SAnnotate k e), metrics, changed)
          | None \<Rightarrow> annotate_metrics cid ec msg rest (mput k m' metrics, changed + 1))"

definition annotate_node ::
  "string \<Rightarrow> ErrorClass \<Rightarrow> string \<Rightarrow> string \<times> string \<Rightarrow> HomeLabNode gomap \<times> nat \<Rightarrow> HomeLabNode gomap \<times> nat" where
  "annotate_node cid ec msg = annotate_owned zero_node
     (\<lambda>n. hn_ErrorClass n = ec \<and> hn_Message n = msg)
     (\<lambda>n. n\<lparr>hn_ErrorClass := ec, hn_Message := msg\<rparr>) cid"

definition annotate_service ::
  "string \<Rightarrow> ErrorClass \<Rightarrow> string \<Rightarrow> string \<times> string \<Rightarrow> HomeLabService gomap \<times> nat \<Rightarrow>
   HomeLabService gomap \<times> nat" where
  "annotate_service cid ec msg = annotate_owned zero_service
     (\<lambda>v. hs_ErrorClass v = ec \<and> hs_Message v = msg)
     (\<lambda>v. v\<lparr>hs_ErrorClass := ec, hs_Message := msg\<rparr>) cid"

definition ApplyConnectorError ::
  "Current \<Rightarrow> string \<Rightarrow> ErrorClass \<Rightarrow> string \<Rightarrow> (state_error + nat) \<times> Current" where
  "ApplyConnectorError c cid ec msg =
     (if cid = [] then (Inl SConnectorRequired, c)
      else if ec = ErrNone \<or> \<not> ErrorClass_Valid ec then (Inl (SErrorClass ec), c)
      else case annotate_metrics cid ec msg (cur_metricOwners c) (cur_metrics c, 0) of
        (Some e, metrics, _) \<Rightarrow> (Inl e, c\<lparr>cur_metrics := metrics\<rparr>)
      | (None, metrics, changed) \<Rightarrow>
          let (nodes, changed') = fold (annotate_node cid ec msg) (cur_nodeOwners c) (cur_nodes c, changed);
              (services, changed'') =
                fold (annotate_service cid ec msg) (cur_serviceOwners c) (cur_services c, changed');
              c' = c\<lparr>cur_metrics := metrics, cur_nodes := nodes, cur_services := services\<rparr>
          in (Inr changed'', if changed'' > 0 then bump_version c' else c'))"

definition ApplyHealth :: "Current \<Rightarrow> ConnectorHealth \<Rightarrow> (state_error + unit) \<times> Current" where
  "ApplyHealth c h =
     (case ConnectorHealth_Validate h of
        Some e \<Rightarrow> (Inl (SHealth e), c)
      | None \<Rightarrow> (Inr (), bump_version (c\<lparr>cur_health := mput (ch_ConnectorID h) h (cur_health c)\<rparr>)))"

section \<open>Reading\<close>

definition Snapshot :: "Current \<Rightarrow> instant \<Rightarrow> MetricSnapshot" where
  "Snapshot c now =
     \<lparr>ms_SchemaVersion = SchemaVersion, ms_SourceEpoch = cur_epoch c,
      ms_SnapshotVersion = cur_version c, ms_GeneratedAt = now,
      ms_SourceNode = cur_nodeID c, ms_SourceNodeLabel = cur_nodeLabel c,
      ms_Metrics = listing pm_Order pm_ID (cur_metrics c),
      ms_ConnectorHealth = listing (\<lambda>_. 0) ch_ConnectorID (cur_health c),
      ms_HomeLabNodes = listing hn_Order hn_ID (cur_nodes c),
      ms_HomeLabServices = listing hs_Order hs_ID (cur_services c)\<rparr>"

definition HasData :: "Current \<Rightarrow> bool" where
  "HasData c \<longleftrightarrow> length (cur_metrics c) > 0 \<or> length (cur_nodes c) > 0 \<or> length (cur_services c) > 0"

section \<open>The invariant of the store\<close>

definition inv :: "Current \<Rightarrow> bool" where
  "inv c \<longleftrightarrow>
     wf_store pm_ID metric_ok (cur_metrics c) \<and> wf_store ch_ConnectorID health_ok (cur_health c) \<and>
     wf_owned hn_ID node_ok (cur_nodes c, cur_nodeOwners c) \<and>
     wf_owned hs_ID service_ok (cur_services c, cur_serviceOwners c) \<and>
     wf_map (cur_metricOwners c) \<and> wf_map (cur_observedSeq c) \<and>
     mkeys (cur_metricOwners c) \<subseteq> mkeys (cur_metrics c) \<and>
     mkeys (cur_metrics c) \<subseteq> mkeys (cur_observedSeq c) \<and>
     length (cur_nodes c) \<le> MaxHomeLabNodes \<and> length (cur_services c) \<le> MaxHomeLabServices"

lemma inv_bump_version [simp]: "inv (bump_version c) = inv c"
  by (simp add: inv_def bump_version_def)

lemma inv_New: "New_Current nodeID label epoch = Inr c \<Longrightarrow> inv c"
  by (auto simp: New_Current_def inv_def wf_store_def wf_owned_def split: if_splits)

subsection \<open>HomeLab reports keep it\<close>

lemma inherit_range: "in_range hi a \<Longrightarrow> in_range hi b \<Longrightarrow> in_range hi (inherit a b)"
  by (auto simp: inherit_def split: option.splits)

lemma inherit_nonneg: "nonneg a \<Longrightarrow> nonneg b \<Longrightarrow> nonneg (inherit a b)"
  by (auto simp: inherit_def split: option.splits)

lemma inheritNodeValues_ok: "node_ok n \<Longrightarrow> node_ok p \<Longrightarrow> node_ok (inheritNodeValues n p)"
  by (simp add: node_ok_def inheritNodeValues_def inherit_range inherit_nonneg)

lemma inheritNodeValues_ID [simp]: "hn_ID (inheritNodeValues n p) = hn_ID n"
  by (simp add: inheritNodeValues_def)

lemma merge_node_ok:
  "wf_store hn_ID node_ok nodes \<Longrightarrow> node_ok n \<Longrightarrow> hn_ID (merge_node nodes n) = hn_ID n \<and> node_ok (merge_node nodes n)"
  by (auto simp: merge_node_def inheritNodeValues_ok split: option.splits dest: node.wf_store_get)

lemma homelab_report_error_None:
  "homelab_report_error c cid report = None \<Longrightarrow>
     cid \<noteq> [] \<and>
     (\<forall>n\<in>set (hr_Nodes report). node_ok n) \<and> distinct (map hn_ID (hr_Nodes report)) \<and>
     (\<forall>v\<in>set (hr_Services report). service_ok v) \<and> distinct (map hs_ID (hr_Services report)) \<and>
     int (length (cur_nodes c)) - int (count_owned cid (cur_nodeOwners c)) +
       int (length (hr_Nodes report)) \<le> int MaxHomeLabNodes \<and>
     int (length (cur_services c)) - int (count_owned cid (cur_serviceOwners c)) +
       int (length (hr_Services report)) \<le> int MaxHomeLabServices \<and>
     foreign_owner cid (cur_nodeOwners c) (map hn_ID (hr_Nodes report)) = None \<and>
     foreign_owner cid (cur_serviceOwners c) (map hs_ID (hr_Services report)) = None"
  by (auto simp: homelab_report_error_def valid_simps node.validator_sound service.validator_sound)

text \<open>One kind of entity after a report: well formed, bounded, and what the lookups become.\<close>

definition replace_nodes :: "string \<Rightarrow> HomeLabNode list \<Rightarrow> HomeLabNode gomap \<times> string gomap \<Rightarrow>
    HomeLabNode gomap \<times> string gomap" where
  "replace_nodes cid ns st = (case st of (nodes, owners) \<Rightarrow>
     fold (store_node cid) ns (drop_unreported cid (map hn_ID ns) owners (nodes, owners)))"

definition replace_services :: "string \<Rightarrow> HomeLabService list \<Rightarrow> HomeLabService gomap \<times> string gomap \<Rightarrow>
    HomeLabService gomap \<times> string gomap" where
  "replace_services cid vs st = (case st of (services, owners) \<Rightarrow>
     fold (store_service cid) vs (drop_unreported cid (map hs_ID vs) owners (services, owners)))"

lemma ApplyConnectorHomeLab_ok:
  assumes "homelab_report_error c cid report = None"
  shows "ApplyConnectorHomeLab c cid report = (Inr (), bump_version (c\<lparr>
     cur_nodes := fst (replace_nodes cid (hr_Nodes report) (cur_nodes c, cur_nodeOwners c)),
     cur_nodeOwners := snd (replace_nodes cid (hr_Nodes report) (cur_nodes c, cur_nodeOwners c)),
     cur_services := fst (replace_services cid (hr_Services report) (cur_services c, cur_serviceOwners c)),
     cur_serviceOwners := snd (replace_services cid (hr_Services report) (cur_services c, cur_serviceOwners c))\<rparr>))"
  using assms
  by (simp add: ApplyConnectorHomeLab_def replace_nodes_def replace_services_def Let_def case_prod_beta)

lemma replace_nodes_wf:
  assumes wf: "wf_owned hn_ID node_ok (nodes, owners)"
    and ns: "\<forall>n\<in>set ns. node_ok n" "distinct (map hn_ID ns)"
    and foreign: "foreign_owner cid owners (map hn_ID ns) = None"
    and bound: "int (length nodes) - int (count_owned cid owners) + int (length ns) \<le> int MaxHomeLabNodes"
  shows "wf_owned hn_ID node_ok (replace_nodes cid ns (nodes, owners)) \<and>
         length (fst (replace_nodes cid ns (nodes, owners))) \<le> MaxHomeLabNodes"
proof -
  let ?d = "drop_unreported cid (map hn_ID ns) owners (nodes, owners)"
  have d: "wf_owned hn_ID node_ok ?d" using wf by (rule node.wf_owned_drop)
  have up: "wf_owned hn_ID node_ok (replace_nodes cid ns (nodes, owners)) \<and>
      mkeys (fst (replace_nodes cid ns (nodes, owners))) = mkeys (fst ?d) \<union> hn_ID ` set ns"
    unfolding replace_nodes_def store_node_def prod.case
    using node.wf_owned_upserts [of merge_node, OF _ d ns(1)] merge_node_ok by blast
  then have "card (mkeys (fst (replace_nodes cid ns (nodes, owners)))) \<le> MaxHomeLabNodes"
    using node.replaced_keys_bound [OF wf foreign ns(2) bound] node.drop_keys [OF wf, of cid "map hn_ID ns"]
    by simp
  with up show ?thesis by (simp add: length_mkeys wf_owned_def wf_store_def)
qed

lemma replace_services_wf:
  assumes wf: "wf_owned hs_ID service_ok (services, owners)"
    and vs: "\<forall>v\<in>set vs. service_ok v" "distinct (map hs_ID vs)"
    and foreign: "foreign_owner cid owners (map hs_ID vs) = None"
    and bound: "int (length services) - int (count_owned cid owners) + int (length vs) \<le> int MaxHomeLabServices"
  shows "wf_owned hs_ID service_ok (replace_services cid vs (services, owners)) \<and>
         length (fst (replace_services cid vs (services, owners))) \<le> MaxHomeLabServices"
proof -
  let ?d = "drop_unreported cid (map hs_ID vs) owners (services, owners)"
  have d: "wf_owned hs_ID service_ok ?d" using wf by (rule service.wf_owned_drop)
  have up: "wf_owned hs_ID service_ok (replace_services cid vs (services, owners)) \<and>
      mkeys (fst (replace_services cid vs (services, owners))) = mkeys (fst ?d) \<union> hs_ID ` set vs"
    unfolding replace_services_def store_service_def prod.case
    using service.wf_owned_upserts [of "\<lambda>_ v. v", OF _ d vs(1)] by blast
  then have "card (mkeys (fst (replace_services cid vs (services, owners)))) \<le> MaxHomeLabServices"
    using service.replaced_keys_bound [OF wf foreign vs(2) bound] service.drop_keys [OF wf, of cid "map hs_ID vs"]
    by simp
  with up show ?thesis by (simp add: length_mkeys wf_owned_def wf_store_def)
qed

lemma inv_ApplyConnectorHomeLab: "inv c \<Longrightarrow> inv (snd (ApplyConnectorHomeLab c cid report))"
proof (cases "homelab_report_error c cid report")
  case None
  assume inv: "inv c"
  note ok = homelab_report_error_None [OF None]
  have "wf_owned hn_ID node_ok (cur_nodes c, cur_nodeOwners c)"
    "wf_owned hs_ID service_ok (cur_services c, cur_serviceOwners c)"
    using inv by (simp_all add: inv_def)
  with replace_nodes_wf [of "cur_nodes c" "cur_nodeOwners c" "hr_Nodes report" cid]
    replace_services_wf [of "cur_services c" "cur_serviceOwners c" "hr_Services report" cid] ok inv
  show ?thesis
    unfolding ApplyConnectorHomeLab_ok [OF None] snd_conv inv_bump_version by (simp add: inv_def)
qed (simp add: ApplyConnectorHomeLab_def)

subsection \<open>Metric batches keep it\<close>

text \<open>The four maps threaded through the two loops of \<open>applyMetrics\<close>.\<close>

fun metrics_inv :: "metric_maps \<Rightarrow> bool" where
  "metrics_inv (metrics, owners, seqs, n) \<longleftrightarrow>
     wf_store pm_ID metric_ok metrics \<and> wf_map owners \<and> wf_map seqs \<and>
     mkeys owners \<subseteq> mkeys metrics \<and> mkeys metrics \<subseteq> mkeys seqs"

lemma remove_metric_inv: "metrics_inv st \<Longrightarrow> metrics_inv (remove_metric cid s seen e st)"
  by (cases st; cases e)
    (auto simp: remove_metric_def mkeys_put mkeys_del metric.wf_store_del)

lemma fold_remove_metric_inv:
  "metrics_inv st \<Longrightarrow> metrics_inv (fold (remove_metric cid s seen) es st)"
  by (induction es arbitrary: st) (simp_all add: remove_metric_inv)

lemma store_metric_inv: "metrics_inv st \<Longrightarrow> metric_ok m \<Longrightarrow> metrics_inv (store_metric cid s m st)"
  by (cases st) (auto simp: store_metric_def mkeys_put metric.wf_store_put metric.validator_sound)

lemma fold_store_metric_inv:
  "metrics_inv st \<Longrightarrow> \<forall>m\<in>set ms. metric_ok m \<Longrightarrow> metrics_inv (fold (store_metric cid s) ms st)"
  by (induction ms arbitrary: st) (simp_all add: store_metric_inv)

definition batch_error :: "ProviderMetric list \<Rightarrow> state_error option" where
  "batch_error metrics =
     check_entities ProviderMetric_Validate pm_ID (SInvalid ''metrics'') (\<lambda>_. SDuplicate ''metric'') [] 0 metrics"

lemma batch_error_None: "batch_error ms = None \<longleftrightarrow> (\<forall>m\<in>set ms. metric_ok m) \<and> distinct (map pm_ID ms)"
  by (simp add: batch_error_def check_entities_None metric.validator_sound)

text \<open>The two loops of an accepted batch, and the state it leaves.\<close>

definition batch_removed :: "Current \<Rightarrow> string \<Rightarrow> u64 \<Rightarrow> ProviderMetric list \<Rightarrow> metric_maps" where
  "batch_removed c cid s ms =
     (if cid \<noteq> []
      then fold (remove_metric cid s (map pm_ID ms)) (cur_metricOwners c)
             (cur_metrics c, cur_metricOwners c, cur_observedSeq c, 0)
      else (cur_metrics c, cur_metricOwners c, cur_observedSeq c, 0))"

definition batch_stored :: "string \<Rightarrow> u64 \<Rightarrow> ProviderMetric list \<Rightarrow> metric_maps \<Rightarrow> metric_maps" where
  "batch_stored cid s ms st = (case st of (metrics, owners, seqs, _) \<Rightarrow>
     fold (store_metric cid s) ms (metrics, owners, seqs, 0))"

definition with_metrics :: "Current \<Rightarrow> metric_maps \<Rightarrow> Current" where
  "with_metrics c st = (case st of (metrics, owners, seqs, _) \<Rightarrow>
     c\<lparr>cur_metrics := metrics, cur_metricOwners := owners, cur_observedSeq := seqs\<rparr>)"

definition maps_count :: "metric_maps \<Rightarrow> nat" where
  "maps_count st = snd (snd (snd st))"

lemma applyMetrics_eq:
  "applyMetrics c cid s ms =
     (case batch_error ms of
        Some e \<Rightarrow> (Inl e, c)
      | None \<Rightarrow>
          let st = batch_removed c cid s ms; st' = batch_stored cid s ms st; c' = with_metrics c st'
          in (Inr (maps_count st'), if maps_count st' > 0 \<or> maps_count st > 0 then bump_version c' else c'))"
  by (auto simp: applyMetrics_def batch_error_def batch_removed_def batch_stored_def with_metrics_def
      maps_count_def Let_def case_prod_beta split: option.splits)

lemma metrics_inv_count: "metrics_inv (a, b, d, n) = metrics_inv (a, b, d, m)"
  by simp

lemma inv_with_metrics: "inv c \<Longrightarrow> metrics_inv st \<Longrightarrow> inv (with_metrics c st)"
  by (cases st) (simp add: inv_def with_metrics_def)

lemma inv_metrics_inv: "inv c \<Longrightarrow> metrics_inv (cur_metrics c, cur_metricOwners c, cur_observedSeq c, n)"
  by (simp add: inv_def)

lemma batch_removed_inv: "inv c \<Longrightarrow> metrics_inv (batch_removed c cid s ms)"
  by (simp add: batch_removed_def inv_metrics_inv fold_remove_metric_inv del: metrics_inv.simps)

lemma batch_stored_inv: "metrics_inv st \<Longrightarrow> \<forall>m\<in>set ms. metric_ok m \<Longrightarrow> metrics_inv (batch_stored cid s ms st)"
  unfolding batch_stored_def by (cases st) (auto intro!: fold_store_metric_inv)

lemma inv_applyMetrics: "inv c \<Longrightarrow> inv (snd (applyMetrics c cid s ms))"
proof (cases "batch_error ms")
  case None
  assume "inv c"
  then have "inv (with_metrics c (batch_stored cid s ms (batch_removed c cid s ms)))"
    using None by (intro inv_with_metrics batch_stored_inv batch_removed_inv) (simp_all add: batch_error_None)
  with None show ?thesis by (simp add: applyMetrics_eq Let_def)
qed (simp add: applyMetrics_eq)

lemma inv_ApplyMetrics: "inv c \<Longrightarrow> inv (snd (ApplyMetrics c s ms))"
  by (simp add: ApplyMetrics_def inv_applyMetrics)

lemma inv_ApplyConnectorMetrics: "inv c \<Longrightarrow> inv (snd (ApplyConnectorMetrics c cid s ms))"
  by (simp add: ApplyConnectorMetrics_def inv_applyMetrics)

lemma inv_ApplyHealth: "inv c \<Longrightarrow> inv (snd (ApplyHealth c h))"
proof (cases "ConnectorHealth_Validate h")
  case None
  assume "inv c"
  with None have "inv (c\<lparr>cur_health := mput (ch_ConnectorID h) h (cur_health c)\<rparr>)"
    by (simp add: inv_def health.wf_store_put)
  with None show ?thesis by (simp add: ApplyHealth_def)
qed (simp add: ApplyHealth_def)

subsection \<open>Failure annotations keep it, when the message is printable\<close>

lemma annotated_metric_ok:
  "metric_ok m \<Longrightarrow> error_class_ok ec \<Longrightarrow>
   ProviderMetric_Validate (m\<lparr>pm_ErrorClass := ec, pm_Message := msg\<rparr>) = None \<longleftrightarrow> text_ok msg 160"
  by (auto simp: ProviderMetric_Validate_iff metric_ok_def)

text \<open>
  Whether a metric survives the annotation depends on the message alone, so the loop over metrics
  either rewrites all it has to or stops before it rewrote anything.
\<close>

lemma annotate_metrics_bad_message:
  assumes "error_class_ok ec" "\<not> text_ok msg 160"
  shows "wf_store pm_ID metric_ok metrics \<Longrightarrow> mkeys entries \<subseteq> mkeys metrics \<Longrightarrow>
    annotate_metrics cid ec msg entries (metrics, n) = (err, metrics', n') \<Longrightarrow>
    metrics' = metrics \<and> n' = n"
proof (induction entries)
  case (Cons e es)
  obtain k owner where e: "e = (k, owner)" by (cases e)
  obtain m where m: "mget metrics k = Some m"
    using Cons.prems(2) key_mget_Some [of k metrics] by (auto simp: e mkeys_def)
  have ok: "metric_ok m" using metric.wf_store_get [OF Cons.prems(1) m] by simp
  have "ProviderMetric_Validate (m\<lparr>pm_ErrorClass := ec, pm_Message := msg\<rparr>) \<noteq> None"
    using annotated_metric_ok [OF ok assms(1)] assms(2) by simp
  moreover have "mkeys es \<subseteq> mkeys metrics" using Cons.prems(2) by (auto simp: mkeys_def)
  ultimately show ?case
    using Cons m by (auto simp: e get_or_def Let_def split: if_splits)
qed simp

lemma annotate_metrics_good_message:
  assumes "error_class_ok ec" "text_ok msg 160"
  shows "wf_store pm_ID metric_ok metrics \<Longrightarrow> mkeys entries \<subseteq> mkeys metrics \<Longrightarrow>
    annotate_metrics cid ec msg entries (metrics, n) =
      (None, fold (annotate_owned zero_metric (\<lambda>m. pm_ErrorClass m = ec \<and> pm_Message m = msg)
                (\<lambda>m. m\<lparr>pm_ErrorClass := ec, pm_Message := msg\<rparr>) cid) entries (metrics, n))"
proof (induction entries arbitrary: metrics n)
  case (Cons e es)
  obtain k owner where e: "e = (k, owner)" by (cases e)
  obtain m where m: "mget metrics k = Some m"
    using Cons.prems(2) key_mget_Some [of k metrics] by (auto simp: e mkeys_def)
  have ok: "metric_ok m" "pm_ID m = k" using metric.wf_store_get [OF Cons.prems(1) m] by simp_all
  let ?m = "m\<lparr>pm_ErrorClass := ec, pm_Message := msg\<rparr>"
  have valid: "ProviderMetric_Validate ?m = None"
    using annotated_metric_ok [OF ok(1) assms(1)] assms(2) by simp
  have "mkeys (mput k ?m metrics) = mkeys metrics"
    using mget_Some_key [OF m] by (auto simp: mkeys_put)
  moreover have "wf_store pm_ID metric_ok (mput k ?m metrics)"
    using metric.wf_store_put [OF Cons.prems(1) valid] ok by simp
  moreover have "mkeys es \<subseteq> mkeys metrics" using Cons.prems(2) by (auto simp: mkeys_def)
  ultimately show ?case
    using Cons.IH [of metrics n] Cons.IH [of "mput k ?m metrics" "n + 1"] Cons.prems(1) m valid
    by (simp add: e get_or_def Let_def annotate_owned_def)
qed simp

lemma annotated_node_ok:
  "node_ok n \<Longrightarrow> error_class_ok ec \<Longrightarrow> text_ok msg 160 \<Longrightarrow>
   node_ok (n\<lparr>hn_ErrorClass := ec, hn_Message := msg\<rparr>) \<and>
   hn_ID (n\<lparr>hn_ErrorClass := ec, hn_Message := msg\<rparr>) = hn_ID n"
  by (simp add: node_ok_def)

lemma annotated_service_ok:
  "service_ok v \<Longrightarrow> error_class_ok ec \<Longrightarrow> text_ok msg 160 \<Longrightarrow>
   service_ok (v\<lparr>hs_ErrorClass := ec, hs_Message := msg\<rparr>) \<and>
   hs_ID (v\<lparr>hs_ErrorClass := ec, hs_Message := msg\<rparr>) = hs_ID v"
  by (simp add: service_ok_def service_counts_def)

abbreviation (input) annotate_metric where
  "annotate_metric cid ec msg \<equiv> annotate_owned zero_metric
     (\<lambda>m. pm_ErrorClass m = ec \<and> pm_Message m = msg)
     (\<lambda>m. m\<lparr>pm_ErrorClass := ec, pm_Message := msg\<rparr>) cid"

definition annotated :: "Current \<Rightarrow> string \<Rightarrow> ErrorClass \<Rightarrow> string \<Rightarrow> Current \<times> nat" where
  "annotated c cid ec msg =
     (let (metrics, n) = fold (annotate_metric cid ec msg) (cur_metricOwners c) (cur_metrics c, 0);
          (nodes, n') = fold (annotate_node cid ec msg) (cur_nodeOwners c) (cur_nodes c, n);
          (services, n'') = fold (annotate_service cid ec msg) (cur_serviceOwners c) (cur_services c, n')
      in (c\<lparr>cur_metrics := metrics, cur_nodes := nodes, cur_services := services\<rparr>, n''))"

lemma ApplyConnectorError_ok:
  assumes "inv c" "cid \<noteq> []" "ec \<noteq> ErrNone" "ErrorClass_Valid ec" "text_ok msg 160"
  shows "ApplyConnectorError c cid ec msg =
    (Inr (snd (annotated c cid ec msg)),
     if snd (annotated c cid ec msg) > 0 then bump_version (fst (annotated c cid ec msg))
     else fst (annotated c cid ec msg))"
proof -
  have ec: "error_class_ok ec" using assms(4) by (simp add: ErrorClass_Valid_def error_class_ok_def)
  have "wf_store pm_ID metric_ok (cur_metrics c)" "mkeys (cur_metricOwners c) \<subseteq> mkeys (cur_metrics c)"
    using assms(1) by (simp_all add: inv_def)
  note loop = annotate_metrics_good_message [OF ec assms(5) this, of cid 0]
  show ?thesis
    using assms(2-4) by (simp add: ApplyConnectorError_def loop annotated_def Let_def case_prod_beta)
qed

lemma inv_annotated:
  assumes "inv c" "error_class_ok ec" "text_ok msg 160"
  shows "inv (fst (annotated c cid ec msg))"
proof -
  have m: "wf_store pm_ID metric_ok (cur_metrics c)" "mkeys (cur_metricOwners c) \<subseteq> mkeys (cur_metrics c)"
    and n: "wf_store hn_ID node_ok (cur_nodes c)" "mkeys (cur_nodeOwners c) \<subseteq> mkeys (cur_nodes c)"
    and v: "wf_store hs_ID service_ok (cur_services c)" "mkeys (cur_serviceOwners c) \<subseteq> mkeys (cur_services c)"
    using assms(1) by (simp_all add: inv_def wf_owned_def)
  have upd: "metric_ok m \<Longrightarrow> metric_ok (m\<lparr>pm_ErrorClass := ec, pm_Message := msg\<rparr>) \<and>
      pm_ID (m\<lparr>pm_ErrorClass := ec, pm_Message := msg\<rparr>) = pm_ID m" for m
    using annotated_metric_ok [of m ec msg] assms(2,3) by (simp add: metric.validator_sound)
  note M = metric.wf_store_annotate [OF upd m]
    and N = node.wf_store_annotate [OF annotated_node_ok [OF _ assms(2,3)] n]
    and V = service.wf_store_annotate [OF annotated_service_ok [OF _ assms(2,3)] v]
  show ?thesis
    using assms(1) M N V
    by (auto simp: annotated_def annotate_node_def annotate_service_def Let_def case_prod_beta inv_def
        wf_owned_def wf_store_def length_mkeys)
qed

lemma inv_ApplyConnectorError:
  assumes "inv c" "text_ok msg 160"
  shows "inv (snd (ApplyConnectorError c cid ec msg))"
proof (cases "cid = [] \<or> ec = ErrNone \<or> \<not> ErrorClass_Valid ec")
  case True
  then show ?thesis using assms(1) by (auto simp: ApplyConnectorError_def)
next
  case False
  then have "error_class_ok ec" by (simp add: ErrorClass_Valid_def error_class_ok_def)
  from inv_annotated [OF assms(1) this assms(2)] show ?thesis
    using False ApplyConnectorError_ok [OF assms(1) _ _ _ assms(2)] by simp
qed

section \<open>Operations as steps, versions\<close>

datatype state_op =
    OpHomeLab string HomeLabReport
  | OpMetrics u64 "ProviderMetric list"
  | OpConnectorMetrics string u64 "ProviderMetric list"
  | OpError string ErrorClass string
  | OpHealth ConnectorHealth

fun state_step :: "Current \<Rightarrow> state_op \<Rightarrow> Current" where
  "state_step c (OpHomeLab cid report) = snd (ApplyConnectorHomeLab c cid report)"
| "state_step c (OpMetrics s ms) = snd (ApplyMetrics c s ms)"
| "state_step c (OpConnectorMetrics cid s ms) = snd (ApplyConnectorMetrics c cid s ms)"
| "state_step c (OpError cid ec msg) = snd (ApplyConnectorError c cid ec msg)"
| "state_step c (OpHealth h) = snd (ApplyHealth c h)"

text \<open>A failure message the store is asked to record fits the wire format.\<close>

fun printable_op :: "state_op \<Rightarrow> bool" where
  "printable_op (OpError cid ec msg) \<longleftrightarrow> text_ok msg 160"
| "printable_op _ \<longleftrightarrow> True"

lemma inv_state_step: "inv c \<Longrightarrow> printable_op op \<Longrightarrow> inv (state_step c op)"
  by (cases op)
    (simp_all add: inv_ApplyConnectorHomeLab inv_ApplyMetrics inv_ApplyConnectorMetrics
      inv_ApplyConnectorError inv_ApplyHealth)

text \<open>A change is counted exactly when the maps change.\<close>

lemma remove_metric_count:
  "remove_metric cid s seen e st = st \<or> maps_count (remove_metric cid s seen e st) = maps_count st + 1"
  by (cases st; cases e) (auto simp: remove_metric_def maps_count_def)

lemma store_metric_count:
  "store_metric cid s m st = st \<or> maps_count (store_metric cid s m st) = maps_count st + 1"
  by (cases st) (auto simp: store_metric_def maps_count_def)

lemma fold_counted:
  assumes "\<And>x st. f x st = st \<or> maps_count (f x st) = maps_count st + (1 :: nat)"
  shows "maps_count st \<le> maps_count (fold f xs st)"
    and "maps_count (fold f xs st) = maps_count st \<Longrightarrow> fold f xs st = st"
proof (induction xs arbitrary: st)
  case (Cons x xs)
  {
    case 1
    from assms [of x st] Cons.IH(1) [of "f x st"] show ?case by auto
  next
    case 2
    from assms [of x st] Cons.IH(1) [of "f x st"] 2 have "f x st = st" by auto
    with 2 Cons.IH(2) show ?case by simp
  }
qed simp_all

lemma batch_removed_unchanged:
  "maps_count (batch_removed c cid s ms) = 0 \<Longrightarrow>
   batch_removed c cid s ms = (cur_metrics c, cur_metricOwners c, cur_observedSeq c, 0)"
  using fold_counted(2) [where f = "remove_metric cid s (map pm_ID ms)", OF remove_metric_count]
  by (auto simp: batch_removed_def maps_count_def split: if_splits)

lemma batch_stored_unchanged:
  "maps_count (batch_stored cid s ms (a, b, d, n)) = 0 \<Longrightarrow> batch_stored cid s ms (a, b, d, n) = (a, b, d, 0)"
  using fold_counted(2) [where f = "store_metric cid s" and st = "(a, b, d, 0)", OF store_metric_count]
  by (auto simp: batch_stored_def maps_count_def)

lemma applyMetrics_version:
  "snd (applyMetrics c cid s ms) = c \<or> cur_version (snd (applyMetrics c cid s ms)) = cur_version c + 1"
proof (cases "batch_error ms")
  case None
  show ?thesis
  proof (cases "maps_count (batch_stored cid s ms (batch_removed c cid s ms)) = 0 \<and>
      maps_count (batch_removed c cid s ms) = 0")
    case True
    then have "batch_stored cid s ms (batch_removed c cid s ms) =
        (cur_metrics c, cur_metricOwners c, cur_observedSeq c, 0)"
      using batch_removed_unchanged batch_stored_unchanged by metis
    with True None show ?thesis by (simp add: applyMetrics_eq Let_def with_metrics_def)
  next
    case False
    with None show ?thesis
      by (auto simp: applyMetrics_eq Let_def with_metrics_def bump_version_def split: prod.splits)
  qed
qed (simp add: applyMetrics_eq)

lemma annotated_unchanged: "snd (annotated c cid ec msg) = 0 \<Longrightarrow> fst (annotated c cid ec msg) = c"
proof -
  let ?M = "fold (annotate_metric cid ec msg) (cur_metricOwners c) (cur_metrics c, 0)"
  let ?N = "fold (annotate_node cid ec msg) (cur_nodeOwners c) (cur_nodes c, snd ?M)"
  let ?V = "fold (annotate_service cid ec msg) (cur_serviceOwners c) (cur_services c, snd ?N)"
  have le: "snd ?M \<le> snd ?N" "snd ?N \<le> snd ?V"
    unfolding annotate_node_def annotate_service_def
    by (rule node.annotate_count_mono, rule service.annotate_count_mono)
  assume "snd (annotated c cid ec msg) = 0"
  then have "snd ?V = 0" by (simp add: annotated_def Let_def case_prod_beta)
  with le have z: "snd ?M = 0" "snd ?N = snd ?M" "snd ?V = snd ?N" by auto
  have "fst ?M = cur_metrics c" using z(1) by (rule metric.annotate_count_zero)
  moreover have "fst ?N = cur_nodes c"
    using z(2) unfolding annotate_node_def by (rule node.annotate_count_zero)
  moreover have "fst ?V = cur_services c"
    using z(3) unfolding annotate_service_def by (rule service.annotate_count_zero)
  ultimately show ?thesis by (simp add: annotated_def Let_def case_prod_beta)
qed

lemma cur_version_annotated [simp]: "cur_version (fst (annotated c cid ec msg)) = cur_version c"
  by (simp add: annotated_def Let_def case_prod_beta)

lemma state_step_version:
  assumes "inv c" "printable_op op"
  shows "state_step c op = c \<or> cur_version (state_step c op) = cur_version c + 1"
proof (cases op)
  case (OpHomeLab cid report)
  then show ?thesis
    by (cases "homelab_report_error c cid report")
      (simp_all add: ApplyConnectorHomeLab_ok bump_version_def, simp add: ApplyConnectorHomeLab_def)
next
  case (OpMetrics s ms)
  then show ?thesis using applyMetrics_version by (simp add: ApplyMetrics_def)
next
  case (OpConnectorMetrics cid s ms)
  then show ?thesis using applyMetrics_version by (simp add: ApplyConnectorMetrics_def)
next
  case (OpError cid ec msg)
  show ?thesis
  proof (cases "cid = [] \<or> ec = ErrNone \<or> \<not> ErrorClass_Valid ec")
    case True
    with OpError show ?thesis by (auto simp: ApplyConnectorError_def)
  next
    case False
    with OpError assms annotated_unchanged [of c cid ec msg] show ?thesis
      by (auto simp: ApplyConnectorError_ok bump_version_def)
  qed
next
  case (OpHealth h)
  then show ?thesis by (auto simp: ApplyHealth_def bump_version_def split: option.splits)
qed

interpretation current: versioned_machine state_step inv printable_op cur_version
  by unfold_locales (simp_all add: inv_state_step state_step_version)

section \<open>What the operations do to the lookups\<close>

subsection \<open>Reports replace what the connector owned, and nothing else\<close>

lemma find_entity:
  assumes "distinct (map ident xs)" "x \<in> set xs"
  shows "find (\<lambda>y. ident y = ident x) xs = Some x"
  using assms by (induction xs) (auto simp: image_iff)

lemma find_entity_None: "find (\<lambda>y. ident y = k) xs = None \<longleftrightarrow> k \<notin> ident ` set xs"
  by (auto simp: find_None_iff)

lemma merge_node_local:
  "mget nodes (hn_ID n) = mget nodes' (hn_ID n) \<Longrightarrow> merge_node nodes n = merge_node nodes' n"
  by (simp add: merge_node_def)

lemma replace_nodes_lookup:
  assumes wf: "wf_owned hn_ID node_ok (nodes, owners)" and dist: "distinct (map hn_ID ns)"
  shows "mget (fst (replace_nodes cid ns (nodes, owners))) k =
     (case find (\<lambda>n. hn_ID n = k) ns of
        Some n \<Rightarrow> Some (merge_node nodes n)
      | None \<Rightarrow> if mget owners k = Some cid then None else mget nodes k)"
proof -
  let ?d = "drop_unreported cid (map hn_ID ns) owners (nodes, owners)"
  show ?thesis
  proof (cases "find (\<lambda>n. hn_ID n = k) ns")
    case None
    then have k: "k \<notin> hn_ID ` set ns" by (simp add: find_entity_None)
    have "mget (fst (replace_nodes cid ns (nodes, owners))) k = mget (fst ?d) k"
      unfolding replace_nodes_def store_node_def prod.case by (rule node.fold_upsert_other [OF k])
    with None k show ?thesis by (simp add: node.drop_lookup [OF wf] owned_keys_def)
  next
    case (Some n)
    then have n: "n \<in> set ns" "hn_ID n = k" by (auto simp: find_Some_iff)
    have "mget (fst (replace_nodes cid ns (nodes, owners))) (hn_ID n) = Some (merge_node (fst ?d) n)"
      unfolding replace_nodes_def store_node_def prod.case
      using merge_node_local dist n(1) by (rule node.fold_upsert_reported)
    moreover have "merge_node (fst ?d) n = merge_node nodes n"
      using n(1) by (intro merge_node_local) (simp add: node.drop_lookup [OF wf])
    ultimately show ?thesis using Some n(2) by simp
  qed
qed

lemma replace_services_lookup:
  assumes wf: "wf_owned hs_ID service_ok (services, owners)" and dist: "distinct (map hs_ID vs)"
  shows "mget (fst (replace_services cid vs (services, owners))) k =
     (case find (\<lambda>v. hs_ID v = k) vs of
        Some v \<Rightarrow> Some v
      | None \<Rightarrow> if mget owners k = Some cid then None else mget services k)"
proof (cases "find (\<lambda>v. hs_ID v = k) vs")
  case None
  then have k: "k \<notin> hs_ID ` set vs" by (simp add: find_entity_None)
  have "mget (fst (replace_services cid vs (services, owners))) k =
      mget (fst (drop_unreported cid (map hs_ID vs) owners (services, owners))) k"
    unfolding replace_services_def store_service_def prod.case by (rule service.fold_upsert_other [OF k])
  with None k show ?thesis by (simp add: service.drop_lookup [OF wf] owned_keys_def)
next
  case (Some v)
  then have v: "v \<in> set vs" "hs_ID v = k" by (auto simp: find_Some_iff)
  have "mget (fst (replace_services cid vs (services, owners))) (hs_ID v) = Some v"
    unfolding replace_services_def store_service_def prod.case
    using dist v(1) by (intro service.fold_upsert_reported) simp_all
  with Some v(2) show ?thesis by simp
qed

subsection \<open>Batches are last-writer-wins by sequence number\<close>

lemma fold_store_metric_lookup:
  "distinct (map pm_ID ms) \<Longrightarrow>
   fold (store_metric cid s) ms (metrics, owners, seqs, n) = (metrics', owners', seqs', n') \<Longrightarrow>
   mget metrics' k = (case find (\<lambda>m. pm_ID m = k) ms of
      Some m \<Rightarrow> if outdated seqs k s then mget metrics k else Some m
    | None \<Rightarrow> mget metrics k) \<and>
   mget seqs' k = (case find (\<lambda>m. pm_ID m = k) ms of
      Some m \<Rightarrow> if outdated seqs k s then mget seqs k else Some s
    | None \<Rightarrow> mget seqs k)"
proof (induction ms arbitrary: metrics owners seqs n)
  case (Cons m ms)
  obtain metrics1 owners1 seqs1 n1 where
    st: "store_metric cid s m (metrics, owners, seqs, n) = (metrics1, owners1, seqs1, n1)"
    by (cases "store_metric cid s m (metrics, owners, seqs, n)") auto
  have one: "mget metrics1 j = (if j = pm_ID m \<and> \<not> outdated seqs j s then Some m else mget metrics j)"
    "mget seqs1 j = (if j = pm_ID m \<and> \<not> outdated seqs j s then Some s else mget seqs j)" for j
    using st by (auto simp: store_metric_def mget_put split: if_splits)
  have IH: "mget metrics' k = (case find (\<lambda>m. pm_ID m = k) ms of
      Some m \<Rightarrow> if outdated seqs1 k s then mget metrics1 k else Some m | None \<Rightarrow> mget metrics1 k) \<and>
    mget seqs' k = (case find (\<lambda>m. pm_ID m = k) ms of
      Some m \<Rightarrow> if outdated seqs1 k s then mget seqs1 k else Some s | None \<Rightarrow> mget seqs1 k)"
    using Cons.prems st by (intro Cons.IH) simp_all
  show ?case
  proof (cases "pm_ID m = k")
    case True
    with Cons.prems(1) have "find (\<lambda>m. pm_ID m = k) ms = None" by (auto simp: find_entity_None)
    with IH True show ?thesis by (simp add: one)
  next
    case False
    then have "outdated seqs1 k s = outdated seqs k s" by (simp add: outdated_def one)
    with IH False show ?thesis by (auto simp: one split: option.splits)
  qed
qed simp

lemma ApplyMetrics_lookup:
  "mget (cur_metrics (snd (ApplyMetrics c s ms))) k =
     (case (if batch_error ms = None then find (\<lambda>m. pm_ID m = k) ms else None) of
        Some m \<Rightarrow> if outdated (cur_observedSeq c) k s then mget (cur_metrics c) k else Some m
      | None \<Rightarrow> mget (cur_metrics c) k)"
  "mget (cur_observedSeq (snd (ApplyMetrics c s ms))) k =
     (case (if batch_error ms = None then find (\<lambda>m. pm_ID m = k) ms else None) of
        Some m \<Rightarrow> if outdated (cur_observedSeq c) k s then mget (cur_observedSeq c) k else Some s
      | None \<Rightarrow> mget (cur_observedSeq c) k)"
proof -
  obtain metrics owners seqs n where
    st: "fold (store_metric [] s) ms (cur_metrics c, cur_metricOwners c, cur_observedSeq c, 0) =
      (metrics, owners, seqs, n)"
    by (cases "fold (store_metric [] s) ms (cur_metrics c, cur_metricOwners c, cur_observedSeq c, 0)") auto
  have "batch_error ms = None \<Longrightarrow> distinct (map pm_ID ms)" by (simp add: batch_error_None)
  with fold_store_metric_lookup [OF _ st, of k]
  show "mget (cur_metrics (snd (ApplyMetrics c s ms))) k =
     (case (if batch_error ms = None then find (\<lambda>m. pm_ID m = k) ms else None) of
        Some m \<Rightarrow> if outdated (cur_observedSeq c) k s then mget (cur_metrics c) k else Some m
      | None \<Rightarrow> mget (cur_metrics c) k)"
    "mget (cur_observedSeq (snd (ApplyMetrics c s ms))) k =
     (case (if batch_error ms = None then find (\<lambda>m. pm_ID m = k) ms else None) of
        Some m \<Rightarrow> if outdated (cur_observedSeq c) k s then mget (cur_observedSeq c) k else Some s
      | None \<Rightarrow> mget (cur_observedSeq c) k)"
    by (auto simp: ApplyMetrics_def applyMetrics_eq batch_removed_def batch_stored_def st
        with_metrics_def bump_version_def Let_def split: option.splits)
qed

lemma ApplyMetrics_commute_lookup:
  assumes "s1 \<noteq> s2"
  shows "mget (cur_metrics (snd (ApplyMetrics (snd (ApplyMetrics c s1 ms1)) s2 ms2))) k =
         mget (cur_metrics (snd (ApplyMetrics (snd (ApplyMetrics c s2 ms2)) s1 ms1))) k"
  using assms by (auto simp: ApplyMetrics_lookup outdated_def split: option.splits if_splits)

subsection \<open>Failures rewrite the annotation of what the connector owns, and nothing else\<close>

lemma annotated_lookup:
  assumes "inv c"
  shows "mget (cur_metrics (fst (annotated c cid ec msg))) k =
      (if mget (cur_metricOwners c) k = Some cid
       then map_option (\<lambda>m. m\<lparr>pm_ErrorClass := ec, pm_Message := msg\<rparr>) (mget (cur_metrics c) k)
       else mget (cur_metrics c) k)"
    and "mget (cur_nodes (fst (annotated c cid ec msg))) k =
      (if mget (cur_nodeOwners c) k = Some cid
       then map_option (\<lambda>n. n\<lparr>hn_ErrorClass := ec, hn_Message := msg\<rparr>) (mget (cur_nodes c) k)
       else mget (cur_nodes c) k)"
    and "mget (cur_services (fst (annotated c cid ec msg))) k =
      (if mget (cur_serviceOwners c) k = Some cid
       then map_option (\<lambda>v. v\<lparr>hs_ErrorClass := ec, hs_Message := msg\<rparr>) (mget (cur_services c) k)
       else mget (cur_services c) k)"
proof -
  have m: "wf_map (cur_metricOwners c)" "mkeys (cur_metricOwners c) \<subseteq> mkeys (cur_metrics c)"
    and n: "wf_map (cur_nodeOwners c)" "mkeys (cur_nodeOwners c) \<subseteq> mkeys (cur_nodes c)"
    and v: "wf_map (cur_serviceOwners c)" "mkeys (cur_serviceOwners c) \<subseteq> mkeys (cur_services c)"
    using assms by (simp_all add: inv_def wf_owned_def)
  have um: "pm_ErrorClass x = ec \<and> pm_Message x = msg \<Longrightarrow>
      x\<lparr>pm_ErrorClass := ec, pm_Message := msg\<rparr> = x" for x by auto
  have un: "hn_ErrorClass x = ec \<and> hn_Message x = msg \<Longrightarrow>
      x\<lparr>hn_ErrorClass := ec, hn_Message := msg\<rparr> = x" for x by auto
  have uv: "hs_ErrorClass x = ec \<and> hs_Message x = msg \<Longrightarrow>
      x\<lparr>hs_ErrorClass := ec, hs_Message := msg\<rparr> = x" for x by auto
  note M = fold_annotate_owned [OF m um] and N = fold_annotate_owned [OF n un]
    and V = fold_annotate_owned [OF v uv]
  show "mget (cur_metrics (fst (annotated c cid ec msg))) k =
      (if mget (cur_metricOwners c) k = Some cid
       then map_option (\<lambda>m. m\<lparr>pm_ErrorClass := ec, pm_Message := msg\<rparr>) (mget (cur_metrics c) k)
       else mget (cur_metrics c) k)"
    by (simp add: annotated_def Let_def case_prod_beta M)
  show "mget (cur_nodes (fst (annotated c cid ec msg))) k =
      (if mget (cur_nodeOwners c) k = Some cid
       then map_option (\<lambda>n. n\<lparr>hn_ErrorClass := ec, hn_Message := msg\<rparr>) (mget (cur_nodes c) k)
       else mget (cur_nodes c) k)"
    by (simp add: annotated_def annotate_node_def Let_def case_prod_beta N)
  show "mget (cur_services (fst (annotated c cid ec msg))) k =
      (if mget (cur_serviceOwners c) k = Some cid
       then map_option (\<lambda>v. v\<lparr>hs_ErrorClass := ec, hs_Message := msg\<rparr>) (mget (cur_services c) k)
       else mget (cur_services c) k)"
    by (simp add: annotated_def annotate_service_def Let_def case_prod_beta V)
qed

section \<open>Snapshots of reachable states\<close>

lemma state_step_ids:
  "cur_nodeID (state_step c op) = cur_nodeID c \<and> cur_nodeLabel (state_step c op) = cur_nodeLabel c \<and>
   cur_epoch (state_step c op) = cur_epoch c"
  by (cases op)
    (auto simp: ApplyConnectorHomeLab_def ApplyMetrics_def ApplyConnectorMetrics_def applyMetrics_eq
      ApplyConnectorError_def ApplyHealth_def bump_version_def with_metrics_def Let_def
      split: option.splits prod.splits)

lemma run_ids:
  "cur_nodeID (run state_step c ops) = cur_nodeID c \<and>
   cur_nodeLabel (run state_step c ops) = cur_nodeLabel c \<and>
   cur_epoch (run state_step c ops) = cur_epoch c"
  by (induction ops arbitrary: c) (simp_all add: state_step_ids)

lemma schema_ok_current: "schema_ok SchemaVersion"
  by (simp add: schema_ok_def SchemaVersion_def SchemaMajor_def atoi_def is_digit_def digits_value_def
      digit_value_def in_int64_def Let_def)

lemma Snapshot_ok:
  assumes "inv c" "ident_ok (cur_epoch c)" "ident_ok (cur_nodeID c)" "text_ok (cur_nodeLabel c) 64" "now \<noteq> 0"
  shows "snapshot_ok (Snapshot c now)"
  using assms schema_ok_current
  by (auto simp: snapshot_ok_def Snapshot_def inv_def wf_owned_def metric.distinct_listing
      node.distinct_listing service.distinct_listing metric.length_listing
      node.length_listing service.length_listing
      dest: metric.listing_valid node.listing_valid service.listing_valid health.listing_valid)

section \<open>Properties\<close>

definition example_current :: Current where
  "example_current = \<lparr>cur_nodeID = ''node-1'', cur_nodeLabel = ''Desk'', cur_epoch = ''e1'',
     cur_version = 0, cur_metrics = [], cur_observedSeq = [], cur_metricOwners = [], cur_health = [],
     cur_nodes = [], cur_services = [], cur_nodeOwners = [], cur_serviceOwners = []\<rparr>"

definition example_ops :: "state_op list" where
  "example_ops = [OpConnectorMetrics ''deepseek'' 1 [example_metric],
     OpError ''deepseek'' ErrTimeout ''request timed out'']"

lemma example_current_New: "New_Current ''node-1'' ''Desk'' ''e1'' = Inr example_current"
  by (simp add: New_Current_def example_current_def)

lemma inv_example: "inv example_current"
  using example_current_New by (rule inv_New)

text \<open>
  C7. Everything the daemon publishes validates: from a fresh store whose node identifier, epoch and
  label are well formed, after any sequence of batches, reports, failures with a printable message
  and health records, accepted or refused, the snapshot passes the receiver's \<open>Validate\<close>.
\<close>

theorem published_snapshot_valid:
  assumes "New_Current nodeID label epoch = Inr c" "ident_ok nodeID" "ident_ok epoch" "text_ok label 64"
    and "list_all printable_op ops" "now \<noteq> 0"
  shows "MetricSnapshot_Validate (Some (Snapshot (run state_step c ops) now)) = None"
proof -
  have "inv (run state_step c ops)"
    using inv_New [OF assms(1)] assms(5) by (rule current.run_inv)
  moreover have "ident_ok (cur_nodeID c)" "ident_ok (cur_epoch c)" "text_ok (cur_nodeLabel c) 64"
    using assms(1-4) ident_ok_text_ok [of nodeID] by (auto simp: New_Current_def split: if_splits)
  ultimately show ?thesis
    using Snapshot_ok [of "run state_step c ops" now] run_ids [of c ops] assms(6)
    by (simp add: MetricSnapshot_Validate_iff)
qed

theorem published_snapshot_valid_witness:
  "MetricSnapshot_Validate (Some (Snapshot (run state_step example_current example_ops) 7)) = None"
  by (rule published_snapshot_valid [OF example_current_New])
    (simp_all add: ident_ok_def text_ok_def is_ident_char_def is_lower_def is_upper_def is_digit_def
      is_control_def example_ops_def)

text \<open>
  C24. The version identifies the data: in one life of the daemon no sequence of fewer than
  \<open>2^64\<close> operations changes the published state without changing the version, so a device that
  holds the current version misses nothing.
\<close>

theorem version_identifies_state:
  assumes "inv c" "list_all printable_op ops" "length ops < 2 ^ 64"
    and "cur_version (run state_step c ops) = cur_version c"
  shows "run state_step c ops = c"
  using assms by (rule current.same_version_same_state)

theorem version_identifies_state_witness:
  "run state_step example_current [OpConnectorMetrics [] 1 [example_metric], OpMetrics 2 []] = example_current"
proof -
  have "cur_version (run state_step example_current [OpConnectorMetrics [] 1 [example_metric], OpMetrics 2 []]) =
      cur_version example_current"
    by (simp add: ApplyConnectorMetrics_def ApplyMetrics_def applyMetrics_def)
  then show ?thesis
    by (intro version_identifies_state) (simp_all add: inv_example)
qed

text \<open>
  A HomeLab report replaces exactly what its connector owned: after an accepted report every
  reported node holds the reported values (an offline node keeping the values it does not report),
  nodes the connector owned and no longer reports are gone, every other node and service is as before.
\<close>

theorem homelab_report_replaces_owned:
  assumes "inv c" "ApplyConnectorHomeLab c cid report = (Inr (), c')"
  shows "mget (cur_nodes c') k =
           (case find (\<lambda>n. hn_ID n = k) (hr_Nodes report) of
              Some n \<Rightarrow> Some (merge_node (cur_nodes c) n)
            | None \<Rightarrow> if mget (cur_nodeOwners c) k = Some cid then None else mget (cur_nodes c) k) \<and>
         mget (cur_services c') k =
           (case find (\<lambda>v. hs_ID v = k) (hr_Services report) of
              Some v \<Rightarrow> Some v
            | None \<Rightarrow> if mget (cur_serviceOwners c) k = Some cid then None else mget (cur_services c) k)"
proof -
  have none: "homelab_report_error c cid report = None"
    using assms(2) by (auto simp: ApplyConnectorHomeLab_def split: option.splits)
  have c': "c' = snd (ApplyConnectorHomeLab c cid report)" using assms(2) by simp
  have "wf_owned hn_ID node_ok (cur_nodes c, cur_nodeOwners c)"
    "wf_owned hs_ID service_ok (cur_services c, cur_serviceOwners c)"
    using assms(1) by (simp_all add: inv_def)
  with homelab_report_error_None [OF none] show ?thesis
    unfolding c' ApplyConnectorHomeLab_ok [OF none]
    by (simp add: bump_version_def replace_nodes_lookup replace_services_lookup)
qed

definition example_node :: HomeLabNode where
  "example_node = zero_node\<lparr>hn_ID := ''pi'', hn_Name := ''pi'', hn_Online := Some True,
     hn_CPUPercent := Some 12, hn_ObservedAt := 5, hn_Status := StatusOK\<rparr>"

theorem homelab_report_replaces_owned_witness:
  "mget (cur_nodes (snd (ApplyConnectorHomeLab example_current ''prom'' \<lparr>hr_Nodes = [example_node], hr_Services = []\<rparr>))) ''pi'' =
     (case find (\<lambda>n. hn_ID n = ''pi'') [example_node] of
        Some n \<Rightarrow> Some (merge_node (cur_nodes example_current) n)
      | None \<Rightarrow> if mget (cur_nodeOwners example_current) ''pi'' = Some ''prom'' then None
                else mget (cur_nodes example_current) ''pi'')"
proof -
  let ?r = "\<lparr>hr_Nodes = [example_node], hr_Services = []\<rparr>"
  have "node_ok example_node"
    by (simp add: node_ok_def example_node_def zero_node_def ident_ok_def text_ok_def is_ident_char_def
        is_lower_def is_control_def in_range_def nonneg_def metricStatuses_def error_class_ok_def errorClasses_def)
  then have "HomeLabNode_Validate example_node = None" by (simp add: node.validator_sound)
  then have "homelab_report_error example_current ''prom'' ?r = None"
    by (simp add: homelab_report_error_def example_current_def count_owned_def foreign_owner_def
        MaxHomeLabNodes_def MaxHomeLabServices_def)
  then have "ApplyConnectorHomeLab example_current ''prom'' ?r =
      (Inr (), snd (ApplyConnectorHomeLab example_current ''prom'' ?r))"
    by (simp add: ApplyConnectorHomeLab_ok)
  from homelab_report_replaces_owned [OF inv_example this, of "''pi''"] show ?thesis by simp
qed

text \<open>
  Late responses cannot win: two batches applied in either order publish the same metrics, the
  reading with the higher sequence number for every metric both carry.
\<close>

theorem batches_commute:
  assumes "inv c" "s1 \<noteq> s2"
  shows "ms_Metrics (Snapshot (snd (ApplyMetrics (snd (ApplyMetrics c s1 ms1)) s2 ms2)) now) =
         ms_Metrics (Snapshot (snd (ApplyMetrics (snd (ApplyMetrics c s2 ms2)) s1 ms1)) now)"
proof -
  let ?a = "cur_metrics (snd (ApplyMetrics (snd (ApplyMetrics c s1 ms1)) s2 ms2))"
  let ?b = "cur_metrics (snd (ApplyMetrics (snd (ApplyMetrics c s2 ms2)) s1 ms1))"
  have "inv (snd (ApplyMetrics (snd (ApplyMetrics c s1 ms1)) s2 ms2))"
    "inv (snd (ApplyMetrics (snd (ApplyMetrics c s2 ms2)) s1 ms1))"
    using assms(1) by (simp_all add: inv_ApplyMetrics)
  then have "wf_store pm_ID metric_ok ?a" "wf_store pm_ID metric_ok ?b"
    by (simp_all only: inv_def)
  moreover have "map_of ?a = map_of ?b"
    using ApplyMetrics_commute_lookup [OF assms(2)] by blast
  ultimately show ?thesis
    unfolding Snapshot_def MetricSnapshot.simps by (rule metric.listing_order_independent)
qed

theorem batches_commute_witness:
  "ms_Metrics (Snapshot (snd (ApplyMetrics (snd (ApplyMetrics example_current 1 [example_metric])) 2
      [example_metric\<lparr>pm_Value := None\<rparr>])) 9) =
   ms_Metrics (Snapshot (snd (ApplyMetrics (snd (ApplyMetrics example_current 2
      [example_metric\<lparr>pm_Value := None\<rparr>])) 1 [example_metric])) 9)"
  by (rule batches_commute) (simp_all add: inv_example)

text \<open>
  A failed collection keeps the last good values: recording a classified failure with a
  printable message sets the error class and message of every metric, node and service of that
  connector and changes nothing else about any metric, node or service.
\<close>

theorem failure_keeps_values:
  assumes "inv c" "cid \<noteq> []" "ec \<noteq> ErrNone" "ErrorClass_Valid ec" "text_ok msg 160"
    and "ApplyConnectorError c cid ec msg = (r, c')"
  shows "mget (cur_metrics c') k =
      (if mget (cur_metricOwners c) k = Some cid
       then map_option (\<lambda>m. m\<lparr>pm_ErrorClass := ec, pm_Message := msg\<rparr>) (mget (cur_metrics c) k)
       else mget (cur_metrics c) k) \<and>
    mget (cur_nodes c') k =
      (if mget (cur_nodeOwners c) k = Some cid
       then map_option (\<lambda>n. n\<lparr>hn_ErrorClass := ec, hn_Message := msg\<rparr>) (mget (cur_nodes c) k)
       else mget (cur_nodes c) k) \<and>
    mget (cur_services c') k =
      (if mget (cur_serviceOwners c) k = Some cid
       then map_option (\<lambda>v. v\<lparr>hs_ErrorClass := ec, hs_Message := msg\<rparr>) (mget (cur_services c) k)
       else mget (cur_services c) k)"
proof -
  have "c' = (if snd (annotated c cid ec msg) > 0 then bump_version (fst (annotated c cid ec msg))
      else fst (annotated c cid ec msg))"
    using ApplyConnectorError_ok [OF assms(1-5)] assms(6) by simp
  then show ?thesis
    using annotated_lookup [OF assms(1), of cid ec msg k] by (simp add: bump_version_def)
qed

definition example_filled :: Current where
  "example_filled = snd (ApplyConnectorMetrics example_current ''deepseek'' 1 [example_metric])"

theorem failure_keeps_values_witness:
  "mget (cur_metrics (snd (ApplyConnectorError example_filled ''deepseek'' ErrTimeout ''timed out''))) ''deepseek.balance'' =
     (if mget (cur_metricOwners example_filled) ''deepseek.balance'' = Some ''deepseek''
      then map_option (\<lambda>m. m\<lparr>pm_ErrorClass := ErrTimeout, pm_Message := ''timed out''\<rparr>)
             (mget (cur_metrics example_filled) ''deepseek.balance'')
      else mget (cur_metrics example_filled) ''deepseek.balance'')"
proof -
  have "inv example_filled" by (simp add: example_filled_def inv_ApplyConnectorMetrics inv_example)
  moreover have "ErrorClass_Valid ErrTimeout" by (simp add: ErrorClass_Valid_def errorClasses_def)
  moreover have "text_ok ''timed out'' 160" by (simp add: text_ok_def is_control_def)
  ultimately show ?thesis
    using failure_keeps_values [of example_filled "''deepseek''" ErrTimeout "''timed out''",
        OF _ _ _ _ _ prod.collapse [symmetric], THEN conjunct1]
    by blast
qed

text \<open>
  Recording a failure whose message does not fit the wire format: the metrics refuse it as a whole,
  but nodes and services take it unchecked, and from then on the published snapshot is invalid.
\<close>

lemma bad_message_refused:
  assumes "inv c" "cid \<noteq> []" "ec \<noteq> ErrNone" "ErrorClass_Valid ec" "\<not> text_ok msg 160"
    and "mget (cur_metricOwners c) k = Some cid"
  shows "\<exists>e. ApplyConnectorError c cid ec msg = (Inl e, c)"
proof -
  have ec: "error_class_ok ec" using assms(4) by (simp add: ErrorClass_Valid_def error_class_ok_def)
  have m: "wf_store pm_ID metric_ok (cur_metrics c)" "mkeys (cur_metricOwners c) \<subseteq> mkeys (cur_metrics c)"
    using assms(1) by (simp_all add: inv_def)
  have stop: "fst (annotate_metrics cid ec msg es (cur_metrics c, n)) \<noteq> None"
    if "(k, cid) \<in> set es" "mkeys es \<subseteq> mkeys (cur_metrics c)" for es n
    using that
  proof (induction es)
    case (Cons e es)
    obtain j owner where e: "e = (j, owner)" by (cases e)
    obtain x where x: "mget (cur_metrics c) j = Some x"
      using Cons.prems(2) key_mget_Some [of j "cur_metrics c"] by (auto simp: e mkeys_def)
    have ok: "metric_ok x" using metric.wf_store_get [OF m(1) x] by simp
    have "ProviderMetric_Validate (x\<lparr>pm_ErrorClass := ec, pm_Message := msg\<rparr>) \<noteq> None"
      using annotated_metric_ok [OF ok ec] assms(5) by simp
    moreover have "pm_Message x \<noteq> msg" using ok assms(5) by (auto simp: metric_ok_def)
    moreover have "mkeys es \<subseteq> mkeys (cur_metrics c)" using Cons.prems(2) by (auto simp: mkeys_def)
    ultimately show ?case using Cons x by (auto simp: e get_or_def Let_def)
  qed simp
  obtain err metrics n where
    res: "annotate_metrics cid ec msg (cur_metricOwners c) (cur_metrics c, 0) = (err, metrics, n)"
    by (cases "annotate_metrics cid ec msg (cur_metricOwners c) (cur_metrics c, 0)") auto
  have "(k, cid) \<in> set (cur_metricOwners c)" using assms(6) by (rule map_of_SomeD)
  with stop [of "cur_metricOwners c" 0] res m(2) have "err \<noteq> None" by simp
  moreover have "metrics = cur_metrics c"
    using annotate_metrics_bad_message [OF ec assms(5) m res] by simp
  ultimately show ?thesis
    using assms(2-4) res by (auto simp: ApplyConnectorError_def)
qed

end
