(* ===== verification/Wire.thy ===== *)
theory Wire
  imports JsonText CurrentState
begin

text \<open>
  \<open>internal/protocol/wire.go\<close> and the JSON shape of \<open>snapshot.go\<close> and \<open>homelab.go\<close>: the envelope of
  every stream message, its payloads, and the decoding of a snapshot. Structs are decoded leniently:
  unknown members are ignored. A list member that occurs again decodes into the elements it already
  has, as \<open>encoding/json\<close> does; spare capacity left by a still longer earlier list is not modelled.
\<close>

section \<open>Setters for the field types of a snapshot\<close>

definition set_duration :: "(duration \<Rightarrow> 'r \<Rightarrow> 'r) \<Rightarrow> 'r setter" where
  "set_duration upd raw v r = map_option (\<lambda>d. upd d r) (Duration_UnmarshalJSON raw)"

text \<open>
  \<open>Decimal.UnmarshalJSON\<close> unquotes a string literal and parses it; \<open>strconv.Unquote\<close> and JSON differ on
  escapes that give no character of a decimal, so the value of the literal is parsed here.
\<close>

definition Decimal_UnmarshalJSON :: "json \<Rightarrow> decimal option" where
  "Decimal_UnmarshalJSON v =
     (case v of
        JString s \<Rightarrow> (case Parse s of Inl _ \<Rightarrow> None | Inr d \<Rightarrow> Some d)
      | JNumber t \<Rightarrow> (case Parse t of Inl _ \<Rightarrow> None | Inr d \<Rightarrow> Some d)
      | _ \<Rightarrow> None)"

definition set_decimal_ptr :: "(decimal option \<Rightarrow> 'r \<Rightarrow> 'r) \<Rightarrow> 'r setter" where
  "set_decimal_ptr upd raw v r =
     (case v of JNull \<Rightarrow> Some (upd None r) | _ \<Rightarrow> map_option (\<lambda>d. upd (Some d) r) (Decimal_UnmarshalJSON v))"

definition set_bool_ptr :: "(bool option \<Rightarrow> 'r \<Rightarrow> 'r) \<Rightarrow> 'r setter" where
  "set_bool_ptr upd raw v r =
     (case v of JNull \<Rightarrow> Some (upd None r) | JBool b \<Rightarrow> Some (upd (Some b) r) | _ \<Rightarrow> None)"

definition set_int_ptr :: "(int option \<Rightarrow> 'r \<Rightarrow> 'r) \<Rightarrow> 'r setter" where
  "set_int_ptr upd raw v r =
     (case v of
        JNull \<Rightarrow> Some (upd None r)
      | JNumber t \<Rightarrow> map_option (\<lambda>n. upd (Some n) r) (atoi t)
      | _ \<Rightarrow> None)"

fun decode_elements :: "'e fields \<Rightarrow> 'e \<Rightarrow> 'e list \<Rightarrow> json list \<Rightarrow> 'e list option" where
  "decode_elements fs zero olds [] = Some []"
| "decode_elements fs zero olds (v # vs) =
     (case decode_struct False fs v (case olds of [] \<Rightarrow> zero | x # _ \<Rightarrow> x) of
        None \<Rightarrow> None
      | Some e \<Rightarrow> map_option ((#) e) (decode_elements fs zero (case olds of [] \<Rightarrow> [] | _ # xs \<Rightarrow> xs) vs))"

definition set_structs ::
  "'e fields \<Rightarrow> 'e \<Rightarrow> ('r \<Rightarrow> 'e list) \<Rightarrow> ('e list \<Rightarrow> 'r \<Rightarrow> 'r) \<Rightarrow> 'r setter" where
  "set_structs fs zero sel upd raw v r =
     (case v of
        JNull \<Rightarrow> Some (upd [] r)
      | JArray vs \<Rightarrow> map_option (\<lambda>es. upd es r) (decode_elements fs zero (sel r) vs)
      | _ \<Rightarrow> None)"

section \<open>Field tables\<close>

definition metric_fields :: "ProviderMetric fields" where
  "metric_fields =
     [(''id'', set_string (\<lambda>v r. r\<lparr>pm_ID := v\<rparr>)),
      (''provider'', set_string (\<lambda>v r. r\<lparr>pm_Provider := v\<rparr>)),
      (''account_label'', set_string (\<lambda>v r. r\<lparr>pm_AccountLabel := v\<rparr>)),
      (''display_name'', set_string (\<lambda>v r. r\<lparr>pm_DisplayName := v\<rparr>)),
      (''metric_kind'', set_string (\<lambda>v r. r\<lparr>pm_MetricKind := v\<rparr>)),
      (''value'', set_decimal_ptr (\<lambda>v r. r\<lparr>pm_Value := v\<rparr>)),
      (''limit'', set_decimal_ptr (\<lambda>v r. r\<lparr>pm_Limit := v\<rparr>)),
      (''unit'', set_string (\<lambda>v r. r\<lparr>pm_Unit := v\<rparr>)),
      (''window'', set_string (\<lambda>v r. r\<lparr>pm_Window := v\<rparr>)),
      (''resets_at'', set_time_ptr (\<lambda>v r. r\<lparr>pm_ResetsAt := v\<rparr>)),
      (''observed_at'', set_time (\<lambda>v r. r\<lparr>pm_ObservedAt := v\<rparr>)),
      (''precision'', set_string (\<lambda>v r. r\<lparr>pm_Precision := v\<rparr>)),
      (''source_kind'', set_string (\<lambda>v r. r\<lparr>pm_SourceKind := v\<rparr>)),
      (''status'', set_string (\<lambda>v r. r\<lparr>pm_Status := v\<rparr>)),
      (''stale_after'', set_duration (\<lambda>v r. r\<lparr>pm_StaleAfter := v\<rparr>)),
      (''error_class'', set_string (\<lambda>v r. r\<lparr>pm_ErrorClass := v\<rparr>)),
      (''derived'', set_strings (\<lambda>v r. r\<lparr>pm_Derived := v\<rparr>)),
      (''message'', set_string (\<lambda>v r. r\<lparr>pm_Message := v\<rparr>)),
      (''order'', set_int (\<lambda>v r. r\<lparr>pm_Order := v\<rparr>)),
      (''group'', set_string (\<lambda>v r. r\<lparr>pm_Group := v\<rparr>))]"

definition health_fields :: "ConnectorHealth fields" where
  "health_fields =
     [(''connector_id'', set_string (\<lambda>v r. r\<lparr>ch_ConnectorID := v\<rparr>)),
      (''provider'', set_string (\<lambda>v r. r\<lparr>ch_Provider := v\<rparr>)),
      (''enabled'', set_bool (\<lambda>v r. r\<lparr>ch_Enabled := v\<rparr>)),
      (''state'', set_string (\<lambda>v r. r\<lparr>ch_State := v\<rparr>)),
      (''last_attempt_at'', set_time_ptr (\<lambda>v r. r\<lparr>ch_LastAttemptAt := v\<rparr>)),
      (''last_success_at'', set_time_ptr (\<lambda>v r. r\<lparr>ch_LastSuccessAt := v\<rparr>)),
      (''next_attempt_at'', set_time_ptr (\<lambda>v r. r\<lparr>ch_NextAttemptAt := v\<rparr>)),
      (''consecutive_failures'', set_int (\<lambda>v r. r\<lparr>ch_ConsecutiveFailures := v\<rparr>)),
      (''error_class'', set_string (\<lambda>v r. r\<lparr>ch_ErrorClass := v\<rparr>)),
      (''message'', set_string (\<lambda>v r. r\<lparr>ch_Message := v\<rparr>))]"

definition node_fields :: "HomeLabNode fields" where
  "node_fields =
     [(''id'', set_string (\<lambda>v r. r\<lparr>hn_ID := v\<rparr>)),
      (''name'', set_string (\<lambda>v r. r\<lparr>hn_Name := v\<rparr>)),
      (''online'', set_bool_ptr (\<lambda>v r. r\<lparr>hn_Online := v\<rparr>)),
      (''cpu_percent'', set_int_ptr (\<lambda>v r. r\<lparr>hn_CPUPercent := v\<rparr>)),
      (''memory_percent'', set_int_ptr (\<lambda>v r. r\<lparr>hn_MemoryPercent := v\<rparr>)),
      (''disk_percent'', set_int_ptr (\<lambda>v r. r\<lparr>hn_DiskPercent := v\<rparr>)),
      (''network_receive_bps'', set_int_ptr (\<lambda>v r. r\<lparr>hn_NetworkReceiveBPS := v\<rparr>)),
      (''network_transmit_bps'', set_int_ptr (\<lambda>v r. r\<lparr>hn_NetworkTransmitBPS := v\<rparr>)),
      (''observed_at'', set_time (\<lambda>v r. r\<lparr>hn_ObservedAt := v\<rparr>)),
      (''stale_after'', set_duration (\<lambda>v r. r\<lparr>hn_StaleAfter := v\<rparr>)),
      (''status'', set_string (\<lambda>v r. r\<lparr>hn_Status := v\<rparr>)),
      (''error_class'', set_string (\<lambda>v r. r\<lparr>hn_ErrorClass := v\<rparr>)),
      (''message'', set_string (\<lambda>v r. r\<lparr>hn_Message := v\<rparr>)),
      (''order'', set_int (\<lambda>v r. r\<lparr>hn_Order := v\<rparr>))]"

definition service_fields :: "HomeLabService fields" where
  "service_fields =
     [(''id'', set_string (\<lambda>v r. r\<lparr>hs_ID := v\<rparr>)),
      (''name'', set_string (\<lambda>v r. r\<lparr>hs_Name := v\<rparr>)),
      (''kind'', set_string (\<lambda>v r. r\<lparr>hs_Kind := v\<rparr>)),
      (''version'', set_string (\<lambda>v r. r\<lparr>hs_Version := v\<rparr>)),
      (''api_generation'', set_string (\<lambda>v r. r\<lparr>hs_APIGeneration := v\<rparr>)),
      (''healthy'', set_bool_ptr (\<lambda>v r. r\<lparr>hs_Healthy := v\<rparr>)),
      (''firing_alerts'', set_int_ptr (\<lambda>v r. r\<lparr>hs_FiringAlerts := v\<rparr>)),
      (''environments_total'', set_int_ptr (\<lambda>v r. r\<lparr>hs_EnvironmentsTotal := v\<rparr>)),
      (''environments_online'', set_int_ptr (\<lambda>v r. r\<lparr>hs_EnvironmentsOnline := v\<rparr>)),
      (''containers_running'', set_int_ptr (\<lambda>v r. r\<lparr>hs_ContainersRunning := v\<rparr>)),
      (''containers_stopped'', set_int_ptr (\<lambda>v r. r\<lparr>hs_ContainersStopped := v\<rparr>)),
      (''containers_failed'', set_int_ptr (\<lambda>v r. r\<lparr>hs_ContainersFailed := v\<rparr>)),
      (''stacks'', set_int_ptr (\<lambda>v r. r\<lparr>hs_Stacks := v\<rparr>)),
      (''observed_at'', set_time (\<lambda>v r. r\<lparr>hs_ObservedAt := v\<rparr>)),
      (''stale_after'', set_duration (\<lambda>v r. r\<lparr>hs_StaleAfter := v\<rparr>)),
      (''status'', set_string (\<lambda>v r. r\<lparr>hs_Status := v\<rparr>)),
      (''error_class'', set_string (\<lambda>v r. r\<lparr>hs_ErrorClass := v\<rparr>)),
      (''message'', set_string (\<lambda>v r. r\<lparr>hs_Message := v\<rparr>)),
      (''order'', set_int (\<lambda>v r. r\<lparr>hs_Order := v\<rparr>))]"

definition snapshot_fields :: "MetricSnapshot fields" where
  "snapshot_fields =
     [(''schema_version'', set_string (\<lambda>v r. r\<lparr>ms_SchemaVersion := v\<rparr>)),
      (''source_epoch'', set_string (\<lambda>v r. r\<lparr>ms_SourceEpoch := v\<rparr>)),
      (''snapshot_version'', set_uint64 (\<lambda>v r. r\<lparr>ms_SnapshotVersion := v\<rparr>)),
      (''generated_at'', set_time (\<lambda>v r. r\<lparr>ms_GeneratedAt := v\<rparr>)),
      (''source_node'', set_string (\<lambda>v r. r\<lparr>ms_SourceNode := v\<rparr>)),
      (''source_node_label'', set_string (\<lambda>v r. r\<lparr>ms_SourceNodeLabel := v\<rparr>)),
      (''metrics'', set_structs metric_fields zero_metric ms_Metrics (\<lambda>v r. r\<lparr>ms_Metrics := v\<rparr>)),
      (''connector_health'',
         set_structs health_fields zero_health ms_ConnectorHealth (\<lambda>v r. r\<lparr>ms_ConnectorHealth := v\<rparr>)),
      (''homelab_nodes'',
         set_structs node_fields zero_node ms_HomeLabNodes (\<lambda>v r. r\<lparr>ms_HomeLabNodes := v\<rparr>)),
      (''homelab_services'',
         set_structs service_fields zero_service ms_HomeLabServices (\<lambda>v r. r\<lparr>ms_HomeLabServices := v\<rparr>))]"

definition zero_snapshot :: MetricSnapshot where
  "zero_snapshot = \<lparr>ms_SchemaVersion = [], ms_SourceEpoch = [], ms_SnapshotVersion = 0, ms_GeneratedAt = 0,
     ms_SourceNode = [], ms_SourceNodeLabel = [], ms_Metrics = [], ms_ConnectorHealth = [],
     ms_HomeLabNodes = [], ms_HomeLabServices = []\<rparr>"

section \<open>Snapshots\<close>

datatype decode_error = DUnreadable | DInvalid validation_error

text \<open>The schema is looked at first, in a struct that has nothing else.\<close>

definition probe_fields :: "string fields" where
  "probe_fields = [(''schema_version'', set_string (\<lambda>v _. v))]"

definition DecodeSnapshot :: "string \<Rightarrow> decode_error + MetricSnapshot" where
  "DecodeSnapshot raw =
     (case unmarshal False probe_fields [] raw of
        None \<Rightarrow> Inl DUnreadable
      | Some version \<Rightarrow>
          (case CheckSchema version of
             Some e \<Rightarrow> Inl (DInvalid e)
           | None \<Rightarrow>
               (case unmarshal False snapshot_fields zero_snapshot raw of
                  None \<Rightarrow> Inl DUnreadable
                | Some snap \<Rightarrow>
                    (case MetricSnapshot_Validate (Some snap) of
                       Some e \<Rightarrow> Inl (DInvalid e)
                     | None \<Rightarrow> Inr snap))))"

section \<open>Envelopes and the small payloads\<close>

record Envelope =
  en_Type :: string
  en_SentAt :: instant
  en_Payload :: string

record Hello =
  hl_DeviceID :: string
  hl_ClientVersion :: string
  hl_SchemaMajor :: int
  hl_LastEpoch :: string
  hl_LastSnapshotVersion :: u64
  hl_TerminalCols :: int
  hl_TerminalRows :: int

record StreamError =
  se_Code :: string
  se_Message :: string

abbreviation (input) "MsgHello \<equiv> ''hello''"
abbreviation (input) "MsgAck \<equiv> ''ack''"
abbreviation (input) "MsgCommandResult \<equiv> ''command_result''"
abbreviation (input) "MsgDeviceHealth \<equiv> ''device_health''"
abbreviation (input) "MsgSnapshotFull \<equiv> ''snapshot_full''"
abbreviation (input) "MsgSnapshotDelta \<equiv> ''snapshot_delta''"
abbreviation (input) "MsgConnectorHealth \<equiv> ''connector_health''"
abbreviation (input) "MsgDisplayCommand \<equiv> ''display_command''"
abbreviation (input) "MsgHeartbeat \<equiv> ''heartbeat''"
abbreviation (input) "MsgError \<equiv> ''error''"

definition envelope_fields :: "Envelope fields" where
  "envelope_fields =
     [(''type'', set_string (\<lambda>v r. r\<lparr>en_Type := v\<rparr>)),
      (''sent_at'', set_time (\<lambda>v r. r\<lparr>en_SentAt := v\<rparr>)),
      (''payload'', set_raw (\<lambda>v r. r\<lparr>en_Payload := v\<rparr>))]"

definition hello_fields :: "Hello fields" where
  "hello_fields =
     [(''device_id'', set_string (\<lambda>v r. r\<lparr>hl_DeviceID := v\<rparr>)),
      (''client_version'', set_string (\<lambda>v r. r\<lparr>hl_ClientVersion := v\<rparr>)),
      (''schema_major'', set_int (\<lambda>v r. r\<lparr>hl_SchemaMajor := v\<rparr>)),
      (''last_epoch'', set_string (\<lambda>v r. r\<lparr>hl_LastEpoch := v\<rparr>)),
      (''last_snapshot_version'', set_uint64 (\<lambda>v r. r\<lparr>hl_LastSnapshotVersion := v\<rparr>)),
      (''terminal_cols'', set_int (\<lambda>v r. r\<lparr>hl_TerminalCols := v\<rparr>)),
      (''terminal_rows'', set_int (\<lambda>v r. r\<lparr>hl_TerminalRows := v\<rparr>))]"

definition zero_hello :: Hello where
  "zero_hello = \<lparr>hl_DeviceID = [], hl_ClientVersion = [], hl_SchemaMajor = 0, hl_LastEpoch = [],
     hl_LastSnapshotVersion = 0, hl_TerminalCols = 0, hl_TerminalRows = 0\<rparr>"

definition heartbeat_fields :: "duration fields" where
  "heartbeat_fields = [(''interval'', set_duration (\<lambda>v _. v))]"

definition stream_error_fields :: "StreamError fields" where
  "stream_error_fields =
     [(''code'', set_string (\<lambda>v r. r\<lparr>se_Code := v\<rparr>)), (''message'', set_string (\<lambda>v r. r\<lparr>se_Message := v\<rparr>))]"

definition StreamError_Error :: "StreamError \<Rightarrow> string" where
  "StreamError_Error e = se_Code e @ '': '' @ se_Message e"

definition DecodeEnvelope :: "string \<Rightarrow> Envelope option" where
  "DecodeEnvelope raw =
     (case unmarshal False envelope_fields \<lparr>en_Type = [], en_SentAt = 0, en_Payload = []\<rparr> raw of
        None \<Rightarrow> None
      | Some env \<Rightarrow> if en_Type env = [] then None else Some env)"

definition DecodePayload :: "'r fields \<Rightarrow> 'r \<Rightarrow> Envelope \<Rightarrow> 'r option" where
  "DecodePayload fs out env =
     (if length (en_Payload env) = 0 then None else unmarshal False fs out (en_Payload env))"

section \<open>Encoding\<close>

text \<open>
  A struct under its fields in order; a field left out by \<open>omitempty\<close> contributes nothing, and a field
  that cannot be marshalled (an instant outside the years 0 to 9999) makes the whole struct an error.
\<close>

type_synonym member_texts = "(string \<times> string option) list"

definition marshal_struct :: "member_texts \<Rightarrow> string option" where
  "marshal_struct ms =
     (if \<exists>m\<in>set ms. snd m = None then None else Some (marshal_object (map (\<lambda>(k, t). (k, the t)) ms)))"

definition put :: "string \<Rightarrow> string \<Rightarrow> member_texts" where
  "put k t = [(k, Some t)]"

definition put_nonempty :: "string \<Rightarrow> string \<Rightarrow> member_texts" where
  "put_nonempty k v = (if v = [] then [] else put k (marshal_string v))"

definition put_nonzero :: "string \<Rightarrow> int \<Rightarrow> member_texts" where
  "put_nonzero k v = (if v = 0 then [] else put k (marshal_int v))"

definition put_duration :: "string \<Rightarrow> duration \<Rightarrow> member_texts" where
  "put_duration k v = (if v = 0 then [] else put k (Duration_MarshalJSON v))"

definition put_time :: "string \<Rightarrow> instant \<Rightarrow> member_texts" where
  "put_time k t = [(k, marshal_time t)]"

definition put_time_ptr :: "string \<Rightarrow> instant option \<Rightarrow> member_texts" where
  "put_time_ptr k t = (case t of None \<Rightarrow> [] | Some x \<Rightarrow> put_time k x)"

definition marshal_bool :: "bool \<Rightarrow> string" where
  "marshal_bool b = (if b then ''true'' else ''false'')"

definition put_bool_ptr :: "string \<Rightarrow> bool option \<Rightarrow> member_texts" where
  "put_bool_ptr k v = (case v of None \<Rightarrow> [] | Some b \<Rightarrow> put k (marshal_bool b))"

definition put_int_ptr :: "string \<Rightarrow> int option \<Rightarrow> member_texts" where
  "put_int_ptr k v = (case v of None \<Rightarrow> [] | Some n \<Rightarrow> put k (marshal_int n))"

definition put_strings :: "string \<Rightarrow> string list \<Rightarrow> member_texts" where
  "put_strings k ss = (if ss = [] then [] else put k (marshal_array (map marshal_string ss)))"

definition put_amount :: "string \<Rightarrow> MetricKind \<Rightarrow> decimal option \<Rightarrow> member_texts" where
  "put_amount k kind v =
     (case v of None \<Rightarrow> [] | Some d \<Rightarrow> [(k, map_option marshal_string (marshal_amount kind d))])"

text \<open>
  \<open>ProviderMetric.MarshalJSON\<close>. The two money fields of the wrapper shadow those of the embedded struct
  and come after all others.
\<close>

definition metric_head :: "ProviderMetric \<Rightarrow> member_texts" where
  "metric_head m =
     put ''id'' (marshal_string (pm_ID m)) @ put ''provider'' (marshal_string (pm_Provider m)) @
     put ''account_label'' (marshal_string (pm_AccountLabel m)) @
     put ''display_name'' (marshal_string (pm_DisplayName m)) @
     put ''metric_kind'' (marshal_string (pm_MetricKind m))"

definition metric_amounts :: "ProviderMetric \<Rightarrow> member_texts" where
  "metric_amounts m =
     put_amount ''value'' (pm_MetricKind m) (pm_Value m) @ put_amount ''limit'' (pm_MetricKind m) (pm_Limit m)"

definition metric_tail :: "ProviderMetric \<Rightarrow> member_texts" where
  "metric_tail m =
     put ''unit'' (marshal_string (pm_Unit m)) @ put ''window'' (marshal_string (pm_Window m)) @
     put_time_ptr ''resets_at'' (pm_ResetsAt m) @ put_time ''observed_at'' (pm_ObservedAt m) @
     put ''precision'' (marshal_string (pm_Precision m)) @
     put ''source_kind'' (marshal_string (pm_SourceKind m)) @
     put ''status'' (marshal_string (pm_Status m)) @
     put_duration ''stale_after'' (pm_StaleAfter m) @ put_nonempty ''error_class'' (pm_ErrorClass m) @
     put_strings ''derived'' (pm_Derived m) @ put_nonempty ''message'' (pm_Message m) @
     put_nonzero ''order'' (pm_Order m) @ put_nonempty ''group'' (pm_Group m)"

definition marshal_metric :: "ProviderMetric \<Rightarrow> string option" where
  "marshal_metric m = marshal_struct
     (if pm_MetricKind m \<noteq> KindBalance \<and> pm_MetricKind m \<noteq> KindCost
      then metric_head m @ metric_amounts m @ metric_tail m
      else metric_head m @ metric_tail m @ metric_amounts m)"

definition marshal_health :: "ConnectorHealth \<Rightarrow> string option" where
  "marshal_health h = marshal_struct
     (put ''connector_id'' (marshal_string (ch_ConnectorID h)) @
      put ''provider'' (marshal_string (ch_Provider h)) @ put ''enabled'' (marshal_bool (ch_Enabled h)) @
      put ''state'' (marshal_string (ch_State h)) @ put_time_ptr ''last_attempt_at'' (ch_LastAttemptAt h) @
      put_time_ptr ''last_success_at'' (ch_LastSuccessAt h) @
      put_time_ptr ''next_attempt_at'' (ch_NextAttemptAt h) @
      put ''consecutive_failures'' (marshal_int (ch_ConsecutiveFailures h)) @
      put_nonempty ''error_class'' (ch_ErrorClass h) @ put_nonempty ''message'' (ch_Message h))"

definition marshal_node :: "HomeLabNode \<Rightarrow> string option" where
  "marshal_node n = marshal_struct
     (put ''id'' (marshal_string (hn_ID n)) @ put ''name'' (marshal_string (hn_Name n)) @
      put_bool_ptr ''online'' (hn_Online n) @ put_int_ptr ''cpu_percent'' (hn_CPUPercent n) @
      put_int_ptr ''memory_percent'' (hn_MemoryPercent n) @ put_int_ptr ''disk_percent'' (hn_DiskPercent n) @
      put_int_ptr ''network_receive_bps'' (hn_NetworkReceiveBPS n) @
      put_int_ptr ''network_transmit_bps'' (hn_NetworkTransmitBPS n) @
      put_time ''observed_at'' (hn_ObservedAt n) @ put_duration ''stale_after'' (hn_StaleAfter n) @
      put ''status'' (marshal_string (hn_Status n)) @ put_nonempty ''error_class'' (hn_ErrorClass n) @
      put_nonempty ''message'' (hn_Message n) @ put_nonzero ''order'' (hn_Order n))"

definition marshal_service :: "HomeLabService \<Rightarrow> string option" where
  "marshal_service s = marshal_struct
     (put ''id'' (marshal_string (hs_ID s)) @ put ''name'' (marshal_string (hs_Name s)) @
      put ''kind'' (marshal_string (hs_Kind s)) @ put_nonempty ''version'' (hs_Version s) @
      put_nonempty ''api_generation'' (hs_APIGeneration s) @ put_bool_ptr ''healthy'' (hs_Healthy s) @
      put_int_ptr ''firing_alerts'' (hs_FiringAlerts s) @
      put_int_ptr ''environments_total'' (hs_EnvironmentsTotal s) @
      put_int_ptr ''environments_online'' (hs_EnvironmentsOnline s) @
      put_int_ptr ''containers_running'' (hs_ContainersRunning s) @
      put_int_ptr ''containers_stopped'' (hs_ContainersStopped s) @
      put_int_ptr ''containers_failed'' (hs_ContainersFailed s) @ put_int_ptr ''stacks'' (hs_Stacks s) @
      put_time ''observed_at'' (hs_ObservedAt s) @ put_duration ''stale_after'' (hs_StaleAfter s) @
      put ''status'' (marshal_string (hs_Status s)) @ put_nonempty ''error_class'' (hs_ErrorClass s) @
      put_nonempty ''message'' (hs_Message s) @ put_nonzero ''order'' (hs_Order s))"

text \<open>Slices are made by the code and print as arrays; an element that fails makes the field fail.\<close>

definition put_structs :: "string \<Rightarrow> string option list \<Rightarrow> member_texts" where
  "put_structs k ts = [(k, if None \<in> set ts then None else Some (marshal_array (map the ts)))]"

definition snapshot_members :: "MetricSnapshot \<Rightarrow> member_texts" where
  "snapshot_members s =
     put ''source_epoch'' (marshal_string (ms_SourceEpoch s)) @
     put ''snapshot_version'' (marshal_int (uint (ms_SnapshotVersion s))) @
     put_time ''generated_at'' (ms_GeneratedAt s) @ put ''source_node'' (marshal_string (ms_SourceNode s)) @
     put_nonempty ''source_node_label'' (ms_SourceNodeLabel s) @
     put_structs ''metrics'' (map marshal_metric (ms_Metrics s)) @
     put_structs ''connector_health'' (map marshal_health (ms_ConnectorHealth s)) @
     (if ms_HomeLabNodes s = [] then [] else put_structs ''homelab_nodes'' (map marshal_node (ms_HomeLabNodes s))) @
     (if ms_HomeLabServices s = [] then []
      else put_structs ''homelab_services'' (map marshal_service (ms_HomeLabServices s)))"

definition marshal_snapshot :: "MetricSnapshot \<Rightarrow> string option" where
  "marshal_snapshot s =
     marshal_struct (put ''schema_version'' (marshal_string (ms_SchemaVersion s)) @ snapshot_members s)"

text \<open>
  \<open>payload\<close> is what marshalling the payload gives: nothing for a nil payload, else the text or an error.
\<close>

definition Encode :: "string \<Rightarrow> instant \<Rightarrow> string option option \<Rightarrow> string option" where
  "Encode t now payload =
     (case payload of
        Some None \<Rightarrow> None
      | p \<Rightarrow> let raw = (case p of Some (Some r) \<Rightarrow> r | _ \<Rightarrow> [])
             in marshal_struct
                  (put ''type'' (marshal_string t) @ put_time ''sent_at'' now @
                   (if raw = [] then [] else put ''payload'' raw)))"

definition marshal_hello :: "Hello \<Rightarrow> string option" where
  "marshal_hello h = marshal_struct
     (put ''device_id'' (marshal_string (hl_DeviceID h)) @
      put ''client_version'' (marshal_string (hl_ClientVersion h)) @
      put ''schema_major'' (marshal_int (hl_SchemaMajor h)) @ put_nonempty ''last_epoch'' (hl_LastEpoch h) @
      put_nonzero ''last_snapshot_version'' (uint (hl_LastSnapshotVersion h)) @
      put_nonzero ''terminal_cols'' (hl_TerminalCols h) @ put_nonzero ''terminal_rows'' (hl_TerminalRows h))"

definition marshal_heartbeat :: "duration \<Rightarrow> string option" where
  "marshal_heartbeat interval = marshal_struct (put ''interval'' (Duration_MarshalJSON interval))"

definition marshal_stream_error :: "StreamError \<Rightarrow> string option" where
  "marshal_stream_error e = marshal_struct
     (put ''code'' (marshal_string (se_Code e)) @ put ''message'' (marshal_string (se_Message e)))"

lemma DecodeSnapshot_ok:
  "DecodeSnapshot raw = Inr snap \<Longrightarrow> snapshot_ok snap"
  by (auto simp: DecodeSnapshot_def MetricSnapshot_Validate_iff split: option.splits)

end
