(* ===== verification/WireRoundtrip.thy ===== *)
theory WireRoundtrip
  imports Wire
begin

text \<open>
  What one side of the stream encodes the other decodes: the lemmas follow the structs of
  \<open>internal/protocol\<close> field by field, up to a whole snapshot inside its envelope.
\<close>

section \<open>Reading back what was encoded\<close>

text \<open>
  A list of members decodes a struct into another when all of them print, and what they read as takes the
  one to the other.
\<close>

definition decodes :: "'r fields \<Rightarrow> member_texts \<Rightarrow> 'r \<Rightarrow> 'r \<Rightarrow> bool" where
  "decodes fs ms r r' \<longleftrightarrow> (\<forall>m\<in>set ms. snd m \<noteq> None) \<and>
     (\<exists>es. list_all2 member_reads (map (\<lambda>(k, t). (k, the t)) ms) es \<and> decode_members False fs es r = Some r')"

lemma decode_members_append:
  "decode_members b fs (xs @ ys) r = Option.bind (decode_members b fs xs r) (decode_members b fs ys)"
  by (induction b fs xs r rule: decode_members.induct) (auto split: option.splits)

lemma decodes_nil: "decodes fs [] r r"
  by (simp add: decodes_def)

lemma decodes_append:
  assumes "decodes fs a r r1" "decodes fs b r1 r2"
  shows "decodes fs (a @ b) r r2"
proof -
  from assms obtain es fs' where "list_all2 member_reads (map (\<lambda>(k, t). (k, the t)) a) es" "decode_members False fs es r = Some r1"
    "list_all2 member_reads (map (\<lambda>(k, t). (k, the t)) b) fs'" "decode_members False fs fs' r1 = Some r2"
    by (auto simp: decodes_def)
  then have "list_all2 member_reads (map (\<lambda>(k, t). (k, the t)) (a @ b)) (es @ fs') \<and> decode_members False fs (es @ fs') r = Some r2"
    by (simp add: decode_members_append list_all2_appendI)
  with assms show ?thesis unfolding decodes_def by auto
qed

lemma decodes_one:
  "find_field fs k = Some f \<Longrightarrow> utf8_text k \<Longrightarrow> t' = Some t \<Longrightarrow> reads t v \<Longrightarrow> f t v r = Some r' \<Longrightarrow> decodes fs [(k, t')] r r'"
  unfolding decodes_def by (intro conjI exI [of _ "[(k, t, v)]"]) (simp_all add: member_reads_def)

lemmas decodes_put = decodes_one [of _ _ _ "Some t" t for t, OF _ _ refl, folded put_def]

lemma decodes_struct:
  assumes "decodes fs ms r r'"
  shows "\<exists>t v. marshal_struct ms = Some t \<and> reads t v \<and> decode_struct False fs v r = Some r'"
proof -
  from assms obtain es where "list_all2 member_reads (map (\<lambda>(k, t). (k, the t)) ms) es" "decode_members False fs es r = Some r'"
    by (auto simp: decodes_def)
  moreover from this(1) have "reads (marshal_object (map (\<lambda>(k, t). (k, the t)) ms)) (JObject es)" by (rule reads_object)
  moreover have "marshal_struct ms = Some (marshal_object (map (\<lambda>(k, t). (k, the t)) ms))"
    using assms by (auto simp: decodes_def marshal_struct_def)
  ultimately show ?thesis by (fastforce simp: decode_struct_def)
qed

lemma decodes_unmarshal:
  assumes "decodes fs ms r r'"
  shows "\<exists>t. marshal_struct ms = Some t \<and> unmarshal False fs r t = Some r'"
  using decodes_struct [OF assms] by (auto simp: unmarshal_def dest: reads_parse_json)

text \<open>One lemma per kind of field. A field left out stands for the value the struct already has.\<close>

lemma decodes_string:
  "find_field fs k = Some (set_string upd) \<Longrightarrow> utf8_text k \<Longrightarrow> utf8_text v \<Longrightarrow> decodes fs (put k (marshal_string v)) r (upd v r)"
  by (erule decodes_put, assumption, erule reads_string) (simp add: set_string_def)

lemma decodes_nonempty:
  "find_field fs k = Some (set_string upd) \<Longrightarrow> utf8_text k \<Longrightarrow> utf8_text v \<Longrightarrow> upd [] r = r \<Longrightarrow>
   decodes fs (put_nonempty k v) r (upd v r)"
  by (auto simp: put_nonempty_def decodes_nil intro: decodes_string)

lemma reads_marshal_bool: "reads (marshal_bool b) (JBool b)"
  using reads_bool [of b] by (simp add: marshal_bool_def)

lemma decodes_bool:
  "find_field fs k = Some (set_bool upd) \<Longrightarrow> utf8_text k \<Longrightarrow> decodes fs (put k (marshal_bool v)) r (upd v r)"
  by (erule decodes_put, assumption, rule reads_marshal_bool) (simp add: set_bool_def)

lemma decodes_bool_ptr:
  "find_field fs k = Some (set_bool_ptr upd) \<Longrightarrow> utf8_text k \<Longrightarrow> upd None r = r \<Longrightarrow> decodes fs (put_bool_ptr k v) r (upd v r)"
  by (cases v) (auto simp: put_bool_ptr_def decodes_nil set_bool_ptr_def intro: decodes_put reads_marshal_bool)

lemma decodes_int:
  "find_field fs k = Some (set_int upd) \<Longrightarrow> utf8_text k \<Longrightarrow> in_int64 v \<Longrightarrow> decodes fs (put k (marshal_int v)) r (upd v r)"
  by (erule decodes_put, assumption, rule reads_int) (simp add: set_int_def atoi_format_int)

lemma decodes_nonzero:
  "find_field fs k = Some (set_int upd) \<Longrightarrow> utf8_text k \<Longrightarrow> in_int64 v \<Longrightarrow> upd 0 r = r \<Longrightarrow> decodes fs (put_nonzero k v) r (upd v r)"
  by (auto simp: put_nonzero_def decodes_nil intro: decodes_int)

definition int_ptr_ok :: "int option \<Rightarrow> bool" where
  "int_ptr_ok v \<longleftrightarrow> (case v of None \<Rightarrow> True | Some n \<Rightarrow> in_int64 n)"

lemma decodes_int_ptr:
  "find_field fs k = Some (set_int_ptr upd) \<Longrightarrow> utf8_text k \<Longrightarrow> int_ptr_ok v \<Longrightarrow> upd None r = r \<Longrightarrow>
   decodes fs (put_int_ptr k v) r (upd v r)"
  by (cases v) (auto simp: put_int_ptr_def decodes_nil set_int_ptr_def int_ptr_ok_def atoi_format_int intro: decodes_put reads_int)

lemma decodes_uint64:
  assumes "find_field fs k = Some (set_uint64 upd)" "utf8_text k"
  shows "decodes fs (put k (marshal_int (uint v))) r (upd v r)"
proof (rule decodes_put [OF assms reads_int])
  have "digits_value (nat_digits (nat (uint v))) < 2 ^ 64"
    unfolding digits_value_nat_digits using uint_lt2p [of v] by (subst nat_less_iff) simp_all
  moreover have "list_all is_digit (nat_digits (nat (uint v)))" using nat_digits_digits by (simp add: list_all_iff)
  moreover have "(of_nat (nat (uint v)) :: u64) = v" by simp
  ultimately show "set_uint64 upd (marshal_int (uint v)) (JNumber (format_int (uint v))) r = Some (upd v r)"
    by (simp add: set_uint64_def format_int_def uint_ge_0)
qed

text \<open>Instants and durations read back from their own text; what they read as is a string literal.\<close>

definition time_ok :: "instant \<Rightarrow> bool" where
  "time_ok t \<longleftrightarrow> format_time t \<noteq> None"

definition time_ptr_ok :: "instant option \<Rightarrow> bool" where
  "time_ptr_ok t \<longleftrightarrow> (case t of None \<Rightarrow> True | Some x \<Rightarrow> time_ok x)"

text \<open>Text that is printed as it is.\<close>

definition plain_text :: "string \<Rightarrow> bool" where
  "plain_text t \<longleftrightarrow> utf8_text t \<and> escape t = t"

lemma reads_plain: "plain_text t \<Longrightarrow> reads (quote # t @ [quote]) (JString t)"
  using reads_string [of t] by (simp add: plain_text_def marshal_string_def)

lemma plain_append: "list_all verbatim a \<Longrightarrow> plain_text b \<Longrightarrow> plain_text (a @ b)"
proof (induction a)
  case (Cons c a)
  then have "short_escape c = None" by (auto simp: verbatim_def short_escape_def)
  with Cons show ?case
    by (simp add: plain_text_def utf8_text.simps(2) [of c] escape.simps(2) [of c] verbatim_def)
qed simp

lemma plain_verbatim: "list_all verbatim t \<Longrightarrow> plain_text t"
  using plain_append [of t "[]"] by (simp add: plain_text_def utf8_text.simps escape.simps)

lemma verbatim_digit: "is_digit c \<Longrightarrow> verbatim c"
  by (auto simp: is_digit_def verbatim_def quote_def backslash_def)

lemma verbatim_zero [simp]: "verbatim CHR ''0''" "verbatim CHR ''.''"
  by (simp_all add: verbatim_def quote_def backslash_def)

lemma verbatim_nat_digits [simp]: "list_all verbatim (nat_digits n)"
  using nat_digits_digits verbatim_digit by (simp add: list_all_iff)

lemma verbatim_fixed_digits [simp]: "list_all verbatim (fixed_digits k n)"
  by (simp add: fixed_digits_def list_all_iff [of _ "replicate _ _"])

lemma verbatim_fixed_text [simp]: "list_all verbatim (fixed_text k v)"
  by (simp add: fixed_text_def)

lemma verbatim_fraction_text [simp]: "list_all verbatim (fraction_text k n)"
proof -
  have "\<forall>c\<in>set (fixed_digits k n). verbatim c" using verbatim_fixed_digits by (simp add: list_all_iff)
  then have "list_all verbatim (strip_zeros (fixed_digits k n))"
    unfolding strip_zeros_def list_all_iff set_rev by (metis set_dropWhileD set_rev)
  then show ?thesis by (simp add: fraction_text_def Let_def)
qed

lemma verbatim_marks [simp]: "verbatim CHR ''-''" "verbatim CHR '':''" "verbatim CHR ''T''" "verbatim CHR ''Z''"
  "verbatim CHR ''h''" "verbatim CHR ''m''" "verbatim CHR ''s''" "verbatim CHR ''n''"
  by (simp_all add: verbatim_def quote_def backslash_def)

lemma reads_time:
  assumes "marshal_time t = Some s"
  shows "\<exists>u. reads s (JString u)"
proof -
  from assms obtain u where u: "format_time t = Some u" "s = quote # u @ [quote]" by (auto simp: marshal_time_def)
  obtain y yday where yd: "year_of_day (t div second div 86400) = (y, yday)" by (cases "year_of_day (t div second div 86400)")
  obtain mo d where md: "month_of_day (month_lengths y) 1 yday = (mo, d)"
    by (cases "month_of_day (month_lengths y) 1 yday")
  from u(1) have "list_all verbatim u"
    unfolding format_time_def Let_def yd md prod.case
    by (auto simp only: list_all_append list.pred_inject verbatim_fixed_text verbatim_fraction_text verbatim_marks
        option.inject option.distinct split: if_split_asm)
  then show ?thesis using u(2) reads_plain [OF plain_verbatim] by blast
qed

lemma reads_duration: "\<exists>u. reads (Duration_MarshalJSON d) (JString u)"
proof -
  have "plain_text (micro_sign @ ''s'')"
    by (simp add: plain_text_def micro_sign_def utf8_text.simps escape.simps in_bytes_def short_escape_def quote_def backslash_def)
  then have micro: "plain_text (nat_digits a @ fraction_text 3 b @ micro_sign @ ''s'')" for a b
    by (intro plain_append [of "nat_digits a"] plain_append [of "fraction_text 3 b"]) simp_all
  have "plain_text (duration_magnitude u)" for u
    unfolding duration_magnitude_def Let_def
    by (simp only: split: if_split) (simp add: micro plain_verbatim del: append.simps)
  then have "plain_text (Duration_String d)"
    using plain_append [of "''-''"] by (auto simp: Duration_String_def)
  then show ?thesis unfolding Duration_MarshalJSON_def by (blast intro: reads_plain)
qed

lemma decodes_time:
  assumes "find_field fs k = Some (set_time upd)" "utf8_text k" "time_ok t"
  shows "decodes fs (put_time k t) r (upd t r)"
proof -
  from assms(3) obtain s where s: "marshal_time t = Some s" by (auto simp: time_ok_def marshal_time_def)
  then obtain u where "reads s (JString u)" using reads_time by blast
  moreover have "unquote_time s = Some t" using s by (rule unquote_marshal_time)
  ultimately show ?thesis
    unfolding put_time_def by (intro decodes_one [OF assms(1,2) s, of "JString u"]) (simp_all add: set_time_def)
qed

lemma decodes_time_ptr:
  assumes "find_field fs k = Some (set_time_ptr upd)" "utf8_text k" "time_ptr_ok v" "upd None r = r"
  shows "decodes fs (put_time_ptr k v) r (upd v r)"
proof (cases v)
  case None
  with assms show ?thesis by (simp add: put_time_ptr_def decodes_nil)
next
  case (Some t)
  with assms obtain s where s: "marshal_time t = Some s" by (auto simp: time_ptr_ok_def time_ok_def marshal_time_def)
  then obtain u where "reads s (JString u)" using reads_time by blast
  moreover have "unquote_time s = Some t" using s by (rule unquote_marshal_time)
  ultimately show ?thesis
    unfolding put_time_ptr_def put_time_def Some option.case
    by (intro decodes_one [OF assms(1,2) s, of "JString u"]) (simp_all add: set_time_ptr_def)
qed

lemma decodes_duration:
  assumes "find_field fs k = Some (set_duration upd)" "utf8_text k" "in_int64 v" "upd 0 r = r"
  shows "decodes fs (put_duration k v) r (upd v r)"
proof (cases "v = 0")
  case True
  with assms show ?thesis by (simp add: put_duration_def decodes_nil)
next
  case False
  obtain u where "reads (Duration_MarshalJSON v) (JString u)" using reads_duration by blast
  with False show ?thesis
    unfolding put_duration_def
    by (simp, intro decodes_put [OF assms(1,2), of _ "JString u"]) (simp_all add: set_duration_def unmarshal_duration assms(3))
qed

lemma string_elements_strings: "string_elements (map JString ss) = Some ss"
  by (induction ss) auto

lemma decodes_strings:
  assumes "find_field fs k = Some (set_strings upd)" "utf8_text k" "\<forall>v\<in>set vs. utf8_text v" "upd [] r = r"
  shows "decodes fs (put_strings k vs) r (upd vs r)"
proof (cases "vs = []")
  case True
  with assms show ?thesis by (simp add: put_strings_def decodes_nil)
next
  case False
  have "list_all2 reads (map marshal_string vs) (map JString vs)"
    using assms(3) by (simp add: list_all2_map1 list_all2_map2 list_all2_same reads_string)
  then have "reads (marshal_array (map marshal_string vs)) (JArray (map JString vs))" by (rule reads_array)
  with False show ?thesis
    unfolding put_strings_def
    by (simp, intro decodes_put [OF assms(1,2), of _ "JArray (map JString vs)"]) (simp_all add: set_strings_def string_elements_strings)
qed

text \<open>
  Amounts. Money is written with two decimals, so it comes back as the nearest cent; that must fit the
  mantissa.
\<close>

definition wire_decimal :: "MetricKind \<Rightarrow> decimal \<Rightarrow> decimal" where
  "wire_decimal kind d = (if kind \<noteq> KindBalance \<and> kind \<noteq> KindCost then d else New (rescaled d 2) 2)"

definition amount_ok :: "MetricKind \<Rightarrow> decimal option \<Rightarrow> bool" where
  "amount_ok kind v \<longleftrightarrow> (case v of None \<Rightarrow> True | Some d \<Rightarrow> wf_decimal d \<and> wf_decimal (wire_decimal kind d))"

lemma fixed_point_read:
  assumes "m < 2 ^ 63" "prec \<le> 9" "0 < prec"
  shows "Parse (fixed_point neg m prec) = Inr (New (signed neg m) (int prec)) \<and> list_all verbatim (fixed_point neg m prec)"
proof -
  let ?ip = "nat_digits (m div 10 ^ prec)" and ?fp = "fixed_digits prec (m mod 10 ^ prec)"
  have "m mod 10 ^ prec < 10 ^ prec" by simp
  note F = fixed_digits_facts [OF this assms(3)]
  have val: "digits_value (?ip @ ?fp) = m" by (simp only: digits_value_concat F digits_value_nat_digits div_mult_mod_eq)
  have shape: "fixed_point neg m prec = (if neg then ''-'' else '''') @ ?ip @ (if True then ''.'' @ ?fp else '''')"
    using assms(3) by (simp add: fixed_point_def fixed_digits_def)
  have "Parse (fixed_point neg m prec) = Inr (New ((if neg then -1 else 1) * int (digits_value (?ip @ ?fp))) (int (length ?fp)))"
    unfolding shape using F assms val
    by (intro parse_digits_sign nat_digits_digits) (auto simp: MaxScale_def)
  then show ?thesis
    unfolding val using F shape by (simp add: signed_def)
qed

lemma String_verbatim:
  assumes "wf_decimal d" "String d = Some t"
  shows "list_all verbatim t"
proof (cases "scale d = 0")
  case True
  with assms(2) show ?thesis by (auto simp: String_def format_int_def)
next
  case False
  with assms(1) have "0 < scale d" "in_int64 (unscaled d)" "unscaled d \<noteq> - (2 ^ 63)"
    by (auto simp: wf_decimal_def in_int64_def)
  from String_digits [OF this] assms(2) verbatim_digit show ?thesis
    by (fastforce simp: list_all_iff)
qed

lemma marshal_amount_read:
  assumes "wf_decimal d" "wf_decimal (wire_decimal kind d)"
  shows "\<exists>t. marshal_amount kind d = Some t \<and> utf8_text t \<and> Parse t = Inr (wire_decimal kind d)"
proof (cases "kind \<noteq> KindBalance \<and> kind \<noteq> KindCost")
  case True
  with Parse_String [OF assms(1)] String_verbatim [OF assms(1)] plain_verbatim show ?thesis
    by (auto simp: marshal_amount_def wire_decimal_def plain_text_def)
next
  case False
  let ?m = "nat \<bar>rescaled d 2\<bar>"
  have sgn: "signed (unscaled d < 0) ?m = rescaled d 2"
    by (auto simp: rescaled_def round_quotient_def signed_def mult_less_0_iff)
  have "?m < 2 ^ 63" using False assms(2) by (auto simp: wire_decimal_def wf_decimal_def New_def abs_less_iff nat_less_iff)
  from fixed_point_read [OF this, of 2 "unscaled d < 0"] have
    "Parse (Rescale d 2) = Inr (New (rescaled d 2) 2)" "list_all verbatim (Rescale d 2)"
    using Rescale_eq [of d 2] sgn by simp_all
  with False plain_verbatim show ?thesis
    by (auto simp: marshal_amount_def wire_decimal_def plain_text_def)
qed

lemma decodes_amount:
  assumes "find_field fs k = Some (set_decimal_ptr upd)" "utf8_text k" "amount_ok kind v" "upd None r = r"
  shows "decodes fs (put_amount k kind v) r (upd (map_option (wire_decimal kind) v) r)"
proof (cases v)
  case None
  with assms show ?thesis by (simp add: put_amount_def decodes_nil)
next
  case (Some d)
  with assms marshal_amount_read obtain t where
    t: "marshal_amount kind d = Some t" "utf8_text t" "Parse t = Inr (wire_decimal kind d)"
    by (auto simp: amount_ok_def)
  then have "map_option marshal_string (marshal_amount kind d) = Some (marshal_string t)" by simp
  from decodes_one [OF assms(1,2) this reads_string [OF t(2)]] t(3) Some show ?thesis
    by (simp add: put_amount_def set_decimal_ptr_def Decimal_UnmarshalJSON_def)
qed

text \<open>Lists of structs: every element prints, and its text decodes from the zero struct.\<close>

definition codec :: "'e fields \<Rightarrow> 'e \<Rightarrow> ('e \<Rightarrow> string option) \<Rightarrow> ('e \<Rightarrow> 'e) \<Rightarrow> 'e \<Rightarrow> bool" where
  "codec fs zero m wire e \<longleftrightarrow> (\<exists>t v. m e = Some t \<and> reads t v \<and> decode_struct False fs v zero = Some (wire e))"

lemma codecI: "decodes fs ms zero (wire e) \<Longrightarrow> m e = marshal_struct ms \<Longrightarrow> codec fs zero m wire e"
  using decodes_struct by (fastforce simp: codec_def)

lemma decodes_structs:
  assumes "find_field fs k = Some (set_structs efs zero sel upd)" "utf8_text k" "sel r = []"
    "\<forall>e\<in>set es. codec efs zero m wire e"
  shows "decodes fs (put_structs k (map m es)) r (upd (map wire es) r)"
proof -
  have "None \<notin> set (map m es) \<and> (\<exists>vs. list_all2 reads (map the (map m es)) vs \<and>
      decode_elements efs zero [] vs = Some (map wire es))"
    using assms(4)
  proof (induction es)
    case (Cons e es)
    then obtain vs where ih: "None \<notin> set (map m es)" "list_all2 reads (map the (map m es)) vs"
      "decode_elements efs zero [] vs = Some (map wire es)" by auto
    from Cons.prems obtain t v where "m e = Some t" "reads t v" "decode_struct False efs v zero = Some (wire e)"
      by (auto simp: codec_def)
    with ih show ?case by (auto intro!: exI [of _ "v # vs"])
  qed simp
  then obtain vs where vs: "None \<notin> set (map m es)" "list_all2 reads (map the (map m es)) vs"
      "decode_elements efs zero [] vs = Some (map wire es)" by blast
  then have text_eq: "(if None \<in> set (map m es) then None else Some (marshal_array (map the (map m es)))) =
      Some (marshal_array (map the (map m es)))" by simp
  from decodes_one [OF assms(1,2) text_eq reads_array [OF vs(2)]] vs(3) assms(3) show ?thesis
    by (simp add: put_structs_def set_structs_def)
qed

section \<open>The structs of a snapshot\<close>

text \<open>Where each member name leads.\<close>

lemma metric_member:
  "find_field metric_fields ''id'' = Some (set_string (\<lambda>v r. r\<lparr>pm_ID := v\<rparr>))"
  "find_field metric_fields ''provider'' = Some (set_string (\<lambda>v r. r\<lparr>pm_Provider := v\<rparr>))"
  "find_field metric_fields ''account_label'' = Some (set_string (\<lambda>v r. r\<lparr>pm_AccountLabel := v\<rparr>))"
  "find_field metric_fields ''display_name'' = Some (set_string (\<lambda>v r. r\<lparr>pm_DisplayName := v\<rparr>))"
  "find_field metric_fields ''metric_kind'' = Some (set_string (\<lambda>v r. r\<lparr>pm_MetricKind := v\<rparr>))"
  "find_field metric_fields ''value'' = Some (set_decimal_ptr (\<lambda>v r. r\<lparr>pm_Value := v\<rparr>))"
  "find_field metric_fields ''limit'' = Some (set_decimal_ptr (\<lambda>v r. r\<lparr>pm_Limit := v\<rparr>))"
  "find_field metric_fields ''unit'' = Some (set_string (\<lambda>v r. r\<lparr>pm_Unit := v\<rparr>))"
  "find_field metric_fields ''window'' = Some (set_string (\<lambda>v r. r\<lparr>pm_Window := v\<rparr>))"
  "find_field metric_fields ''resets_at'' = Some (set_time_ptr (\<lambda>v r. r\<lparr>pm_ResetsAt := v\<rparr>))"
  "find_field metric_fields ''observed_at'' = Some (set_time (\<lambda>v r. r\<lparr>pm_ObservedAt := v\<rparr>))"
  "find_field metric_fields ''precision'' = Some (set_string (\<lambda>v r. r\<lparr>pm_Precision := v\<rparr>))"
  "find_field metric_fields ''source_kind'' = Some (set_string (\<lambda>v r. r\<lparr>pm_SourceKind := v\<rparr>))"
  "find_field metric_fields ''status'' = Some (set_string (\<lambda>v r. r\<lparr>pm_Status := v\<rparr>))"
  "find_field metric_fields ''stale_after'' = Some (set_duration (\<lambda>v r. r\<lparr>pm_StaleAfter := v\<rparr>))"
  "find_field metric_fields ''error_class'' = Some (set_string (\<lambda>v r. r\<lparr>pm_ErrorClass := v\<rparr>))"
  "find_field metric_fields ''derived'' = Some (set_strings (\<lambda>v r. r\<lparr>pm_Derived := v\<rparr>))"
  "find_field metric_fields ''message'' = Some (set_string (\<lambda>v r. r\<lparr>pm_Message := v\<rparr>))"
  "find_field metric_fields ''order'' = Some (set_int (\<lambda>v r. r\<lparr>pm_Order := v\<rparr>))"
  "find_field metric_fields ''group'' = Some (set_string (\<lambda>v r. r\<lparr>pm_Group := v\<rparr>))"
  by (simp_all add: find_field_def metric_fields_def)

lemma health_member:
  "find_field health_fields ''connector_id'' = Some (set_string (\<lambda>v r. r\<lparr>ch_ConnectorID := v\<rparr>))"
  "find_field health_fields ''provider'' = Some (set_string (\<lambda>v r. r\<lparr>ch_Provider := v\<rparr>))"
  "find_field health_fields ''enabled'' = Some (set_bool (\<lambda>v r. r\<lparr>ch_Enabled := v\<rparr>))"
  "find_field health_fields ''state'' = Some (set_string (\<lambda>v r. r\<lparr>ch_State := v\<rparr>))"
  "find_field health_fields ''last_attempt_at'' = Some (set_time_ptr (\<lambda>v r. r\<lparr>ch_LastAttemptAt := v\<rparr>))"
  "find_field health_fields ''last_success_at'' = Some (set_time_ptr (\<lambda>v r. r\<lparr>ch_LastSuccessAt := v\<rparr>))"
  "find_field health_fields ''next_attempt_at'' = Some (set_time_ptr (\<lambda>v r. r\<lparr>ch_NextAttemptAt := v\<rparr>))"
  "find_field health_fields ''consecutive_failures'' = Some (set_int (\<lambda>v r. r\<lparr>ch_ConsecutiveFailures := v\<rparr>))"
  "find_field health_fields ''error_class'' = Some (set_string (\<lambda>v r. r\<lparr>ch_ErrorClass := v\<rparr>))"
  "find_field health_fields ''message'' = Some (set_string (\<lambda>v r. r\<lparr>ch_Message := v\<rparr>))"
  by (simp_all add: find_field_def health_fields_def)

lemma node_member:
  "find_field node_fields ''id'' = Some (set_string (\<lambda>v r. r\<lparr>hn_ID := v\<rparr>))"
  "find_field node_fields ''name'' = Some (set_string (\<lambda>v r. r\<lparr>hn_Name := v\<rparr>))"
  "find_field node_fields ''online'' = Some (set_bool_ptr (\<lambda>v r. r\<lparr>hn_Online := v\<rparr>))"
  "find_field node_fields ''cpu_percent'' = Some (set_int_ptr (\<lambda>v r. r\<lparr>hn_CPUPercent := v\<rparr>))"
  "find_field node_fields ''memory_percent'' = Some (set_int_ptr (\<lambda>v r. r\<lparr>hn_MemoryPercent := v\<rparr>))"
  "find_field node_fields ''disk_percent'' = Some (set_int_ptr (\<lambda>v r. r\<lparr>hn_DiskPercent := v\<rparr>))"
  "find_field node_fields ''network_receive_bps'' = Some (set_int_ptr (\<lambda>v r. r\<lparr>hn_NetworkReceiveBPS := v\<rparr>))"
  "find_field node_fields ''network_transmit_bps'' = Some (set_int_ptr (\<lambda>v r. r\<lparr>hn_NetworkTransmitBPS := v\<rparr>))"
  "find_field node_fields ''observed_at'' = Some (set_time (\<lambda>v r. r\<lparr>hn_ObservedAt := v\<rparr>))"
  "find_field node_fields ''stale_after'' = Some (set_duration (\<lambda>v r. r\<lparr>hn_StaleAfter := v\<rparr>))"
  "find_field node_fields ''status'' = Some (set_string (\<lambda>v r. r\<lparr>hn_Status := v\<rparr>))"
  "find_field node_fields ''error_class'' = Some (set_string (\<lambda>v r. r\<lparr>hn_ErrorClass := v\<rparr>))"
  "find_field node_fields ''message'' = Some (set_string (\<lambda>v r. r\<lparr>hn_Message := v\<rparr>))"
  "find_field node_fields ''order'' = Some (set_int (\<lambda>v r. r\<lparr>hn_Order := v\<rparr>))"
  by (simp_all add: find_field_def node_fields_def)

lemma service_member:
  "find_field service_fields ''id'' = Some (set_string (\<lambda>v r. r\<lparr>hs_ID := v\<rparr>))"
  "find_field service_fields ''name'' = Some (set_string (\<lambda>v r. r\<lparr>hs_Name := v\<rparr>))"
  "find_field service_fields ''kind'' = Some (set_string (\<lambda>v r. r\<lparr>hs_Kind := v\<rparr>))"
  "find_field service_fields ''version'' = Some (set_string (\<lambda>v r. r\<lparr>hs_Version := v\<rparr>))"
  "find_field service_fields ''api_generation'' = Some (set_string (\<lambda>v r. r\<lparr>hs_APIGeneration := v\<rparr>))"
  "find_field service_fields ''healthy'' = Some (set_bool_ptr (\<lambda>v r. r\<lparr>hs_Healthy := v\<rparr>))"
  "find_field service_fields ''firing_alerts'' = Some (set_int_ptr (\<lambda>v r. r\<lparr>hs_FiringAlerts := v\<rparr>))"
  "find_field service_fields ''environments_total'' = Some (set_int_ptr (\<lambda>v r. r\<lparr>hs_EnvironmentsTotal := v\<rparr>))"
  "find_field service_fields ''environments_online'' = Some (set_int_ptr (\<lambda>v r. r\<lparr>hs_EnvironmentsOnline := v\<rparr>))"
  "find_field service_fields ''containers_running'' = Some (set_int_ptr (\<lambda>v r. r\<lparr>hs_ContainersRunning := v\<rparr>))"
  "find_field service_fields ''containers_stopped'' = Some (set_int_ptr (\<lambda>v r. r\<lparr>hs_ContainersStopped := v\<rparr>))"
  "find_field service_fields ''containers_failed'' = Some (set_int_ptr (\<lambda>v r. r\<lparr>hs_ContainersFailed := v\<rparr>))"
  "find_field service_fields ''stacks'' = Some (set_int_ptr (\<lambda>v r. r\<lparr>hs_Stacks := v\<rparr>))"
  "find_field service_fields ''observed_at'' = Some (set_time (\<lambda>v r. r\<lparr>hs_ObservedAt := v\<rparr>))"
  "find_field service_fields ''stale_after'' = Some (set_duration (\<lambda>v r. r\<lparr>hs_StaleAfter := v\<rparr>))"
  "find_field service_fields ''status'' = Some (set_string (\<lambda>v r. r\<lparr>hs_Status := v\<rparr>))"
  "find_field service_fields ''error_class'' = Some (set_string (\<lambda>v r. r\<lparr>hs_ErrorClass := v\<rparr>))"
  "find_field service_fields ''message'' = Some (set_string (\<lambda>v r. r\<lparr>hs_Message := v\<rparr>))"
  "find_field service_fields ''order'' = Some (set_int (\<lambda>v r. r\<lparr>hs_Order := v\<rparr>))"
  by (simp_all add: find_field_def service_fields_def)

lemma snapshot_member:
  "find_field snapshot_fields ''schema_version'' = Some (set_string (\<lambda>v r. r\<lparr>ms_SchemaVersion := v\<rparr>))"
  "find_field snapshot_fields ''source_epoch'' = Some (set_string (\<lambda>v r. r\<lparr>ms_SourceEpoch := v\<rparr>))"
  "find_field snapshot_fields ''snapshot_version'' = Some (set_uint64 (\<lambda>v r. r\<lparr>ms_SnapshotVersion := v\<rparr>))"
  "find_field snapshot_fields ''generated_at'' = Some (set_time (\<lambda>v r. r\<lparr>ms_GeneratedAt := v\<rparr>))"
  "find_field snapshot_fields ''source_node'' = Some (set_string (\<lambda>v r. r\<lparr>ms_SourceNode := v\<rparr>))"
  "find_field snapshot_fields ''source_node_label'' = Some (set_string (\<lambda>v r. r\<lparr>ms_SourceNodeLabel := v\<rparr>))"
  "find_field snapshot_fields ''metrics'' = Some (set_structs metric_fields zero_metric ms_Metrics (\<lambda>v r. r\<lparr>ms_Metrics := v\<rparr>))"
  "find_field snapshot_fields ''connector_health'' = Some (set_structs health_fields zero_health ms_ConnectorHealth (\<lambda>v r. r\<lparr>ms_ConnectorHealth := v\<rparr>))"
  "find_field snapshot_fields ''homelab_nodes'' = Some (set_structs node_fields zero_node ms_HomeLabNodes (\<lambda>v r. r\<lparr>ms_HomeLabNodes := v\<rparr>))"
  "find_field snapshot_fields ''homelab_services'' = Some (set_structs service_fields zero_service ms_HomeLabServices (\<lambda>v r. r\<lparr>ms_HomeLabServices := v\<rparr>))"
  by (simp_all add: find_field_def snapshot_fields_def)

lemma envelope_member:
  "find_field envelope_fields ''type'' = Some (set_string (\<lambda>v r. r\<lparr>en_Type := v\<rparr>))"
  "find_field envelope_fields ''sent_at'' = Some (set_time (\<lambda>v r. r\<lparr>en_SentAt := v\<rparr>))"
  "find_field envelope_fields ''payload'' = Some (set_raw (\<lambda>v r. r\<lparr>en_Payload := v\<rparr>))"
  by (simp_all add: find_field_def envelope_fields_def)

lemma hello_member:
  "find_field hello_fields ''device_id'' = Some (set_string (\<lambda>v r. r\<lparr>hl_DeviceID := v\<rparr>))"
  "find_field hello_fields ''client_version'' = Some (set_string (\<lambda>v r. r\<lparr>hl_ClientVersion := v\<rparr>))"
  "find_field hello_fields ''schema_major'' = Some (set_int (\<lambda>v r. r\<lparr>hl_SchemaMajor := v\<rparr>))"
  "find_field hello_fields ''last_epoch'' = Some (set_string (\<lambda>v r. r\<lparr>hl_LastEpoch := v\<rparr>))"
  "find_field hello_fields ''last_snapshot_version'' = Some (set_uint64 (\<lambda>v r. r\<lparr>hl_LastSnapshotVersion := v\<rparr>))"
  "find_field hello_fields ''terminal_cols'' = Some (set_int (\<lambda>v r. r\<lparr>hl_TerminalCols := v\<rparr>))"
  "find_field hello_fields ''terminal_rows'' = Some (set_int (\<lambda>v r. r\<lparr>hl_TerminalRows := v\<rparr>))"
  by (simp_all add: find_field_def hello_fields_def)

text \<open>
  What a value of the Go types always is and the types of the model do not say: text is UTF-8, integers
  fit their width, instants have a date, decimals came out of the parser.
\<close>

definition metric_wire_ok :: "ProviderMetric \<Rightarrow> bool" where
  "metric_wire_ok m \<longleftrightarrow>
     list_all utf8_text [pm_ID m, pm_Provider m, pm_AccountLabel m, pm_DisplayName m, pm_MetricKind m, pm_Unit m,
       pm_Window m, pm_Precision m, pm_SourceKind m, pm_Status m, pm_ErrorClass m, pm_Message m, pm_Group m] \<and>
     amount_ok (pm_MetricKind m) (pm_Value m) \<and> amount_ok (pm_MetricKind m) (pm_Limit m) \<and>
     time_ptr_ok (pm_ResetsAt m) \<and> time_ok (pm_ObservedAt m) \<and> in_int64 (pm_StaleAfter m) \<and>
     (\<forall>v\<in>set (pm_Derived m). utf8_text v) \<and> in_int64 (pm_Order m)"

definition health_wire_ok :: "ConnectorHealth \<Rightarrow> bool" where
  "health_wire_ok h \<longleftrightarrow>
     list_all utf8_text [ch_ConnectorID h, ch_Provider h, ch_State h, ch_ErrorClass h, ch_Message h] \<and>
     time_ptr_ok (ch_LastAttemptAt h) \<and> time_ptr_ok (ch_LastSuccessAt h) \<and> time_ptr_ok (ch_NextAttemptAt h) \<and>
     in_int64 (ch_ConsecutiveFailures h)"

definition node_wire_ok :: "HomeLabNode \<Rightarrow> bool" where
  "node_wire_ok n \<longleftrightarrow>
     list_all utf8_text [hn_ID n, hn_Name n, hn_Status n, hn_ErrorClass n, hn_Message n] \<and>
     list_all int_ptr_ok [hn_CPUPercent n, hn_MemoryPercent n, hn_DiskPercent n, hn_NetworkReceiveBPS n,
       hn_NetworkTransmitBPS n] \<and>
     time_ok (hn_ObservedAt n) \<and> in_int64 (hn_StaleAfter n) \<and> in_int64 (hn_Order n)"

definition service_wire_ok :: "HomeLabService \<Rightarrow> bool" where
  "service_wire_ok s \<longleftrightarrow>
     list_all utf8_text [hs_ID s, hs_Name s, hs_Kind s, hs_Version s, hs_APIGeneration s, hs_Status s,
       hs_ErrorClass s, hs_Message s] \<and>
     list_all int_ptr_ok [hs_FiringAlerts s, hs_EnvironmentsTotal s, hs_EnvironmentsOnline s,
       hs_ContainersRunning s, hs_ContainersStopped s, hs_ContainersFailed s, hs_Stacks s] \<and>
     time_ok (hs_ObservedAt s) \<and> in_int64 (hs_StaleAfter s) \<and> in_int64 (hs_Order s)"

definition snapshot_wire_ok :: "MetricSnapshot \<Rightarrow> bool" where
  "snapshot_wire_ok s \<longleftrightarrow>
     list_all utf8_text [ms_SchemaVersion s, ms_SourceEpoch s, ms_SourceNode s, ms_SourceNodeLabel s] \<and>
     time_ok (ms_GeneratedAt s) \<and> list_all metric_wire_ok (ms_Metrics s) \<and>
     list_all health_wire_ok (ms_ConnectorHealth s) \<and> list_all node_wire_ok (ms_HomeLabNodes s) \<and>
     list_all service_wire_ok (ms_HomeLabServices s)"

text \<open>What arrives: everything as it was, money to the cent.\<close>

definition wire_metric :: "ProviderMetric \<Rightarrow> ProviderMetric" where
  "wire_metric m = m\<lparr>pm_Value := map_option (wire_decimal (pm_MetricKind m)) (pm_Value m),
     pm_Limit := map_option (wire_decimal (pm_MetricKind m)) (pm_Limit m)\<rparr>"

definition wire_snapshot :: "MetricSnapshot \<Rightarrow> MetricSnapshot" where
  "wire_snapshot s = s\<lparr>ms_Metrics := map wire_metric (ms_Metrics s)\<rparr>"

text \<open>Members one after the other: which field, then the rest, then what the field needs.\<close>

lemma decodes_chain:
  "find_field fs k = Some (set_uint64 upd1) \<Longrightarrow> decodes fs b (upd1 v1 r) r2 \<Longrightarrow> utf8_text k \<Longrightarrow>
   decodes fs (put k (marshal_int (uint v1)) @ b) r r2"
  "find_field fs k = Some (set_string upd2) \<Longrightarrow> decodes fs b (upd2 v2 r) r2 \<Longrightarrow> utf8_text k \<and> utf8_text v2 \<Longrightarrow>
   decodes fs (put k (marshal_string v2) @ b) r r2"
  "find_field fs k = Some (set_string upd2) \<Longrightarrow> decodes fs b (upd2 v2 r) r2 \<Longrightarrow>
   utf8_text k \<and> utf8_text v2 \<and> upd2 [] r = r \<Longrightarrow> decodes fs (put_nonempty k v2 @ b) r r2"
  "find_field fs k = Some (set_bool upd3) \<Longrightarrow> decodes fs b (upd3 v3 r) r2 \<Longrightarrow> utf8_text k \<Longrightarrow>
   decodes fs (put k (marshal_bool v3) @ b) r r2"
  "find_field fs k = Some (set_bool_ptr upd4) \<Longrightarrow> decodes fs b (upd4 v4 r) r2 \<Longrightarrow> utf8_text k \<and> upd4 None r = r \<Longrightarrow>
   decodes fs (put_bool_ptr k v4 @ b) r r2"
  "find_field fs k = Some (set_int upd5) \<Longrightarrow> decodes fs b (upd5 v5 r) r2 \<Longrightarrow> utf8_text k \<and> in_int64 v5 \<Longrightarrow>
   decodes fs (put k (marshal_int v5) @ b) r r2"
  "find_field fs k = Some (set_int upd5) \<Longrightarrow> decodes fs b (upd5 v5 r) r2 \<Longrightarrow>
   utf8_text k \<and> in_int64 v5 \<and> upd5 0 r = r \<Longrightarrow> decodes fs (put_nonzero k v5 @ b) r r2"
  "find_field fs k = Some (set_int_ptr upd6) \<Longrightarrow> decodes fs b (upd6 v6 r) r2 \<Longrightarrow>
   utf8_text k \<and> int_ptr_ok v6 \<and> upd6 None r = r \<Longrightarrow> decodes fs (put_int_ptr k v6 @ b) r r2"
  "find_field fs k = Some (set_time upd7) \<Longrightarrow> decodes fs b (upd7 v7 r) r2 \<Longrightarrow> utf8_text k \<and> time_ok v7 \<Longrightarrow>
   decodes fs (put_time k v7 @ b) r r2"
  "find_field fs k = Some (set_time_ptr upd8) \<Longrightarrow> decodes fs b (upd8 v8 r) r2 \<Longrightarrow>
   utf8_text k \<and> time_ptr_ok v8 \<and> upd8 None r = r \<Longrightarrow> decodes fs (put_time_ptr k v8 @ b) r r2"
  "find_field fs k = Some (set_duration upd7) \<Longrightarrow> decodes fs b (upd7 v7 r) r2 \<Longrightarrow>
   utf8_text k \<and> in_int64 v7 \<and> upd7 0 r = r \<Longrightarrow> decodes fs (put_duration k v7 @ b) r r2"
  "find_field fs k = Some (set_strings upd9) \<Longrightarrow> decodes fs b (upd9 v9 r) r2 \<Longrightarrow>
   utf8_text k \<and> (\<forall>v\<in>set v9. utf8_text v) \<and> upd9 [] r = r \<Longrightarrow> decodes fs (put_strings k v9 @ b) r r2"
  "find_field fs k = Some (set_decimal_ptr upd10) \<Longrightarrow> decodes fs b (upd10 (map_option (wire_decimal kind) v10) r) r2 \<Longrightarrow>
   utf8_text k \<and> amount_ok kind v10 \<and> upd10 None r = r \<Longrightarrow> decodes fs (put_amount k kind v10 @ b) r r2"
  "find_field fs k = Some (set_structs efs zero sel upd11) \<Longrightarrow> decodes fs b (upd11 (map wire es) r) r2 \<Longrightarrow>
   utf8_text k \<and> sel r = [] \<and> (\<forall>e\<in>set es. codec efs zero m wire e) \<Longrightarrow> decodes fs (put_structs k (map m es) @ b) r r2"
  by (blast intro: decodes_append decodes_uint64 decodes_string decodes_nonempty decodes_bool decodes_bool_ptr decodes_int
      decodes_nonzero decodes_int_ptr decodes_time decodes_time_ptr decodes_duration decodes_strings decodes_amount
      decodes_structs)+

lemma decodes_last: "decodes fs (a @ []) r r2 \<Longrightarrow> decodes fs a r r2"
  by simp

lemma decodes_done: "r = r2 \<Longrightarrow> decodes fs [] r r2"
  by (simp add: decodes_nil)



lemma metric_codec:
  assumes "metric_wire_ok m"
  shows "codec metric_fields zero_metric marshal_metric wire_metric m"
proof (rule codecI)
  let ?ms = "if pm_MetricKind m \<noteq> KindBalance \<and> pm_MetricKind m \<noteq> KindCost
      then metric_head m @ metric_amounts m @ metric_tail m
      else metric_head m @ metric_tail m @ metric_amounts m"
  show "marshal_metric m = marshal_struct ?ms" by (rule marshal_metric_def)
  have "decodes metric_fields (metric_head m @ metric_amounts m @ metric_tail m) zero_metric (wire_metric m)"
    unfolding metric_head_def metric_amounts_def metric_tail_def append_assoc
    by (((rule decodes_chain | rule decodes_last, rule decodes_chain), rule metric_member)+, rule decodes_done)
      (use assms in \<open>simp_all add: metric_wire_ok_def utf8_text.simps zero_metric_def wire_metric_def\<close>)
  moreover have "decodes metric_fields (metric_head m @ metric_tail m @ metric_amounts m) zero_metric (wire_metric m)"
    unfolding metric_head_def metric_amounts_def metric_tail_def append_assoc
    by (((rule decodes_chain | rule decodes_last, rule decodes_chain), rule metric_member)+, rule decodes_done)
      (use assms in \<open>simp_all add: metric_wire_ok_def utf8_text.simps zero_metric_def wire_metric_def\<close>)
  ultimately show "decodes metric_fields ?ms zero_metric (wire_metric m)" by simp
qed

lemma health_codec:
  assumes "health_wire_ok h"
  shows "codec health_fields zero_health marshal_health id h"
  unfolding id_def
proof (rule codecI [where m = marshal_health, OF _ marshal_health_def])
  show "decodes health_fields (put ''connector_id'' (marshal_string (ch_ConnectorID h)) @
      put ''provider'' (marshal_string (ch_Provider h)) @ put ''enabled'' (marshal_bool (ch_Enabled h)) @
      put ''state'' (marshal_string (ch_State h)) @ put_time_ptr ''last_attempt_at'' (ch_LastAttemptAt h) @
      put_time_ptr ''last_success_at'' (ch_LastSuccessAt h) @
      put_time_ptr ''next_attempt_at'' (ch_NextAttemptAt h) @
      put ''consecutive_failures'' (marshal_int (ch_ConsecutiveFailures h)) @
      put_nonempty ''error_class'' (ch_ErrorClass h) @ put_nonempty ''message'' (ch_Message h)) zero_health h"
    by (((rule decodes_chain | rule decodes_last, rule decodes_chain), rule health_member)+, rule decodes_done)
      (use assms in \<open>simp_all add: health_wire_ok_def utf8_text.simps zero_health_def\<close>)
qed

lemma node_codec:
  assumes "node_wire_ok n"
  shows "codec node_fields zero_node marshal_node id n"
  unfolding id_def
proof (rule codecI [where m = marshal_node, OF _ marshal_node_def])
  show "decodes node_fields (put ''id'' (marshal_string (hn_ID n)) @ put ''name'' (marshal_string (hn_Name n)) @
      put_bool_ptr ''online'' (hn_Online n) @ put_int_ptr ''cpu_percent'' (hn_CPUPercent n) @
      put_int_ptr ''memory_percent'' (hn_MemoryPercent n) @ put_int_ptr ''disk_percent'' (hn_DiskPercent n) @
      put_int_ptr ''network_receive_bps'' (hn_NetworkReceiveBPS n) @
      put_int_ptr ''network_transmit_bps'' (hn_NetworkTransmitBPS n) @
      put_time ''observed_at'' (hn_ObservedAt n) @ put_duration ''stale_after'' (hn_StaleAfter n) @
      put ''status'' (marshal_string (hn_Status n)) @ put_nonempty ''error_class'' (hn_ErrorClass n) @
      put_nonempty ''message'' (hn_Message n) @ put_nonzero ''order'' (hn_Order n)) zero_node n"
    by (((rule decodes_chain | rule decodes_last, rule decodes_chain), rule node_member)+, rule decodes_done)
      (use assms in \<open>simp_all add: node_wire_ok_def utf8_text.simps zero_node_def\<close>)
qed

lemma service_codec:
  assumes "service_wire_ok s"
  shows "codec service_fields zero_service marshal_service id s"
  unfolding id_def
proof (rule codecI [where m = marshal_service, OF _ marshal_service_def])
  show "decodes service_fields (put ''id'' (marshal_string (hs_ID s)) @ put ''name'' (marshal_string (hs_Name s)) @
      put ''kind'' (marshal_string (hs_Kind s)) @ put_nonempty ''version'' (hs_Version s) @
      put_nonempty ''api_generation'' (hs_APIGeneration s) @ put_bool_ptr ''healthy'' (hs_Healthy s) @
      put_int_ptr ''firing_alerts'' (hs_FiringAlerts s) @
      put_int_ptr ''environments_total'' (hs_EnvironmentsTotal s) @
      put_int_ptr ''environments_online'' (hs_EnvironmentsOnline s) @
      put_int_ptr ''containers_running'' (hs_ContainersRunning s) @
      put_int_ptr ''containers_stopped'' (hs_ContainersStopped s) @
      put_int_ptr ''containers_failed'' (hs_ContainersFailed s) @ put_int_ptr ''stacks'' (hs_Stacks s) @
      put_time ''observed_at'' (hs_ObservedAt s) @ put_duration ''stale_after'' (hs_StaleAfter s) @
      put ''status'' (marshal_string (hs_Status s)) @ put_nonempty ''error_class'' (hs_ErrorClass s) @
      put_nonempty ''message'' (hs_Message s) @ put_nonzero ''order'' (hs_Order s)) zero_service s"
    by (((rule decodes_chain | rule decodes_last, rule decodes_chain), rule service_member)+, rule decodes_done)
      (use assms in \<open>simp_all add: service_wire_ok_def utf8_text.simps zero_service_def\<close>)
qed

lemma decodes_omitted:
  assumes "find_field fs k = Some (set_structs efs zero sel upd)" "decodes fs b (upd (map wire es) r) r2"
    "utf8_text k \<and> sel r = [] \<and> upd [] r = r \<and> (\<forall>e\<in>set es. codec efs zero m wire e)"
  shows "decodes fs ((if es = [] then [] else put_structs k (map m es)) @ b) r r2"
  using assms by (auto simp: decodes_nil intro: decodes_chain)

lemma snapshot_decodes:
  assumes "snapshot_wire_ok s"
  shows "decodes snapshot_fields (put ''schema_version'' (marshal_string (ms_SchemaVersion s)) @ snapshot_members s)
    zero_snapshot (wire_snapshot s)"
proof -
  have elements: "\<forall>e\<in>set (ms_Metrics s). codec metric_fields zero_metric marshal_metric wire_metric e"
    "\<forall>e\<in>set (ms_ConnectorHealth s). codec health_fields zero_health marshal_health id e"
    "\<forall>e\<in>set (ms_HomeLabNodes s). codec node_fields zero_node marshal_node id e"
    "\<forall>e\<in>set (ms_HomeLabServices s). codec service_fields zero_service marshal_service id e"
    using assms by (auto simp: snapshot_wire_ok_def list_all_iff intro: metric_codec health_codec node_codec service_codec)
  show ?thesis
    unfolding snapshot_members_def
    by (((rule decodes_omitted decodes_chain | rule decodes_last, rule decodes_omitted decodes_chain), rule snapshot_member)+, rule decodes_done)
      (use assms elements in \<open>simp_all add: snapshot_wire_ok_def utf8_text.simps zero_snapshot_def wire_snapshot_def\<close>)
qed

section \<open>Envelopes\<close>

lemma decodes_raw:
  "find_field fs k = Some (set_raw upd) \<Longrightarrow> utf8_text k \<Longrightarrow> reads t v \<Longrightarrow> decodes fs (put k t) r (upd t r)"
  by (erule decodes_put) (auto simp: set_raw_def)

lemma marshal_snapshot_reads:
  assumes "snapshot_wire_ok s" "marshal_snapshot s = Some t"
  shows "\<exists>v. reads t v"
  using decodes_struct [OF snapshot_decodes [OF assms(1)]] assms(2) by (auto simp: marshal_snapshot_def)

text \<open>An envelope hands the payload's text over unchanged.\<close>

lemma envelope_roundtrip:
  assumes "utf8_text ty" "ty \<noteq> []" "time_ok now" "reads raw v"
  shows "\<exists>t. Encode ty now (Some (Some raw)) = Some t \<and>
    DecodeEnvelope t = Some \<lparr>en_Type = ty, en_SentAt = now, en_Payload = raw\<rparr>"
proof -
  let ?zero = "\<lparr>en_Type = [], en_SentAt = 0, en_Payload = []\<rparr>"
  have "decodes envelope_fields (put ''type'' (marshal_string ty) @ put_time ''sent_at'' now @ put ''payload'' raw)
     ?zero \<lparr>en_Type = ty, en_SentAt = now, en_Payload = raw\<rparr>"
    using decodes_raw [OF envelope_member(3) _ assms(4), of "\<lparr>en_Type = ty, en_SentAt = now, en_Payload = []\<rparr>"]
    by (intro decodes_chain(2) [OF envelope_member(1)] decodes_chain(9) [OF envelope_member(2)])
      (simp_all add: assms utf8_text.simps)
  from decodes_unmarshal [OF this] reads_nonempty [OF assms(4)] assms(2) show ?thesis
    by (auto simp: Encode_def DecodeEnvelope_def)
qed

text \<open>A struct with a single field reads the same text, passing over the members it does not know.\<close>

lemma reads_unique: "reads t v \<Longrightarrow> reads t v' \<Longrightarrow> v = v'"
  by (metis reads_parse_json option.inject)

lemma member_keys: "list_all2 member_reads ms es \<Longrightarrow> map fst es = map fst ms"
  by (induction rule: list_all2_induct) (auto simp: member_reads_def)

lemma decode_members_ignored:
  "\<forall>e\<in>set es. find_field gs (fst e) = None \<Longrightarrow> decode_members False gs es q = Some q"
  by (induction es) auto

lemma decodes_first:
  assumes "decodes fs (put k (marshal_string x) @ ms) r r'" "utf8_text x"
    and "find_field gs k = Some (set_string upd)" "\<forall>m\<in>set ms. find_field gs (fst m) = None"
  shows "decodes gs (put k (marshal_string x) @ ms) q (upd x q)"
proof -
  from assms(1) obtain v es where
    es: "list_all2 member_reads (map (\<lambda>(k, t). (k, the t)) (put k (marshal_string x) @ ms)) ((k, marshal_string x, v) # es)"
    by (auto simp: decodes_def put_def list_all2_Cons1 member_reads_def)
  then have "reads (marshal_string x) v" by (simp add: put_def member_reads_def)
  then have "v = JString x" using reads_string [OF assms(2)] by (rule reads_unique)
  moreover from es have "list_all2 member_reads (map (\<lambda>(k, t). (k, the t)) ms) es" by (simp add: put_def)
  from member_keys [OF this] have "map fst es = map fst ms" by (simp add: comp_def case_prod_beta)
  then have names: "set (map fst es) = set (map fst ms)" by simp
  have "find_field gs (fst e) = None" if "e \<in> set es" for e
  proof -
    from that have "fst e \<in> set (map fst es)" by simp
    then have "fst e \<in> fst ` set ms" unfolding names by simp
    with assms(4) show ?thesis by auto
  qed
  ultimately have "decode_members False gs ((k, marshal_string x, v) # es) q = Some (upd x q)"
    using assms(3) by (simp add: set_string_def decode_members_ignored)
  with es assms(1) show ?thesis unfolding decodes_def by blast
qed

section \<open>A published snapshot arrives\<close>

lemma wire_metric_ok: "metric_ok (wire_metric m) = metric_ok m"
  by (simp add: metric_ok_def wire_metric_def)

lemma wire_metric_ID [simp]: "pm_ID (wire_metric m) = pm_ID m"
  by (simp add: wire_metric_def)

lemma snapshot_ok_wire: "snapshot_ok (wire_snapshot s) = snapshot_ok s"
  by (auto simp: snapshot_ok_def wire_snapshot_def wire_metric_ok comp_def)

lemma snapshot_member_names:
  "fst ` set (snapshot_members s) \<subseteq> {''source_epoch'', ''snapshot_version'', ''generated_at'', ''source_node'',
     ''source_node_label'', ''metrics'', ''connector_health'', ''homelab_nodes'', ''homelab_services''}"
  by (auto simp: snapshot_members_def put_def put_time_def put_nonempty_def put_structs_def)

lemma probe_ignores: "m \<in> set (snapshot_members s) \<Longrightarrow> find_field probe_fields (fst m) = None"
proof -
  assume "m \<in> set (snapshot_members s)"
  with snapshot_member_names [of s] have "fst m \<in> {''source_epoch'', ''snapshot_version'', ''generated_at'', ''source_node'',
     ''source_node_label'', ''metrics'', ''connector_health'', ''homelab_nodes'', ''homelab_services''}" by blast
  then show ?thesis
    unfolding insert_iff empty_iff
    by (elim disjE) (simp_all add: find_field_def probe_fields_def kelvin_sign_def long_s_def)
qed

lemma probe_member: "find_field probe_fields ''schema_version'' = Some (set_string (\<lambda>v _. v))"
  by (simp add: find_field_def probe_fields_def)

lemma snapshot_text_read:
  assumes "snapshot_ok s" "snapshot_wire_ok s"
  shows "\<exists>t. marshal_snapshot s = Some t \<and> DecodeSnapshot t = Inr (wire_snapshot s)"
proof -
  let ?ms = "put ''schema_version'' (marshal_string (ms_SchemaVersion s)) @ snapshot_members s"
  have D: "decodes snapshot_fields ?ms zero_snapshot (wire_snapshot s)" using assms(2) by (rule snapshot_decodes)
  have "utf8_text (ms_SchemaVersion s)" using assms(2) by (simp add: snapshot_wire_ok_def)
  from decodes_first [OF D this probe_member] have "decodes probe_fields ?ms [] (ms_SchemaVersion s)"
    using probe_ignores by blast
  from decodes_unmarshal [OF this] decodes_unmarshal [OF D] obtain t where
    "marshal_snapshot s = Some t" "unmarshal False probe_fields [] t = Some (ms_SchemaVersion s)"
    "unmarshal False snapshot_fields zero_snapshot t = Some (wire_snapshot s)"
    by (auto simp: marshal_snapshot_def)
  moreover have "CheckSchema (ms_SchemaVersion s) = None" using assms(1) by (simp add: CheckSchema_None snapshot_ok_def)
  moreover have "MetricSnapshot_Validate (Some (wire_snapshot s)) = None"
    using assms(1) by (simp add: MetricSnapshot_Validate_iff snapshot_ok_wire)
  ultimately show ?thesis by (simp add: DecodeSnapshot_def)
qed

text \<open>
  C10. Whatever valid snapshot the daemon holds, its text is accepted by the display and decodes to the
  same snapshot, every field of every entity exact, with balances and costs rounded to the cent.
\<close>

theorem snapshot_wire_roundtrip:
  assumes "snapshot_ok s" "snapshot_wire_ok s"
  shows "\<exists>t. marshal_snapshot s = Some t \<and> DecodeSnapshot t = Inr (wire_snapshot s)"
  using assms by (rule snapshot_text_read)

lemma published_text_read:
  assumes "snapshot_ok v" "snapshot_wire_ok v" "time_ok now"
  shows "\<exists>payload frame. marshal_snapshot v = Some payload \<and> DecodeSnapshot payload = Inr (wire_snapshot v) \<and>
    Encode MsgSnapshotFull now (Some (marshal_snapshot v)) = Some frame \<and>
    DecodeEnvelope frame = Some \<lparr>en_Type = MsgSnapshotFull, en_SentAt = now, en_Payload = payload\<rparr>"
proof -
  obtain t where t: "marshal_snapshot v = Some t" "DecodeSnapshot t = Inr (wire_snapshot v)"
    using snapshot_text_read [OF assms(1,2)] by blast
  obtain j where j: "reads t j" using marshal_snapshot_reads [OF assms(2) t(1)] by blast
  show ?thesis
    using envelope_roundtrip [OF _ _ assms(3) j, of MsgSnapshotFull] t by (auto simp: utf8_text.simps)
qed

definition example_snapshot :: MetricSnapshot where
  "example_snapshot = \<lparr>ms_SchemaVersion = ''1.1'', ms_SourceEpoch = ''e1'', ms_SnapshotVersion = 7,
     ms_GeneratedAt = 1, ms_SourceNode = ''node-1'', ms_SourceNodeLabel = [],
     ms_Metrics = [zero_metric\<lparr>pm_ID := ''m1'', pm_Provider := ''deepseek'', pm_MetricKind := KindBalance,
       pm_Value := Some (New 8205 3), pm_Unit := ''CNY'', pm_Window := ''prepaid'', pm_ObservedAt := 1,
       pm_Precision := PrecisionExact, pm_SourceKind := ''official_api'', pm_Status := StatusOK\<rparr>],
     ms_ConnectorHealth = [], ms_HomeLabNodes = [], ms_HomeLabServices = []\<rparr>"

lemma example_snapshot_ok: "snapshot_ok example_snapshot"
  by (simp add: example_snapshot_def snapshot_ok_def schema_ok_def metric_ok_def ident_ok_def text_ok_def zero_metric_def
      is_ident_char_def is_lower_def is_upper_def is_control_def atoi_def is_digit_def digits_value_def digit_value_def in_int64_def SchemaMajor_def
      metricKinds_def windows_def precisions_def sourceKinds_def metricStatuses_def error_class_ok_def errorClasses_def Let_def
      MaxHomeLabNodes_def MaxHomeLabServices_def)

lemma first_instant_ok: "time_ok 1"
proof -
  have "year_of_day 0 = (1, 0)" by (simp add: year_of_day_def)
  moreover have "month_of_day (month_lengths 1) 1 0 = (1, 0)" by (simp add: month_lengths_def)
  ultimately show ?thesis unfolding time_ok_def format_time_def Let_def by (simp add: second_def)
qed

lemma example_snapshot_wire_ok: "snapshot_wire_ok example_snapshot"
  by (simp add: example_snapshot_def snapshot_wire_ok_def metric_wire_ok_def zero_metric_def utf8_text.simps first_instant_ok
      amount_ok_def time_ptr_ok_def in_int64_def wf_decimal_def wire_decimal_def New_def rescaled_def round_quotient_def
      signed_def round_half_away_def pow10_def)

theorem snapshot_wire_roundtrip_witness:
  "\<exists>t. marshal_snapshot example_snapshot = Some t \<and> DecodeSnapshot t = Inr (wire_snapshot example_snapshot)"
  using example_snapshot_ok example_snapshot_wire_ok by (rule snapshot_wire_roundtrip)

end
