(* ===== verification/SnapStore.thy ===== *)
theory SnapStore
  imports WireRoundtrip AtomicFile "HOL-Library.Sublist"
begin

text \<open>
  The one snapshot a display keeps across restarts (\<open>internal/snapstore/store.go\<close>): a file under a fixed
  name, replaced atomically, refused when it is invalid or from another node, moved aside when it cannot
  be read. The outcome of every file system call is an argument.
\<close>

section \<open>The directory\<close>

definition FileName :: string where "FileName = ''last-known-good.json''"
definition quarantineName :: string where "quarantineName = ''last-known-good.corrupt''"
definition MaxBytes :: nat where "MaxBytes = 1048576"

datatype store_error =
    SDirRequired                      \<comment> \<open>\<open>dir is required\<close>\<close>
  | SCreateDir                        \<comment> \<open>\<open>create dir\<close>\<close>
  | SInspectDir
  | SInspectTemp string
  | SNotRegular string
  | SRemoveTemp string
  | SNoSnapshot                       \<comment> \<open>\<open>ErrNoSnapshot\<close>: no file\<close>
  | SQuarantined decode_error         \<comment> \<open>\<open>ErrNoSnapshot\<close>, unreadable file moved aside\<close>
  | SForeign validation_error         \<comment> \<open>\<open>ErrNoSnapshot\<close>, a file of another node moved aside\<close>
  | SRead                             \<comment> \<open>a call failed, or the file is too long\<close>
  | SInvalid validation_error         \<comment> \<open>\<open>refusing to save invalid snapshot\<close>\<close>
  | SBinding validation_error
  | SMarshal
  | STooLarge nat
  | SWrite                            \<comment> \<open>a call before or at the rename failed\<close>
  | SSyncDir                          \<comment> \<open>the directory could not be synced\<close>

definition is_no_snapshot :: "store_error \<Rightarrow> bool" where
  "is_no_snapshot e \<longleftrightarrow> (case e of SNoSnapshot \<Rightarrow> True | SQuarantined _ \<Rightarrow> True | SForeign _ \<Rightarrow> True | _ \<Rightarrow> False)"

section \<open>Opening: interrupted temporary files\<close>

record dirent =
  de_Name :: string
  de_Regular :: bool

definition tempPrefix :: string where "tempPrefix = FileName @ ''.tmp-''"

text \<open>
  \<open>entries\<close> is the listing, the result the error and what is left in the directory; \<open>lstat\<close> and \<open>remove\<close>
  say for which names the calls work.
\<close>

fun cleanup_entries ::
  "(string \<Rightarrow> bool) \<Rightarrow> (string \<Rightarrow> bool) \<Rightarrow> dirent list \<Rightarrow> store_error option \<times> dirent list" where
  "cleanup_entries lstat remove [] = (None, [])"
| "cleanup_entries lstat remove (e # es) =
     (if \<not> prefix tempPrefix (de_Name e) then
        (case cleanup_entries lstat remove es of (err, left) \<Rightarrow> (err, e # left))
      else if \<not> lstat (de_Name e) then (Some (SInspectTemp (de_Name e)), e # es)
      else if \<not> de_Regular e then (Some (SNotRegular (de_Name e)), e # es)
      else if \<not> remove (de_Name e) then (Some (SRemoveTemp (de_Name e)), e # es)
      else cleanup_entries lstat remove es)"

definition cleanupInterruptedTemps ::
  "bool \<Rightarrow> (string \<Rightarrow> bool) \<Rightarrow> (string \<Rightarrow> bool) \<Rightarrow> dirent list \<Rightarrow> store_error option \<times> dirent list" where
  "cleanupInterruptedTemps listed lstat remove entries =
     (if \<not> listed then (Some SInspectDir, entries) else cleanup_entries lstat remove entries)"

record Store =
  st_dir :: string
  st_binding :: SourceBinding

definition New_Store ::
  "string \<Rightarrow> SourceBinding \<Rightarrow> bool \<Rightarrow> bool \<Rightarrow> (string \<Rightarrow> bool) \<Rightarrow> (string \<Rightarrow> bool) \<Rightarrow> dirent list \<Rightarrow>
   (store_error + Store) \<times> dirent list" where
  "New_Store dir binding made listed lstat remove entries =
     (if dir = [] then (Inl SDirRequired, entries)
      else if \<not> made then (Inl SCreateDir, entries)
      else case cleanupInterruptedTemps listed lstat remove entries of
        (Some e, left) \<Rightarrow> (Inl e, left)
      | (None, left) \<Rightarrow> (Inr \<lparr>st_dir = dir, st_binding = binding\<rparr>, left))"

definition Files :: "bool \<Rightarrow> dirent list \<Rightarrow> string list option" where
  "Files listed entries = (if \<not> listed then None else Some (map de_Name entries))"

section \<open>Reading and writing\<close>

text \<open>The snapshot file and its temporary files as a disk, and the file moved aside.\<close>

record snap_disk =
  sd_disk :: "string disk"
  sd_quarantined :: "string option"

record load_env =
  le_open :: bool          \<comment> \<open>open and stat work on a file that is there\<close>
  le_read :: bool
  le_rename :: bool        \<comment> \<open>the move into quarantine\<close>
  le_remove :: bool

definition readBounded :: "load_env \<Rightarrow> string option \<Rightarrow> store_error + string" where
  "readBounded env content =
     (case content of
        None \<Rightarrow> Inl SNoSnapshot
      | Some raw \<Rightarrow>
          if \<not> le_open env then Inl SRead
          else if length raw > MaxBytes then Inl SRead
          else if \<not> le_read env \<and> length raw > 0 then Inl SRead
          else Inr raw)"

text \<open>A file that cannot be moved is removed, and stays only if that fails too.\<close>

definition quarantine :: "load_env \<Rightarrow> snap_disk \<Rightarrow> snap_disk" where
  "quarantine env d =
     (if le_rename env then
        d\<lparr>sd_quarantined := dk_file (sd_disk d), sd_disk := (sd_disk d)\<lparr>dk_file := None\<rparr>\<rparr>
      else if le_remove env then d\<lparr>sd_disk := (sd_disk d)\<lparr>dk_file := None\<rparr>\<rparr>
      else d)"

definition Load :: "Store \<Rightarrow> load_env \<Rightarrow> snap_disk \<Rightarrow> (store_error + MetricSnapshot) \<times> snap_disk" where
  "Load s env d =
     (case readBounded env (dk_file (sd_disk d)) of
        Inl e \<Rightarrow> (Inl e, d)
      | Inr raw \<Rightarrow>
          (case DecodeSnapshot raw of
             Inl e \<Rightarrow> (Inl (SQuarantined e), quarantine env d)
           | Inr snap \<Rightarrow>
               (case Accept (st_binding s) (Some snap) of
                  Some e \<Rightarrow> (Inl (SForeign e), quarantine env d)
                | None \<Rightarrow> (Inr snap, d))))"

definition snapshot_steps :: "fs_step list" where
  "snapshot_steps = [CreateTemp, ChmodTemp, WriteTemp, SyncTemp, CloseTemp, RenameTemp]"

definition Save ::
  "Store \<Rightarrow> (fs_step \<Rightarrow> bool) \<Rightarrow> bool \<Rightarrow> MetricSnapshot option \<Rightarrow> snap_disk \<Rightarrow> store_error option \<times> snap_disk" where
  "Save s works synced snap d =
     (case MetricSnapshot_Validate snap of
        Some e \<Rightarrow> (Some (SInvalid e), d)
      | None \<Rightarrow>
          (case Accept (st_binding s) snap of
             Some e \<Rightarrow> (Some (SBinding e), d)
           | None \<Rightarrow>
               (case Option.bind snap marshal_snapshot of
                  None \<Rightarrow> (Some SMarshal, d)
                | Some raw \<Rightarrow>
                    if length raw > MaxBytes then (Some (STooLarge (length raw)), d)
                    else
                      (case write_steps works snapshot_steps [] raw (sd_disk d) of
                         (wrote, disk) \<Rightarrow>
                           (if \<not> wrote then Some SWrite else if \<not> synced then Some SSyncDir else None,
                            d\<lparr>sd_disk := disk\<rparr>)))))"

interpretation snapshot_file: atomic_replacement snapshot_steps "[ChmodTemp]" "[SyncTemp, CloseTemp]"
  by unfold_locales (simp_all add: snapshot_steps_def)

section \<open>Properties\<close>

definition load_works :: load_env where
  "load_works = \<lparr>le_open = True, le_read = True, le_rename = True, le_remove = True\<rparr>"

definition bound_ok :: "SourceBinding \<Rightarrow> MetricSnapshot \<Rightarrow> bool" where
  "bound_ok b s \<longleftrightarrow> sb_NodeID b \<noteq> [] \<and> ms_SourceNode s = sb_NodeID b"

lemma Accept_None: "Accept b (Some s) = None \<longleftrightarrow> bound_ok b s"
  by (auto simp: Accept_def bound_ok_def)

lemma Load_ok: "Load s env d = (Inr snap, d') \<Longrightarrow> snapshot_ok snap \<and> bound_ok (st_binding s) snap \<and> d' = d"
  by (auto simp: Load_def Accept_None dest: DecodeSnapshot_ok split: sum.splits option.splits)

text \<open>What a save does: the checks in order, and then all of the write or nothing.\<close>

definition savable :: "Store \<Rightarrow> MetricSnapshot \<Rightarrow> string \<Rightarrow> bool" where
  "savable s v raw \<longleftrightarrow> snapshot_ok v \<and> bound_ok (st_binding s) v \<and> marshal_snapshot v = Some raw \<and> length raw \<le> MaxBytes"

lemma Save_file:
  "dk_file (sd_disk (snd (Save s works synced (Some v) d))) =
     (if list_all works snapshot_steps \<and> (\<exists>raw. savable s v raw) then marshal_snapshot v else dk_file (sd_disk d))"
  by (auto simp: Save_def savable_def snapshot_file.outcome MetricSnapshot_Validate_iff [symmetric] Accept_None [symmetric]
      split: option.split)

lemma Save_None:
  "fst (Save s works synced (Some v) d) = None \<longleftrightarrow> (\<exists>raw. savable s v raw) \<and> list_all works snapshot_steps \<and> synced"
  by (auto simp: Save_def savable_def snapshot_file.outcome MetricSnapshot_Validate_iff [symmetric] Accept_None [symmetric]
      split: option.split)

lemma Load_file: "dk_file (sd_disk d) = dk_file (sd_disk d') \<Longrightarrow> fst (Load s env d) = fst (Load s env d')"
  by (simp add: Load_def split: sum.split option.split)

lemma Load_saved:
  assumes "savable s v raw" "snapshot_wire_ok v" "dk_file (sd_disk d) = Some raw"
  shows "fst (Load s load_works d) = Inr (wire_snapshot v)"
proof -
  have "DecodeSnapshot raw = Inr (wire_snapshot v)"
    using snapshot_text_read [of v] assms by (auto simp: savable_def)
  moreover have "Accept (st_binding s) (Some (wire_snapshot v)) = None"
    using assms(1) by (simp add: savable_def Accept_None bound_ok_def wire_snapshot_def)
  ultimately show ?thesis
    using assms by (simp add: Load_def readBounded_def load_works_def savable_def)
qed

text \<open>
  C11. Saving never loses the display's last good picture. Whatever system calls fail, and whether or not the
  new snapshot is valid, of the right node or small enough, reading the store afterwards gives exactly what
  it gave before, or the snapshot just saved (to the cent); after a reported success it is the latter.
\<close>

theorem save_keeps_last_good:
  assumes "snapshot_wire_ok v"
  shows "(fst (Load s load_works (snd (Save s works synced (Some v) d))) = fst (Load s load_works d) \<or>
     fst (Load s load_works (snd (Save s works synced (Some v) d))) = Inr (wire_snapshot v)) \<and>
   (fst (Save s works synced (Some v) d) = None \<longrightarrow>
     fst (Load s load_works (snd (Save s works synced (Some v) d))) = Inr (wire_snapshot v))"
proof (cases "list_all works snapshot_steps \<and> (\<exists>raw. savable s v raw)")
  case True
  then obtain raw where raw: "savable s v raw" by blast
  then have "dk_file (sd_disk (snd (Save s works synced (Some v) d))) = Some raw"
    using True by (auto simp: Save_file savable_def)
  with raw assms show ?thesis by (simp add: Load_saved)
next
  case False
  then have "dk_file (sd_disk (snd (Save s works synced (Some v) d))) = dk_file (sd_disk d)" by (auto simp: Save_file)
  with False show ?thesis by (auto simp: Save_None intro: Load_file)
qed

theorem save_keeps_last_good_witness:
  "let s = \<lparr>st_dir = ''/var/lib/homepi'', st_binding = \<lparr>sb_NodeID = ''node-1''\<rparr>\<rparr>;
       d = \<lparr>sd_disk = \<lparr>dk_file = None, dk_durable = True, dk_temps = 0\<rparr>, sd_quarantined = None\<rparr>;
       d' = snd (Save s (\<lambda>_. True) True (Some example_snapshot) d)
   in (fst (Load s load_works d') = fst (Load s load_works d) \<or>
       fst (Load s load_works d') = Inr (wire_snapshot example_snapshot)) \<and>
      (fst (Save s (\<lambda>_. True) True (Some example_snapshot) d) = None \<longrightarrow>
       fst (Load s load_works d') = Inr (wire_snapshot example_snapshot))"
  unfolding Let_def by (rule save_keeps_last_good) (rule example_snapshot_wire_ok)

end
