(* ===== verification/Persistence.thy ===== *)
theory Persistence
  imports CommandBus RemoteControl DeviceAcl SnapStore
begin

text \<open>
  The state files of the command queue and of the ledger, call by call. The components take the outcome
  of a write as one Boolean; here that is justified: writing through the sequence of system calls of
  \<open>persistLocked\<close> does to the file what the components' model does. The revocation list and the display's
  snapshot are written through the longer sequences that also flush the content.
\<close>

text \<open>
  The queue and the ledger written through the system calls of \<open>persistLocked\<close>. A file holds \<open>Some\<close> state, or
  nothing readable (\<open>None\<close>): a file that has been created and not written.
\<close>

definition bus_file :: "bool \<Rightarrow> nat \<Rightarrow> Bus \<Rightarrow> stateFile option disk" where
  "bus_file durable temps b = \<lparr>dk_file = map_option Some (bus_disk b), dk_durable = durable, dk_temps = temps\<rparr>"

definition bus_write :: "(fs_step \<Rightarrow> bool) \<Rightarrow> Bus \<Rightarrow> stateFile option disk \<Rightarrow> bool \<times> stateFile option disk" where
  "bus_write works b d = write_steps works plain_steps None (Some (bus_state b)) d"

definition ledger_file :: "bool \<Rightarrow> nat \<Rightarrow> resultStore \<Rightarrow> storeState option disk" where
  "ledger_file durable temps s = \<lparr>dk_file = map_option Some (store_disk s), dk_durable = durable, dk_temps = temps\<rparr>"

definition ledger_write ::
  "(fs_step \<Rightarrow> bool) \<Rightarrow> resultStore \<Rightarrow> storeState option disk \<Rightarrow> bool \<times> storeState option disk" where
  "ledger_write works s d = write_steps works plain_steps None (Some (store_data s)) d"

lemma bus_write_outcome:
  "snd (bus_write works b (bus_file durable temps b)) =
     bus_file (\<not> list_all works plain_steps \<and> durable)
       (temps + (if works CreateTemp \<and> \<not> list_all works plain_steps \<and> \<not> works RemoveTemp then 1 else 0))
       (snd (CommandBus.persistLocked (list_all works plain_steps) b))"
  by (simp add: bus_write_def plain.outcome bus_file_def persistLocked_def)

lemma ledger_write_outcome:
  "snd (ledger_write works s (ledger_file durable temps s)) =
     ledger_file (\<not> list_all works plain_steps \<and> durable)
       (temps + (if works CreateTemp \<and> \<not> list_all works plain_steps \<and> \<not> works RemoveTemp then 1 else 0))
       (snd (store_persist (list_all works plain_steps) s))"
  by (simp add: ledger_write_def plain.outcome ledger_file_def store_persist_def)

lemma Save_acl_durable:
  "dk_durable (snd (DeviceAcl.Save path_given dir_ok works a d)) =
     (if fst (DeviceAcl.Save path_given dir_ok works a d) = None then True else dk_durable d)"
  by (simp add: DeviceAcl.Save_def synced.outcome)

lemma Save_snapshot_durable:
  "dk_durable (sd_disk (snd (SnapStore.Save st works dir_synced snap sd))) =
     (if fst (SnapStore.Save st works dir_synced snap sd) \<in> {None, Some SSyncDir} then True else dk_durable (sd_disk sd))"
  by (auto simp: SnapStore.Save_def snapshot_file.outcome split: option.split)

text \<open>
  C31. Whatever system calls fail, the state file of the queue and that of the ledger end up as the
  components assume: the write reports success exactly when every call worked, the file then holds the whole
  new state and otherwise the old one, never a blank or torn one, and at most one temporary file is left
  behind, only when its removal failed too. A new revocation list is flushed to the disk before it gets its
  name, and so is a new snapshot; a new queue or ledger state is not.
\<close>

theorem state_files_replaced_atomically:
  "let q = bus_write works b (bus_file durable temps b); l = ledger_write works s (ledger_file durable temps s);
       ok = list_all works [CreateTemp, ChmodTemp, WriteTemp, CloseTemp, RenameTemp];
       stray = (if works CreateTemp \<and> \<not> ok \<and> \<not> works RemoveTemp then 1 else 0);
       acl = DeviceAcl.Save path_given dir_ok works a d; shot = SnapStore.Save st works dir_synced snap sd
   in fst q = ok \<and> snd q = bus_file (\<not> ok \<and> durable) (temps + stray) (snd (CommandBus.persistLocked ok b)) \<and>
      fst l = ok \<and> snd l = ledger_file (\<not> ok \<and> durable) (temps + stray) (snd (store_persist ok s)) \<and>
      dk_durable (snd acl) = (if fst acl = None then True else dk_durable d) \<and>
      dk_durable (sd_disk (snd shot)) = (if fst shot \<in> {None, Some SSyncDir} then True else dk_durable (sd_disk sd))"
proof -
  have steps: "[CreateTemp, ChmodTemp, WriteTemp, CloseTemp, RenameTemp] = plain_steps" by (simp add: plain_steps_def)
  have "fst (bus_write works b (bus_file durable temps b)) = list_all works plain_steps"
    "fst (ledger_write works s (ledger_file durable temps s)) = list_all works plain_steps"
    by (simp_all add: bus_write_def ledger_write_def plain.success)
  then show ?thesis
    unfolding Let_def steps bus_write_outcome ledger_write_outcome Save_acl_durable Save_snapshot_durable by simp
qed

end
