(* ===== verification/Policy.thy ===== *)
theory Policy
  imports Float64 Protocol
begin

text \<open>
  \<open>internal/scheduler/policy.go\<close>: how long a connector waits after an outcome. Random values and the
  jitter fraction are \<open>float64\<close> values; \<open>fma\<close> says whether the compiler fuses a multiplication with
  the addition that follows it, which the language allows, and \<open>oob\<close> is the conversion of an
  out-of-range float.
\<close>

section \<open>Policy\<close>

record Policy =
  po_Interval :: duration
  po_MinBackoff :: duration
  po_MaxBackoff :: duration
  po_AuthBackoff :: duration
  po_UnsupportedBackoff :: duration
  po_JitterFraction :: rat
  po_FastRetries :: int

definition DefaultPolicy :: "duration \<Rightarrow> Policy" where
  "DefaultPolicy interval =
     (let i = (if interval \<le> 0 then minute else interval)
      in \<lparr>po_Interval = i, po_MinBackoff = 5 * second, po_MaxBackoff = 10 * minute,
          po_AuthBackoff = 15 * minute, po_UnsupportedBackoff = hour,
          po_JitterFraction = fl (1 / 10), po_FastRetries = 1\<rparr>)"

definition exponential :: "(rat \<Rightarrow> int) \<Rightarrow> Policy \<Rightarrow> int \<Rightarrow> duration" where
  "exponential oob p failures =
     (let failures = (if failures < 1 then 1 else failures);
          shift = failures - 1;
          shift = (if shift > 20 then 20 else shift);
          d = to_int64 oob (fl (fl (of_int (po_MinBackoff p)) * 2 ^ nat shift))
      in if d > po_MaxBackoff p \<or> d \<le> 0 then po_MaxBackoff p else d)"

definition Delay :: "(rat \<Rightarrow> int) \<Rightarrow> Policy \<Rightarrow> ErrorClass \<Rightarrow> int \<Rightarrow> int \<Rightarrow> duration" where
  "Delay oob p ec failures retryAfterSeconds =
     (if ec = ErrNone then po_Interval p
      else if ec = ErrAuth then po_AuthBackoff p
      else if ec = ErrUnsupported then po_UnsupportedBackoff p
      else if ec = ErrInvalidConfig then po_UnsupportedBackoff p
      else if ec = ErrRateLimited then
        (if retryAfterSeconds > 0 then wrap64 (retryAfterSeconds * second)
         else exponential oob p failures)
      else if ec = ErrTimeout \<or> ec = ErrNetwork \<or> ec = ErrUpstream then
        (if failures \<le> po_FastRetries p then po_MinBackoff p else exponential oob p failures)
      else if ec = ErrSchemaChanged then po_MaxBackoff p
      else exponential oob p failures)"

definition clamp_random :: "rat \<Rightarrow> rat" where
  "clamp_random random =
     (let r = (if random < 0 then 0 else random) in if r \<ge> 1 then fl (999999 / 1000000) else r)"

definition Jitter :: "bool \<Rightarrow> (rat \<Rightarrow> int) \<Rightarrow> Policy \<Rightarrow> duration \<Rightarrow> rat \<Rightarrow> duration" where
  "Jitter fma oob p d random =
     (if po_JitterFraction p \<le> 0 \<or> d \<le> 0 then d
      else
        let a = fl (fl (clamp_random random * 2) - 1);
            spread = a * po_JitterFraction p;
            factor = fl (1 + (if fma then spread else fl spread));
            out = to_int64 oob (fl (fl (of_int d) * factor))
        in if out < 0 then 0 else out)"

definition NextDelay ::
  "bool \<Rightarrow> (rat \<Rightarrow> int) \<Rightarrow> Policy \<Rightarrow> ErrorClass \<Rightarrow> int \<Rightarrow> int \<Rightarrow> rat \<Rightarrow> duration" where
  "NextDelay fma oob p ec failures retryAfterSeconds random =
     (let delay = Jitter fma oob p (Delay oob p ec failures retryAfterSeconds) random
      in if retryAfterSeconds > 0 then
           let least = wrap64 (retryAfterSeconds * second)
           in if delay < least then least else delay
         else delay)"

definition StartupJitter :: "(rat \<Rightarrow> int) \<Rightarrow> Policy \<Rightarrow> rat \<Rightarrow> duration" where
  "StartupJitter oob p random =
     to_int64 oob (fl (fl (fl (of_int (po_Interval p)) * po_JitterFraction p) * clamp_random random))"

definition Blocked :: "ErrorClass \<Rightarrow> bool" where
  "Blocked ec \<longleftrightarrow> ec = ErrAuth \<or> ec = ErrInvalidConfig"

definition StateFor :: "ErrorClass \<Rightarrow> bool \<Rightarrow> ConnectorState" where
  "StateFor ec enabled =
     (if \<not> enabled then ConnDisabled
      else if ec = ErrNone then ConnOK
      else if ec = ErrAuth then ConnBlockedAuth
      else if ec = ErrRateLimited \<or> ec = ErrTimeout \<or> ec = ErrNetwork then ConnDegraded
      else ConnError)"

section \<open>Backoff\<close>

text \<open>The floating-point product is exact as long as it fits a \<open>Duration\<close>.\<close>

lemma exponential_eq:
  assumes "0 < po_MinBackoff p" "po_MinBackoff p \<le> 2 ^ 42"
  shows "exponential oob p failures =
    min (po_MaxBackoff p) (po_MinBackoff p * 2 ^ (min 20 (nat (failures - 1))))"
proof -
  let ?k = "min 20 (nat (failures - 1))"
  let ?m = "po_MinBackoff p"
  have shift: "nat (if (if failures < 1 then 1 else failures) - 1 > 20 then 20
                else (if failures < 1 then 1 else failures) - 1) = ?k"
    by auto
  have m: "fl (of_int ?m) = of_int ?m" "fl (of_int ?m * 2 ^ ?k) = of_int (?m * 2 ^ ?k)"
    using assms by (simp_all add: fl_int_scaled)
  have "(2 :: int) ^ ?k \<le> 2 ^ 20" by (rule power_increasing) auto
  then have "?m * 2 ^ ?k \<le> 2 ^ 42 * 2 ^ 20" using assms by (intro mult_mono) auto
  moreover have "0 < ?m * 2 ^ ?k" using assms by simp
  ultimately have "in_int64 (?m * 2 ^ ?k)" by (simp add: in_int64_def)
  then have "to_int64 oob (fl (fl (of_int ?m) * 2 ^ ?k)) = ?m * 2 ^ ?k"
    unfolding m by (rule to_int64_of_int)
  with \<open>0 < ?m * 2 ^ ?k\<close> show ?thesis
    unfolding exponential_def Let_def shift by (simp add: min_def)
qed

lemmas unit_simps = second_def minute_def hour_def

lemma default_fields [simp]:
  "po_Interval (DefaultPolicy i) = (if i \<le> 0 then minute else i)"
  "po_MinBackoff (DefaultPolicy i) = 5 * second"
  "po_MaxBackoff (DefaultPolicy i) = 10 * minute"
  "po_AuthBackoff (DefaultPolicy i) = 15 * minute"
  "po_UnsupportedBackoff (DefaultPolicy i) = hour"
  "po_JitterFraction (DefaultPolicy i) = fl (1 / 10)"
  "po_FastRetries (DefaultPolicy i) = 1"
  by (simp_all add: DefaultPolicy_def Let_def)

lemma fl_tenth: "\<bar>fl (1 / 10) - 1 / 10\<bar> \<le> (1 / 10) / 2 ^ 53"
  using fl_error [of "1 / 10"] by simp

lemma fl_tenth_pos: "0 < fl (1 / 10)"
  using fl_tenth unfolding abs_le_iff by simp

lemma default_exponential:
  "exponential oob (DefaultPolicy i) failures = min (10 * minute) (5 * second * 2 ^ nat (failures - 1))"
proof -
  have e: "exponential oob (DefaultPolicy i) failures =
      min (600 * 1000000000) (5 * 1000000000 * 2 ^ (min 20 (nat (failures - 1))))"
    by (subst exponential_eq) (simp_all add: unit_simps)
  show ?thesis
  proof (cases "nat (failures - 1) \<le> 20")
    case False
    then have "(2 :: int) ^ 20 \<le> 2 ^ nat (failures - 1)" by (intro power_increasing) auto
    with False e show ?thesis by (simp add: unit_simps min_def)
  qed (use e in \<open>simp add: unit_simps\<close>)
qed

lemma default_Delay_bounds:
  assumes "ec \<noteq> ErrNone" "\<not> (ec = ErrRateLimited \<and> retryAfter > 0)"
  shows "5 * second \<le> Delay oob (DefaultPolicy i) ec failures retryAfter \<and>
         Delay oob (DefaultPolicy i) ec failures retryAfter \<le> hour"
proof -
  have "5 * second \<le> 5 * second * 2 ^ nat (failures - 1)" by (simp add: second_def)
  then have "5 * second \<le> exponential oob (DefaultPolicy i) failures \<and>
      exponential oob (DefaultPolicy i) failures \<le> hour"
    unfolding default_exponential by (simp add: unit_simps)
  with assms show ?thesis by (auto simp: Delay_def unit_simps)
qed

section \<open>Jitter\<close>

text \<open>
  A jitter of fraction \<open>q\<close> multiplies a delay by \<open>1 - q + 2 q r\<close>, up to 2 ns for the roundings and the
  conversion, for delays up to \<open>2 ^ 50\<close> ns (13 days).
\<close>

lemma spread_factor:
  assumes r: "0 \<le> r" "r \<le> (1 :: rat)" and q: "0 \<le> q" "q \<le> 1 / 5"
  defines "a \<equiv> fl (fl (r * 2) - 1)"
  shows "\<bar>fl (1 + (if fma then a * fl q else fl (a * fl q))) - (1 - q + 2 * q * r)\<bar> \<le> 6 / 2 ^ 53"
proof -
  let ?u = "1 / 2 ^ 53 :: rat" and ?f = "fl q"
  have e1: "\<bar>fl (r * 2) - r * 2\<bar> \<le> 2 * ?u"
    using fl_near [of "r * 2" "r * 2" 0 2] r by simp
  then have "\<bar>(fl (r * 2) - 1) - (r * 2 - 1)\<bar> \<le> 2 * ?u" by simp
  from fl_near [OF this, of 1] r have e2: "\<bar>a - (r * 2 - 1)\<bar> \<le> 4 * ?u"
    unfolding a_def by (simp add: abs_le_iff)
  then have a1: "\<bar>a\<bar> \<le> 1 + 4 * ?u" using r unfolding abs_le_iff by linarith
  have f: "\<bar>?f - q\<bar> \<le> (1 / 5) / 2 ^ 53" using fl_error [of q] q by simp
  have sum: "a * ?f - (r * 2 - 1) * q = a * (?f - q) + (a - (r * 2 - 1)) * q" by (simp add: field_simps)
  have "\<bar>a * (?f - q)\<bar> \<le> (1 + 4 * ?u) * ((1 / 5) / 2 ^ 53)"
    unfolding abs_mult by (rule mult_mono) (use a1 f in auto)
  moreover have "\<bar>(a - (r * 2 - 1)) * q\<bar> \<le> (4 * ?u) * (1 / 5)"
    unfolding abs_mult by (rule mult_mono) (use e2 q in auto)
  ultimately have "\<bar>a * ?f - (r * 2 - 1) * q\<bar> \<le> (1 + 4 * ?u) * ((1 / 5) / 2 ^ 53) + (4 * ?u) * (1 / 5)"
    unfolding sum by (rule abs_triangle_ineq [THEN order_trans, OF add_mono])
  also have "\<dots> \<le> 2 * ?u" by simp
  finally have e3: "\<bar>a * ?f - (r * 2 - 1) * q\<bar> \<le> 2 * ?u" .
  have "\<bar>r * 2 - 1\<bar> * q \<le> 1 * (1 / 5)" by (rule mult_mono) (use r q in auto)
  then have m: "\<bar>(r * 2 - 1) * q\<bar> \<le> 1 / 5" using q by (simp add: abs_mult)
  have "\<bar>fl (a * ?f) - (r * 2 - 1) * q\<bar> \<le> 3 * ?u"
    using fl_near [OF e3, of "1 / 5"] m by (simp add: abs_le_iff)
  with e3 have "\<bar>(if fma then a * ?f else fl (a * ?f)) - (r * 2 - 1) * q\<bar> \<le> 3 * ?u" by auto
  moreover have "(1 + x) - (1 - q + 2 * q * r) = x - (r * 2 - 1) * q" for x by (simp add: field_simps)
  ultimately have "\<bar>(1 + (if fma then a * ?f else fl (a * ?f))) - (1 - q + 2 * q * r)\<bar> \<le> 3 * ?u" by metis
  moreover have "\<bar>1 - q + 2 * q * r\<bar> \<le> 6 / 5"
  proof -
    have "1 - q + 2 * q * r = 1 + (r * 2 - 1) * q" by (simp add: field_simps)
    with m show ?thesis by (simp add: abs_le_iff)
  qed
  ultimately show ?thesis
    using fl_near [of "1 + (if fma then a * ?f else fl (a * ?f))" "1 - q + 2 * q * r" "3 * ?u" "6 / 5"] by simp
qed

text \<open>A delay times such a factor, rounded and cut to nanoseconds.\<close>

lemma spread_delay:
  fixes fma :: bool and q :: rat
  assumes "0 < d" "d \<le> 2 ^ 50" and r: "0 \<le> r" "r \<le> (1 :: rat)" and q: "0 \<le> q" "q \<le> 1 / 5"
  defines "g \<equiv> fl (1 + (if fma then fl (fl (r * 2) - 1) * fl q else fl (fl (fl (r * 2) - 1) * fl q)))"
  shows "\<bar>of_int (to_int64 oob (fl (fl (of_int d) * g))) - of_int d * (1 - q + 2 * q * r)\<bar> \<le> (2 :: rat)"
proof -
  let ?y = "1 - q + 2 * q * r"
  have "\<bar>g - ?y\<bar> \<le> 6 / 2 ^ 53"
    unfolding g_def by (rule spread_factor [OF r q])
  moreover have D: "0 < (of_int d :: rat)" "(of_int d :: rat) \<le> 2 ^ 50"
    using assms(1,2) by (simp, metis of_int_le_iff of_int_numeral of_int_power)
  ultimately have "\<bar>of_int d\<bar> * \<bar>g - ?y\<bar> \<le> 2 ^ 50 * (6 / 2 ^ 53)"
    by (intro mult_mono) auto
  then have near: "\<bar>of_int d * g - of_int d * ?y\<bar> \<le> 3 / 4"
    by (simp flip: abs_mult add: right_diff_distrib)
  have "q * r \<le> 1 / 5 * 1" by (rule mult_mono) (use r q in auto)
  moreover have qr: "0 \<le> q * r" using q r by simp
  moreover have "?y = 1 - q + 2 * (q * r)" by simp
  ultimately have y: "0 \<le> ?y" "?y \<le> 7 / 5" using q by linarith+
  have top: "of_int d * ?y \<le> 2 ^ 50 * (7 / 5)"
    using D y by (intro mult_mono) auto
  have pos: "0 \<le> of_int d * ?y" using D y by simp
  from fl_near [OF near, of "2 ^ 50 * (7 / 5)"] top pos
  have x: "\<bar>fl (of_int d * g) - of_int d * ?y\<bar> \<le> 1"
    unfolding abs_le_iff by (simp; linarith)
  let ?t = "trunc (fl (of_int d * g))"
  have t: "\<bar>of_int ?t - of_int d * ?y\<bar> \<le> 2"
    using x trunc_error [of "fl (of_int d * g)"] unfolding abs_le_iff abs_less_iff by linarith
  then have "(of_int ?t :: rat) \<le> of_int (2 ^ 51)" "of_int (- 2) \<le> (of_int ?t :: rat)"
    using top pos by (auto simp: abs_le_iff)
  then have "in_int64 ?t" unfolding of_int_le_iff by (simp add: in_int64_def)
  moreover have "fl (of_int d) = of_int d" using assms(1,2) by simp
  ultimately have "to_int64 oob (fl (fl (of_int d) * g)) = ?t" by (simp add: to_int64_def)
  with t show ?thesis by simp
qed

lemma clamp_random_range: "0 \<le> clamp_random r \<and> clamp_random r \<le> 1"
  using fl_error [of "999999 / 1000000", unfolded abs_le_iff] by (auto simp: clamp_random_def Let_def)

lemma clamp_random_id [simp]: "0 \<le> r \<Longrightarrow> r < 1 \<Longrightarrow> clamp_random r = r"
  by (simp add: clamp_random_def)

lemma Jitter_near:
  assumes "0 < d" "d \<le> 2 ^ 50" and p: "po_JitterFraction p = fl (1 / 10)"
  shows "\<bar>of_int (Jitter fma oob p d random) - of_int d * (9 / 10 + clamp_random random / 5)\<bar> \<le> 2"
proof -
  define r where "r = clamp_random random"
  have r: "0 \<le> r" "r \<le> 1" using clamp_random_range by (auto simp: r_def)
  define a where "a = fl (fl (r * 2) - 1)"
  define g where "g = fl (1 + (if fma then a * fl (1 / 10) else fl (a * fl (1 / 10))))"
  let ?t = "to_int64 oob (fl (fl (of_int d) * g))"
  have "1 - 1 / 10 + 2 * (1 / 10) * r = 9 / 10 + r / 5" by simp
  then have t: "\<bar>of_int ?t - of_int d * (9 / 10 + r / 5)\<bar> \<le> 2"
    using spread_delay [OF assms(1,2) r, of "1 / 10" oob fma] unfolding g_def a_def by simp
  moreover have "0 \<le> of_int d * (9 / 10 + r / 5)" using assms(1) r by simp
  moreover have "Jitter fma oob p d random = (if ?t < 0 then 0 else ?t)"
    using assms(1) fl_tenth_pos unfolding Jitter_def p Let_def g_def a_def r_def by simp
  ultimately show ?thesis unfolding r_def by (auto simp: abs_le_iff)
qed

section \<open>Properties\<close>

lemma default_Delay_range:
  assumes "0 < i" "i \<le> 2 ^ 50" "retryAfter \<le> 1125899"
  shows "0 < Delay oob (DefaultPolicy i) ec failures retryAfter \<and>
         Delay oob (DefaultPolicy i) ec failures retryAfter \<le> 2 ^ 50"
proof (cases "ec = ErrNone \<or> ec = ErrRateLimited \<and> retryAfter > 0")
  case True
  then show ?thesis using assms
    by (auto simp: Delay_def second_def wrap64_id in_int64_def)
next
  case False
  then show ?thesis
    using default_Delay_bounds [of ec retryAfter oob i failures] by (auto simp: unit_simps)
qed

lemma retry_floor:
  "retryAfter > 0 \<Longrightarrow> wrap64 (retryAfter * second) \<le> NextDelay fma oob p ec failures retryAfter random"
  by (simp add: NextDelay_def Let_def)

lemma second_fits: "0 < s \<Longrightarrow> s \<le> 9223372036 \<Longrightarrow> wrap64 (s * second) = s * second"
  by (rule wrap64_id) (simp add: in_int64_def second_def)

text \<open>C21. Under the default policy the delay after a transient failure (timeout, network error or
  upstream error) is 5 seconds, doubled for each further consecutive failure and capped at ten minutes:
  the floating-point power, its conversion and the shift cap make no difference, and the fast retry is
  the first step of the same sequence.\<close>

theorem transient_backoff:
  "map (\<lambda>ec. Delay oob (DefaultPolicy i) ec failures retryAfter) [ErrTimeout, ErrNetwork, ErrUpstream] =
   replicate 3 (min (10 * minute) (5 * second * 2 ^ nat (failures - 1)))"
proof -
  have first: "5 * second = min (10 * minute) (5 * second * 2 ^ nat (failures - 1))" if "failures \<le> 1"
    using that by (simp add: unit_simps)
  show ?thesis
    using first by (auto simp: Delay_def default_exponential numeral_3_eq_3)
qed



text \<open>A Retry-After of up to 9223372036 seconds (292 years) is a hard lower bound of the wait, for
  every policy, outcome, failure count and random value.\<close>

theorem retry_after_is_a_floor:
  assumes "0 < retryAfter" "retryAfter \<le> 9223372036"
  shows "retryAfter * second \<le> NextDelay fma oob p ec failures retryAfter random"
  using retry_floor [OF assms(1)] second_fits [OF assms] by metis

theorem retry_after_is_a_floor_witness:
  "120 * second \<le> NextDelay False (\<lambda>_. 0) (DefaultPolicy minute) ErrRateLimited 1 120 0"
  by (rule retry_after_is_a_floor) simp_all

text \<open>C22. A Retry-After from 9223372037 to 18446744073 seconds overflows the duration once: after a rate limit
  with such a value the wait is negative, so the next request is made without waiting at all.\<close>

theorem huge_retry_after_is_no_wait:
  assumes "9223372036 < retryAfter" "retryAfter \<le> 18446744073"
  shows "NextDelay fma oob p ErrRateLimited failures retryAfter random < 0"
proof -
  have "retryAfter * second + 2 ^ 63 = (retryAfter * second - 2 ^ 63) + 2 ^ 64" by simp
  then have "(retryAfter * second + 2 ^ 63) mod 2 ^ 64 = retryAfter * second - 2 ^ 63"
    using assms by (simp only: mod_add_self2) (simp add: second_def mod_pos_pos_trivial)
  then have "wrap64 (retryAfter * second) = retryAfter * second - 2 ^ 64"
    by (simp add: wrap64_def)
  then have "wrap64 (retryAfter * second) < 0" using assms by (simp add: second_def)
  then show ?thesis using assms(1)
    by (simp add: NextDelay_def Delay_def Jitter_def Let_def)
qed

theorem huge_retry_after_is_no_wait_witness:
  "NextDelay False (\<lambda>_. 0) (DefaultPolicy minute) ErrRateLimited 1 9999999999 (1 / 2) < 0"
  by (rule huge_retry_after_is_no_wait) simp_all

end
