(* ===== verification/Connector.thy ===== *)
theory Connector
  imports Float64 Json Validate "HOL-Library.Sublist"
begin

text \<open>
  \<open>internal/connector/connector.go\<close> and \<open>httpjson.go\<close>: how a collection failure is classified, what may
  be shown of it, and the one read every HTTP connector performs. The HTTP client, the media type
  parser and the HTTP date parser are outside the repository: what they return is an argument.
\<close>

section \<open>Errors\<close>

record ConnError =
  ce_Class :: ErrorClass
  ce_Msg :: string
  ce_RetryAfterSeconds :: int

text \<open>
  The errors the code tells apart with \<open>errors.As\<close> and \<open>errors.Is\<close>: its own classified error, the
  \<open>HTTPError\<close> around one, the errors of the context, the redirect error, any other error, and wrapping.
\<close>

datatype go_error =
    EConn ConnError
  | EHTTP int ConnError
  | EDeadlineExceeded
  | ECanceled
  | EUnsafeRedirect
  | EOther string
  | EWrap string go_error

fun as_conn :: "go_error \<Rightarrow> ConnError option" where
  "as_conn (EConn e) = Some e"
| "as_conn (EHTTP status e) = Some e"
| "as_conn (EWrap msg e) = as_conn e"
| "as_conn _ = None"

fun as_http :: "go_error \<Rightarrow> int option" where
  "as_http (EHTTP status e) = Some status"
| "as_http (EWrap msg e) = as_http e"
| "as_http _ = None"

text \<open>\<open>errors.Is\<close> with one of the three sentinel values.\<close>

fun error_is :: "go_error \<Rightarrow> go_error \<Rightarrow> bool" where
  "error_is (EWrap msg e) target = error_is e target"
| "error_is e target = (e = target)"

definition Error_text :: "ConnError \<Rightarrow> string" where
  "Error_text e = (if ce_Msg e = [] then ce_Class e else ce_Class e @ '': '' @ ce_Msg e)"

definition Errorf :: "ErrorClass \<Rightarrow> string \<Rightarrow> go_error" where
  "Errorf ec msg = EConn \<lparr>ce_Class = ec, ce_Msg = msg, ce_RetryAfterSeconds = 0\<rparr>"

definition Classify :: "go_error option \<Rightarrow> ErrorClass" where
  "Classify err = (case err of
     None \<Rightarrow> ErrNone
   | Some e \<Rightarrow>
       (case as_conn e of
          Some ce \<Rightarrow> ce_Class ce
        | None \<Rightarrow>
            if error_is e EDeadlineExceeded then ErrTimeout
            else if error_is e ECanceled then ErrTimeout
            else ErrUpstream))"

definition Message :: "go_error option \<Rightarrow> string" where
  "Message err = (case err of
     None \<Rightarrow> []
   | Some e \<Rightarrow>
       (case as_conn e of
          Some ce \<Rightarrow> ce_Msg ce
        | None \<Rightarrow> ''collection failed: '' @ Classify err))"

definition RetryAfter :: "go_error option \<Rightarrow> int" where
  "RetryAfter err = (case err of
     None \<Rightarrow> 0
   | Some e \<Rightarrow> (case as_conn e of Some ce \<Rightarrow> ce_RetryAfterSeconds ce | None \<Rightarrow> 0))"

definition AuthActionMessage :: "string \<Rightarrow> string" where
  "AuthActionMessage nodeLabel = ''re-authenticate with the official CLI on '' @ nodeLabel"

definition StatusCode :: "go_error option \<Rightarrow> int" where
  "StatusCode err = (case err of
     None \<Rightarrow> 0
   | Some e \<Rightarrow> (case as_http e of Some status \<Rightarrow> status | None \<Rightarrow> 0))"

section \<open>Retry-After\<close>

text \<open>
  \<open>http_time\<close> is \<open>http.ParseTime\<close>. The seconds of a duration are its whole seconds plus the rest
  over \<open>1e9\<close>, each operation rounded to \<open>float64\<close>.
\<close>

definition duration_seconds :: "duration \<Rightarrow> rat" where
  "duration_seconds d =
     fl (fl (of_int (go_div d second)) + fl (fl (of_int (d - go_div d second * second)) / 1000000000))"

definition parseRetryAfter :: "(string \<Rightarrow> instant option) \<Rightarrow> (rat \<Rightarrow> int) \<Rightarrow> string \<Rightarrow> instant \<Rightarrow> int" where
  "parseRetryAfter http_time oob raw now =
     (let raw = trim_space raw in
      if raw = [] then 0
      else
        case (case atoi raw of Some seconds \<Rightarrow> if seconds > 0 then Some seconds else None | None \<Rightarrow> None) of
          Some seconds \<Rightarrow> seconds
        | None \<Rightarrow>
            (case http_time raw of
               None \<Rightarrow> 0
             | Some due \<Rightarrow>
                 if \<not> due > now then 0
                 else
                   let seconds = to_int64 oob (duration_seconds (time_sub due now))
                   in if seconds < 1 then 1 else seconds))"

section \<open>One read\<close>

record http_response =
  rp_StatusCode :: int
  rp_RetryAfter :: string
  rp_MediaType :: "string option"   \<comment> \<open>\<open>mime.ParseMediaType\<close> of the content type\<close>
  rp_Body :: "string option"        \<comment> \<open>what reading the body gives, up to the limit\<close>

definition MaxResponseBytes :: nat where "MaxResponseBytes = 2 ^ 20"

definition classifyHTTPStatus ::
  "(string \<Rightarrow> instant option) \<Rightarrow> (rat \<Rightarrow> int) \<Rightarrow> instant \<Rightarrow> http_response \<Rightarrow> go_error" where
  "classifyHTTPStatus http_time oob now resp =
     (let status = rp_StatusCode resp;
          classified = \<lparr>ce_Class = ErrUpstream, ce_Msg = ''provider returned HTTP '' @ format_int status,
                        ce_RetryAfterSeconds = 0\<rparr>;
          classified =
            (if status = 401 \<or> status = 403 then
               classified\<lparr>ce_Class := ErrAuth,
                 ce_Msg := ''authentication rejected; update the credential with the official provider tool''\<rparr>
             else if status = 429 then
               classified\<lparr>ce_Class := ErrRateLimited, ce_Msg := ''provider rate limit reached'',
                 ce_RetryAfterSeconds := parseRetryAfter http_time oob (rp_RetryAfter resp) now\<rparr>
             else classified)
      in EHTTP status classified)"

text \<open>
  The redirect check of \<open>safeHTTPClient\<close>; \<open>equal_fold\<close> is \<open>strings.EqualFold\<close>. The other effect of
  that function is a 30-second timeout when the client has none.
\<close>

definition redirect_refused ::
  "(string \<Rightarrow> string \<Rightarrow> bool) \<Rightarrow> string \<Rightarrow> string \<Rightarrow> string \<Rightarrow> string \<Rightarrow> nat \<Rightarrow> bool" where
  "redirect_refused equal_fold scheme authority req_scheme req_host via =
     (via \<ge> 3 \<or> \<not> equal_fold req_scheme scheme \<or> \<not> equal_fold req_host authority)"

definition client_timeout :: "duration option \<Rightarrow> duration" where
  "client_timeout base = (case base of
     None \<Rightarrow> 30 * second
   | Some t \<Rightarrow> if t \<le> 0 then 30 * second else t)"

text \<open>
  \<open>GetJSON\<close>: \<open>url_ok\<close> is whether the request could be built, \<open>ctx_err\<close> the error of the context after
  the call, \<open>result\<close> what \<open>client.Do\<close> returned and \<open>decode\<close> the assignment of a JSON value to the
  caller's destination. The result is the error or the decoded value.
\<close>

definition GetJSON ::
  "(string \<Rightarrow> instant option) \<Rightarrow> (rat \<Rightarrow> int) \<Rightarrow> (json \<Rightarrow> 'a option) \<Rightarrow> instant \<Rightarrow> bool \<Rightarrow>
   go_error option \<Rightarrow> go_error + http_response \<Rightarrow> go_error + 'a" where
  "GetJSON http_time oob decode now url_ok ctx_err result =
     (if \<not> url_ok then Inl (Errorf ErrInvalidConfig ''provider URL is invalid'')
      else case result of
        Inl e \<Rightarrow>
          Inl (if error_is e EUnsafeRedirect then Errorf ErrUpstream ''provider redirect rejected''
               else if error_is e EDeadlineExceeded \<or> ctx_err = Some EDeadlineExceeded
                 then Errorf ErrTimeout ''provider request timed out''
               else if error_is e ECanceled \<or> ctx_err = Some ECanceled
                 then Errorf ErrTimeout ''provider request canceled''
               else Errorf ErrNetwork ''provider request failed'')
      | Inr resp \<Rightarrow>
          if rp_StatusCode resp < 200 \<or> rp_StatusCode resp \<ge> 300
            then Inl (classifyHTTPStatus http_time oob now resp)
          else if (case rp_MediaType resp of
                     None \<Rightarrow> True
                   | Some mt \<Rightarrow> mt \<noteq> ''application/json'' \<and> \<not> suffix ''+json'' mt)
            then Inl (Errorf ErrSchemaChanged ''provider response is not JSON'')
          else case rp_Body resp of
            None \<Rightarrow> Inl (Errorf ErrNetwork ''provider response could not be read'')
          | Some body \<Rightarrow>
              let raw = take (MaxResponseBytes + 1) body in
              if length raw > MaxResponseBytes
                then Inl (Errorf ErrSchemaChanged ''provider response exceeds size limit'')
              else case parse_value (2 * length raw + 1) raw of
                None \<Rightarrow> Inl (Errorf ErrSchemaChanged ''provider response schema changed'')
              | Some (v, rest) \<Rightarrow>
                  (case decode v of
                     None \<Rightarrow> Inl (Errorf ErrSchemaChanged ''provider response schema changed'')
                   | Some x \<Rightarrow>
                       if skip_space rest \<noteq> []
                         then Inl (Errorf ErrSchemaChanged ''provider response contains trailing data'')
                       else Inr x))"

section \<open>Facts\<close>

text \<open>What may be published of an error: a known class other than success, and a message of the wire format.\<close>

definition publishable :: "go_error \<Rightarrow> bool" where
  "publishable e \<longleftrightarrow>
     Classify (Some e) \<noteq> ErrNone \<and> ErrorClass_Valid (Classify (Some e)) \<and> text_ok (Message (Some e)) 160"

lemma publishable_Errorf:
  "ec \<noteq> ErrNone \<Longrightarrow> ErrorClass_Valid ec \<Longrightarrow> text_ok msg 160 \<Longrightarrow> publishable (Errorf ec msg)"
  by (simp add: publishable_def Errorf_def Classify_def Message_def)

lemma publishable_foreign:
  assumes "as_conn e = None"
  shows "publishable e"
  using assms
  by (simp add: publishable_def Classify_def Message_def ErrorClass_Valid_def errorClasses_def text_ok_def
      is_control_def)

lemma status_text:
  assumes "in_int64 n"
  shows "text_ok (format_int n) 20"
proof -
  have "nat \<bar>n\<bar> < 10 ^ 19" using assms by (simp add: in_int64_def nat_less_iff abs_if)
  then have "length (nat_digits (nat \<bar>n\<bar>)) \<le> 19" by (rule nat_digits_length) simp
  moreover have "\<not> is_control c" if "is_digit c" for c
    using that by (auto simp: is_digit_def is_control_def)
  ultimately show ?thesis
    using nat_digits_digits [of "nat \<bar>n\<bar>"]
    by (auto simp: text_ok_def format_int_def is_control_def abs_if)
qed

lemma classifyHTTPStatus_publishable:
  "in_int64 (rp_StatusCode resp) \<Longrightarrow> publishable (classifyHTTPStatus http_time oob now resp)"
  using status_text [of "rp_StatusCode resp"]
  by (simp add: publishable_def classifyHTTPStatus_def Let_def Classify_def Message_def
      ErrorClass_Valid_def errorClasses_def text_ok_def is_control_def ball_Un)

lemma read_messages:
  "publishable (Errorf ErrInvalidConfig ''provider URL is invalid'')"
  "publishable (Errorf ErrUpstream ''provider redirect rejected'')"
  "publishable (Errorf ErrTimeout ''provider request timed out'')"
  "publishable (Errorf ErrTimeout ''provider request canceled'')"
  "publishable (Errorf ErrNetwork ''provider request failed'')"
  "publishable (Errorf ErrSchemaChanged ''provider response is not JSON'')"
  "publishable (Errorf ErrNetwork ''provider response could not be read'')"
  "publishable (Errorf ErrSchemaChanged ''provider response exceeds size limit'')"
  "publishable (Errorf ErrSchemaChanged ''provider response schema changed'')"
  "publishable (Errorf ErrSchemaChanged ''provider response contains trailing data'')"
  by (rule publishable_Errorf; simp add: ErrorClass_Valid_def errorClasses_def text_ok_def is_control_def)+

lemma GetJSON_publishable:
  assumes "GetJSON http_time oob decode now url_ok ctx_err result = Inl e"
    and "\<And>resp. result = Inr resp \<Longrightarrow> in_int64 (rp_StatusCode resp)"
  shows "publishable e"
  using assms(1) classifyHTTPStatus_publishable [OF assms(2)]
  by (auto simp: GetJSON_def Let_def read_messages split: if_splits sum.splits option.splits prod.splits)

lemma parseRetryAfter_nonneg: "0 \<le> parseRetryAfter http_time oob raw now"
  by (auto simp: parseRetryAfter_def Let_def split: option.splits if_splits)

lemma parseRetryAfter_number:
  assumes "0 < n" "in_int64 n"
  shows "parseRetryAfter http_time oob (format_int n) now = n"
proof -
  have "trim_space (format_int n) = format_int n"
    using assms(1) nat_digits_digits [of "nat n"]
    by (intro trim_space_visible) (auto simp: format_int_def dest: digit_visible)
  moreover have "format_int n \<noteq> []" by (simp add: format_int_def)
  ultimately show ?thesis using assms by (simp add: parseRetryAfter_def Let_def atoi_format_int)
qed

lemma RetryAfter_GetJSON:
  "GetJSON http_time oob decode now url_ok ctx_err result = Inl e \<Longrightarrow> 0 \<le> RetryAfter (Some e)"
  by (auto simp: GetJSON_def Let_def RetryAfter_def classifyHTTPStatus_def Errorf_def parseRetryAfter_nonneg
      split: if_splits sum.splits option.splits prod.splits)

lemma parse_json_Some:
  "parse_json s = Some v \<longleftrightarrow> (\<exists>r. parse_value (2 * length s + 1) s = Some (v, r) \<and> skip_space r = [])"
  by (auto simp: parse_json_def split: option.splits if_splits)

section \<open>Properties\<close>

text \<open>A read succeeds exactly when the request could be built, the status is 2xx, the media type is
  JSON, the body is at most 1 MiB and is one JSON document the destination accepts, with nothing behind
  it: nothing else of a response is ever taken for data.\<close>

theorem read_accepts_exactly:
  "GetJSON http_time oob decode now url_ok ctx_err result = Inr x \<longleftrightarrow>
     url_ok \<and>
     (\<exists>resp mt body v. result = Inr resp \<and> 200 \<le> rp_StatusCode resp \<and> rp_StatusCode resp < 300 \<and>
        rp_MediaType resp = Some mt \<and> (mt = ''application/json'' \<or> suffix ''+json'' mt) \<and>
        rp_Body resp = Some body \<and> length body \<le> MaxResponseBytes \<and>
        parse_json body = Some v \<and> decode v = Some x)" (is "?L \<longleftrightarrow> ?R")
proof
  assume ?L
  then show ?R
    by (auto simp: GetJSON_def Let_def parse_json_Some not_less split: if_splits sum.splits option.splits prod.splits)
next
  assume ?R
  then show ?L
    by (auto simp: GetJSON_def Let_def parse_json_Some not_less)
qed

text \<open>C23. Whatever the network does, the error of a failed read is one the store and the wire accept:
  its class is known and not success, its message is printable and at most 160 bytes long and depends
  on nothing but the status code, and its retry time is not negative.\<close>

theorem read_failures_publishable:
  assumes "GetJSON http_time oob decode now url_ok ctx_err result = Inl e"
    and "list_all (\<lambda>resp. in_int64 (rp_StatusCode resp)) (case result of Inr resp \<Rightarrow> [resp] | Inl _ \<Rightarrow> [])"
  shows "publishable e \<and> 0 \<le> RetryAfter (Some e)"
proof
  have "in_int64 (rp_StatusCode resp)" if "result = Inr resp" for resp using assms(2) that by simp
  then show "publishable e" using GetJSON_publishable [OF assms(1)] by blast
qed (rule RetryAfter_GetJSON [OF assms(1)])

definition example_response :: http_response where
  "example_response = \<lparr>rp_StatusCode = 429, rp_RetryAfter = ''120'', rp_MediaType = None, rp_Body = None\<rparr>"

theorem read_failures_publishable_witness:
  "publishable (classifyHTTPStatus (\<lambda>_. None) (\<lambda>_. 0) 5 example_response) \<and>
   0 \<le> RetryAfter (Some (classifyHTTPStatus (\<lambda>_. None) (\<lambda>_. 0) 5 example_response))"
  by (rule read_failures_publishable
      [of "\<lambda>_. None" "\<lambda>_. 0" "\<lambda>v. Some v" 5 True None "Inr example_response"])
    (simp_all add: GetJSON_def example_response_def in_int64_def)

end
