(* ===== verification/Scheduler.thy ===== *)
theory Scheduler
  imports Policy Connector CurrentState
begin

text \<open>
  \<open>internal/scheduler/scheduler.go\<close>: the single owner of retries. One round of a task collects, applies
  the outcome to the store and publishes the connector's health. What a connector returns, the clock,
  the random source and the cancellation of the context are arguments. A task's lock covers its whole
  collection and every store operation is atomic, so a run is a sequence of collections and health
  publications; the wait for a slot of the semaphore is the argument \<open>co_Started\<close>. Counters of
  consecutive failures are unbounded.
\<close>

section \<open>State\<close>

record Task =
  tk_ID :: string
  tk_Provider :: string
  tk_Policy :: Policy
  tk_Timeout :: duration
  tk_Enabled :: bool
  tk_StaleAfter :: duration

record Scheduler =
  sc_tasks :: "Task list"
  sc_store :: Current
  sc_slots :: int
  sc_nodeLabel :: string
  sc_seq :: u64

definition DefaultMaxConcurrency :: int where "DefaultMaxConcurrency = 4"

definition New_Scheduler :: "Task list \<Rightarrow> Current \<Rightarrow> int \<Rightarrow> string \<Rightarrow> Scheduler" where
  "New_Scheduler tasks store maxConcurrency nodeLabel =
     \<lparr>sc_tasks = tasks, sc_store = store,
      sc_slots = (if maxConcurrency \<le> 0 then DefaultMaxConcurrency else maxConcurrency),
      sc_nodeLabel = (if nodeLabel = [] then cur_nodeID store else nodeLabel), sc_seq = 0\<rparr>"

definition ValidateAll :: "(Task \<Rightarrow> 'e option) \<Rightarrow> Scheduler \<Rightarrow> 'e option" where
  "ValidateAll validate_config s = first_err (map validate_config (sc_tasks s))"

definition ConnectorIDs :: "Scheduler \<Rightarrow> string list" where
  "ConnectorIDs s = map tk_ID (filter tk_Enabled (sc_tasks s))"

definition nextSeq :: "Scheduler \<Rightarrow> u64 \<times> Scheduler" where
  "nextSeq s = (sc_seq s + 1, s\<lparr>sc_seq := sc_seq s + 1\<rparr>)"

section \<open>One collection\<close>

text \<open>
  What one call meets: a slot or the end of the context, the result of \<open>Collect\<close>, and, for connectors
  that report them, the results of \<open>Health\<close> and \<open>HomeLab\<close>.
\<close>

record collection =
  co_Started :: bool
  co_Collect :: "go_error + ProviderMetric list"
  co_Health :: "(go_error + ConnectorHealth list) option"
  co_HomeLab :: "(go_error + HomeLabReport) option"

record collectionResult =
  cr_class :: ErrorClass
  cr_retryAfter :: int
  cr_message :: string

definition collection_result :: "ErrorClass \<Rightarrow> int \<Rightarrow> string \<Rightarrow> collectionResult" where
  "collection_result ec retryAfter msg = \<lparr>cr_class = ec, cr_retryAfter = retryAfter, cr_message = msg\<rparr>"

definition call_timeout :: "Task \<Rightarrow> duration" where
  "call_timeout t = (if tk_Timeout t \<le> 0 then 30 * second else tk_Timeout t)"

definition stale_metrics :: "duration \<Rightarrow> ProviderMetric list \<Rightarrow> ProviderMetric list" where
  "stale_metrics d metrics = (if d > 0 then map (\<lambda>m. m\<lparr>pm_StaleAfter := d\<rparr>) metrics else metrics)"

definition stale_report :: "duration \<Rightarrow> HomeLabReport \<Rightarrow> HomeLabReport" where
  "stale_report d report =
     (if d > 0
      then \<lparr>hr_Nodes = map (\<lambda>n. n\<lparr>hn_StaleAfter := d\<rparr>) (hr_Nodes report),
            hr_Services = map (\<lambda>v. v\<lparr>hs_StaleAfter := d\<rparr>) (hr_Services report)\<rparr>
      else report)"

definition invalid_metric :: string where
  "invalid_metric = ''connector produced an invalid metric''"

definition invalid_homelab :: string where
  "invalid_homelab = ''connector produced an invalid HomeLab summary''"

definition store_error :: "Scheduler \<Rightarrow> Task \<Rightarrow> ErrorClass \<Rightarrow> string \<Rightarrow> Scheduler" where
  "store_error s t ec msg = s\<lparr>sc_store := snd (ApplyConnectorError (sc_store s) (tk_ID t) ec msg)\<rparr>"

definition apply_healths :: "ConnectorHealth list \<Rightarrow> Current \<Rightarrow> Current" where
  "apply_healths healths c = fold (\<lambda>h c. snd (ApplyHealth c h)) healths c"

definition collect_homelab :: "Scheduler \<Rightarrow> Task \<Rightarrow> (go_error + HomeLabReport) option \<Rightarrow> collectionResult \<times> Scheduler" where
  "collect_homelab s t homelab = (case homelab of
     None \<Rightarrow> (collection_result ErrNone 0 [], s)
   | Some (Inl e) \<Rightarrow>
       (collection_result ErrSchemaChanged 0 invalid_homelab, store_error s t ErrSchemaChanged invalid_homelab)
   | Some (Inr report) \<Rightarrow>
       (case ApplyConnectorHomeLab (sc_store s) (tk_ID t) (stale_report (tk_StaleAfter t) report) of
          (Inl e, c) \<Rightarrow>
            (collection_result ErrSchemaChanged 0 invalid_homelab,
             store_error (s\<lparr>sc_store := c\<rparr>) t ErrSchemaChanged invalid_homelab)
        | (Inr _, c) \<Rightarrow> (collection_result ErrNone 0 [], s\<lparr>sc_store := c\<rparr>)))"

definition collectOnce :: "Scheduler \<Rightarrow> Task \<Rightarrow> collection \<Rightarrow> collectionResult \<times> Scheduler" where
  "collectOnce s t co =
     (if \<not> co_Started co then (collection_result ErrTimeout 0 [], s)
      else case co_Collect co of
        Inl e \<Rightarrow>
          let ec = Classify (Some e);
              msg = (if ec = ErrAuth then AuthActionMessage (sc_nodeLabel s) else Message (Some e))
          in (collection_result ec (RetryAfter (Some e)) msg, store_error s t ec msg)
      | Inr metrics \<Rightarrow>
          let metrics = stale_metrics (tk_StaleAfter t) metrics;
              (sq, s) = nextSeq s
          in case ApplyConnectorMetrics (sc_store s) (tk_ID t) sq metrics of
               (Inl e, c) \<Rightarrow>
                 (collection_result ErrSchemaChanged 0 invalid_metric,
                  store_error (s\<lparr>sc_store := c\<rparr>) t ErrSchemaChanged invalid_metric)
             | (Inr _, c) \<Rightarrow>
                 let c = (case co_Health co of Some (Inr healths) \<Rightarrow> apply_healths healths c | _ \<Rightarrow> c)
                 in collect_homelab (s\<lparr>sc_store := c\<rparr>) t (co_HomeLab co))"

section \<open>Health, rounds, the loop of a task\<close>

definition health_record ::
  "Task \<Rightarrow> ErrorClass \<Rightarrow> string \<Rightarrow> int \<Rightarrow> bool \<Rightarrow> instant option \<Rightarrow> instant option \<Rightarrow> instant \<Rightarrow> ConnectorHealth" where
  "health_record t ec msg failures enabled lastSuccessAt nextAttemptAt now =
     \<lparr>ch_ConnectorID = tk_ID t, ch_Provider = tk_Provider t, ch_Enabled = enabled,
      ch_State = StateFor ec enabled, ch_LastAttemptAt = Some now, ch_LastSuccessAt = lastSuccessAt,
      ch_NextAttemptAt = nextAttemptAt, ch_ConsecutiveFailures = failures, ch_ErrorClass = ec,
      ch_Message = msg\<rparr>"

definition publishHealth ::
  "Scheduler \<Rightarrow> Task \<Rightarrow> ErrorClass \<Rightarrow> string \<Rightarrow> int \<Rightarrow> bool \<Rightarrow> instant option \<Rightarrow> instant option \<Rightarrow> instant \<Rightarrow> Scheduler" where
  "publishHealth s t ec msg failures enabled lastSuccessAt nextAttemptAt now =
     s\<lparr>sc_store := snd (ApplyHealth (sc_store s)
          (health_record t ec msg failures enabled lastSuccessAt nextAttemptAt now))\<rparr>"

text \<open>
  The variables of the loop, and what one turn of it meets: the collection, whether the context ended
  during it, the random value, the two readings of the clock and whether the sleep ran to its end.
\<close>

record runner =
  rn_failures :: int
  rn_lastSuccessAt :: "instant option"

record turn =
  tn_collection :: collection
  tn_cancelled :: bool
  tn_random :: rat
  tn_now :: instant
  tn_health_now :: instant
  tn_slept :: bool

definition run_turn ::
  "bool \<Rightarrow> (rat \<Rightarrow> int) \<Rightarrow> Task \<Rightarrow> turn \<Rightarrow> runner \<times> Scheduler \<Rightarrow> duration \<times> runner \<times> Scheduler" where
  "run_turn fma oob t tn st = (case st of (r, s) \<Rightarrow>
     let (result, s) = collectOnce s t (tn_collection tn);
         failures = (if cr_class result = ErrNone then 0 else rn_failures r + 1);
         delay = NextDelay fma oob (tk_Policy t) (cr_class result) failures (cr_retryAfter result) (tn_random tn);
         lastSuccessAt = (if cr_class result = ErrNone then Some (tn_now tn) else rn_lastSuccessAt r);
         nextAttemptAt = tn_now tn + delay
     in (delay, \<lparr>rn_failures = failures, rn_lastSuccessAt = lastSuccessAt\<rparr>,
         publishHealth s t (cr_class result) (cr_message result) failures True lastSuccessAt
           (Some nextAttemptAt) (tn_health_now tn)))"

fun run_loop ::
  "bool \<Rightarrow> (rat \<Rightarrow> int) \<Rightarrow> Task \<Rightarrow> turn list \<Rightarrow> runner \<times> Scheduler \<Rightarrow> runner \<times> Scheduler" where
  "run_loop fma oob t [] st = st"
| "run_loop fma oob t (tn # tns) st =
     (if tn_cancelled tn then (fst st, snd (collectOnce (snd st) t (tn_collection tn)))
      else
        let (delay, st') = run_turn fma oob t tn st
        in if tn_slept tn then run_loop fma oob t tns st' else st')"

definition runTask ::
  "bool \<Rightarrow> (rat \<Rightarrow> int) \<Rightarrow> Task \<Rightarrow> instant \<Rightarrow> bool \<Rightarrow> turn list \<Rightarrow> Scheduler \<Rightarrow> Scheduler" where
  "runTask fma oob t now started turns s =
     (if \<not> tk_Enabled t then publishHealth s t ErrNone [] 0 False None None now
      else if \<not> started then s
      else snd (run_loop fma oob t turns (\<lparr>rn_failures = 0, rn_lastSuccessAt = None\<rparr>, s)))"

text \<open>\<open>sleepCtx\<close>: a wait that is not positive only looks whether the context has ended.\<close>

definition sleepCtx :: "duration \<Rightarrow> bool \<Rightarrow> bool \<Rightarrow> bool" where
  "sleepCtx d ended_before ended_during = (if d \<le> 0 then \<not> ended_before else \<not> ended_during)"

section \<open>Refreshing on demand\<close>

datatype refresh_error = RDisabled string | RNotConfigured "string list" | RNoneEnabled

text \<open>
  The selection loop; \<open>selected\<close> holds the requested identifiers not met yet. When some are left, Go
  names an arbitrary one of them.
\<close>

fun select_tasks :: "bool \<Rightarrow> nat \<Rightarrow> Task list \<Rightarrow> string list \<Rightarrow> nat list \<Rightarrow> refresh_error + nat list \<times> string list" where
  "select_tasks everything i [] selected indices = Inr (indices, selected)"
| "select_tasks everything i (t # ts) selected indices =
     (if everything then
        select_tasks everything (i + 1) ts selected (if tk_Enabled t then indices @ [i] else indices)
      else if tk_ID t \<in> set selected then
        (if \<not> tk_Enabled t then Inl (RDisabled (tk_ID t))
         else select_tasks everything (i + 1) ts (removeAll (tk_ID t) selected) (indices @ [i]))
      else select_tasks everything (i + 1) ts selected indices)"

definition refresh_selection :: "Task list \<Rightarrow> string list \<Rightarrow> refresh_error + nat list" where
  "refresh_selection tasks connectorIDs =
     (case select_tasks (connectorIDs = []) 0 tasks (remdups connectorIDs) [] of
        Inl e \<Rightarrow> Inl e
      | Inr (indices, selected) \<Rightarrow>
          if selected \<noteq> [] then Inl (RNotConfigured selected)
          else if indices = [] then Inl RNoneEnabled
          else Inr indices)"

definition previous_health :: "MetricSnapshot \<Rightarrow> ConnectorHealth gomap" where
  "previous_health snap = fold (\<lambda>h m. mput (ch_ConnectorID h) h m) (ms_ConnectorHealth snap) []"

text \<open>What the goroutine of one selected task meets.\<close>

record refresh_input =
  ri_index :: nat
  ri_collection :: collection
  ri_now :: instant
  ri_health_now :: instant

definition refresh_one :: "ConnectorHealth gomap \<Rightarrow> refresh_input \<Rightarrow> Scheduler \<Rightarrow> Scheduler" where
  "refresh_one previous ri s =
     (let t = sc_tasks s ! ri_index ri;
          (result, s) = collectOnce s t (ri_collection ri);
          prior = get_or zero_health previous (tk_ID t);
          failures = (if cr_class result \<noteq> ErrNone then 1 else 0);
          lastSuccessAt = (if cr_class result \<noteq> ErrNone then ch_LastSuccessAt prior else Some (ri_now ri))
      in publishHealth s t (cr_class result) (cr_message result) failures True lastSuccessAt
           (ch_NextAttemptAt prior) (ri_health_now ri))"

text \<open>
  \<open>inputs\<close> lists the selected tasks in the order they finish, each with what it meets; \<open>ctx_err\<close> is
  the error of the context at the end.
\<close>

definition Refresh ::
  "Scheduler \<Rightarrow> string list \<Rightarrow> instant \<Rightarrow> (nat list \<Rightarrow> refresh_input list) \<Rightarrow> go_error option \<Rightarrow>
   (refresh_error + go_error option) \<times> Scheduler" where
  "Refresh s connectorIDs now inputs ctx_err =
     (case refresh_selection (sc_tasks s) connectorIDs of
        Inl e \<Rightarrow> (Inl e, s)
      | Inr indices \<Rightarrow>
          (Inr ctx_err, fold (refresh_one (previous_health (Snapshot (sc_store s) now))) (inputs indices) s))"
section \<open>Every round is a sequence of printable store operations\<close>

definition reaches :: "Current \<Rightarrow> Current \<Rightarrow> bool" where
  "reaches c c' \<longleftrightarrow> (\<exists>ops. list_all printable_op ops \<and> c' = run state_step c ops)"

lemma reaches_refl [simp, intro]: "reaches c c"
  unfolding reaches_def by (rule exI [of _ "[]"]) simp

lemma reaches_trans: "reaches c d \<Longrightarrow> reaches d e \<Longrightarrow> reaches c e"
  unfolding reaches_def by (metis run_append list_all_append)

lemma reaches_step: "printable_op op \<Longrightarrow> reaches c (state_step c op)"
  unfolding reaches_def by (rule exI [of _ "[op]"]) simp

lemma reaches_error: "text_ok msg 160 \<Longrightarrow> reaches c (snd (ApplyConnectorError c cid ec msg))"
  using reaches_step [of "OpError cid ec msg" c] by simp

lemma reaches_metrics: "reaches c (snd (ApplyConnectorMetrics c cid sq ms))"
  using reaches_step [of "OpConnectorMetrics cid sq ms" c] by simp

lemma reaches_health: "reaches c (snd (ApplyHealth c h))"
  using reaches_step [of "OpHealth h" c] by simp

lemma reaches_homelab: "reaches c (snd (ApplyConnectorHomeLab c cid report))"
  using reaches_step [of "OpHomeLab cid report" c] by simp

lemma reaches_healths: "reaches c (apply_healths healths c)"
  unfolding apply_healths_def
  by (induction healths arbitrary: c) (auto intro: reaches_trans reaches_health)

text \<open>What the code relies on: the message of a connector's error fits the wire format.\<close>

definition printable_collection :: "collection \<Rightarrow> bool" where
  "printable_collection co =
     (case co_Collect co of Inl e \<Rightarrow> text_ok (Message (Some e)) 160 | Inr _ \<Rightarrow> True)"

lemma invalid_messages [simp]: "text_ok invalid_metric 160" "text_ok invalid_homelab 160"
  by (simp_all add: text_ok_def invalid_metric_def invalid_homelab_def is_control_def)

lemma auth_message_ok: "text_ok label 64 \<Longrightarrow> text_ok (AuthActionMessage label) 160"
  by (auto simp: text_ok_def AuthActionMessage_def is_control_def)

lemma store_error_store [simp]:
  "sc_store (store_error s t ec msg) = snd (ApplyConnectorError (sc_store s) (tk_ID t) ec msg)"
  by (simp add: store_error_def)

lemma collect_homelab_reaches: "reaches (sc_store s) (sc_store (snd (collect_homelab s t h)))"
proof (cases h)
  case (Some outcome)
  show ?thesis
  proof (cases outcome)
    case (Inr report)
    obtain r c where "ApplyConnectorHomeLab (sc_store s) (tk_ID t) (stale_report (tk_StaleAfter t) report) = (r, c)"
      by (cases "ApplyConnectorHomeLab (sc_store s) (tk_ID t) (stale_report (tk_StaleAfter t) report)")
    with reaches_homelab [of "sc_store s" "tk_ID t" "stale_report (tk_StaleAfter t) report"] Some Inr
    show ?thesis
      by (auto simp: collect_homelab_def split: sum.splits intro: reaches_trans [OF _ reaches_error])
  qed (simp add: Some collect_homelab_def reaches_error)
qed (simp add: collect_homelab_def)

lemma collectOnce_reaches:
  assumes "printable_collection co" "text_ok (sc_nodeLabel s) 64"
  shows "reaches (sc_store s) (sc_store (snd (collectOnce s t co)))"
proof (cases "co_Started co")
  case True
  note started = True
  show ?thesis
  proof (cases "co_Collect co")
    case (Inl e)
    with assms started show ?thesis
      by (auto simp: collectOnce_def printable_collection_def Let_def
          intro!: reaches_error auth_message_ok)
  next
    case (Inr metrics)
    let ?ms = "stale_metrics (tk_StaleAfter t) metrics"
    let ?s = "s\<lparr>sc_seq := sc_seq s + 1\<rparr>"
    obtain r c where a: "ApplyConnectorMetrics (sc_store s) (tk_ID t) (sc_seq s + 1) ?ms = (r, c)"
      by (cases "ApplyConnectorMetrics (sc_store s) (tk_ID t) (sc_seq s + 1) ?ms")
    have c: "reaches (sc_store s) c" using reaches_metrics [of "sc_store s"] a by (metis snd_conv)
    show ?thesis
    proof (cases r)
      case (Inl e)
      with Inr a started show ?thesis
        by (simp add: collectOnce_def nextSeq_def Let_def reaches_trans [OF c reaches_error])
    next
      case (Inr n)
      let ?c = "case co_Health co of Some (Inr healths) \<Rightarrow> apply_healths healths c | _ \<Rightarrow> c"
      have "reaches (sc_store s) ?c"
        using reaches_trans [OF c reaches_healths] c by (auto split: option.splits sum.splits)
      with collect_homelab_reaches [of "?s\<lparr>sc_store := ?c\<rparr>" t "co_HomeLab co"]
      show ?thesis
        using \<open>co_Collect co = Inr metrics\<close> Inr a started
        by (auto simp: collectOnce_def nextSeq_def Let_def intro: reaches_trans)
    qed
  qed
qed (simp add: collectOnce_def)

lemma collectOnce_label [simp]: "sc_nodeLabel (snd (collectOnce s t co)) = sc_nodeLabel s"
  by (auto simp: collectOnce_def nextSeq_def collect_homelab_def store_error_def Let_def
      split: sum.splits option.splits prod.splits)

lemma collectOnce_tasks [simp]: "sc_tasks (snd (collectOnce s t co)) = sc_tasks s"
  by (auto simp: collectOnce_def nextSeq_def collect_homelab_def store_error_def Let_def
      split: sum.splits option.splits prod.splits)

lemma publishHealth_simps [simp]:
  "sc_nodeLabel (publishHealth s t ec msg f en l n now) = sc_nodeLabel s"
  "sc_tasks (publishHealth s t ec msg f en l n now) = sc_tasks s"
  by (simp_all add: publishHealth_def)

lemma publishHealth_reaches: "reaches (sc_store s) (sc_store (publishHealth s t ec msg f en l n now))"
  by (simp add: publishHealth_def reaches_health)

section \<open>The scheduler as a machine\<close>

text \<open>
  Turns of any tasks and refreshes in any order; a turn may find the loop variables in any state.
\<close>

datatype sched_op =
    ScDisabled nat instant
  | ScTurn nat runner turn
  | ScRefresh "string list" instant "nat list \<Rightarrow> refresh_input list" "go_error option"

fun sched_step :: "bool \<Rightarrow> (rat \<Rightarrow> int) \<Rightarrow> Scheduler \<Rightarrow> sched_op \<Rightarrow> Scheduler" where
  "sched_step fma oob s (ScDisabled i now) =
     publishHealth s (sc_tasks s ! i) ErrNone [] 0 False None None now"
| "sched_step fma oob s (ScTurn i r tn) = snd (run_loop fma oob (sc_tasks s ! i) [tn] (r, s))"
| "sched_step fma oob s (ScRefresh ids now inputs ctx_err) = snd (Refresh s ids now inputs ctx_err)"

fun printable_sched_op :: "sched_op \<Rightarrow> bool" where
  "printable_sched_op (ScDisabled i now) = True"
| "printable_sched_op (ScTurn i r tn) = printable_collection (tn_collection tn)"
| "printable_sched_op (ScRefresh ids now inputs ctx_err) =
     (\<forall>ix. list_all (printable_collection \<circ> ri_collection) (inputs ix))"

definition label_ok :: "Scheduler \<Rightarrow> bool" where
  "label_ok s \<longleftrightarrow> text_ok (sc_nodeLabel s) 64"

lemma run_turn_reaches:
  assumes "printable_collection (tn_collection tn)" "label_ok s"
  shows "reaches (sc_store s) (sc_store (snd (snd (run_turn fma oob t tn (r, s))))) \<and>
         label_ok (snd (snd (run_turn fma oob t tn (r, s))))"
  using collectOnce_reaches [OF assms(1), of s t] assms(2)
  by (auto simp: run_turn_def Let_def label_ok_def case_prod_beta
      intro: reaches_trans publishHealth_reaches)

lemma refresh_one_reaches:
  assumes "printable_collection (ri_collection ri)" "label_ok s"
  shows "reaches (sc_store s) (sc_store (refresh_one prev ri s)) \<and> label_ok (refresh_one prev ri s)"
  using collectOnce_reaches [OF assms(1), of s "sc_tasks s ! ri_index ri"] assms(2)
  by (auto simp: refresh_one_def Let_def label_ok_def case_prod_beta
      intro: reaches_trans publishHealth_reaches)

lemma refresh_fold_reaches:
  "list_all (printable_collection \<circ> ri_collection) ris \<Longrightarrow> label_ok s \<Longrightarrow>
   reaches (sc_store s) (sc_store (fold (refresh_one prev) ris s)) \<and> label_ok (fold (refresh_one prev) ris s)"
proof (induction ris arbitrary: s)
  case (Cons ri ris)
  with refresh_one_reaches [of ri s prev] have
    "reaches (sc_store s) (sc_store (refresh_one prev ri s))" "label_ok (refresh_one prev ri s)" by auto
  with Cons show ?case by (auto intro: reaches_trans)
qed simp

lemma sched_step_reaches:
  assumes "printable_sched_op op" "label_ok s"
  shows "reaches (sc_store s) (sc_store (sched_step fma oob s op)) \<and> label_ok (sched_step fma oob s op)"
proof (cases op)
  case (ScDisabled i now)
  then show ?thesis using assms(2) by (simp add: publishHealth_reaches label_ok_def)
next
  case (ScTurn i r tn)
  then show ?thesis
    using assms collectOnce_reaches [of "tn_collection tn" s "sc_tasks s ! i"]
      run_turn_reaches [of tn s fma oob "sc_tasks s ! i" r]
    by (auto simp: case_prod_beta label_ok_def)
next
  case (ScRefresh ids now inputs ctx_err)
  then show ?thesis
    using assms refresh_fold_reaches by (auto simp: Refresh_def split: sum.splits)
qed

interpretation scheduler: invariant_machine "sched_step fma oob"
  "\<lambda>s. reaches c (sc_store s) \<and> label_ok s" printable_sched_op for fma oob c
  by unfold_locales (use sched_step_reaches reaches_trans in blast)

lemma reaches_inv: "reaches c d \<Longrightarrow> inv c \<Longrightarrow> inv d"
  unfolding reaches_def using current.run_inv by blast

lemma reaches_ids:
  "reaches c d \<Longrightarrow> cur_nodeID d = cur_nodeID c \<and> cur_nodeLabel d = cur_nodeLabel c \<and> cur_epoch d = cur_epoch c"
  unfolding reaches_def using run_ids by blast
section \<open>What a batch leaves\<close>

lemma fold_remove_metric_lookup:
  "distinct (map fst es) \<Longrightarrow>
   fold (remove_metric cid sq seen) es (metrics, owners, seqs, n) = (metrics', owners', seqs', n') \<Longrightarrow>
   mget metrics' k = (if (k, cid) \<in> set es \<and> k \<notin> set seen \<and> \<not> outdated seqs k sq then None else mget metrics k) \<and>
   (k \<in> set seen \<longrightarrow> mget seqs' k = mget seqs k)"
proof (induction es arbitrary: metrics owners seqs n)
  case (Cons e es)
  obtain j owner where e: "e = (j, owner)" by (cases e)
  obtain metrics1 owners1 seqs1 n1 where
    st: "remove_metric cid sq seen e (metrics, owners, seqs, n) = (metrics1, owners1, seqs1, n1)"
    by (cases "remove_metric cid sq seen e (metrics, owners, seqs, n)") auto
  have one: "mget metrics1 k =
      (if k = j \<and> owner = cid \<and> j \<notin> set seen \<and> \<not> outdated seqs j sq then None else mget metrics k)"
    "mget seqs1 k = (if k = j \<and> owner = cid \<and> j \<notin> set seen \<and> \<not> outdated seqs j sq then Some sq else mget seqs k)"
    using st by (auto simp: remove_metric_def e mget_put mget_del split: if_splits)
  have IH: "mget metrics' k = (if (k, cid) \<in> set es \<and> k \<notin> set seen \<and> \<not> outdated seqs1 k sq then None else mget metrics1 k) \<and>
      (k \<in> set seen \<longrightarrow> mget seqs' k = mget seqs1 k)"
    using Cons.prems st by (intro Cons.IH) simp_all
  have "k = j \<Longrightarrow> (k, cid) \<notin> set es" using Cons.prems(1) by (force simp: e)
  with IH show ?case by (auto simp: one outdated_def e split: if_splits)
qed simp

text \<open>A batch with a sequence number above all observed ones replaces what its connector owned.\<close>

lemma fresh_batch_lookup:
  assumes "inv c" "cid \<noteq> []" "batch_error ms = None" "\<And>k. \<not> outdated (cur_observedSeq c) k sq"
  shows "\<exists>n. fst (ApplyConnectorMetrics c cid sq ms) = Inr n"
    and "mget (cur_metrics (snd (ApplyConnectorMetrics c cid sq ms))) k =
      (case find (\<lambda>m. pm_ID m = k) ms of
         Some m \<Rightarrow> Some m
       | None \<Rightarrow> if mget (cur_metricOwners c) k = Some cid then None else mget (cur_metrics c) k)"
proof -
  obtain metrics owners seqs n where
    rem: "fold (remove_metric cid sq (map pm_ID ms)) (cur_metricOwners c)
        (cur_metrics c, cur_metricOwners c, cur_observedSeq c, 0) = (metrics, owners, seqs, n)"
    by (cases "fold (remove_metric cid sq (map pm_ID ms)) (cur_metricOwners c)
        (cur_metrics c, cur_metricOwners c, cur_observedSeq c, 0)") auto
  obtain metrics' owners' seqs' n' where
    sto: "fold (store_metric cid sq) ms (metrics, owners, seqs, 0) = (metrics', owners', seqs', n')"
    by (cases "fold (store_metric cid sq) ms (metrics, owners, seqs, 0)") auto
  have wf: "wf_map (cur_metricOwners c)" using assms(1) by (simp add: inv_def)
  then have d: "distinct (map fst (cur_metricOwners c))" by (simp add: wf_map_def)
  have dist: "distinct (map pm_ID ms)" using assms(3) by (simp add: batch_error_None)
  note R = fold_remove_metric_lookup [OF d rem, of k]
  note S = fold_store_metric_lookup [OF dist sto, of k]
  have res: "ApplyConnectorMetrics c cid sq ms =
      (Inr n', (if n' > 0 \<or> n > 0 then bump_version else id)
        (with_metrics c (metrics', owners', seqs', n')))"
    using assms(2,3)
    by (simp add: ApplyConnectorMetrics_def applyMetrics_eq batch_removed_def batch_stored_def rem sto
        maps_count_def Let_def)
  then show "\<exists>n. fst (ApplyConnectorMetrics c cid sq ms) = Inr n" by simp
  have found: "k \<in> set (map pm_ID ms)" if "find (\<lambda>m. pm_ID m = k) ms = Some m" for m
    using that by (auto simp: find_Some_iff)
  have absent: "k \<notin> set (map pm_ID ms)" if "find (\<lambda>m. pm_ID m = k) ms = None"
    using that by (simp add: find_entity_None)
  have "cur_metrics (snd (ApplyConnectorMetrics c cid sq ms)) = metrics'"
    by (simp add: res with_metrics_def bump_version_def)
  moreover have "(k, cid) \<in> set (cur_metricOwners c) \<longleftrightarrow> mget (cur_metricOwners c) k = Some cid"
    using wf by (simp add: mget_in_set)
  moreover have "outdated seqs k sq = outdated (cur_observedSeq c) k sq" if "k \<in> set (map pm_ID ms)"
    using R that by (simp add: outdated_def)
  ultimately show "mget (cur_metrics (snd (ApplyConnectorMetrics c cid sq ms))) k =
      (case find (\<lambda>m. pm_ID m = k) ms of
         Some m \<Rightarrow> Some m
       | None \<Rightarrow> if mget (cur_metricOwners c) k = Some cid then None else mget (cur_metrics c) k)"
    using R S assms(4) [of k] found absent by (auto split: option.splits)
qed

text \<open>The scheduler's own sequence numbers are above all those it has used.\<close>

definition seq_bound :: "Scheduler \<Rightarrow> bool" where
  "seq_bound s \<longleftrightarrow> (\<forall>k v. mget (cur_observedSeq (sc_store s)) k = Some v \<longrightarrow> v \<le> sc_seq s)"

lemma seq_bound_fresh:
  assumes "seq_bound s" "unat (sc_seq s) < 2 ^ 64 - 1"
  shows "\<not> outdated (cur_observedSeq (sc_store s)) k (sc_seq s + 1)"
proof
  assume "outdated (cur_observedSeq (sc_store s)) k (sc_seq s + 1)"
  then obtain v where "mget (cur_observedSeq (sc_store s)) k = Some v" "sc_seq s + 1 \<le> v"
    by (auto simp: outdated_def split: option.splits)
  moreover from this assms(1) have "v \<le> sc_seq s" unfolding seq_bound_def by blast
  ultimately have "sc_seq s + 1 \<le> sc_seq s" by (metis order_trans)
  with u64_inc_less [OF assms(2)] show False by simp
qed

fun seqs_below :: "u64 \<Rightarrow> metric_maps \<Rightarrow> bool" where
  "seqs_below b (metrics, owners, seqs, n) \<longleftrightarrow> (\<forall>k v. mget seqs k = Some v \<longrightarrow> v \<le> b)"

lemma seqs_below_remove:
  "sq \<le> b \<Longrightarrow> seqs_below b st \<Longrightarrow> seqs_below b (fold (remove_metric cid sq seen) es st)"
  by (induction es arbitrary: st) (auto simp: remove_metric_def mget_put split: if_splits)

lemma seqs_below_store:
  "sq \<le> b \<Longrightarrow> seqs_below b st \<Longrightarrow> seqs_below b (fold (store_metric cid sq) ms st)"
  by (induction ms arbitrary: st) (auto simp: store_metric_def mget_put split: if_splits)

lemma observed_ApplyConnectorMetrics:
  assumes "sq \<le> b" "\<forall>k v. mget (cur_observedSeq c) k = Some v \<longrightarrow> v \<le> b"
  shows "\<forall>k v. mget (cur_observedSeq (snd (ApplyConnectorMetrics c cid sq ms))) k = Some v \<longrightarrow> v \<le> b"
proof (cases "cid = [] \<or> batch_error ms \<noteq> None")
  case True
  then show ?thesis using assms(2) by (auto simp: ApplyConnectorMetrics_def applyMetrics_eq)
next
  case False
  have "seqs_below b (batch_removed c cid sq ms)"
    using assms False by (simp add: batch_removed_def seqs_below_remove)
  then have "seqs_below b (batch_stored cid sq ms (batch_removed c cid sq ms))"
    using assms(1) by (cases "batch_removed c cid sq ms") (auto simp: batch_stored_def intro!: seqs_below_store)
  then show ?thesis
    using False by (cases "batch_stored cid sq ms (batch_removed c cid sq ms)")
      (simp add: ApplyConnectorMetrics_def applyMetrics_eq Let_def with_metrics_def bump_version_def)
qed

lemma observed_others [simp]:
  "cur_observedSeq (snd (ApplyHealth c h)) = cur_observedSeq c"
  "cur_observedSeq (snd (ApplyConnectorError c cid ec msg)) = cur_observedSeq c"
  "cur_observedSeq (snd (ApplyConnectorHomeLab c cid report)) = cur_observedSeq c"
  by (auto simp: ApplyHealth_def ApplyConnectorError_def ApplyConnectorHomeLab_def bump_version_def Let_def
      split: option.splits prod.splits)

lemma homelab_observed:
  "ApplyConnectorHomeLab c cid report = (r, d) \<Longrightarrow> cur_observedSeq d = cur_observedSeq c"
  by (metis observed_others(3) snd_conv)

lemma observed_healths [simp]: "cur_observedSeq (apply_healths hs c) = cur_observedSeq c"
  unfolding apply_healths_def by (induction hs arbitrary: c) simp_all

lemma observed_homelab [simp]:
  "cur_observedSeq (sc_store (snd (collect_homelab s t h))) = cur_observedSeq (sc_store s)"
  "sc_seq (snd (collect_homelab s t h)) = sc_seq s"
  by (auto simp: collect_homelab_def store_error_def split: option.splits sum.splits prod.splits
      dest: homelab_observed)

lemma collectOnce_seq:
  "sc_seq (snd (collectOnce s t co)) =
     (if co_Started co \<and> (\<exists>ms. co_Collect co = Inr ms) then sc_seq s + 1 else sc_seq s)"
  by (auto simp: collectOnce_def nextSeq_def store_error_def Let_def split: sum.splits prod.splits)

lemma collectOnce_observed:
  assumes "seq_bound s" "unat (sc_seq s) < 2 ^ 64 - 1"
  shows "seq_bound (snd (collectOnce s t co))"
proof (cases "co_Started co \<and> (\<exists>ms. co_Collect co = Inr ms)")
  case True
  then obtain ms where co: "co_Started co" "co_Collect co = Inr ms" by blast
  obtain r c where a: "ApplyConnectorMetrics (sc_store s) (tk_ID t) (sc_seq s + 1)
      (stale_metrics (tk_StaleAfter t) ms) = (r, c)"
    by (cases "ApplyConnectorMetrics (sc_store s) (tk_ID t) (sc_seq s + 1) (stale_metrics (tk_StaleAfter t) ms)")
  have "sc_seq s \<le> sc_seq s + 1" using u64_inc_less [OF assms(2)] by (rule less_imp_le)
  then have "\<forall>k v. mget (cur_observedSeq (sc_store s)) k = Some v \<longrightarrow> v \<le> sc_seq s + 1"
    using assms(1) unfolding seq_bound_def by (blast intro: order_trans)
  with observed_ApplyConnectorMetrics [OF order_refl this, of "tk_ID t" "stale_metrics (tk_StaleAfter t) ms"] a
  have "\<forall>k v. mget (cur_observedSeq c) k = Some v \<longrightarrow> v \<le> sc_seq s + 1" by simp
  moreover have "cur_observedSeq (sc_store (snd (collectOnce s t co))) = cur_observedSeq c"
    using co a by (cases r) (auto simp: collectOnce_def nextSeq_def Let_def split: sum.splits option.splits)
  ultimately show ?thesis using True unfolding seq_bound_def by (simp add: collectOnce_seq)
next
  case False
  then have "cur_observedSeq (sc_store (snd (collectOnce s t co))) = cur_observedSeq (sc_store s)"
    by (auto simp: collectOnce_def Let_def split: sum.splits)
  moreover have "sc_seq (snd (collectOnce s t co)) = sc_seq s" using False by (auto simp: collectOnce_seq)
  ultimately show ?thesis using assms(1) by (simp add: seq_bound_def)
qed

text \<open>
  All the scheduler ever does to the store is collect and publish health; both keep the bound as
  long as the 64-bit counter does not wrap.
\<close>

datatype store_use = UseCollect Task collection | UseHealth ConnectorHealth

fun use_step :: "Scheduler \<Rightarrow> store_use \<Rightarrow> Scheduler" where
  "use_step s (UseCollect t co) = snd (collectOnce s t co)"
| "use_step s (UseHealth h) = s\<lparr>sc_store := snd (ApplyHealth (sc_store s) h)\<rparr>"

fun printable_use :: "store_use \<Rightarrow> bool" where
  "printable_use (UseCollect t co) = printable_collection co"
| "printable_use (UseHealth h) = True"

lemma use_step_reaches:
  "printable_use op \<Longrightarrow> label_ok s \<Longrightarrow>
   reaches (sc_store s) (sc_store (use_step s op)) \<and> label_ok (use_step s op)"
  by (cases op) (simp_all add: collectOnce_reaches reaches_health label_ok_def)

interpretation sequence: budget_machine use_step
  "\<lambda>s. inv (sc_store s) \<and> label_ok s \<and> seq_bound s" printable_use "\<lambda>s. unat (sc_seq s)" "2 ^ 64 - 1"
proof unfold_locales
  fix s op
  assume a: "inv (sc_store s) \<and> label_ok s \<and> seq_bound s" "printable_use op" "unat (sc_seq s) < 2 ^ 64 - 1"
  have "seq_bound (use_step s op)"
    using a by (cases op) (simp_all add: collectOnce_observed, simp add: seq_bound_def)
  then show "inv (sc_store (use_step s op)) \<and> label_ok (use_step s op) \<and> seq_bound (use_step s op)"
    using a use_step_reaches [of op s] reaches_inv by blast
  show "unat (sc_seq s) \<le> unat (sc_seq (use_step s op)) \<and> unat (sc_seq (use_step s op)) \<le> Suc (unat (sc_seq s))"
    using a(3) by (cases op) (simp_all add: collectOnce_seq u64_inc_unat)
qed
section \<open>The loop of a task, and the selection of a refresh\<close>

fun loop_outcomes ::
  "bool \<Rightarrow> (rat \<Rightarrow> int) \<Rightarrow> Task \<Rightarrow> turn list \<Rightarrow> runner \<times> Scheduler \<Rightarrow> (ErrorClass \<times> instant) list" where
  "loop_outcomes fma oob t [] st = []"
| "loop_outcomes fma oob t (tn # tns) st =
     (if tn_cancelled tn then []
      else (cr_class (fst (collectOnce (snd st) t (tn_collection tn))), tn_now tn) #
        (if tn_slept tn then loop_outcomes fma oob t tns (snd (run_turn fma oob t tn st)) else []))"

definition count_outcome :: "runner \<Rightarrow> ErrorClass \<times> instant \<Rightarrow> runner" where
  "count_outcome r out =
     (if fst out = ErrNone then \<lparr>rn_failures = 0, rn_lastSuccessAt = Some (snd out)\<rparr>
      else \<lparr>rn_failures = rn_failures r + 1, rn_lastSuccessAt = rn_lastSuccessAt r\<rparr>)"

lemma run_turn_runner:
  "fst (snd (run_turn fma oob t tn st)) =
     count_outcome (fst st) (cr_class (fst (collectOnce (snd st) t (tn_collection tn))), tn_now tn)"
  by (cases st) (simp add: run_turn_def count_outcome_def Let_def case_prod_beta)

lemma run_loop_runner:
  "fst (run_loop fma oob t tns st) = foldl count_outcome (fst st) (loop_outcomes fma oob t tns st)"
  by (induction tns arbitrary: st) (simp_all add: case_prod_beta run_turn_runner)

lemma count_outcomes:
  "rn_failures (foldl count_outcome \<lparr>rn_failures = 0, rn_lastSuccessAt = None\<rparr> outs) =
     int (length (takeWhile (\<lambda>out. fst out \<noteq> ErrNone) (rev outs))) \<and>
   rn_lastSuccessAt (foldl count_outcome \<lparr>rn_failures = 0, rn_lastSuccessAt = None\<rparr> outs) =
     map_option snd (find (\<lambda>out. fst out = ErrNone) (rev outs))"
  by (induction outs rule: rev_induct) (simp_all add: count_outcome_def)

fun positions :: "('a \<Rightarrow> bool) \<Rightarrow> nat \<Rightarrow> 'a list \<Rightarrow> nat list" where
  "positions P i [] = []"
| "positions P i (x # xs) = (if P x then i # positions P (i + 1) xs else positions P (i + 1) xs)"

lemma positions_eq: "positions P i xs = filter (\<lambda>j. P (xs ! (j - i))) [i ..< i + length xs]"
proof (induction xs arbitrary: i)
  case (Cons x xs)
  have "filter (\<lambda>j. P ((x # xs) ! (j - i))) [Suc i ..< Suc (i + length xs)] =
      filter (\<lambda>j. P (xs ! (j - Suc i))) [Suc i ..< Suc (i + length xs)]"
    by (rule filter_cong) (auto simp: nth_Cons' Suc_diff_Suc)
  moreover have "[i ..< i + length (x # xs)] = i # [Suc i ..< Suc (i + length xs)]"
    by (simp add: upt_conv_Cons del: upt_Suc)
  ultimately show ?case using Cons [of "Suc i"] by simp
qed simp

lemma positions_cong: "(\<And>x. x \<in> set xs \<Longrightarrow> P x = Q x) \<Longrightarrow> positions P i xs = positions Q i xs"
  by (induction xs arbitrary: i) auto

lemma select_all: "select_tasks True i ts sel acc = Inr (acc @ positions tk_Enabled i ts, sel)"
  by (induction ts arbitrary: i acc) auto

lemma select_some:
  "distinct (map tk_ID ts) \<Longrightarrow>
   select_tasks False i ts sel acc = Inr (ix, rest) \<longleftrightarrow>
     (\<forall>t\<in>set ts. tk_ID t \<in> set sel \<longrightarrow> tk_Enabled t) \<and>
     ix = acc @ positions (\<lambda>t. tk_ID t \<in> set sel) i ts \<and>
     rest = filter (\<lambda>x. x \<notin> tk_ID ` set ts) sel"
proof (induction ts arbitrary: i sel acc)
  case (Cons t ts)
  have other: "tk_ID u \<noteq> tk_ID t" if "u \<in> set ts" for u
    using Cons.prems that by (metis distinct.simps(2) image_eqI list.set_map list.simps(9))
  have pos: "positions (\<lambda>u. tk_ID u \<in> set (removeAll (tk_ID t) sel)) j ts =
      positions (\<lambda>u. tk_ID u \<in> set sel) j ts" for j
    by (rule positions_cong) (use other in auto)
  have rem: "filter (\<lambda>x. x \<notin> tk_ID ` set ts) (removeAll (tk_ID t) sel) =
      filter (\<lambda>x. x \<notin> tk_ID ` set (t # ts)) sel"
    by (auto simp: removeAll_filter_not_eq filter_filter intro: filter_cong)
  show ?case
  proof (cases "tk_ID t \<in> set sel")
    case True
    have d: "distinct (map tk_ID ts)" using Cons.prems by simp
    have "(\<forall>u\<in>set ts. tk_ID u \<in> set (removeAll (tk_ID t) sel) \<longrightarrow> tk_Enabled u) \<longleftrightarrow>
        (\<forall>u\<in>set ts. tk_ID u \<in> set sel \<longrightarrow> tk_Enabled u)" using other by auto
    with Cons.IH [OF d, of "Suc i" "removeAll (tk_ID t) sel" "acc @ [i]"] True
    show ?thesis unfolding pos rem by simp
  next
    case False
    then have "filter (\<lambda>x. x \<notin> tk_ID ` set ts) sel = filter (\<lambda>x. x \<notin> tk_ID ` set (t # ts)) sel"
      by (intro filter_cong) auto
    with Cons False show ?thesis by auto
  qed
qed auto

lemma enabled_ids:
  assumes "distinct (map tk_ID ts)"
  shows "(\<forall>t\<in>set ts. tk_ID t \<in> A \<longrightarrow> tk_Enabled t) \<and> A \<subseteq> tk_ID ` set ts \<longleftrightarrow>
         A \<subseteq> tk_ID ` {t \<in> set ts. tk_Enabled t}" (is "?L \<longleftrightarrow> ?R")
proof
  assume r: ?R
  have "tk_Enabled t" if t: "t \<in> set ts" "tk_ID t \<in> A" for t
  proof -
    obtain u where "u \<in> set ts" "tk_Enabled u" "tk_ID u = tk_ID t" using r t(2) by auto
    with t(1) assms show ?thesis by (metis distinct_map inj_onD)
  qed
  with r show ?L by auto
qed auto

lemma select_requested:
  assumes "distinct (map tk_ID ts)"
  shows "select_tasks False 0 ts (remdups ids) [] = Inr (ix, []) \<longleftrightarrow>
    ix = positions (\<lambda>t. tk_ID t \<in> set ids) 0 ts \<and> set ids \<subseteq> tk_ID ` {t \<in> set ts. tk_Enabled t}"
proof -
  have "[] = filter (\<lambda>x. x \<notin> tk_ID ` set ts) (remdups ids) \<longleftrightarrow> set ids \<subseteq> tk_ID ` set ts"
    by (auto simp: filter_empty_conv eq_commute [of "[]"])
  with enabled_ids [OF assms, of "set ids"] show ?thesis
    unfolding select_some [OF assms] by auto
qed

lemma selected_positions:
  assumes "distinct (map tk_ID ts)" "set ids \<subseteq> tk_ID ` {t \<in> set ts. tk_Enabled t}"
  shows "positions (\<lambda>t. tk_ID t \<in> set ids) 0 ts =
    filter (\<lambda>i. tk_Enabled (ts ! i) \<and> tk_ID (ts ! i) \<in> set ids) [0 ..< length ts]"
proof -
  have "positions (\<lambda>t. tk_ID t \<in> set ids) 0 ts = positions (\<lambda>t. tk_Enabled t \<and> tk_ID t \<in> set ids) 0 ts"
    by (rule positions_cong) (use enabled_ids [OF assms(1), of "set ids"] assms(2) in blast)
  then show ?thesis by (simp add: positions_eq)
qed

section \<open>What a successful collection leaves\<close>

lemma metrics_others [simp]:
  "cur_metrics (snd (ApplyHealth c h)) = cur_metrics c"
  "cur_metrics (snd (ApplyConnectorHomeLab c cid report)) = cur_metrics c"
  by (auto simp: ApplyHealth_def ApplyConnectorHomeLab_def bump_version_def Let_def
      split: option.splits prod.splits)

lemma metrics_healths [simp]: "cur_metrics (apply_healths hs c) = cur_metrics c"
  unfolding apply_healths_def by (induction hs arbitrary: c) simp_all

lemma metrics_homelab:
  assumes "cr_class (fst (collect_homelab s t h)) = ErrNone"
  shows "cur_metrics (sc_store (snd (collect_homelab s t h))) = cur_metrics (sc_store s)"
proof (cases h)
  case (Some outcome)
  with assms obtain report where o: "outcome = Inr report"
    by (cases outcome) (simp_all add: collect_homelab_def collection_result_def)
  obtain r c where a: "ApplyConnectorHomeLab (sc_store s) (tk_ID t) (stale_report (tk_StaleAfter t) report) = (r, c)"
    by (cases "ApplyConnectorHomeLab (sc_store s) (tk_ID t) (stale_report (tk_StaleAfter t) report)")
  have "cur_metrics c = cur_metrics (sc_store s)"
    using metrics_others(2) [of "sc_store s" "tk_ID t" "stale_report (tk_StaleAfter t) report"] a by simp
  with assms Some o a show ?thesis
    by (cases r) (simp_all add: collect_homelab_def collection_result_def)
qed (simp add: collect_homelab_def)

lemma success_applies:
  assumes "co_Started co" "co_Collect co = Inr ms" "cr_class (fst (collectOnce s t co)) = ErrNone"
  shows "tk_ID t \<noteq> [] \<and> batch_error (stale_metrics (tk_StaleAfter t) ms) = None \<and>
    cur_metrics (sc_store (snd (collectOnce s t co))) =
      cur_metrics (snd (ApplyConnectorMetrics (sc_store s) (tk_ID t) (sc_seq s + 1)
        (stale_metrics (tk_StaleAfter t) ms)))"
proof -
  let ?ms = "stale_metrics (tk_StaleAfter t) ms"
  obtain r c where a: "ApplyConnectorMetrics (sc_store s) (tk_ID t) (sc_seq s + 1) ?ms = (r, c)"
    by (cases "ApplyConnectorMetrics (sc_store s) (tk_ID t) (sc_seq s + 1) ?ms")
  let ?c = "case co_Health co of Some (Inr healths) \<Rightarrow> apply_healths healths c | _ \<Rightarrow> c"
  obtain n where r: "r = Inr n"
    using assms a by (cases r) (auto simp: collectOnce_def nextSeq_def Let_def collection_result_def)
  then have once: "collectOnce s t co =
      collect_homelab (s\<lparr>sc_seq := sc_seq s + 1, sc_store := ?c\<rparr>) t (co_HomeLab co)"
    using assms(1,2) a by (simp add: collectOnce_def nextSeq_def Let_def)
  then have "cur_metrics (sc_store (snd (collectOnce s t co))) = cur_metrics ?c"
    using assms(3) metrics_homelab [of "s\<lparr>sc_seq := sc_seq s + 1, sc_store := ?c\<rparr>" t "co_HomeLab co"] by simp
  also have "cur_metrics ?c = cur_metrics c" by (auto split: option.splits sum.splits)
  finally show ?thesis
    using a r by (auto simp: ApplyConnectorMetrics_def applyMetrics_eq split: if_splits option.splits)
qed
section \<open>Properties\<close>

text \<open>Whatever the connectors return, and in whatever order tasks take turns and refreshes are
  asked for, the snapshot the daemon publishes validates at the receiver, as long as the messages of
  the connectors' errors are printable and at most 160 bytes long.\<close>

theorem scheduled_snapshot_valid:
  assumes "New_Current nodeID label epoch = Inr c" "ident_ok nodeID" "ident_ok epoch" "text_ok label 64"
    and "text_ok nodeLabel 64" "list_all printable_sched_op ops" "now \<noteq> 0"
  shows "MetricSnapshot_Validate (Some (Snapshot (sc_store
           (run (sched_step fma oob) (New_Scheduler tasks c slots nodeLabel) ops)) now)) = None"
proof -
  let ?s = "New_Scheduler tasks c slots nodeLabel"
  have ids: "cur_nodeID c = nodeID" "cur_epoch c = epoch" "text_ok (cur_nodeLabel c) 64"
    using assms(1-4) ident_ok_text_ok [of nodeID] by (auto simp: New_Current_def split: if_splits)
  have "label_ok ?s"
    using assms(5) ids(1) ident_ok_text_ok [OF assms(2)] by (simp add: label_ok_def New_Scheduler_def)
  then have start: "reaches c (sc_store ?s) \<and> label_ok ?s" by (simp add: New_Scheduler_def)
  have "reaches c (sc_store (run (sched_step fma oob) ?s ops))"
    using scheduler.run_inv [OF start assms(6)] by blast
  with reaches_inv [OF this inv_New [OF assms(1)]] reaches_ids [OF this] ids assms(2,3,7)
  show ?thesis by (simp add: MetricSnapshot_Validate_iff Snapshot_ok)
qed

definition example_task :: Task where
  "example_task = \<lparr>tk_ID = ''deepseek'', tk_Provider = ''deepseek'', tk_Policy = DefaultPolicy minute,
     tk_Timeout = 0, tk_Enabled = True, tk_StaleAfter = hour\<rparr>"

definition example_collection :: collection where
  "example_collection = \<lparr>co_Started = True, co_Collect = Inr [example_metric], co_Health = None, co_HomeLab = None\<rparr>"

definition example_turn :: turn where
  "example_turn = \<lparr>tn_collection = example_collection, tn_cancelled = False, tn_random = 0, tn_now = 5,
     tn_health_now = 6, tn_slept = True\<rparr>"

theorem scheduled_snapshot_valid_witness:
  "MetricSnapshot_Validate (Some (Snapshot (sc_store
     (run (sched_step False (\<lambda>_. 0)) (New_Scheduler [example_task] example_current 0 [])
        [ScTurn 0 \<lparr>rn_failures = 0, rn_lastSuccessAt = None\<rparr> example_turn])) 9)) = None"
  by (rule scheduled_snapshot_valid [OF example_current_New])
    (simp_all add: ident_ok_def text_ok_def is_ident_char_def is_lower_def is_upper_def is_digit_def
      is_control_def printable_collection_def example_turn_def example_collection_def)

text \<open>C19. A successful collection replaces the connector's metrics, whatever was collected before: every
  metric of the batch is current, with the freshness budget of the task; metrics the connector owned
  and no longer reports are gone; all others are unchanged. In particular no batch of the scheduler is
  ever dropped as outdated before \<open>2^64\<close> collections.\<close>

theorem collection_replaces_metrics:
  assumes "New_Current nodeID label epoch = Inr c" "text_ok nodeID 64" "text_ok nodeLabel 64"
    and "list_all printable_use uses" "length uses < 2 ^ 64 - 1"
    and "s = run use_step (New_Scheduler tasks c slots nodeLabel) uses"
    and "co_Started co" "co_Collect co = Inr ms" "cr_class (fst (collectOnce s t co)) = ErrNone"
  shows "mget (cur_metrics (sc_store (snd (collectOnce s t co)))) k =
    (case find (\<lambda>m. pm_ID m = k) (stale_metrics (tk_StaleAfter t) ms) of
       Some m \<Rightarrow> Some m
     | None \<Rightarrow> if mget (cur_metricOwners (sc_store s)) k = Some (tk_ID t) then None
               else mget (cur_metrics (sc_store s)) k)"
proof -
  let ?s = "New_Scheduler tasks c slots nodeLabel"
  have "cur_nodeID c = nodeID" "cur_observedSeq c = []"
    using assms(1) by (auto simp: New_Current_def split: if_splits)
  then have start: "inv (sc_store ?s) \<and> label_ok ?s \<and> seq_bound ?s" "unat (sc_seq ?s) = 0"
    using inv_New [OF assms(1)] assms(2,3) by (simp_all add: New_Scheduler_def label_ok_def seq_bound_def)
  have len: "unat (sc_seq ?s) + length uses \<le> 2 ^ 64 - 1" using start(2) assms(5) by simp
  note res = sequence.run_inv_counter [OF start(1) assms(4) len, folded assms(6)]
  then have inv: "inv (sc_store s)" and sb: "seq_bound s" and lt: "unat (sc_seq s) < 2 ^ 64 - 1"
    using start(2) assms(5) by simp_all
  note fresh = seq_bound_fresh [OF sb lt]
  note ok = success_applies [OF assms(7-9)]
  show ?thesis
    using fresh_batch_lookup(2) [OF inv _ _ fresh, of "tk_ID t" "stale_metrics (tk_StaleAfter t) ms" k] ok
    by simp
qed

theorem collection_replaces_metrics_witness:
  "mget (cur_metrics (sc_store (snd (collectOnce (New_Scheduler [example_task] example_current 0 [])
      example_task example_collection)))) ''deepseek.balance'' =
   Some (example_metric\<lparr>pm_StaleAfter := hour\<rparr>)"
proof -
  have "cr_class (fst (collectOnce (New_Scheduler [example_task] example_current 0 []) example_task
      example_collection)) = ErrNone"
    by code_simp
  from collection_replaces_metrics [OF example_current_New _ _ _ _ _ _ _ this,
      where uses = "[]" and ms = "[example_metric]" and k = "''deepseek.balance''"]
  show ?thesis
    by (simp add: example_collection_def example_task_def stale_metrics_def hour_def text_ok_def is_control_def
        example_metric_def)
qed

text \<open>The failure count a task publishes, and its backoff uses, is the number of failed collections
  since the last successful one, and its time of last success is that of the last successful one.\<close>

theorem failures_are_consecutive:
  "rn_failures (fst (run_loop fma oob t turns (\<lparr>rn_failures = 0, rn_lastSuccessAt = None\<rparr>, s))) =
     int (length (takeWhile (\<lambda>out. fst out \<noteq> ErrNone)
       (rev (loop_outcomes fma oob t turns (\<lparr>rn_failures = 0, rn_lastSuccessAt = None\<rparr>, s))))) \<and>
   rn_lastSuccessAt (fst (run_loop fma oob t turns (\<lparr>rn_failures = 0, rn_lastSuccessAt = None\<rparr>, s))) =
     map_option snd (find (\<lambda>out. fst out = ErrNone)
       (rev (loop_outcomes fma oob t turns (\<lparr>rn_failures = 0, rn_lastSuccessAt = None\<rparr>, s))))"
  unfolding run_loop_runner fst_conv by (rule count_outcomes)

text \<open>Which tasks a refresh runs, for distinct connector identifiers: it succeeds exactly when some
  enabled connector is asked for and every identifier is that of an enabled one (what \<open>ConnectorIDs\<close>
  lists for the command handler), and then it runs exactly those, or all enabled ones when the list is
  empty.\<close>

theorem refresh_selects_exactly:
  assumes "distinct (map tk_ID (sc_tasks s))"
  shows "refresh_selection (sc_tasks s) ids = Inr indices \<longleftrightarrow>
    indices = filter (\<lambda>i. tk_Enabled (sc_tasks s ! i) \<and> (ids = [] \<or> tk_ID (sc_tasks s ! i) \<in> set ids))
                [0 ..< length (sc_tasks s)] \<and>
    indices \<noteq> [] \<and> set ids \<subseteq> set (ConnectorIDs s)"
proof (cases "ids = []")
  case False
  have "refresh_selection (sc_tasks s) ids = Inr indices \<longleftrightarrow>
      select_tasks False 0 (sc_tasks s) (remdups ids) [] = Inr (indices, []) \<and> indices \<noteq> []"
    using False by (auto simp: refresh_selection_def split: sum.splits)
  then show ?thesis
    using select_requested [OF assms] selected_positions [OF assms, of ids] False
    by (auto simp: ConnectorIDs_def)
qed (auto simp: refresh_selection_def select_all positions_eq)

theorem refresh_selects_exactly_witness:
  "refresh_selection (sc_tasks (New_Scheduler [example_task] example_current 0 [])) [''deepseek''] = Inr [0]"
  by (subst refresh_selects_exactly)
    (simp_all add: New_Scheduler_def ConnectorIDs_def example_task_def)

end
