(* ===== verification/CommandText.thy ===== *)
theory CommandText
  imports Commands WireRoundtrip
begin

text \<open>
  The JSON text of commands and results (\<open>internal/protocol/remote.go\<close>), as the daemon and the display send
  them, and that the strict decoder of the other side reads them back.
\<close>

section \<open>Encoding\<close>

text \<open>
  \<open>json.Marshal\<close> of a \<open>RawMessage\<close> compacts it: white space outside strings goes, and the characters that
  are special in HTML or JavaScript are escaped. The flag says whether the text is inside a string.
\<close>

function (sequential) compact_json :: "bool \<Rightarrow> string \<Rightarrow> string" where
  "compact_json inside [] = []"
| "compact_json inside (c # s) =
     (if c \<in> set ''<>&'' then escape [c] @ compact_json inside s
      else if take 3 (c # s) = [CHR 0xE2, CHR 0x80, CHR 0xA8] then unicode_literal ''2028'' @ compact_json inside (drop 2 s)
      else if take 3 (c # s) = [CHR 0xE2, CHR 0x80, CHR 0xA9] then unicode_literal ''2029'' @ compact_json inside (drop 2 s)
      else if inside \<and> c = backslash \<and> s \<noteq> [] then c # hd s # compact_json True (tl s)
      else if \<not> inside \<and> is_space c then compact_json False s
      else c # compact_json (if c = quote then \<not> inside else inside) s)"
  by pat_completeness auto
termination by (relation "measure (length \<circ> snd)") auto

declare compact_json.simps [simp del]

text \<open>A nil message is written as \<open>null\<close>; a text that is not JSON makes \<open>Marshal\<close> fail.\<close>

definition marshal_params :: "string \<Rightarrow> string option" where
  "marshal_params raw =
     (if raw = [] then Some ''null'' else if parse_json raw = None then None else Some (compact_json False raw))"

definition command_members :: "DisplayCommand \<Rightarrow> member_texts" where
  "command_members c =
     put ''schema_major'' (marshal_int (dc_SchemaMajor c)) @ put ''command_id'' (marshal_string (dc_CommandID c)) @
     put ''device_id'' (marshal_string (dc_DeviceID c)) @ put ''kind'' (marshal_string (dc_Kind c)) @
     [(''params'', marshal_params (dc_Params c))] @ put_time ''issued_at'' (dc_IssuedAt c) @
     put_time ''expires_at'' (dc_ExpiresAt c) @ put ''priority'' (marshal_string (dc_Priority c)) @
     put ''sequence'' (marshal_int (uint (dc_Sequence c)))"

definition marshal_command :: "DisplayCommand \<Rightarrow> string option" where
  "marshal_command c = marshal_struct (command_members c)"

definition result_members :: "CommandResult \<Rightarrow> member_texts" where
  "result_members r =
     put ''command_id'' (marshal_string (rs_CommandID r)) @
     put ''sequence'' (marshal_int (uint (rs_Sequence r))) @ put ''status'' (marshal_string (rs_Status r)) @
     put_nonempty ''code'' (rs_Code r) @ put_time ''received_at'' (rs_ReceivedAt r) @
     put_time_ptr ''completed_at'' (rs_CompletedAt r) @ put_nonzero ''duration_ms'' (rs_DurationMS r)"

definition marshal_result :: "CommandResult \<Rightarrow> string option" where
  "marshal_result r = marshal_struct (result_members r)"

section \<open>Reading back\<close>

lemma decode_members_strict:
  "decode_members False fs es r = Some r' \<Longrightarrow> \<forall>e\<in>set es. find_field fs (fst e) \<noteq> None \<Longrightarrow> decode_members True fs es r = Some r'"
  by (induction False fs es r rule: decode_members.induct) (auto split: option.splits)

lemma decodes_strict:
  assumes "decodes fs ms r r'" "\<forall>m\<in>set ms. find_field fs (fst m) \<noteq> None"
  shows "\<exists>t v. marshal_struct ms = Some t \<and> reads t v \<and> strictJSON fs r t = Some r'"
proof -
  from assms(1) obtain es where es: "list_all2 member_reads (map (\<lambda>(k, t). (k, the t)) ms) es"
    "decode_members False fs es r = Some r'" by (auto simp: decodes_def)
  have "map fst es = map fst ms" using member_keys [OF es(1)] by (simp add: comp_def case_prod_beta)
  then have "set (map fst es) = set (map fst ms)" by simp
  then have "find_field fs (fst e) \<noteq> None" if "e \<in> set es" for e
  proof -
    from that have "fst e \<in> set (map fst es)" by simp
    then have "fst e \<in> fst ` set ms" unfolding \<open>set (map fst es) = set (map fst ms)\<close> by simp
    with assms(2) show ?thesis by auto
  qed
  with es(2) have strict: "decode_members True fs es r = Some r'" by (intro decode_members_strict) auto
  from reads_object [OF es(1)] have R: "reads (marshal_object (map (\<lambda>(k, t). (k, the t)) ms)) (JObject es)" .
  moreover have "marshal_struct ms = Some (marshal_object (map (\<lambda>(k, t). (k, the t)) ms))"
    using assms(1) by (auto simp: decodes_def marshal_struct_def)
  moreover have "strictJSON fs r (marshal_object (map (\<lambda>(k, t). (k, the t)) ms)) = Some r'"
    using reads_parse_json [OF R] strict by (simp add: strictJSON_def unmarshal_def decode_struct_def)
  ultimately show ?thesis by blast
qed

text \<open>What a result of the program satisfies beside its checks, and a command that can be sent.\<close>

definition result_wire_ok :: "CommandResult \<Rightarrow> bool" where
  "result_wire_ok r \<longleftrightarrow> list_all utf8_text [rs_CommandID r, rs_Status r, rs_Code r] \<and>
     time_ok (rs_ReceivedAt r) \<and> time_ptr_ok (rs_CompletedAt r) \<and> in_int64 (rs_DurationMS r)"

definition command_wire_ok :: "DisplayCommand \<Rightarrow> bool" where
  "command_wire_ok c \<longleftrightarrow> list_all utf8_text [dc_CommandID c, dc_DeviceID c, dc_Kind c, dc_Priority c] \<and>
     in_int64 (dc_SchemaMajor c) \<and> time_ok (dc_IssuedAt c) \<and> time_ok (dc_ExpiresAt c) \<and>
     marshal_params (dc_Params c) = Some (dc_Params c) \<and> (\<exists>v. reads (dc_Params c) v)"

lemma command_member:
  "find_field command_fields ''schema_major'' = Some (set_int (\<lambda>v r. r\<lparr>dc_SchemaMajor := v\<rparr>))"
  "find_field command_fields ''command_id'' = Some (set_string (\<lambda>v r. r\<lparr>dc_CommandID := v\<rparr>))"
  "find_field command_fields ''device_id'' = Some (set_string (\<lambda>v r. r\<lparr>dc_DeviceID := v\<rparr>))"
  "find_field command_fields ''kind'' = Some (set_string (\<lambda>v r. r\<lparr>dc_Kind := v\<rparr>))"
  "find_field command_fields ''params'' = Some (set_raw (\<lambda>v r. r\<lparr>dc_Params := v\<rparr>))"
  "find_field command_fields ''issued_at'' = Some (set_time (\<lambda>v r. r\<lparr>dc_IssuedAt := v\<rparr>))"
  "find_field command_fields ''expires_at'' = Some (set_time (\<lambda>v r. r\<lparr>dc_ExpiresAt := v\<rparr>))"
  "find_field command_fields ''priority'' = Some (set_string (\<lambda>v r. r\<lparr>dc_Priority := v\<rparr>))"
  "find_field command_fields ''sequence'' = Some (set_uint64 (\<lambda>v r. r\<lparr>dc_Sequence := v\<rparr>))"
  by (simp_all add: find_field_def command_fields_def)

lemma result_member:
  "find_field result_fields ''command_id'' = Some (set_string (\<lambda>v r. r\<lparr>rs_CommandID := v\<rparr>))"
  "find_field result_fields ''sequence'' = Some (set_uint64 (\<lambda>v r. r\<lparr>rs_Sequence := v\<rparr>))"
  "find_field result_fields ''status'' = Some (set_string (\<lambda>v r. r\<lparr>rs_Status := v\<rparr>))"
  "find_field result_fields ''code'' = Some (set_string (\<lambda>v r. r\<lparr>rs_Code := v\<rparr>))"
  "find_field result_fields ''received_at'' = Some (set_time (\<lambda>v r. r\<lparr>rs_ReceivedAt := v\<rparr>))"
  "find_field result_fields ''completed_at'' = Some (set_time_ptr (\<lambda>v r. r\<lparr>rs_CompletedAt := v\<rparr>))"
  "find_field result_fields ''duration_ms'' = Some (set_int (\<lambda>v r. r\<lparr>rs_DurationMS := v\<rparr>))"
  by (simp_all add: find_field_def result_fields_def)

lemma decodes_raw_chain:
  "find_field fs k = Some (set_raw upd) \<Longrightarrow> decodes fs b (upd t r) r2 \<Longrightarrow> utf8_text k \<and> (\<exists>v. reads t v) \<Longrightarrow>
   decodes fs (put k t @ b) r r2"
  by (blast intro: decodes_append decodes_raw)

lemma result_text_read:
  assumes "result_wire_ok r"
  shows "\<exists>t v. marshal_result r = Some t \<and> reads t v \<and> strictJSON result_fields zero_result t = Some r"
  unfolding marshal_result_def
proof (rule decodes_strict)
  show "decodes result_fields (result_members r) zero_result r"
    unfolding result_members_def
    by (((rule decodes_chain | rule decodes_last, rule decodes_chain), rule result_member)+, rule decodes_done)
      (use assms in \<open>simp_all add: result_wire_ok_def utf8_text.simps zero_result_def\<close>)
  show "\<forall>m\<in>set (result_members r). find_field result_fields (fst m) \<noteq> None"
    by (auto simp: result_members_def put_def put_nonempty_def put_time_def put_time_ptr_def put_nonzero_def result_member
        split: option.splits)
qed

lemma command_text_read:
  assumes "command_wire_ok c"
  shows "\<exists>t v. marshal_command c = Some t \<and> reads t v \<and> strictJSON command_fields zero_command t = Some c"
  unfolding marshal_command_def
proof (rule decodes_strict)
  have params: "[(''params'', marshal_params (dc_Params c))] = put ''params'' (dc_Params c)" using assms by (simp add: command_wire_ok_def put_def)
  show "decodes command_fields (command_members c) zero_command c"
    unfolding command_members_def params
    by (((rule decodes_chain | rule decodes_last, rule decodes_chain), rule command_member
        | rule decodes_raw_chain, rule command_member)+, rule decodes_done)
      (use assms in \<open>simp_all add: command_wire_ok_def utf8_text.simps zero_command_def\<close>)
  show "\<forall>m\<in>set (command_members c). find_field command_fields (fst m) \<noteq> None"
    by (auto simp: command_members_def put_def put_time_def command_member)
qed

end
