(* ===== verification/NetAddr.thy ===== *)
theory NetAddr
  imports GoText
begin

text \<open>
  Internet addresses as the program uses them from the standard library: \<open>net.SplitHostPort\<close>,
  \<open>net.ParseIP\<close> (through \<open>netip.ParseAddr\<close>) and the predicates on the sixteen bytes of an address.
\<close>

section \<open>Host and port\<close>

text \<open>What stands before the last colon and after it.\<close>

definition cut_last_colon :: "string \<Rightarrow> (string \<times> string) option" where
  "cut_last_colon s =
     (case dropWhile (\<lambda>c. c \<noteq> CHR '':'') (rev s) of
        [] \<Rightarrow> None
      | _ # front \<Rightarrow> Some (rev front, rev (takeWhile (\<lambda>c. c \<noteq> CHR '':'') (rev s))))"

definition SplitHostPort :: "string \<Rightarrow> (string \<times> string) option" where
  "SplitHostPort hostport =
     (case cut_last_colon hostport of
        None \<Rightarrow> None
      | Some (front, port) \<Rightarrow>
          if hostport \<noteq> [] \<and> hd hostport = CHR ''['' then
            (case cut CHR '']'' (tl front) of
               (host, rest, found) \<Rightarrow>
                 if \<not> found \<or> rest \<noteq> [] then None
                 else if CHR ''['' \<in> set (host @ port) \<or> CHR '']'' \<in> set port then None
                 else Some (host, port))
          else if CHR '':'' \<in> set front then None
          else if CHR ''['' \<in> set hostport \<or> CHR '']'' \<in> set hostport then None
          else Some (front, port))"

text \<open>\<open>strings.Trim\<close> with a set of ASCII characters.\<close>

definition trim_chars :: "string \<Rightarrow> string \<Rightarrow> string" where
  "trim_chars cs s = rev (dropWhile (\<lambda>c. c \<in> set cs) (rev (dropWhile (\<lambda>c. c \<in> set cs) s)))"

section \<open>Addresses\<close>

text \<open>One decimal octet: no leading zero, at most 255.\<close>

definition parse_octet :: "string \<Rightarrow> nat option" where
  "parse_octet s =
     (if s = [] \<or> \<not> list_all is_digit s \<or> length s > 1 \<and> hd s = CHR ''0'' \<or> digits_value s > 255 then None
      else Some (digits_value s))"

definition parse_ipv4 :: "string \<Rightarrow> nat list option" where
  "parse_ipv4 s =
     (case map parse_octet (split CHR ''.'' s) of
        [Some a, Some b, Some c, Some d] \<Rightarrow> Some [a, b, c, d]
      | _ \<Rightarrow> None)"

definition is_hex_digit :: "char \<Rightarrow> bool" where
  "is_hex_digit c \<longleftrightarrow> is_digit c \<or> 97 \<le> code c \<and> code c \<le> 102 \<or> 65 \<le> code c \<and> code c \<le> 70"

definition hex_digit_value :: "char \<Rightarrow> nat" where
  "hex_digit_value c = (if is_digit c then code c - 48 else if 97 \<le> code c then code c - 87 else code c - 55)"

definition hex_field_value :: "string \<Rightarrow> nat" where
  "hex_field_value s = foldl (\<lambda>v c. v * 16 + hex_digit_value c) 0 s"

text \<open>
  The fields of an IPv6 address. The first argument counts the fields still allowed; the second says at
  which byte the ellipsis is; the third holds the bytes so far.
\<close>

fun ipv6_fields :: "nat \<Rightarrow> nat option \<Rightarrow> nat list \<Rightarrow> string \<Rightarrow> (nat option \<times> nat list \<times> string) option" where
  "ipv6_fields 0 ell ip s = Some (ell, ip, s)"
| "ipv6_fields (Suc n) ell ip s =
     (let digits = takeWhile is_hex_digit s; rest = dropWhile is_hex_digit s
      in if digits = [] \<or> length digits > 4 then None
         else if rest \<noteq> [] \<and> hd rest = CHR ''.'' then
           (if ell = None \<and> length ip \<noteq> 12 \<or> length ip + 4 > 16 then None
            else map_option (\<lambda>v4. (ell, ip @ v4, [])) (parse_ipv4 s))
         else
           let ip' = ip @ [hex_field_value digits div 256, hex_field_value digits mod 256]
           in if rest = [] then Some (ell, ip', [])
              else if hd rest \<noteq> CHR '':'' \<or> tl rest = [] then None
              else if hd (tl rest) = CHR '':'' then
                (if ell \<noteq> None then None
                 else if tl (tl rest) = [] then Some (Some (length ip'), ip', [])
                 else ipv6_fields n (Some (length ip')) ip' (tl (tl rest)))
              else ipv6_fields n ell ip' (tl rest))"

definition parse_ipv6 :: "string \<Rightarrow> nat list option" where
  "parse_ipv6 s =
     (let finish = (\<lambda>r. case r of
            None \<Rightarrow> None
          | Some (ell, ip, rest) \<Rightarrow>
              if rest \<noteq> [] then None
              else if length ip < 16 then
                (case ell of None \<Rightarrow> None
                 | Some e \<Rightarrow> Some (take e ip @ replicate (16 - length ip) 0 @ drop e ip))
              else if ell \<noteq> None then None else Some ip)
      in if take 2 s = ''::'' then
           (if s = ''::'' then Some (replicate 16 0) else finish (ipv6_fields 8 (Some 0) [] (drop 2 s)))
         else finish (ipv6_fields 8 None [] s))"

text \<open>The first dot, colon or percent sign decides; an address with a zone is refused.\<close>

definition ParseIP :: "string \<Rightarrow> nat list option" where
  "ParseIP s =
     (case dropWhile (\<lambda>c. c \<notin> set ''.:%'') s of
        [] \<Rightarrow> None
      | c # _ \<Rightarrow>
          if c = CHR ''.'' then map_option (\<lambda>v4. replicate 10 0 @ [255, 255] @ v4) (parse_ipv4 s)
          else if c = CHR '':'' \<and> CHR ''%'' \<notin> set s then parse_ipv6 s
          else None)"

definition v4_mapped :: "nat list \<Rightarrow> bool" where
  "v4_mapped ip \<longleftrightarrow> take 12 ip = replicate 10 0 @ [255, 255]"

definition IsLoopback :: "nat list \<Rightarrow> bool" where
  "IsLoopback ip \<longleftrightarrow> (if v4_mapped ip then ip ! 12 = 127 else ip = replicate 15 0 @ [1])"

definition IsUnspecified :: "nat list \<Rightarrow> bool" where
  "IsUnspecified ip \<longleftrightarrow> ip = replicate 10 0 @ [255, 255] @ replicate 4 0 \<or> ip = replicate 16 0"

definition IsPrivate :: "nat list \<Rightarrow> bool" where
  "IsPrivate ip \<longleftrightarrow>
     (if v4_mapped ip then ip ! 12 = 10 \<or> ip ! 12 = 172 \<and> ip ! 13 div 16 = 1 \<or> ip ! 12 = 192 \<and> ip ! 13 = 168
      else length ip = 16 \<and> ip ! 0 div 2 = 126)"

definition IsLinkLocalUnicast :: "nat list \<Rightarrow> bool" where
  "IsLinkLocalUnicast ip \<longleftrightarrow>
     (if v4_mapped ip then ip ! 12 = 169 \<and> ip ! 13 = 254
      else length ip = 16 \<and> ip ! 0 = 254 \<and> ip ! 1 div 64 = 2)"

definition IsLinkLocalMulticast :: "nat list \<Rightarrow> bool" where
  "IsLinkLocalMulticast ip \<longleftrightarrow>
     (if v4_mapped ip then ip ! 12 = 224 \<and> ip ! 13 = 0 \<and> ip ! 14 = 0
      else length ip = 16 \<and> ip ! 0 = 255 \<and> ip ! 1 mod 16 = 2)"


end
