(* ===== verification/NodeApi.thy ===== *)
theory NodeApi
  imports CommandBus CommandText CurrentState DeviceAcl NetAddr
begin

text \<open>
  The daemon's HTTP and stream server for the displays (\<open>internal/nodeapi\<close>): authorisation, the snapshot
  endpoint, the command endpoints for the node's own host, and the pump that pushes snapshots and commands
  to a connected display. \<open>net/http\<close> and the WebSocket library carry the bytes; a request is the record of
  what the handlers read of it, a response the status, headers and body they write.
\<close>

section \<open>The server\<close>

definition DefaultHeartbeat :: duration where "DefaultHeartbeat = 20 * second"

record Device =
  dv_ID :: string
  dv_Token :: string

record ServerOptions =
  so_Store :: "Current option"
  so_Devices :: "Device list"
  so_Heartbeat :: duration
  so_PollInterval :: duration
  so_RevokedTokens :: "string list"      \<comment> \<open>the keys of the map\<close>
  so_RevocationChecker :: bool           \<comment> \<open>whether there is one\<close>
  so_Commands :: "Bus option"
  so_ControlToken :: string
  so_Refresh :: bool
  so_ConnectorIDs :: "string list"

record Server =
  sv_store :: Current
  sv_devices :: "string gomap"
  sv_heartbeat :: duration
  sv_poll :: duration
  sv_revoked :: "string list"
  sv_checkRevoked :: bool
  sv_commands :: "Bus option"
  sv_controlToken :: string
  sv_refresh :: bool
  sv_connectors :: "string list"

datatype api_error = AStoreRequired | ADeviceIncomplete | ATokenShort string | AControlTokenShort

fun add_devices :: "Device list \<Rightarrow> string gomap \<Rightarrow> api_error + string gomap" where
  "add_devices [] m = Inr m"
| "add_devices (d # ds) m =
     (if dv_ID d = [] \<or> dv_Token d = [] then Inl ADeviceIncomplete
      else if length (dv_Token d) < 16 then Inl (ATokenShort (dv_ID d))
      else add_devices ds (mput (dv_ID d) (dv_Token d) m))"

definition copyRevoked :: "string list \<Rightarrow> string list" where
  "copyRevoked m = m"

definition New_Server :: "ServerOptions \<Rightarrow> api_error + Server" where
  "New_Server opts =
     (case so_Store opts of
        None \<Rightarrow> Inl AStoreRequired
      | Some store \<Rightarrow>
          (case add_devices (so_Devices opts) [] of
             Inl e \<Rightarrow> Inl e
           | Inr devices \<Rightarrow>
               if so_Commands opts \<noteq> None \<and> length (so_ControlToken opts) < 32 then Inl AControlTokenShort
               else Inr \<lparr>sv_store = store, sv_devices = devices,
                 sv_heartbeat = (if so_Heartbeat opts \<le> 0 then DefaultHeartbeat else so_Heartbeat opts),
                 sv_poll = (if so_PollInterval opts \<le> 0 then second else so_PollInterval opts),
                 sv_revoked = copyRevoked (so_RevokedTokens opts), sv_checkRevoked = so_RevocationChecker opts,
                 sv_commands = so_Commands opts, sv_controlToken = so_ControlToken opts,
                 sv_refresh = so_Refresh opts, sv_connectors = so_ConnectorIDs opts\<rparr>))"

section \<open>Requests and responses\<close>

datatype route =
    SnapshotRoute string | StreamRoute string | HealthRoute
  | PublishRoute string | StatusRoute string

text \<open>The routes \<open>Handler\<close> registers.\<close>

definition Handler :: "Server \<Rightarrow> route \<Rightarrow> bool" where
  "Handler s r =
     (case r of
        PublishRoute _ \<Rightarrow> sv_commands s \<noteq> None
      | StatusRoute _ \<Rightarrow> sv_commands s \<noteq> None
      | _ \<Rightarrow> True)"

text \<open>The address fields are the two ends of the connection, as \<open>host:port\<close>.\<close>

record Request =
  rq_Device :: string                  \<comment> \<open>\<open>PathValue("device")\<close>\<close>
  rq_Command :: string                 \<comment> \<open>\<open>PathValue("command")\<close>\<close>
  rq_Authorization :: string
  rq_IfNoneMatch :: string
  rq_Origin :: string
  rq_RemoteAddr :: string
  rq_LocalAddr :: "string option"
  rq_Body :: "string option"           \<comment> \<open>nothing when reading fails\<close>

record Response =
  re_Status :: int
  re_Headers :: "(string \<times> string) list"
  re_Body :: string

definition writeJSON :: "(string \<times> string) list \<Rightarrow> int \<Rightarrow> string option \<Rightarrow> Response" where
  "writeJSON headers status body =
     \<lparr>re_Status = status, re_Headers = headers @ [(''Content-Type'', ''application/json'')],
      re_Body = (case body of None \<Rightarrow> [] | Some t \<Rightarrow> t @ [CHR 0x0A])\<rparr>"

definition writeError :: "(string \<times> string) list \<Rightarrow> int \<Rightarrow> string \<Rightarrow> string \<Rightarrow> Response" where
  "writeError headers status errcode message =
     writeJSON headers status (marshal_stream_error \<lparr>se_Code = errcode, se_Message = message\<rparr>)"

definition hashToken :: "string \<Rightarrow> string" where
  "hashToken t = hex_encode (Sum256 t)"

text \<open>\<open>EqualFold\<close> with a prefix none of whose letters folds outside ASCII.\<close>

definition bearerToken :: "Request \<Rightarrow> string" where
  "bearerToken r =
     (let h = rq_Authorization r; prefix = ''Bearer ''
      in if length h > length prefix \<and> map lower_char (take (length prefix) h) = map lower_char prefix
         then drop (length prefix) h else [])"

text \<open>\<open>None\<close> is an error. The revocation checker's answer for this token is an argument.\<close>

definition tokenRevoked :: "Server \<Rightarrow> bool option \<Rightarrow> string \<Rightarrow> bool option" where
  "tokenRevoked s checked token =
     (if token = [] then Some False
      else let revoked = (hashToken token \<in> set (sv_revoked s))
           in if revoked \<or> \<not> sv_checkRevoked s then Some revoked else checked)"

definition unauthorized_response :: Response where
  "unauthorized_response =
     writeError [(''WWW-Authenticate'', requote ''Bearer realm=`homepi`'')] 401 ''unauthorized''
       ''device token is missing or invalid''"

definition authorize :: "Server \<Rightarrow> bool option \<Rightarrow> Request \<Rightarrow> Response + string" where
  "authorize s checked r =
     (let device = rq_Device r; presented = bearerToken r;
          want = mget (sv_devices s) device; known = (want \<noteq> None);
          revoked = tokenRevoked s checked presented
      in if \<not> known \<or> presented = [] \<or> revoked = Some True \<or> revoked = None \<or>
            presented \<noteq> (case want of None \<Rightarrow> [] | Some t \<Rightarrow> t)
         then Inl unauthorized_response else Inr device)"

definition etagFor :: "MetricSnapshot \<Rightarrow> string" where
  "etagFor snap =
     quote # hex_encode (take 16 (Sum256 (ms_SourceEpoch snap @ ''/'' @ format_int (uint (ms_SnapshotVersion snap))))) @ [quote]"

definition handleHealth :: "Server \<Rightarrow> Response" where
  "handleHealth s = writeJSON [] 200
     (marshal_struct
       (put ''data'' (marshal_bool (HasData (sv_store s))) @ put ''epoch'' (marshal_string (cur_epoch (sv_store s))) @
        put ''status'' (marshal_string ''ok'') @ put ''version'' (marshal_int (uint (cur_version (sv_store s))))))"

definition handleSnapshot :: "Server \<Rightarrow> bool option \<Rightarrow> instant \<Rightarrow> Request \<Rightarrow> Response" where
  "handleSnapshot s checked now r =
     (case authorize s checked r of
        Inl refused \<Rightarrow> refused
      | Inr device \<Rightarrow>
          let snap = Snapshot (sv_store s) now
          in (case marshal_snapshot snap of
                None \<Rightarrow> writeError [] 500 ''internal'' ''could not build snapshot''
              | Some raw \<Rightarrow>
                  let etag = etagFor snap;
                      headers = [(''ETag'', etag), (''Cache-Control'', ''no-store'')]
                  in if rq_IfNoneMatch r \<noteq> [] \<and> rq_IfNoneMatch r = etag
                     then \<lparr>re_Status = 304, re_Headers = headers, re_Body = []\<rparr>
                     else \<lparr>re_Status = 200, re_Headers = headers @ [(''Content-Type'', ''application/json'')],
                           re_Body = raw\<rparr>))"

section \<open>Commands from the node's host\<close>

definition address_of :: "string \<Rightarrow> nat list option" where
  "address_of hostport = Option.bind (SplitHostPort hostport) (\<lambda>(host, _). ParseIP (trim_chars ''[]'' host))"

definition localControlRequest :: "Request \<Rightarrow> bool" where
  "localControlRequest r =
     (case address_of (rq_RemoteAddr r) of
        None \<Rightarrow> False
      | Some remote \<Rightarrow>
          IsLoopback remote \<or>
          (case Option.bind (rq_LocalAddr r) address_of of
             None \<Rightarrow> False
           | Some local \<Rightarrow> \<not> IsUnspecified local \<and> remote = local))"

definition authorizeControl :: "Server \<Rightarrow> Request \<Rightarrow> Response option" where
  "authorizeControl s r =
     (if rq_Origin r \<noteq> [] \<or> \<not> localControlRequest r
      then Some (writeError [] 403 ''local_only'' ''command control is available only on the node host'')
      else let presented = bearerToken r
           in if presented = [] \<or> presented \<noteq> sv_controlToken s
              then Some (writeError [(''WWW-Authenticate'', requote ''Bearer realm=`homepi-control`'')] 401 ''unauthorized''
                     ''control credential is missing or invalid'')
              else None)"

definition knownConnectors :: "Server \<Rightarrow> string list \<Rightarrow> bool" where
  "knownConnectors s ids =
     (if length ids = 0 then length (sv_connectors s) > 0 else list_all (\<lambda>cid. cid \<in> set (sv_connectors s)) ids)"

text \<open>Both instants are printed in UTC with nanoseconds, as \<open>format_time\<close> does.\<close>

definition commandResponse :: "Entry \<Rightarrow> string option" where
  "commandResponse e =
     (let c = en_Command e
      in marshal_struct
           (put ''command_id'' (marshal_string (dc_CommandID c)) @ put ''device_id'' (marshal_string (dc_DeviceID c)) @
            put ''kind'' (marshal_string (dc_Kind c)) @ put ''sequence'' (marshal_int (uint (dc_Sequence c))) @
            [(''issued_at'', map_option marshal_string (format_time (dc_IssuedAt c))),
             (''expires_at'', map_option marshal_string (format_time (dc_ExpiresAt c))),
             (''result'', marshal_result (en_Result e))]))"

text \<open>What \<open>Publish\<close> meets: two clock readings, random bytes, and whether the queue could be written.\<close>

record publish_env =
  pe_dropped :: instant
  pe_random :: "nat list option"
  pe_now :: instant
  pe_persisted :: bool

definition no_store :: "(string \<times> string) list" where
  "no_store = [(''Cache-Control'', ''no-store'')]"

definition handlePublishCommand :: "publish_env \<Rightarrow> Request \<Rightarrow> Server \<Rightarrow> Response \<times> Server" where
  "handlePublishCommand env r s =
     (case authorizeControl s r of
        Some refused \<Rightarrow> (refused, s)
      | None \<Rightarrow>
          if mget (sv_devices s) (rq_Device r) = None
          then (writeError [] 404 ''unknown_device'' ''target device is not configured'', s)
          else case rq_Body r of
            None \<Rightarrow> (writeError [] 400 ''invalid_size'' ''command request is too large'', s)
          | Some body \<Rightarrow>
              if length body > MaxCommandBytes
              then (writeError [] 400 ''invalid_size'' ''command request is too large'', s)
              else case DecodeCommandRequest body of
                Inl errcode \<Rightarrow> (writeError [] 400 errcode ''command request was rejected'', s)
              | Inr request \<Rightarrow>
                  if cr_Kind request = CommandRefreshData \<and>
                     (case decode_refresh (cr_Params request) of
                        None \<Rightarrow> True | Some params \<Rightarrow> \<not> knownConnectors s (fp_ConnectorIDs params))
                  then (writeError [] 400 ''invalid_param'' ''refresh connector is not configured'', s)
                  else case sv_commands s of
                    None \<Rightarrow> (writeError [] 503 ''queue_unavailable'' ''command could not be queued'', s)
                  | Some b \<Rightarrow>
                      (case Publish (rq_Device r) request (pe_dropped env) (pe_random env) (pe_now env)
                              (pe_persisted env) b of
                         (Inl _, b') \<Rightarrow>
                           (writeError [] 503 ''queue_unavailable'' ''command could not be queued'', s\<lparr>sv_commands := Some b'\<rparr>)
                       | (Inr entry, b') \<Rightarrow>
                           (writeJSON no_store 202 (commandResponse entry), s\<lparr>sv_commands := Some b'\<rparr>)))"

definition handleCommandStatus :: "instant \<Rightarrow> bool \<Rightarrow> Request \<Rightarrow> Server \<Rightarrow> Response \<times> Server" where
  "handleCommandStatus now persisted r s =
     (case authorizeControl s r of
        Some refused \<Rightarrow> (refused, s)
      | None \<Rightarrow>
          (case sv_commands s of
             None \<Rightarrow> (writeError [] 503 ''queue_unavailable'' ''command state is unavailable'', s)
           | Some b \<Rightarrow>
               (case Get (rq_Command r) now persisted b of
                  (Inl BNotFound, b') \<Rightarrow> (writeError [] 404 ''not_found'' ''command was not found'', s\<lparr>sv_commands := Some b'\<rparr>)
                | (Inl _, b') \<Rightarrow>
                    (writeError [] 503 ''queue_unavailable'' ''command state is unavailable'', s\<lparr>sv_commands := Some b'\<rparr>)
                | (Inr entry, b') \<Rightarrow>
                    (writeJSON no_store 200 (commandResponse entry), s\<lparr>sv_commands := Some b'\<rparr>))))"
section \<open>The stream\<close>

definition maxClientMessage :: nat where "maxClientMessage = 8192"

text \<open>The first message, nothing when none was read within ten seconds or it was over the limit.\<close>

definition readHello :: "string option \<Rightarrow> Hello option" where
  "readHello raw =
     Option.bind raw (\<lambda>t.
       if length t > maxClientMessage then None
       else Option.bind (DecodeEnvelope t) (\<lambda>env.
         if en_Type env \<noteq> MsgHello then None else DecodePayload hello_fields zero_hello env))"

text \<open>What is pushed to a display, and its frame.\<close>

datatype pushed = PushSnapshot MetricSnapshot | PushHeartbeat duration | PushCommand DisplayCommand | PushError StreamError

fun frame :: "instant \<Rightarrow> pushed \<Rightarrow> string option" where
  "frame now (PushSnapshot snap) = Encode MsgSnapshotFull now (Some (marshal_snapshot snap))"
| "frame now (PushHeartbeat interval) = Encode MsgHeartbeat now (Some (marshal_heartbeat interval))"
| "frame now (PushCommand command) = Encode MsgDisplayCommand now (Some (marshal_command command))"
| "frame now (PushError e) = Encode MsgError now (Some (marshal_stream_error e))"

text \<open>What a turn of the pump meets: the revocation check, clock readings, and which of its writes succeed.\<close>

record turn_env =
  te_checked :: "bool option"
  te_snapshot_at :: instant            \<comment> \<open>the store's clock\<close>
  te_now :: instant                    \<comment> \<open>the clock at the heartbeat test\<close>
  te_beat_at :: instant                \<comment> \<open>the clock after a write\<close>
  te_sent_at :: "nat \<Rightarrow> instant"       \<comment> \<open>the clock at the turn's writes\<close>
  te_written :: "nat \<Rightarrow> bool"
  te_queue_at :: instant
  te_persisted :: bool

definition send :: "turn_env \<Rightarrow> nat \<Rightarrow> pushed \<Rightarrow> bool" where
  "send env i p \<longleftrightarrow> frame (te_sent_at env i) p \<noteq> None \<and> te_written env i"

record Pump =
  pu_lastSent :: u64
  pu_sentAny :: bool
  pu_lastBeat :: instant
  pu_sentCommands :: "string list"

definition pump_start :: "Hello \<Rightarrow> Server \<Rightarrow> instant \<Rightarrow> Pump" where
  "pump_start hello s now =
     \<lparr>pu_lastSent = (if hl_LastEpoch hello = cur_epoch (sv_store s) then hl_LastSnapshotVersion hello else 0),
      pu_sentAny = False, pu_lastBeat = now, pu_sentCommands = []\<rparr>"

text \<open>The messages written before the first failure, whether there was none, and the commands sent.\<close>

fun send_commands :: "turn_env \<Rightarrow> nat \<Rightarrow> DisplayCommand list \<Rightarrow> string list \<Rightarrow> pushed list \<times> bool \<times> string list" where
  "send_commands env i [] sent = ([], True, sent)"
| "send_commands env i (c # cs) sent =
     (if send env i (PushCommand c)
      then (case send_commands env (Suc i) cs (dc_CommandID c # sent) of
              (out, going, sent') \<Rightarrow> (PushCommand c # out, going, sent'))
      else ([], False, sent))"

definition push_state :: "turn_env \<Rightarrow> Server \<Rightarrow> Pump \<Rightarrow> pushed list \<times> bool \<times> Pump" where
  "push_state env s p =
     (let snap = Snapshot (sv_store s) (te_snapshot_at env)
      in if HasData (sv_store s) \<and> (\<not> pu_sentAny p \<or> ms_SnapshotVersion snap > pu_lastSent p)
         then if send env 0 (PushSnapshot snap)
              then ([PushSnapshot snap], True,
                    p\<lparr>pu_lastSent := ms_SnapshotVersion snap, pu_sentAny := True, pu_lastBeat := te_beat_at env\<rparr>)
              else ([], False, p)
         else if time_sub (te_now env) (pu_lastBeat p) \<ge> sv_heartbeat s
         then if send env 0 (PushHeartbeat (sv_heartbeat s))
              then ([PushHeartbeat (sv_heartbeat s)], True, p\<lparr>pu_lastBeat := te_beat_at env\<rparr>)
              else ([], False, p)
         else ([], True, p))"

definition push_commands :: "turn_env \<Rightarrow> string \<Rightarrow> nat \<Rightarrow> Server \<Rightarrow> Pump \<Rightarrow> pushed list \<times> bool \<times> Pump \<times> Server" where
  "push_commands env device i s p =
     (case sv_commands s of
        None \<Rightarrow> ([], True, p, s)
      | Some b \<Rightarrow>
          (case Pending device (set (pu_sentCommands p)) (te_queue_at env) (te_persisted env) b of
             (Inl _, b') \<Rightarrow> ([], True, p, s\<lparr>sv_commands := Some b'\<rparr>)
           | (Inr commands, b') \<Rightarrow>
               (case send_commands env i commands (pu_sentCommands p) of
                  (out, going, sent) \<Rightarrow> (out, going, p\<lparr>pu_sentCommands := sent\<rparr>, s\<lparr>sv_commands := Some b'\<rparr>))))"

text \<open>A turn: the messages written, the pump's state or nothing when the stream has ended, and the server.\<close>

definition pump_turn :: "turn_env \<Rightarrow> string \<Rightarrow> string \<Rightarrow> Pump \<Rightarrow> Server \<Rightarrow> pushed list \<times> Pump option \<times> Server" where
  "pump_turn env device token p s =
     (if tokenRevoked s (te_checked env) token \<noteq> Some False then ([], None, s)
      else case push_state env s p of
        (out, going, p1) \<Rightarrow>
          if \<not> going then (out, None, s)
          else (case push_commands env device (length out) s p1 of
                  (out', going', p2, s') \<Rightarrow> (out @ out', if going' then Some p2 else None, s')))"

text \<open>How opening a stream ends: refused, given up on the way (with the error sent, if any), or the pump starts.\<close>

datatype opened =
    StreamRefused Response | UpgradeFailed | HelloRejected | SchemaRejected pushed
  | Streaming string string Pump Server

definition handleStream ::
  "Server \<Rightarrow> bool option \<Rightarrow> Request \<Rightarrow> bool \<Rightarrow> string option \<Rightarrow> instant \<Rightarrow> opened" where
  "handleStream s checked r upgraded first now =
     (let token = bearerToken r
      in case authorize s checked r of
           Inl refused \<Rightarrow> StreamRefused refused
         | Inr device \<Rightarrow>
             if \<not> upgraded then UpgradeFailed
             else (case readHello first of
                None \<Rightarrow> HelloRejected
              | Some hello \<Rightarrow>
                  if hl_SchemaMajor hello \<noteq> 0 \<and> hl_SchemaMajor hello \<noteq> SchemaMajor
                  then SchemaRejected (PushError \<lparr>se_Code = ''schema_unsupported'',
                         se_Message = ''client schema major version is not supported by this daemon''\<rparr>)
                  else Streaming device token (pump_start hello s now)
                         (s\<lparr>sv_commands := map_option (Subscribe device) (sv_commands s)\<rparr>)))"

section \<open>What the display sends back\<close>

text \<open>
  One message of the reading side. The last component names the connectors of the refresh it starts, if any.
\<close>

definition drain_message ::
  "string \<Rightarrow> instant \<Rightarrow> bool \<Rightarrow> string \<Rightarrow> Server \<Rightarrow> Server \<times> (string list \<times> string) option" where
  "drain_message device now persisted raw s =
     (case DecodeEnvelope raw of
        None \<Rightarrow> (s, None)
      | Some env \<Rightarrow>
          (case sv_commands s of
             None \<Rightarrow> (s, None)
           | Some b \<Rightarrow>
               if en_Type env \<noteq> MsgCommandResult then (s, None)
               else (case DecodeCommandResult (en_Payload env) of
                  Inl _ \<Rightarrow> (s, None)
                | Inr result \<Rightarrow>
                    (case Record device result now persisted b of
                       (Inl _, b') \<Rightarrow> (s\<lparr>sv_commands := Some b'\<rparr>, None)
                     | (Inr (entry, firstAccepted), b') \<Rightarrow>
                         (s\<lparr>sv_commands := Some b'\<rparr>,
                          if firstAccepted \<and> dc_Kind (en_Command entry) = CommandRefreshData \<and> sv_refresh s
                          then map_option (\<lambda>params. (fp_ConnectorIDs params, dc_CommandID (en_Command entry)))
                                 (decode_refresh (dc_Params (en_Command entry)))
                          else None)))))"
section \<open>Authorisation\<close>

lemma add_devices_tokens:
  "add_devices ds m = Inr m' \<Longrightarrow> \<forall>d t. mget m d = Some t \<longrightarrow> 16 \<le> length t \<Longrightarrow> mget m' d = Some t \<Longrightarrow> 16 \<le> length t"
proof (induction ds arbitrary: m)
  case (Cons a ds)
  then have a: "16 \<le> length (dv_Token a)" "add_devices ds (mput (dv_ID a) (dv_Token a) m) = Inr m'"
    by (auto split: if_splits)
  show ?case
  proof (rule Cons.IH [OF a(2) _ Cons.prems(3)])
    show "\<forall>d t. mget (mput (dv_ID a) (dv_Token a) m) d = Some t \<longrightarrow> 16 \<le> length t"
      using Cons.prems(2) a(1) by (simp add: mget_put)
  qed
qed simp

lemma server_started:
  assumes "New_Server opts = Inr s"
  obtains "add_devices (so_Devices opts) [] = Inr (sv_devices s)" "sv_revoked s = so_RevokedTokens opts"
    "sv_commands s \<noteq> None \<longrightarrow> 32 \<le> length (sv_controlToken s)" "sv_checkRevoked s = so_RevocationChecker opts"
    "0 < sv_heartbeat s" "0 < sv_poll s"
  using assms by (auto simp: New_Server_def copyRevoked_def DefaultHeartbeat_def second_def split: option.splits sum.splits if_splits)

text \<open>The one condition under which a device's request is served.\<close>

definition served :: "Server \<Rightarrow> bool option \<Rightarrow> Request \<Rightarrow> bool" where
  "served s checked r \<longleftrightarrow> bearerToken r \<noteq> [] \<and> mget (sv_devices s) (rq_Device r) = Some (bearerToken r) \<and>
     tokenRevoked s checked (bearerToken r) = Some False"

lemma authorize_served:
  "authorize s checked r = (if served s checked r then Inr (rq_Device r) else Inl unauthorized_response)"
  by (cases "tokenRevoked s checked (bearerToken r)") (auto simp: authorize_def served_def Let_def)

lemma refused_status: "re_Status unauthorized_response = 401"
  by (simp add: unauthorized_response_def writeError_def writeJSON_def)

lemma served_status: "served s checked r \<Longrightarrow> re_Status (handleSnapshot s checked now r) \<in> {200, 304, 500}"
  by (auto simp: handleSnapshot_def authorize_served Let_def writeError_def writeJSON_def split: option.split)

text \<open>
  C12. A display sees its own data and nothing else, and a refusal tells nothing. On a started server the
  snapshot is served exactly when the request carries, as bearer token, the token (of at least sixteen
  bytes) configured for the device in the path, and the token is neither in the list of revocations nor
  reported revoked by the checker. In every other case, an unknown device, a wrong token, a revoked one, a
  failed check, snapshot and stream give one and the same 401 response.
\<close>

theorem refusals_indistinguishable:
  assumes "New_Server opts = Inr s" "so_RevokedTokens opts = Snapshot_ACL acl" "acl_ok acl"
  shows "if \<exists>token. mget (sv_devices s) (rq_Device r) = Some token \<and> bearerToken r = token \<and> 16 \<le> length token \<and>
        \<not> IsRevoked acl token \<and> (so_RevocationChecker opts \<longrightarrow> checked = Some False)
    then re_Status (handleSnapshot s checked now r) \<noteq> 401 \<and> handleStream s checked r upgraded hello now \<noteq> StreamRefused unauthorized_response
    else handleSnapshot s checked now r = unauthorized_response \<and>
      handleStream s checked r upgraded hello now = StreamRefused unauthorized_response"
proof -
  obtain facts: "add_devices (so_Devices opts) [] = Inr (sv_devices s)" "sv_revoked s = Snapshot_ACL acl"
    "sv_checkRevoked s = so_RevocationChecker opts"
    using assms(1) assms(2) by (auto elim!: server_started)
  have "16 \<le> length t" if "mget (sv_devices s) d = Some t" for d t
    using add_devices_tokens [OF facts(1)] that by simp
  moreover have "hashToken t \<in> set (sv_revoked s) \<longleftrightarrow> IsRevoked acl t" if "t \<noteq> []" for t
    using that facts(2) assms(3) by (simp add: acl_ok_def hashToken_def IsRevoked_def HashToken_def sha256_hex_def Snapshot_ACL_def)
  ultimately have "served s checked r \<longleftrightarrow> (\<exists>token. mget (sv_devices s) (rq_Device r) = Some token \<and> bearerToken r = token \<and>
      16 \<le> length token \<and> \<not> IsRevoked acl token \<and> (so_RevocationChecker opts \<longrightarrow> checked = Some False))"
    by (auto simp: served_def tokenRevoked_def Let_def facts(3) split: if_splits)
  moreover have "re_Status (handleSnapshot s checked now r) \<noteq> 401" if "served s checked r"
    using served_status [OF that, of now] by auto
  ultimately show ?thesis
    by (auto simp: authorize_served handleStream_def Let_def handleSnapshot_def split: option.splits)
qed
definition example_server_options :: "Bus option \<Rightarrow> ServerOptions" where
  "example_server_options b =
     \<lparr>so_Store = Some example_current, so_Devices = [\<lparr>dv_ID = ''d'', dv_Token = ''0123456789abcdef''\<rparr>],
      so_Heartbeat = 0, so_PollInterval = 0, so_RevokedTokens = [], so_RevocationChecker = False, so_Commands = b,
      so_ControlToken = replicate 32 CHR ''c'', so_Refresh = True, so_ConnectorIDs = [''mock'']\<rparr>"

definition example_server :: "Bus option \<Rightarrow> Server" where
  "example_server b =
     \<lparr>sv_store = example_current, sv_devices = [(''d'', ''0123456789abcdef'')], sv_heartbeat = 20 * second, sv_poll = second,
      sv_revoked = [], sv_checkRevoked = False, sv_commands = b, sv_controlToken = replicate 32 CHR ''c'',
      sv_refresh = True, sv_connectors = [''mock'']\<rparr>"

lemma example_server_new: "New_Server (example_server_options b) = Inr (example_server b)"
  by (simp add: New_Server_def example_server_options_def example_server_def copyRevoked_def DefaultHeartbeat_def)

definition example_get :: Request where
  "example_get = \<lparr>rq_Device = ''d'', rq_Command = [], rq_Authorization = ''bearer 0123456789abcdef'', rq_IfNoneMatch = [],
     rq_Origin = [], rq_RemoteAddr = [], rq_LocalAddr = None, rq_Body = None\<rparr>"

theorem refusals_indistinguishable_witness:
  "re_Status (handleSnapshot (example_server None) None 0 example_get) \<noteq> 401 \<and>
   handleSnapshot (example_server None) None 0 (example_get\<lparr>rq_Device := ''other''\<rparr>) = unauthorized_response"
proof
  have acl: "Snapshot_ACL New_ACL = []" "acl_ok New_ACL" "\<not> IsRevoked New_ACL t" for t
    by (simp_all add: Snapshot_ACL_def New_ACL_def acl_ok_def IsRevoked_def)
  have token: "bearerToken example_get = ''0123456789abcdef''" by code_simp
  have opts: "so_RevokedTokens (example_server_options None) = Snapshot_ACL New_ACL"
    "\<not> so_RevocationChecker (example_server_options None)"
    by (simp_all add: example_server_options_def acl)
  show "re_Status (handleSnapshot (example_server None) None 0 example_get) \<noteq> 401"
    using refusals_indistinguishable [OF example_server_new opts(1) acl(2), of example_get None 0 True None] opts(2) acl(3) token
    by (simp add: example_server_def example_get_def)
  show "handleSnapshot (example_server None) None 0 (example_get\<lparr>rq_Device := ''other''\<rparr>) = unauthorized_response"
    using refusals_indistinguishable [OF example_server_new opts(1) acl(2), of "example_get\<lparr>rq_Device := ''other''\<rparr>" None 0 True None]
    by (simp add: example_server_def)
qed

section \<open>Streams\<close>

text \<open>
  A stream among the other things that happen to the server: collections, queue operations, messages of this
  or another display, and the pump's turns. What was written, the pump (nothing once the stream has ended).
\<close>

datatype stream_event =
    StoreEvent state_op
  | QueueEvent bus_op
  | DisplayMessage string instant bool string
  | RevocationEvent "string list"
  | PumpTurn turn_env

type_synonym stream_state = "pushed list \<times> Pump option \<times> Server"

fun stream_step :: "string \<Rightarrow> string \<Rightarrow> stream_state \<Rightarrow> stream_event \<Rightarrow> stream_state" where
  "stream_step device token (out, p, s) (StoreEvent op) = (out, p, s\<lparr>sv_store := state_step (sv_store s) op\<rparr>)"
| "stream_step device token (out, p, s) (QueueEvent op) =
     (out, p, s\<lparr>sv_commands := map_option (\<lambda>b. bus_step b op) (sv_commands s)\<rparr>)"
| "stream_step device token (out, p, s) (DisplayMessage other now persisted raw) =
     (out, p, fst (drain_message other now persisted raw s))"
| "stream_step device token (out, p, s) (RevocationEvent hashes) = (out, p, s\<lparr>sv_revoked := hashes\<rparr>)"
| "stream_step device token (out, None, s) (PumpTurn env) = (out, None, s)"
| "stream_step device token (out, Some p, s) (PumpTurn env) =
     (case pump_turn env device token p s of (new, p', s') \<Rightarrow> (out @ new, p', s'))"

fun pushed_version :: "pushed \<Rightarrow> u64 list" where
  "pushed_version (PushSnapshot snap) = [ms_SnapshotVersion snap]"
| "pushed_version _ = []"

definition versions :: "pushed list \<Rightarrow> u64 list" where
  "versions out = concat (map pushed_version out)"

lemma versions_simps [simp]:
  "versions [] = []" "versions (x # xs) = pushed_version x @ versions xs" "versions (xs @ ys) = versions xs @ versions ys"
  by (simp_all add: versions_def)

fun stream_inv :: "stream_state \<Rightarrow> bool" where
  "stream_inv (out, p, s) \<longleftrightarrow> sorted_wrt (<) (versions out) \<and>
     (\<forall>q. p = Some q \<longrightarrow> pu_sentAny q = (versions out \<noteq> []) \<and> (\<forall>v\<in>set (versions out). v \<le> pu_lastSent q))"

lemma send_commands_versions: "versions (fst (send_commands env i cs sent)) = []"
proof (induction cs arbitrary: i sent)
  case (Cons c cs)
  from Cons.IH [of "Suc i" "dc_CommandID c # sent"] show ?case by (auto split: prod.split)
qed simp

lemma push_commands_facts:
  "push_commands env device i s p = (out, going, p', s') \<Longrightarrow>
   versions out = [] \<and> pu_sentAny p' = pu_sentAny p \<and> pu_lastSent p' = pu_lastSent p \<and> sv_store s' = sv_store s"
  using send_commands_versions [of env i]
  by (auto simp: push_commands_def split: option.splits prod.splits sum.splits) (metis fst_conv)

lemma push_state_facts:
  assumes "push_state env s p = (out, going, p')"
  shows "(versions out = [] \<and> pu_sentAny p' = pu_sentAny p \<and> pu_lastSent p' = pu_lastSent p) \<or>
    (versions out = [cur_version (sv_store s)] \<and> (pu_sentAny p \<longrightarrow> pu_lastSent p < cur_version (sv_store s)) \<and>
     pu_sentAny p' \<and> pu_lastSent p' = cur_version (sv_store s))"
  using assms by (auto simp: push_state_def Let_def Snapshot_def split: if_splits)

lemma pump_turn_facts:
  assumes "pump_turn env device token p s = (out, q, s')"
  shows "(versions out = [] \<and> (\<forall>p'. q = Some p' \<longrightarrow> pu_sentAny p' = pu_sentAny p \<and> pu_lastSent p' = pu_lastSent p)) \<or>
    (versions out = [cur_version (sv_store s)] \<and> (pu_sentAny p \<longrightarrow> pu_lastSent p < cur_version (sv_store s)) \<and>
     (\<forall>p'. q = Some p' \<longrightarrow> pu_sentAny p' \<and> pu_lastSent p' = cur_version (sv_store s)))"
proof (cases "tokenRevoked s (te_checked env) token = Some False")
  case True
  obtain out1 going p1 where A: "push_state env s p = (out1, going, p1)" by (rule prod_cases3)
  obtain out2 going2 p2 s2 where B: "push_commands env device (length out1) s p1 = (out2, going2, p2, s2)"
    by (rule prod_cases4)
  have E: "out = (if going then out1 @ out2 else out1)" "q = (if going \<and> going2 then Some p2 else None)"
    using assms True A B by (auto simp: pump_turn_def split: if_splits)
  note S = push_state_facts [OF A] and C = push_commands_facts [OF B]
  show ?thesis
  proof (cases "versions out1 = []")
    case True
    with S C have "versions out = [] \<and> (\<forall>p'. q = Some p' \<longrightarrow> pu_sentAny p' = pu_sentAny p \<and> pu_lastSent p' = pu_lastSent p)"
      by (simp add: E)
    then show ?thesis by blast
  next
    case False
    with S C have "versions out = [cur_version (sv_store s)]" "pu_sentAny p \<longrightarrow> pu_lastSent p < cur_version (sv_store s)"
      "\<forall>p'. q = Some p' \<longrightarrow> pu_sentAny p' \<and> pu_lastSent p' = cur_version (sv_store s)"
      by (simp_all add: E)
    then show ?thesis by blast
  qed
next
  case False
  with assms show ?thesis by (auto simp: pump_turn_def)
qed

lemma stream_step_inv: "stream_inv st \<Longrightarrow> stream_inv (stream_step device token st ev)"
proof (induction device token st ev rule: stream_step.induct)
  case (6 device token out p s env)
  obtain new q s' where T: "pump_turn env device token p s = (new, q, s')" by (rule prod_cases3)
  have inv: "sorted_wrt (<) (versions out)" "pu_sentAny p = (versions out \<noteq> [])" "\<And>v. v \<in> set (versions out) \<Longrightarrow> v \<le> pu_lastSent p"
    using 6 by simp_all
  from pump_turn_facts [OF T] show ?case
  proof (elim disjE conjE)
    assume "versions new = []" "\<forall>p'. q = Some p' \<longrightarrow> pu_sentAny p' = pu_sentAny p \<and> pu_lastSent p' = pu_lastSent p"
    then have keep: "versions (out @ new) = versions out" "\<And>p'. q = Some p' \<Longrightarrow> pu_sentAny p' = pu_sentAny p"
      "\<And>p'. q = Some p' \<Longrightarrow> pu_lastSent p' = pu_lastSent p"
      by simp_all
    show ?thesis unfolding stream_step.simps T prod.case stream_inv.simps keep(1)
      using inv keep(2,3) by metis
  next
    assume A: "versions new = [cur_version (sv_store s)]" "pu_sentAny p \<longrightarrow> pu_lastSent p < cur_version (sv_store s)"
      "\<forall>p'. q = Some p' \<longrightarrow> pu_sentAny p' \<and> pu_lastSent p' = cur_version (sv_store s)"
    have newer: "v < cur_version (sv_store s)" if "v \<in> set (versions out)" for v
    proof -
      have "pu_sentAny p" using that inv(2) by (metis empty_iff empty_set)
      with A(2) inv(3) [OF that] show ?thesis by (metis order_le_less_trans)
    qed
    have "sorted_wrt (<) (versions out @ [cur_version (sv_store s)])" using inv(1) newer by (simp add: sorted_wrt_append)
    moreover have "\<forall>v\<in>set (versions out @ [cur_version (sv_store s)]). v \<le> cur_version (sv_store s)"
      using newer by (auto simp: order_less_imp_le)
    moreover have "versions (out @ new) = versions out @ [cur_version (sv_store s)]" using A(1) by simp
    ultimately show ?thesis unfolding stream_step.simps T prod.case stream_inv.simps using A(3) by (metis append_is_Nil_conv not_Cons_self2)
  qed
qed simp_all

interpretation stream: invariant_machine "stream_step device token" stream_inv "\<lambda>_. True"
  by unfold_locales (rule stream_step_inv)

lemma ended_stream_run: "fst (run (stream_step device token) (out, None, s) evs) = out \<and>
   fst (snd (run (stream_step device token) (out, None, s) evs)) = None"
proof (induction evs arbitrary: s)
  case (Cons ev evs)
  obtain s' where "stream_step device token (out, None, s) ev = (out, None, s')" by (cases ev) auto
  with Cons.IH show ?case by simp
qed simp

text \<open>
  C14. On one stream the versions of the snapshots sent strictly increase, so no picture is sent twice and
  none goes back, whatever collections, commands, answers and revocations come between the turns of the
  pump and whichever of its writes fail.
\<close>

theorem sent_versions_increase:
  "sorted_wrt (<) (versions (fst (run (stream_step device token) ([], Some (pump_start hello s now), s) evs)))"
proof -
  have "stream_inv (run (stream_step device token) ([], Some (pump_start hello s now), s) evs)"
    by (rule stream.run_inv) (simp_all add: pump_start_def list.pred_True)
  then show ?thesis by (cases "run (stream_step device token) ([], Some (pump_start hello s now), s) evs") simp
qed

text \<open>
  C13. A revoked device hears nothing more: a turn of the pump that finds the token revoked, in the server's
  list or by the checker, or whose check fails, writes nothing and ends the stream, and nothing that happens
  later writes to it.
\<close>

theorem revoked_stream_silent:
  assumes "tokenRevoked s (te_checked env) token \<noteq> Some False"
  shows "fst (run (stream_step device token) (out, Some p, s) (PumpTurn env # evs)) = out \<and>
    fst (snd (run (stream_step device token) (out, Some p, s) (PumpTurn env # evs))) = None"
  using assms ended_stream_run [of device token out s evs] by (simp add: pump_turn_def)

definition example_turn :: turn_env where
  "example_turn = \<lparr>te_checked = None, te_snapshot_at = second, te_now = second, te_beat_at = second, te_sent_at = (\<lambda>_. second),
     te_written = (\<lambda>_. True), te_queue_at = second, te_persisted = True\<rparr>"

theorem revoked_stream_silent_witness:
  "fst (run (stream_step ''d'' ''t'') ([], Some (pump_start zero_hello (example_server None) 0),
     example_server None\<lparr>sv_checkRevoked := True\<rparr>) [PumpTurn example_turn, PumpTurn example_turn]) = []"
  by (rule revoked_stream_silent [THEN conjunct1])
    (simp add: tokenRevoked_def example_turn_def example_server_def)
section \<open>What a turn of the pump achieves\<close>

lemma send_commands_complete:
  "send_commands env i cs sent = (out, True, sent') \<Longrightarrow>
   out = map PushCommand cs \<and> set sent' = set sent \<union> dc_CommandID ` set cs"
proof (induction cs arbitrary: i sent out sent')
  case (Cons c cs)
  then obtain out1 where "send_commands env (Suc i) cs (dc_CommandID c # sent) = (out1, True, sent')" "out = PushCommand c # out1"
    by (auto split: if_splits prod.splits)
  with Cons.IH [OF this(1)] show ?case by auto
qed simp

lemma push_state_complete:
  assumes "push_state env s p = (out, True, p')"
  shows "(HasData (sv_store s) \<longrightarrow> pu_sentAny p' \<and> cur_version (sv_store s) \<le> pu_lastSent p') \<and>
    (HasData (sv_store s) \<and> (\<not> pu_sentAny p \<or> pu_lastSent p < cur_version (sv_store s)) \<longrightarrow>
       PushSnapshot (Snapshot (sv_store s) (te_snapshot_at env)) \<in> set out) \<and>
    (\<forall>x\<in>set out. x = PushSnapshot (Snapshot (sv_store s) (te_snapshot_at env)) \<or> x = PushHeartbeat (sv_heartbeat s)) \<and>
    pu_sentCommands p' = pu_sentCommands p"
  using assms by (auto simp: push_state_def Let_def Snapshot_def split: if_splits)

lemma pump_turn_going:
  assumes "pump_turn env device token p s = (out, Some p', s')"
  obtains out1 p1 out2 where "push_state env s p = (out1, True, p1)"
    "push_commands env device (length out1) s p1 = (out2, True, p', s')" "out = out1 @ out2"
proof -
  obtain out1 going p1 where A: "push_state env s p = (out1, going, p1)" by (rule prod_cases3)
  obtain out2 going2 p2 s2 where B: "push_commands env device (length out1) s p1 = (out2, going2, p2, s2)"
    by (rule prod_cases4)
  from assms A B have "going \<and> going2 \<and> p2 = p' \<and> s2 = s' \<and> out = out1 @ out2"
    by (auto simp: pump_turn_def split: if_splits)
  with A B show thesis by (auto intro: that)
qed

lemma Pending_waiting:
  assumes "Pending device sent now ok b = (Inr cs, b')" "e \<in> set (sf_Entries (bus_state b'))" "is_pending_for device {} e"
  shows "dc_CommandID (en_Command e) \<in> sent \<or> en_Command e \<in> set cs"
  using assms by (auto simp: Pending_def is_pending_for_def persistLocked_def Let_def split: prod.splits if_splits)

text \<open>
  C15. When a turn of the pump has run through, the display is up to date. If there are data and this stream has
  carried no snapshot yet, or only one of an older version, the turn has written the current snapshot to it, and
  no snapshot but the current one in any case; the pump remembers a version not below the current one. Every
  command that waits for this device has been sent on this stream.
\<close>

theorem turn_brings_up_to_date:
  assumes "pump_turn env device token p s = (out, Some p', s')"
    and "sv_commands s = Some b" "Pending device (set (pu_sentCommands p)) (te_queue_at env) (te_persisted env) b = (Inr cs, b')"
  shows "(HasData (sv_store s) \<and> (\<not> pu_sentAny p \<or> pu_lastSent p < cur_version (sv_store s)) \<longrightarrow>
       PushSnapshot (Snapshot (sv_store s) (te_snapshot_at env)) \<in> set out) \<and>
    (HasData (sv_store s) \<longrightarrow> pu_sentAny p' \<and> cur_version (sv_store s) \<le> pu_lastSent p') \<and>
    (\<forall>snap. PushSnapshot snap \<in> set out \<longrightarrow> snap = Snapshot (sv_store s) (te_snapshot_at env)) \<and>
    sv_commands s' = Some b' \<and> (\<forall>c\<in>set cs. PushCommand c \<in> set out) \<and>
    (\<forall>e\<in>set (sf_Entries (bus_state b')). is_pending_for device {} e \<longrightarrow> dc_CommandID (en_Command e) \<in> set (pu_sentCommands p'))"
proof -
  from assms(1) obtain out1 p1 out2 where A: "push_state env s p = (out1, True, p1)"
    "push_commands env device (length out1) s p1 = (out2, True, p', s')" "out = out1 @ out2"
    by (rule pump_turn_going)
  note S = push_state_complete [OF A(1)]
  from A(2) assms(2,3) S obtain sent where C: "send_commands env (length out1) cs (pu_sentCommands p) = (out2, True, sent)"
    "p' = p1\<lparr>pu_sentCommands := sent\<rparr>" "s' = s\<lparr>sv_commands := Some b'\<rparr>"
    by (auto simp: push_commands_def split: prod.splits)
  note D = send_commands_complete [OF C(1)]
  have "\<forall>c\<in>set cs. PushCommand c \<in> set out" "\<forall>snap. PushSnapshot snap \<in> set out \<longrightarrow> snap = Snapshot (sv_store s) (te_snapshot_at env)"
    "HasData (sv_store s) \<and> (\<not> pu_sentAny p \<or> pu_lastSent p < cur_version (sv_store s)) \<longrightarrow>
       PushSnapshot (Snapshot (sv_store s) (te_snapshot_at env)) \<in> set out"
    using S D by (auto simp: A(3))
  moreover have "\<forall>e\<in>set (sf_Entries (bus_state b')). is_pending_for device {} e \<longrightarrow> dc_CommandID (en_Command e) \<in> set (pu_sentCommands p')"
    using Pending_waiting [OF assms(3)] D C(2) by auto
  ultimately show ?thesis using S C(2,3) by simp
qed

section \<open>Commands are published from the node's host only\<close>

lemma publish_refused:
  "authorizeControl s r = Some refused \<Longrightarrow> re_Status refused \<noteq> 202"
  "authorizeControl s r = None \<Longrightarrow> rq_Origin r = [] \<and> localControlRequest r \<and> bearerToken r \<noteq> [] \<and> bearerToken r = sv_controlToken s"
  by (auto simp: authorizeControl_def Let_def writeError_def writeJSON_def split: if_splits)

lemma Publish_refused_sequence:
  "Publish dev request t random now ok b = (Inl e, b') \<Longrightarrow> sf_Sequence (bus_state b') = sf_Sequence (bus_state b)"
  by (auto simp: Publish_def Let_def dropOldestNormalLocked_def persistLocked_def split: option.splits if_splits prod.splits)

lemma publish_status:
  assumes "handlePublishCommand env r s = (response, s')" "sv_commands s = Some b"
  shows "(re_Status response \<noteq> 202 \<and> (\<exists>b'. s' = s\<lparr>sv_commands := Some b'\<rparr> \<and> sf_Sequence (bus_state b') = sf_Sequence (bus_state b))) \<or>
    (authorizeControl s r = None \<and> mget (sv_devices s) (rq_Device r) \<noteq> None \<and>
     (\<exists>body request e b'. rq_Body r = Some body \<and> length body \<le> MaxCommandBytes \<and> DecodeCommandRequest body = Inr request \<and>
        (cr_Kind request = CommandRefreshData \<longrightarrow>
           (\<exists>params. decode_refresh (cr_Params request) = Some params \<and> knownConnectors s (fp_ConnectorIDs params))) \<and>
        Publish (rq_Device r) request (pe_dropped env) (pe_random env) (pe_now env) (pe_persisted env) b = (Inr e, b') \<and>
        response = writeJSON no_store 202 (commandResponse e) \<and> s' = s\<lparr>sv_commands := Some b'\<rparr>))"
proof -
  have same: "s' = s \<Longrightarrow> \<exists>b'. s' = s\<lparr>sv_commands := Some b'\<rparr> \<and> sf_Sequence (bus_state b') = sf_Sequence (bus_state b)"
    using assms(2) by (intro exI [of _ b]) (cases s, simp)
  have error: "re_Status (writeError headers status errcode message) = status" for headers status errcode message
    by (simp add: writeError_def writeJSON_def)
  show ?thesis
  proof (cases "authorizeControl s r")
    case (Some refused)
    with assms(1) publish_refused(1) [OF Some] same show ?thesis by (auto simp: handlePublishCommand_def)
  next
    case None
    note auth = None
    show ?thesis
    proof (cases "\<exists>body request. rq_Body r = Some body \<and> length body \<le> MaxCommandBytes \<and> DecodeCommandRequest body = Inr request \<and>
        mget (sv_devices s) (rq_Device r) \<noteq> None \<and> (cr_Kind request = CommandRefreshData \<longrightarrow>
           (\<exists>params. decode_refresh (cr_Params request) = Some params \<and> knownConnectors s (fp_ConnectorIDs params)))")
      case True
      then obtain body request where req: "rq_Body r = Some body" "\<not> MaxCommandBytes < length body" "DecodeCommandRequest body = Inr request"
        "mget (sv_devices s) (rq_Device r) \<noteq> None"
        "\<not> (cr_Kind request = CommandRefreshData \<and>
           (case decode_refresh (cr_Params request) of None \<Rightarrow> True | Some params \<Rightarrow> \<not> knownConnectors s (fp_ConnectorIDs params)))"
        "cr_Kind request = CommandRefreshData \<longrightarrow>
           (\<exists>params. decode_refresh (cr_Params request) = Some params \<and> knownConnectors s (fp_ConnectorIDs params))"
        by (fastforce simp: not_less)
      obtain answer b' where P: "Publish (rq_Device r) request (pe_dropped env) (pe_random env) (pe_now env) (pe_persisted env) b = (answer, b')"
        by (rule prod.exhaust)
      show ?thesis
      proof (cases answer)
        case (Inl e)
        with assms req auth P Publish_refused_sequence [OF P [unfolded Inl]] show ?thesis
          by (simp only: handlePublishCommand_def option.case sum.case prod.case if_False refl) (auto simp: error)
      next
        case (Inr e)
        with assms req auth P show ?thesis
          by (simp only: handlePublishCommand_def option.case sum.case prod.case if_False refl) (auto simp: not_less)
      qed
    next
      case False
      with assms auth have "re_Status response \<noteq> 202 \<and> s' = s"
        by (auto simp: handlePublishCommand_def error not_less split: option.splits sum.splits if_splits)
      with same show ?thesis by blast
    qed
  qed
qed

text \<open>
  C16. A command enters the queue only from the node's own host and with the control credential. On a server
  that was started, a publishing request is accepted (202) only without an \<open>Origin\<close> header, from a loopback
  address or the very address it came to, with the control token of at least 32 bytes as bearer token, for a
  configured device, with a body of at most 8192 bytes that decodes to a valid request, and for a refresh
  with configured connectors; the queue then has published that request. Any other request leaves the
  sequence number, and with it the commands published, as it was.
\<close>

theorem publish_needs_host_credential:
  assumes "New_Server opts = Inr s0" "so_Commands opts \<noteq> None" "s = s0\<lparr>sv_commands := Some b\<rparr>"
    and "handlePublishCommand env r s = (response, s')"
  shows "if re_Status response = 202
    then rq_Origin r = [] \<and> localControlRequest r \<and> bearerToken r = so_ControlToken opts \<and> 32 \<le> length (bearerToken r) \<and>
      mget (sv_devices s0) (rq_Device r) \<noteq> None \<and>
      (\<exists>body request e b'. rq_Body r = Some body \<and> length body \<le> 8192 \<and> DecodeCommandRequest body = Inr request \<and>
        (cr_Kind request = CommandRefreshData \<longrightarrow>
           (\<exists>params. decode_refresh (cr_Params request) = Some params \<and> knownConnectors s0 (fp_ConnectorIDs params))) \<and>
        Publish (rq_Device r) request (pe_dropped env) (pe_random env) (pe_now env) (pe_persisted env) b = (Inr e, b') \<and>
        s' = s\<lparr>sv_commands := Some b'\<rparr>)
    else \<exists>b'. s' = s\<lparr>sv_commands := Some b'\<rparr> \<and> sf_Sequence (bus_state b') = sf_Sequence (bus_state b)"
proof -
  have s: "sv_commands s = Some b" "sv_devices s = sv_devices s0" "sv_controlToken s = sv_controlToken s0"
    "knownConnectors s = knownConnectors s0"
    by (simp_all add: assms(3) knownConnectors_def fun_eq_iff)
  have token: "sv_controlToken s0 = so_ControlToken opts" "32 \<le> length (so_ControlToken opts)"
    using assms(1,2) by (auto simp: New_Server_def split: option.splits sum.splits if_splits)
  have accepted: "re_Status (writeJSON no_store 202 x) = 202" for x by (simp add: writeJSON_def)
  from publish_status [OF assms(4) s(1)] show ?thesis
  proof (rule disjE)
    assume "re_Status response \<noteq> 202 \<and> (\<exists>b'. s' = s\<lparr>sv_commands := Some b'\<rparr> \<and> sf_Sequence (bus_state b') = sf_Sequence (bus_state b))"
    then show ?thesis by simp
  next
    assume B: "authorizeControl s r = None \<and> mget (sv_devices s) (rq_Device r) \<noteq> None \<and>
     (\<exists>body request e b'. rq_Body r = Some body \<and> length body \<le> MaxCommandBytes \<and> DecodeCommandRequest body = Inr request \<and>
        (cr_Kind request = CommandRefreshData \<longrightarrow>
           (\<exists>params. decode_refresh (cr_Params request) = Some params \<and> knownConnectors s (fp_ConnectorIDs params))) \<and>
        Publish (rq_Device r) request (pe_dropped env) (pe_random env) (pe_now env) (pe_persisted env) b = (Inr e, b') \<and>
        response = writeJSON no_store 202 (commandResponse e) \<and> s' = s\<lparr>sv_commands := Some b'\<rparr>)"
    then obtain body request e b' where A: "authorizeControl s r = None" "mget (sv_devices s) (rq_Device r) \<noteq> None" "rq_Body r = Some body"
      "length body \<le> MaxCommandBytes" "DecodeCommandRequest body = Inr request"
      "cr_Kind request = CommandRefreshData \<longrightarrow>
         (\<exists>params. decode_refresh (cr_Params request) = Some params \<and> knownConnectors s (fp_ConnectorIDs params))"
      "Publish (rq_Device r) request (pe_dropped env) (pe_random env) (pe_now env) (pe_persisted env) b = (Inr e, b')"
      "response = writeJSON no_store 202 (commandResponse e)" "s' = s\<lparr>sv_commands := Some b'\<rparr>"
      by blast
    have "length body \<le> 8192" using A(4) by (simp add: MaxCommandBytes_def)
    with A publish_refused(2) [OF A(1)] s token show ?thesis by (simp add: accepted)
  qed
qed

theorem publish_needs_host_credential_witness:
  "\<exists>b'. snd (handlePublishCommand \<lparr>pe_dropped = 0, pe_random = None, pe_now = 0, pe_persisted = True\<rparr> example_get
       (example_server (Some example_bus))) = example_server (Some b') \<and>
     sf_Sequence (bus_state b') = sf_Sequence (bus_state example_bus)"
proof -
  let ?env = "\<lparr>pe_dropped = 0, pe_random = None, pe_now = 0, pe_persisted = True\<rparr>"
  have s: "example_server (Some example_bus) = (example_server (Some example_bus))\<lparr>sv_commands := Some example_bus\<rparr>"
    by (simp add: example_server_def)
  have "re_Status (fst (handlePublishCommand ?env example_get (example_server (Some example_bus)))) = 403"
    by (simp add: handlePublishCommand_def authorizeControl_def example_get_def localControlRequest_def address_of_def SplitHostPort_def cut_last_colon_def writeError_def writeJSON_def)
  moreover obtain response s' where
    E: "handlePublishCommand ?env example_get (example_server (Some example_bus)) = (response, s')" by (rule prod.exhaust)
  moreover have "so_Commands (example_server_options (Some example_bus)) \<noteq> None" by (simp add: example_server_options_def)
  ultimately show ?thesis
    using publish_needs_host_credential [OF example_server_new _ s E] by (auto simp: example_server_def)
qed

section \<open>A command on the wire\<close>

lemma example_command_text_ok: "command_wire_ok example_command"
proof -
  have "requote ''{`level`:40}'' = marshal_object [(''level'', marshal_int 40)]" by code_simp
  moreover have "reads (marshal_object [(''level'', marshal_int 40)]) (JObject [(''level'', marshal_int 40, JNumber (format_int 40))])"
    using reads_int by (intro reads_object) (simp add: member_reads_def utf8_text.simps)
  ultimately have R: "\<exists>v. reads (requote ''{`level`:40}'') v" by metis
  then have "parse_json (requote ''{`level`:40}'') \<noteq> None" using reads_parse_json by blast
  moreover have "compact_json False (requote ''{`level`:40}'') = requote ''{`level`:40}''" by code_simp
  ultimately have "marshal_params (requote ''{`level`:40}'') = Some (requote ''{`level`:40}'')"
    by (simp add: marshal_params_def requote_def)
  moreover have "time_ok (10 * second)" "time_ok (40 * second)" unfolding time_ok_def by code_simp+
  ultimately show ?thesis using R
    by (simp add: command_wire_ok_def example_command_def utf8_text.simps second_def in_int64_def)
qed

lemma command_frame_read:
  assumes "command_wire_ok c" "time_ok now"
  shows "\<exists>f raw. frame now (PushCommand c) = Some f \<and> marshal_command c = Some raw \<and>
    strictJSON command_fields zero_command raw = Some c \<and>
    DecodeEnvelope f = Some \<lparr>en_Type = MsgDisplayCommand, en_SentAt = now, en_Payload = raw\<rparr>"
proof -
  obtain raw v where raw: "marshal_command c = Some raw" "reads raw v" "strictJSON command_fields zero_command raw = Some c"
    using command_text_read [OF assms(1)] by blast
  from envelope_roundtrip [OF _ _ assms(2) raw(2), of MsgDisplayCommand] raw show ?thesis
    by (auto simp: utf8_text.simps)
qed

lemma result_frame_read:
  assumes "result_wire_ok r" "time_ok now"
  shows "\<exists>f raw. Encode MsgCommandResult now (Some (marshal_result r)) = Some f \<and> marshal_result r = Some raw \<and>
    strictJSON result_fields zero_result raw = Some r \<and>
    DecodeEnvelope f = Some \<lparr>en_Type = MsgCommandResult, en_SentAt = now, en_Payload = raw\<rparr>"
proof -
  obtain raw v where raw: "marshal_result r = Some raw" "reads raw v" "strictJSON result_fields zero_result raw = Some r"
    using result_text_read [OF assms(1)] by blast
  from envelope_roundtrip [OF _ _ assms(2) raw(2), of MsgCommandResult] raw show ?thesis
    by (auto simp: utf8_text.simps)
qed

definition waiting_bus :: Bus where
  "waiting_bus = \<lparr>bus_state = \<lparr>sf_Sequence = 1, sf_Entries = [new_entry example_command (10 * second)]\<rparr>,
     bus_disk = Some \<lparr>sf_Sequence = 1, sf_Entries = [new_entry example_command (10 * second)]\<rparr>, bus_notify = []\<rparr>"

definition waiting_turn :: turn_env where
  "waiting_turn = \<lparr>te_checked = None, te_snapshot_at = 20 * second, te_now = 20 * second, te_beat_at = 20 * second,
     te_sent_at = (\<lambda>_. 20 * second), te_written = (\<lambda>_. True), te_queue_at = 20 * second, te_persisted = True\<rparr>"

lemma waiting_pending: "Pending ''d'' {} (20 * second) True waiting_bus = (Inr [example_command], waiting_bus)"
  by (simp add: Pending_def waiting_bus_def expireLocked_def expire_entry_def Let_def new_entry_def example_command_def
      is_pending_for_def final_entry_def second_def)

lemma waiting_turn_run:
  "pump_turn waiting_turn ''d'' ''t'' (pump_start zero_hello (example_server (Some waiting_bus)) (10 * second))
     (example_server (Some waiting_bus)) =
   ([PushCommand example_command],
    Some ((pump_start zero_hello (example_server (Some waiting_bus)) (10 * second))\<lparr>pu_sentCommands := [dc_CommandID example_command]\<rparr>),
    example_server (Some waiting_bus))"
proof -
  have "time_ok (20 * second)" unfolding time_ok_def by code_simp
  from command_frame_read [OF example_command_text_ok this] have "send waiting_turn i (PushCommand example_command)" for i
    by (auto simp: send_def waiting_turn_def)
  moreover have "\<not> HasData example_current" by (simp add: HasData_def example_current_def)
  moreover have "time_sub (20 * second) (10 * second) = 10 * second" by (rule trans, rule time_sub_exact) (simp_all add: in_int64_def second_def)
  ultimately show ?thesis
    using waiting_pending
    by (simp add: pump_turn_def tokenRevoked_def example_server_def push_state_def push_commands_def pump_start_def
        Let_def waiting_turn_def second_def)
qed

text \<open>A store with one metric, whose picture is the example snapshot.\<close>

definition stocked_store :: Current where
  "stocked_store = example_current\<lparr>cur_nodeLabel := [], cur_version := 7, cur_metrics := [(''m1'', hd (ms_Metrics example_snapshot))]\<rparr>"

definition stocked_server :: Server where
  "stocked_server = (example_server (Some waiting_bus))\<lparr>sv_store := stocked_store\<rparr>"

definition stocked_turn :: turn_env where
  "stocked_turn = waiting_turn\<lparr>te_snapshot_at := 1\<rparr>"

lemma stocked_snapshot: "Snapshot stocked_store 1 = example_snapshot"
  by (simp add: Snapshot_def stocked_store_def example_snapshot_def example_current_def listing_def SchemaVersion_def)

lemma stocked_turn_run:
  "pump_turn stocked_turn ''d'' ''t'' (pump_start zero_hello stocked_server (10 * second)) stocked_server =
   ([PushSnapshot example_snapshot, PushCommand example_command],
    Some \<lparr>pu_lastSent = 7, pu_sentAny = True, pu_lastBeat = 20 * second, pu_sentCommands = [dc_CommandID example_command]\<rparr>,
    stocked_server)"
proof -
  have t: "time_ok (20 * second)" unfolding time_ok_def by code_simp
  have "send stocked_turn i (PushCommand example_command)" for i
    using command_frame_read [OF example_command_text_ok t] by (auto simp: send_def stocked_turn_def waiting_turn_def)
  moreover have "send stocked_turn i (PushSnapshot example_snapshot)" for i
    using published_text_read [OF example_snapshot_ok example_snapshot_wire_ok t] by (auto simp: send_def stocked_turn_def waiting_turn_def)
  moreover have "HasData stocked_store" "ms_SnapshotVersion example_snapshot = 7"
    by (simp_all add: HasData_def stocked_store_def example_snapshot_def)
  ultimately show ?thesis
    using waiting_pending stocked_snapshot
    by (simp add: pump_turn_def tokenRevoked_def stocked_server_def example_server_def push_state_def push_commands_def pump_start_def
        Let_def stocked_turn_def waiting_turn_def)
qed

theorem turn_brings_up_to_date_witness:
  "PushSnapshot example_snapshot \<in> set [PushSnapshot example_snapshot, PushCommand example_command] \<and>
   dc_CommandID example_command \<in> set [dc_CommandID example_command]"
proof -
  have store: "sv_store stocked_server = stocked_store" "sv_commands stocked_server = Some waiting_bus"
    by (simp_all add: stocked_server_def example_server_def)
  have "\<not> pu_sentAny (pump_start zero_hello stocked_server (10 * second))" "HasData stocked_store" "te_snapshot_at stocked_turn = 1"
    by (simp_all add: pump_start_def HasData_def stocked_store_def stocked_turn_def)
  moreover have "Pending ''d'' (set (pu_sentCommands (pump_start zero_hello stocked_server (10 * second)))) (te_queue_at stocked_turn)
      (te_persisted stocked_turn) waiting_bus = (Inr [example_command], waiting_bus)"
    by (simp add: pump_start_def stocked_turn_def waiting_turn_def waiting_pending)
  moreover have "new_entry example_command (10 * second) \<in> set (sf_Entries (bus_state waiting_bus))"
    "is_pending_for ''d'' {} (new_entry example_command (10 * second))"
    by (simp_all add: waiting_bus_def is_pending_for_def new_entry_def example_command_def final_entry_def)
  ultimately show ?thesis
    using turn_brings_up_to_date [OF stocked_turn_run store(2)] unfolding store(1)
    by (simp add: stocked_snapshot new_entry_def)
qed

end
