(* ===== verification/SyncClient.thy ===== *)
theory SyncClient
  imports SnapStore RemoteControl CommandText Policy
begin

text \<open>
  The display's end of the stream (\<open>internal/syncclient/client.go\<close>). The mutex makes the accesses to the
  shared fields atomic; the read loop is a function of the messages it reads, the writer of the results
  channel takes its head. Clock, random numbers, file system outcomes and the network are arguments.
\<close>

section \<open>Options and state\<close>

definition InitialReadTimeout :: duration where "InitialReadTimeout = 60 * second"
definition MinReadTimeout :: duration where "MinReadTimeout = 15 * second"
definition MaxReadTimeout :: duration where "MaxReadTimeout = 90 * second"
definition MinReconnect :: duration where "MinReconnect = 2 * second"
definition MaxReconnect :: duration where "MaxReconnect = 60 * second"

record ClientOptions =
  co_BaseURL :: string
  co_DeviceID :: string
  co_Token :: string
  co_Binding :: SourceBinding
  co_Store :: "Store option"
  co_ClientVersion :: string

record Client =
  cl_snapshot :: "MetricSnapshot option"
  cl_connected :: bool
  cl_lastSync :: instant
  cl_retryIn :: duration
  cl_changed :: bool                    \<comment> \<open>the channel of capacity one holds a signal\<close>
  cl_results :: "CommandResult list"    \<comment> \<open>the results channel\<close>
  cl_disk :: snap_disk
  cl_handler :: "Controller option"

datatype client_error = CRequired | CStoreRequired | CBindingRequired

text \<open>A store that cannot be read does not stop the client; all three outcomes of \<open>Load\<close> start it.\<close>

definition New_Client ::
  "ClientOptions \<Rightarrow> Controller option \<Rightarrow> load_env \<Rightarrow> snap_disk \<Rightarrow> client_error + Client" where
  "New_Client opts handler env disk =
     (if co_BaseURL opts = [] \<or> co_DeviceID opts = [] \<or> co_Token opts = [] then Inl CRequired
      else case co_Store opts of
        None \<Rightarrow> Inl CStoreRequired
      | Some store \<Rightarrow>
          if sb_NodeID (co_Binding opts) = [] then Inl CBindingRequired
          else
            let c = \<lparr>cl_snapshot = None, cl_connected = False, cl_lastSync = 0, cl_retryIn = 0, cl_changed = False,
                     cl_results = [], cl_disk = disk, cl_handler = handler\<rparr>
            in case Load store env disk of
                 (Inr snap, d) \<Rightarrow> Inr (c\<lparr>cl_snapshot := Some snap, cl_lastSync := ms_GeneratedAt snap, cl_disk := d\<rparr>)
               | (Inl _, d) \<Rightarrow> Inr (c\<lparr>cl_disk := d\<rparr>))"

definition notify :: "Client \<Rightarrow> Client" where
  "notify c = c\<lparr>cl_changed := True\<rparr>"

definition setConnected :: "bool \<Rightarrow> duration \<Rightarrow> Client \<Rightarrow> Client" where
  "setConnected conn retryIn c =
     (let changed = (cl_connected c \<noteq> conn \<or> cl_retryIn c \<noteq> retryIn);
          c' = c\<lparr>cl_connected := conn, cl_retryIn := retryIn\<rparr>
      in if changed then notify c' else c')"

section \<open>One message\<close>

text \<open>What the environment does while a message is handled.\<close>

record message_env =
  me_now :: instant                     \<comment> \<open>the clock\<close>
  me_works :: "fs_step \<Rightarrow> bool"         \<comment> \<open>saving the snapshot\<close>
  me_synced :: bool
  me_completions :: "nat \<Rightarrow> instant \<times> bool"
  me_handle :: HandleEnv
  me_queued :: nat                      \<comment> \<open>results put in the channel before the session ends\<close>

definition queueResults :: "nat \<Rightarrow> CommandResult list \<Rightarrow> Client \<Rightarrow> Client" where
  "queueResults queued results c = c\<lparr>cl_results := cl_results c @ take queued results\<rparr>"

definition store_of :: "ClientOptions \<Rightarrow> Store" where
  "store_of opts = (case co_Store opts of Some s \<Rightarrow> s | None \<Rightarrow> \<lparr>st_dir = [], st_binding = co_Binding opts\<rparr>)"

definition applySnapshot ::
  "ClientOptions \<Rightarrow> message_env \<Rightarrow> string \<Rightarrow> Client \<Rightarrow> bool \<times> Client" where
  "applySnapshot opts env payload c =
     (case DecodeSnapshot payload of
        Inl _ \<Rightarrow> (False, c)
      | Inr snap \<Rightarrow>
          (case Accept (co_Binding opts) (Some snap) of
             Some _ \<Rightarrow> (False, c)
           | None \<Rightarrow>
               (case Supersedes (cl_snapshot c) (Some snap) of
                  Inr True \<Rightarrow>
                    (True, notify (c\<lparr>cl_snapshot := Some snap, cl_lastSync := me_now env,
                       cl_disk := snd (Save (store_of opts) (me_works env) (me_synced env) (Some snap) (cl_disk c))\<rparr>))
                | _ \<Rightarrow> (True, c))))"

definition clampDuration :: "duration \<Rightarrow> duration \<Rightarrow> duration \<Rightarrow> duration" where
  "clampDuration d lo hi = (if d < lo then lo else if d > hi then hi else d)"

record Session =
  sn_client :: Client
  sn_healthy :: bool
  sn_readTimeout :: duration

definition snapshot_message :: "ClientOptions \<Rightarrow> message_env \<Rightarrow> string \<Rightarrow> Session \<Rightarrow> Session" where
  "snapshot_message opts env payload s =
     (case applySnapshot opts env payload (sn_client s) of
        (False, c) \<Rightarrow> s\<lparr>sn_client := c\<rparr>
      | (True, c) \<Rightarrow>
          let c1 = setConnected True 0 c;
              c2 = (case (cl_handler c1, cl_snapshot c1) of
                      (Some h, Some shown) \<Rightarrow>
                        (case SnapshotApplied (me_completions env) (ms_SourceEpoch shown) (ms_SnapshotVersion shown) h of
                           (results, h') \<Rightarrow> queueResults (me_queued env) results (c1\<lparr>cl_handler := Some h'\<rparr>))
                    | _ \<Rightarrow> c1)
          in s\<lparr>sn_client := c2, sn_healthy := True\<rparr>)"

text \<open>\<open>None\<close> is a panic of the handler.\<close>

definition command_message :: "message_env \<Rightarrow> string \<Rightarrow> Session \<Rightarrow> Session option" where
  "command_message env payload s =
     (case DecodeDisplayCommand payload (me_now env) of
        (command, decodeErr) \<Rightarrow>
          (case cl_handler (sn_client s) of
             None \<Rightarrow> Some s
           | Some h \<Rightarrow>
               if decodeErr \<noteq> None \<and> (dc_CommandID command = [] \<or> dc_Sequence command = 0) then Some s
               else map_option
                 (\<lambda>(results, h'). s\<lparr>sn_client :=
                    notify (queueResults (me_queued env) results ((sn_client s)\<lparr>cl_handler := Some h'\<rparr>))\<rparr>)
                 (Handle (me_handle env) command h)))"

definition heartbeat_message :: "Envelope \<Rightarrow> Session \<Rightarrow> Session" where
  "heartbeat_message env s =
     (case DecodePayload heartbeat_fields 0 env of
        Some interval \<Rightarrow>
          if interval > 0
          then s\<lparr>sn_healthy := True,
                 sn_readTimeout := clampDuration (wrap64 (3 * interval)) MinReadTimeout MaxReadTimeout\<rparr>
          else s
      | None \<Rightarrow> s)"

definition session_message :: "ClientOptions \<Rightarrow> message_env \<Rightarrow> string \<Rightarrow> Session \<Rightarrow> Session option" where
  "session_message opts menv raw s =
     (case DecodeEnvelope raw of
        None \<Rightarrow> Some s
      | Some env \<Rightarrow>
          if en_Type env = MsgSnapshotFull \<or> en_Type env = MsgSnapshotDelta
          then Some (snapshot_message opts menv (en_Payload env) s)
          else if en_Type env = MsgDisplayCommand then command_message menv (en_Payload env) s
          else if en_Type env = MsgHeartbeat then Some (heartbeat_message env s)
          else Some s)"

section \<open>The connection\<close>

definition client_hello :: "ClientOptions \<Rightarrow> Client \<Rightarrow> Hello" where
  "client_hello opts c =
     (let h = zero_hello\<lparr>hl_DeviceID := co_DeviceID opts, hl_ClientVersion := co_ClientVersion opts,
                hl_SchemaMajor := SchemaMajor\<rparr>
      in case cl_snapshot c of
           None \<Rightarrow> h
         | Some snap \<Rightarrow> h\<lparr>hl_LastEpoch := ms_SourceEpoch snap, hl_LastSnapshotVersion := ms_SnapshotVersion snap\<rparr>)"

text \<open>What \<open>sendHello\<close> puts on the wire, if it can be encoded.\<close>

definition sendHello :: "ClientOptions \<Rightarrow> instant \<Rightarrow> Client \<Rightarrow> string option" where
  "sendHello opts now c = Encode MsgHello now (Some (marshal_hello (client_hello opts c)))"

definition trim_slash :: "string \<Rightarrow> string" where
  "trim_slash s = (if s \<noteq> [] \<and> last s = CHR ''/'' then butlast s else s)"

definition stream_url :: "ClientOptions \<Rightarrow> string" where
  "stream_url opts = trim_slash (co_BaseURL opts) @ ''/v1/devices/'' @ co_DeviceID opts @ ''/stream''"

text \<open>One turn of the results writer: it takes the head of the channel and only then encodes and writes it.\<close>

definition write_result :: "instant \<Rightarrow> Client \<Rightarrow> string option \<times> Client" where
  "write_result now c =
     (case cl_results c of
        [] \<Rightarrow> (None, c)
      | r # rs \<Rightarrow> (Encode MsgCommandResult now (Some (marshal_result r)), c\<lparr>cl_results := rs\<rparr>))"

text \<open>
  The frames the connection delivers, until a read fails: at the end of the list, or at the first frame beyond the
  read limit set on the connection, which the WebSocket library refuses to return.
\<close>

fun session_messages :: "ClientOptions \<Rightarrow> (message_env \<times> string) list \<Rightarrow> Session \<Rightarrow> Session option" where
  "session_messages opts [] s = Some s"
| "session_messages opts ((env, raw) # ms) s =
     (if length raw > MaxBytes then Some s
      else Option.bind (session_message opts env raw s) (session_messages opts ms))"

text \<open>
  A connection: the dial and the hello succeed or not, then messages until a read fails. The result says
  whether the session was healthy.
\<close>

record session_env =
  se_dialed :: bool
  se_hello_at :: instant
  se_hello_written :: bool
  se_messages :: "(message_env \<times> string) list"

definition session :: "ClientOptions \<Rightarrow> session_env \<Rightarrow> Client \<Rightarrow> (bool \<times> Client) option" where
  "session opts env c =
     (if \<not> se_dialed env then Some (False, c)
      else if sendHello opts (se_hello_at env) c = None \<or> \<not> se_hello_written env then Some (False, c)
      else map_option (\<lambda>s. (sn_healthy s, sn_client s))
        (session_messages opts (se_messages env)
          \<lparr>sn_client = c, sn_healthy = False, sn_readTimeout = InitialReadTimeout\<rparr>))"

section \<open>Reconnecting\<close>

definition nextFailureCount :: "int \<Rightarrow> bool \<Rightarrow> int" where
  "nextFailureCount previous healthySession = (if healthySession then 1 else wrap64 (previous + 1))"

function doubled :: "int \<Rightarrow> int \<Rightarrow> duration \<Rightarrow> duration" where
  "doubled i failures d = (if i < failures \<and> d < MaxReconnect then doubled (i + 1) failures (wrap64 (d * 2)) else d)"
  by pat_completeness auto
termination by (relation "measure (\<lambda>(i, failures, d). nat (failures - i))") auto

declare doubled.simps [simp del]

text \<open>
  \<open>backoff\<close> in \<open>float64\<close>; \<open>fma\<close> says whether the compiler fuses the product into the addition, \<open>oob\<close> what
  a conversion outside the type gives.
\<close>

definition backoff :: "bool \<Rightarrow> (rat \<Rightarrow> int) \<Rightarrow> int \<Rightarrow> rat \<Rightarrow> duration" where
  "backoff fma oob failures random =
     (let failures = (if failures < 1 then 1 else failures);
          d = doubled 1 failures MinReconnect;
          d = (if d > MaxReconnect then MaxReconnect else d);
          a = fl (fl (random * 2) - 1);
          spread = a * fl (1 / 5);
          factor = fl (1 + (if fma then spread else fl spread));
          out = to_int64 oob (fl (fl (of_int d) * factor))
      in if out < MinReconnect div 2 then MinReconnect div 2 else out)"

text \<open>A turn of the loop of \<open>Run\<close>: a session, then the wait it asks for.\<close>

definition run_turn ::
  "bool \<Rightarrow> (rat \<Rightarrow> int) \<Rightarrow> ClientOptions \<Rightarrow> session_env \<Rightarrow> rat \<Rightarrow> int \<times> Client \<Rightarrow> (int \<times> Client) option" where
  "run_turn fma oob opts env random = (\<lambda>(failures, c).
     map_option (\<lambda>(healthy, c').
         let failures' = nextFailureCount failures healthy
         in (failures', setConnected False (backoff fma oob failures' random) c'))
       (session opts env c))"

section \<open>Redacting errors\<close>

text \<open>What stands before the first \<open>://\<close> and after it.\<close>

fun split_scheme :: "string \<Rightarrow> (string \<times> string) option" where
  "split_scheme [] = None"
| "split_scheme (c # s) =
     (if take 3 (c # s) = ''://'' then Some ([], drop 2 s)
      else map_option (\<lambda>(a, b). (c # a, b)) (split_scheme s))"

lemma split_scheme_shorter: "split_scheme s = Some (a, b) \<Longrightarrow> length b < length s"
  by (induction s arbitrary: a) (auto split: if_splits)

function redactURL :: "string \<Rightarrow> string" where
  "redactURL rest =
     (case split_scheme rest of
        None \<Rightarrow> rest
      | Some (front, after) \<Rightarrow>
          front @ ''://[redacted]'' @
          (case dropWhile (\<lambda>c. c \<noteq> CHR '' '' \<and> c \<noteq> quote) after of
             [] \<Rightarrow> []
           | d # rest' \<Rightarrow> d # redactURL rest'))"
  by pat_completeness auto
termination
proof (relation "measure length")
  fix rest x front after d rest'
  assume "split_scheme rest = Some x" "(front, after) = x"
    "dropWhile (\<lambda>c. c \<noteq> CHR '' '' \<and> c \<noteq> quote) after = d # rest'"
  then show "(rest', rest) \<in> measure length"
    using split_scheme_shorter [of rest front after] length_dropWhile_le [of "\<lambda>c. c \<noteq> CHR '' '' \<and> c \<noteq> quote" after] by simp
qed simp

declare redactURL.simps [simp del]

section \<open>What is on screen\<close>

definition shown_ok :: "ClientOptions \<Rightarrow> Client \<Rightarrow> bool" where
  "shown_ok opts c \<longleftrightarrow> (\<forall>s. cl_snapshot c = Some s \<longrightarrow> snapshot_ok s \<and> bound_ok (co_Binding opts) s)"

lemma client_updates [simp]:
  "cl_snapshot (notify c) = cl_snapshot c" "cl_snapshot (setConnected conn d c) = cl_snapshot c"
  "cl_snapshot (queueResults n rs c) = cl_snapshot c" "cl_handler (notify c) = cl_handler c"
  "cl_disk (notify c) = cl_disk c" "cl_disk (setConnected conn d c) = cl_disk c" "cl_disk (queueResults n rs c) = cl_disk c"
  "cl_connected (setConnected conn d c) = conn" "cl_connected (notify c) = cl_connected c"
  "cl_connected (queueResults n rs c) = cl_connected c" "cl_handler (setConnected conn d c) = cl_handler c"
  "cl_retryIn (notify c) = cl_retryIn c" "cl_retryIn (setConnected conn d c) = d" "cl_retryIn (queueResults n rs c) = cl_retryIn c"
  by (simp_all add: notify_def setConnected_def queueResults_def Let_def)

text \<open>How the picture may change: not at all, or to a valid one of the bound node that supersedes it.\<close>

definition picture_step :: "ClientOptions \<Rightarrow> MetricSnapshot option \<Rightarrow> MetricSnapshot option \<Rightarrow> bool" where
  "picture_step opts old new \<longleftrightarrow> new = old \<or>
     (\<exists>n. new = Some n \<and> snapshot_ok n \<and> bound_ok (co_Binding opts) n \<and> Supersedes old (Some n) = Inr True)"

lemma applySnapshot_picture: "picture_step opts (cl_snapshot c) (cl_snapshot (snd (applySnapshot opts env payload c)))"
  by (auto simp: applySnapshot_def picture_step_def Accept_None dest: DecodeSnapshot_ok split: sum.split option.split bool.split)

lemma snapshot_message_picture:
  "picture_step opts (cl_snapshot (sn_client s)) (cl_snapshot (sn_client (snapshot_message opts env payload s)))"
proof -
  have "cl_snapshot (sn_client (snapshot_message opts env payload s)) =
      cl_snapshot (snd (applySnapshot opts env payload (sn_client s)))"
    by (auto simp: snapshot_message_def Let_def split: prod.split bool.split option.split)
  then show ?thesis by (simp add: applySnapshot_picture)
qed

lemma session_message_picture:
  assumes "session_message opts env raw s = Some s'"
  shows "picture_step opts (cl_snapshot (sn_client s)) (cl_snapshot (sn_client s'))"
proof -
  have "picture_step opts p p" for p by (simp add: picture_step_def)
  with assms snapshot_message_picture show ?thesis
    by (auto simp: session_message_def command_message_def heartbeat_message_def
        split: option.splits if_splits prod.splits)
qed

text \<open>A picture rounded to the cent stays as it is on the next trip.\<close>

lemma wire_decimal_idem [simp]: "wire_decimal kind (wire_decimal kind d) = wire_decimal kind d"
proof -
  have "rescaled (New m 2) 2 = m" for m
  proof -
    have "round_half_away (nat \<bar>m * 100\<bar>) 100 = nat \<bar>m\<bar>"
      by (simp add: round_half_away_def abs_mult nat_mult_distrib)
    then show ?thesis by (simp add: rescaled_def round_quotient_def New_def pow10_def signed_def)
  qed
  then show ?thesis by (simp add: wire_decimal_def)
qed

lemma wire_snapshot_idem [simp]: "wire_snapshot (wire_snapshot s) = wire_snapshot s"
  by (simp add: wire_snapshot_def wire_metric_def option.map_comp comp_def)

lemma wire_snapshot_fields [simp]:
  "ms_SourceNode (wire_snapshot s) = ms_SourceNode s" "ms_SourceEpoch (wire_snapshot s) = ms_SourceEpoch s"
  "ms_SnapshotVersion (wire_snapshot s) = ms_SnapshotVersion s"
  by (simp_all add: wire_snapshot_def)

lemma amount_ok_wire: "amount_ok kind v \<Longrightarrow> amount_ok kind (map_option (wire_decimal kind) v)"
  by (cases v) (simp_all add: amount_ok_def)

lemma snapshot_wire_ok_wire: "snapshot_wire_ok s \<Longrightarrow> snapshot_wire_ok (wire_snapshot s)"
  by (auto simp: snapshot_wire_ok_def wire_snapshot_def list_all_iff wire_metric_def metric_wire_ok_def amount_ok_wire)

lemma snapshot_message_accepted:
  assumes "DecodeSnapshot payload = Inr n" "bound_ok (co_Binding opts) n"
    "Supersedes (cl_snapshot (sn_client s)) (Some n) = Inr True"
  shows "cl_snapshot (sn_client (snapshot_message opts env payload s)) = Some n \<and>
    cl_connected (sn_client (snapshot_message opts env payload s)) \<and>
    cl_retryIn (sn_client (snapshot_message opts env payload s)) = 0 \<and>
    sn_healthy (snapshot_message opts env payload s) \<and>
    cl_disk (sn_client (snapshot_message opts env payload s)) =
      snd (Save (store_of opts) (me_works env) (me_synced env) (Some n) (cl_disk (sn_client s)))"
  using assms
  by (auto simp: snapshot_message_def applySnapshot_def Let_def Accept_None [symmetric] split: prod.split option.split)

lemma restart_shows_saved:
  assumes "savable s v raw" "snapshot_wire_ok v" "list_all works snapshot_steps"
    and "co_Store opts = Some s" "co_BaseURL opts \<noteq> []" "co_DeviceID opts \<noteq> []" "co_Token opts \<noteq> []"
    "sb_NodeID (co_Binding opts) \<noteq> []"
  shows "\<exists>c. New_Client opts handler load_works (snd (Save s works synced (Some v) d)) = Inr c \<and>
    cl_snapshot c = Some (wire_snapshot v)"
proof -
  have "dk_file (sd_disk (snd (Save s works synced (Some v) d))) = Some raw"
    using assms(1,3) by (auto simp: Save_file savable_def)
  from Load_saved [OF assms(1,2) this] have
    "fst (Load s load_works (snd (Save s works synced (Some v) d))) = Inr (wire_snapshot v)" .
  with assms(4-) show ?thesis
    by (cases "Load s load_works (snd (Save s works synced (Some v) d))") (simp add: New_Client_def Let_def)
qed

text \<open>
  C8. What the daemon publishes is what the display shows, and shows again after a restart. A valid snapshot
  sent as a stream message to the display bound to its node, when it supersedes the picture there, is on
  screen once the message is handled (amounts to the cent), the stream counts as connected and healthy, and
  if its file could be written, a client started from that file shows the same. A frame beyond the read limit of one
  megabyte is not handled: it ends the session with the old picture.
\<close>

theorem published_snapshot_shown:
  assumes "snapshot_ok v" "snapshot_wire_ok v" "time_ok now" "bound_ok (co_Binding opts) v"
    and "Supersedes (cl_snapshot (sn_client s)) (Some v) = Inr True"
    and "co_Store opts = Some st" "st_binding st = co_Binding opts"
    and "co_BaseURL opts \<noteq> []" "co_DeviceID opts \<noteq> []" "co_Token opts \<noteq> []"
  shows "\<exists>frame s'. Encode MsgSnapshotFull now (Some (marshal_snapshot v)) = Some frame \<and>
    session_message opts env frame s = Some s' \<and>
    session_messages opts [(env, frame)] s = Some (if length frame \<le> MaxBytes then s' else s) \<and>
    cl_snapshot (sn_client s') = Some (wire_snapshot v) \<and> cl_connected (sn_client s') \<and> sn_healthy s' \<and>
    (list_all (me_works env) snapshot_steps \<and> length (the (marshal_snapshot (wire_snapshot v))) \<le> MaxBytes \<longrightarrow>
      (\<exists>c. New_Client opts handler load_works (cl_disk (sn_client s')) = Inr c \<and>
         cl_snapshot c = Some (wire_snapshot v)))"
proof -
  let ?w = "wire_snapshot v"
  obtain payload frame where t: "DecodeSnapshot payload = Inr ?w"
    "Encode MsgSnapshotFull now (Some (marshal_snapshot v)) = Some frame"
    "DecodeEnvelope frame = Some \<lparr>en_Type = MsgSnapshotFull, en_SentAt = now, en_Payload = payload\<rparr>"
    using published_text_read [OF assms(1-3)] by blast
  define s' where "s' = snapshot_message opts env payload s"
  have bound: "bound_ok (co_Binding opts) ?w" using assms(4) by (simp add: bound_ok_def)
  have "Supersedes (cl_snapshot (sn_client s)) (Some ?w) = Inr True"
    using assms(5) by (auto simp: Supersedes_def split: option.splits if_splits)
  note A = snapshot_message_accepted [OF t(1) bound this, of env, folded s'_def]
  have "session_message opts env frame s = Some s'" by (simp add: session_message_def t(3) s'_def)
  moreover from this have "session_messages opts [(env, frame)] s = Some (if length frame \<le> MaxBytes then s' else s)" by simp
  moreover have "\<exists>c. New_Client opts handler load_works (cl_disk (sn_client s')) = Inr c \<and> cl_snapshot c = Some ?w"
    if works: "list_all (me_works env) snapshot_steps" "length (the (marshal_snapshot ?w)) \<le> MaxBytes"
  proof -
    have W: "snapshot_wire_ok ?w" "snapshot_ok ?w" using assms(1,2) by (simp_all add: snapshot_wire_ok_wire snapshot_ok_wire)
    obtain raw where "marshal_snapshot ?w = Some raw" using snapshot_text_read [OF W(2,1)] by blast
    with works W bound assms(6,7) have "savable st ?w raw" by (simp add: savable_def)
    moreover have "sb_NodeID (co_Binding opts) \<noteq> []" using assms(4) by (simp add: bound_ok_def)
    ultimately show ?thesis
      using restart_shows_saved [OF _ W(1) works(1) assms(6,8-10)] A assms(6) by (simp add: store_of_def)
  qed
  ultimately show ?thesis using t(2) A by blast
qed

section \<open>The life of a client\<close>

fun run_turns ::
  "bool \<Rightarrow> (rat \<Rightarrow> int) \<Rightarrow> ClientOptions \<Rightarrow> (session_env \<times> rat) list \<Rightarrow> int \<times> Client \<Rightarrow> (int \<times> Client) option" where
  "run_turns fma oob opts [] x = Some x"
| "run_turns fma oob opts ((env, random) # envs) x =
     Option.bind (run_turn fma oob opts env random x) (run_turns fma oob opts envs)"

lemma picture_step_shown: "picture_step opts (cl_snapshot c) (cl_snapshot c') \<Longrightarrow> shown_ok opts c \<Longrightarrow> shown_ok opts c'"
  by (auto simp: picture_step_def shown_ok_def)

lemma session_messages_shown:
  "session_messages opts ms s = Some s' \<Longrightarrow> shown_ok opts (sn_client s) \<Longrightarrow> shown_ok opts (sn_client s')"
proof (induction ms arbitrary: s)
  case (Cons m ms)
  obtain env raw where m: "m = (env, raw)" by (cases m)
  show ?case
  proof (cases "length raw > MaxBytes")
    case False
    with Cons.prems m obtain s1 where s1: "session_message opts env raw s = Some s1" "session_messages opts ms s1 = Some s'"
      by (auto split: bind_splits)
    from session_message_picture [OF s1(1)] Cons.prems(2) have "shown_ok opts (sn_client s1)" by (rule picture_step_shown)
    with s1(2) show ?thesis by (rule Cons.IH)
  qed (use Cons.prems m in simp)
qed simp

lemma session_shown: "session opts env c = Some (healthy, c') \<Longrightarrow> shown_ok opts c \<Longrightarrow> shown_ok opts c'"
  by (auto simp: session_def dest: session_messages_shown split: if_splits)

lemma run_turns_shown: "run_turns fma oob opts envs x = Some y \<Longrightarrow> shown_ok opts (snd x) \<Longrightarrow> shown_ok opts (snd y)"
proof (induction envs arbitrary: x)
  case (Cons e envs)
  obtain env random f c where e: "e = (env, random)" "x = (f, c)" by (cases e, cases x)
  from Cons.prems(1) e have run: "Option.bind (run_turn fma oob opts env random (f, c)) (run_turns fma oob opts envs) = Some y"
    by simp
  then have "session opts env c \<noteq> None"
    unfolding run_turn_def prod.case by (metis Option.bind.simps(1) option.distinct(1) option.map(1))
  then obtain healthy c1 where s: "session opts env c = Some (healthy, c1)" by force
  with run have rest: "run_turns fma oob opts envs (nextFailureCount f healthy,
       setConnected False (backoff fma oob (nextFailureCount f healthy) random) c1) = Some y"
    by (simp only: run_turn_def prod.case option.map Let_def Option.bind.simps)
  from Cons.prems(2) have "shown_ok opts c" unfolding e(2) snd_conv .
  with s have "shown_ok opts c1" by (rule session_shown)
  then have "shown_ok opts (setConnected False d c1)" for d unfolding shown_ok_def client_updates .
  then show ?case by (intro Cons.IH [OF rest]) (simp only: snd_conv)
qed simp

lemma New_Client_shown:
  assumes "New_Client opts handler env disk = Inr c" "co_Store opts = Some st" "st_binding st = co_Binding opts"
  shows "shown_ok opts c"
  using assms by (auto simp: New_Client_def shown_ok_def Let_def dest!: Load_ok split: if_splits sum.splits prod.splits)

text \<open>
  C9. The picture is safe. In every life of a client, from whatever file it starts, through any number of
  connections and any messages on them, what is shown is a valid snapshot of the bound node; and each
  message either leaves the picture alone or replaces it by one of a new daemon life or of a higher version
  within the same life, so within a life of the daemon the display never goes back.
\<close>

theorem shown_picture_safe:
  assumes "New_Client opts handler env disk = Inr c0" "co_Store opts = Some st" "st_binding st = co_Binding opts"
    and "run_turns fma oob opts envs (0, c0) = Some (failures, c)"
    and "session_messages opts ms \<lparr>sn_client = c, sn_healthy = False, sn_readTimeout = InitialReadTimeout\<rparr> = Some s"
    and "session_message opts menv raw s = Some s'" "cl_snapshot (sn_client s') = Some new"
  shows "snapshot_ok new \<and> ms_SourceNode new = sb_NodeID (co_Binding opts) \<and>
    (\<forall>old. cl_snapshot (sn_client s) = Some old \<longrightarrow>
       new = old \<or> ms_SourceEpoch new \<noteq> ms_SourceEpoch old \<or> ms_SnapshotVersion old < ms_SnapshotVersion new)"
proof -
  have "shown_ok opts c"
    using run_turns_shown [OF assms(4)] New_Client_shown [OF assms(1-3)] by simp
  with session_messages_shown [OF assms(5)] have "shown_ok opts (sn_client s)" by simp
  with session_message_picture [OF assms(6)] have "shown_ok opts (sn_client s')" by (rule picture_step_shown)
  then have "snapshot_ok new" "ms_SourceNode new = sb_NodeID (co_Binding opts)"
    using assms(7) by (simp_all add: shown_ok_def bound_ok_def)
  moreover have "Some new = cl_snapshot (sn_client s) \<or> Supersedes (cl_snapshot (sn_client s)) (Some new) = Inr True"
    using session_message_picture [OF assms(6)] assms(7) by (auto simp: picture_step_def)
  ultimately show ?thesis by (auto simp: Supersedes_def split: if_splits)
qed

section \<open>Waiting\<close>

definition session_timeout_ok :: "duration \<Rightarrow> bool" where
  "session_timeout_ok d \<longleftrightarrow> MinReadTimeout \<le> d \<and> d \<le> MaxReadTimeout"

lemma session_message_timeout:
  "session_message opts env raw s = Some s' \<Longrightarrow> session_timeout_ok (sn_readTimeout s) \<Longrightarrow> session_timeout_ok (sn_readTimeout s')"
  by (auto simp: session_message_def command_message_def heartbeat_message_def snapshot_message_def session_timeout_ok_def
      clampDuration_def MinReadTimeout_def MaxReadTimeout_def second_def Let_def
      split: option.splits if_splits prod.splits bool.splits)

lemma session_messages_timeout:
  "session_messages opts ms s = Some s' \<Longrightarrow> session_timeout_ok (sn_readTimeout s) \<Longrightarrow> session_timeout_ok (sn_readTimeout s')"
proof (induction ms arbitrary: s)
  case (Cons m ms)
  then show ?case by (cases m) (auto split: bind_splits if_splits dest: session_message_timeout)
qed simp

text \<open>The doubling stops at the first value that reaches the cap.\<close>

lemma doubled_step:
  "doubled i failures d = (if i < failures \<and> d < MaxReconnect then doubled (i + 1) failures (wrap64 (d * 2)) else d)"
  by (rule doubled.simps)

definition reconnect_delay :: "int \<Rightarrow> duration" where
  "reconnect_delay failures = (if failures \<le> 5 then MinReconnect * 2 ^ nat (max 1 failures - 1) else MaxReconnect)"

lemma doubled_values:
  "(let d = doubled 1 (max 1 failures) MinReconnect in if d > MaxReconnect then MaxReconnect else d) = reconnect_delay failures"
proof -
  have w: "wrap64 4000000000 = 4000000000" "wrap64 8000000000 = 8000000000" "wrap64 16000000000 = 16000000000"
    "wrap64 32000000000 = 32000000000" "wrap64 64000000000 = 64000000000"
    by (simp_all add: wrap64_id in_int64_def)
  consider "failures \<le> 1" | "failures = 2" | "failures = 3" | "failures = 4" | "failures = 5" | "5 < failures" by linarith
  then show ?thesis
    by cases (simp_all add: doubled_step [of 1] doubled_step [of 2] doubled_step [of 3] doubled_step [of 4] doubled_step [of 5]
        doubled_step [of 6] w MinReconnect_def MaxReconnect_def second_def reconnect_delay_def Let_def max_def)
qed

text \<open>
  The wait before the next connection doubles from 2 seconds per failed session up to 60, and is then
  spread by a fifth either way: it lies within 2 ns of \<open>0.8 + 0.4 r\<close> times that delay, hence between 1.6
  and 72 seconds, outside the bounds the constants name.
\<close>

theorem reconnect_window:
  assumes "0 \<le> random" "random < 1"
  shows "\<bar>of_int (backoff fma oob failures random) - of_int (reconnect_delay failures) * (4 / 5 + 2 / 5 * random)\<bar> \<le> 2"
proof -
  let ?d = "reconnect_delay failures"
  have d: "MinReconnect \<le> ?d" "?d \<le> MaxReconnect" "0 < ?d" "?d \<le> 2 ^ 50"
  proof -
    have "failures \<le> 5 \<Longrightarrow> nat (max 1 failures - 1) \<le> 4" by auto
    then have "failures \<le> 5 \<Longrightarrow> (2 :: int) ^ nat (max 1 failures - 1) \<le> 2 ^ 4" by (intro power_increasing) auto
    moreover have "(1 :: int) \<le> 2 ^ nat (max 1 failures - 1)" by simp
    ultimately show "MinReconnect \<le> ?d" "?d \<le> MaxReconnect" "0 < ?d" "?d \<le> 2 ^ 50"
      by (auto simp: reconnect_delay_def MinReconnect_def MaxReconnect_def second_def)
  qed
  define out where "out = to_int64 oob (fl (fl (of_int ?d) *
    fl (1 + (if fma then fl (fl (random * 2) - 1) * fl (1 / 5) else fl (fl (fl (random * 2) - 1) * fl (1 / 5))))))"
  have shape: "backoff fma oob failures random = (if out < MinReconnect div 2 then MinReconnect div 2 else out)"
  proof -
    have m: "(if failures < 1 then 1 else failures) = max 1 failures" by auto
    show ?thesis unfolding backoff_def out_def Let_def m doubled_values [unfolded Let_def] by (rule refl)
  qed
  have "1 - 1 / 5 + 2 * (1 / 5) * random = 4 / 5 + 2 / 5 * random" by simp
  then have near: "\<bar>of_int out - of_int ?d * (4 / 5 + 2 / 5 * random)\<bar> \<le> 2"
    using spread_delay [OF d(3,4) assms(1), of "1 / 5" oob fma] assms(2) unfolding out_def by simp
  have "of_int ?d * (4 / 5) \<le> of_int ?d * (4 / 5 + 2 / 5 * random)"
    using d(3) assms(1) by (intro mult_left_mono) auto
  moreover have "(of_int MinReconnect :: rat) \<le> of_int ?d" using d(1) by (simp only: of_int_le_iff)
  moreover have "(of_int (MinReconnect div 2) :: rat) = of_int MinReconnect / 2" by (simp add: MinReconnect_def second_def)
  moreover have "(100 :: rat) \<le> of_int MinReconnect" by (simp add: MinReconnect_def second_def)
  ultimately have "(of_int (MinReconnect div 2) :: rat) \<le> of_int out"
    using near unfolding abs_le_iff by linarith
  then have "\<not> out < MinReconnect div 2" by (simp only: of_int_le_iff not_less)
  with near show ?thesis unfolding shape by simp
qed

section \<open>Witnesses\<close>

definition example_options :: ClientOptions where
  "example_options = \<lparr>co_BaseURL = ''https://mac.lan:8443'', co_DeviceID = ''pi-1'', co_Token = ''secret'',
     co_Binding = \<lparr>sb_NodeID = ''node-1''\<rparr>,
     co_Store = Some \<lparr>st_dir = ''/var/lib/homepi'', st_binding = \<lparr>sb_NodeID = ''node-1''\<rparr>\<rparr>, co_ClientVersion = ''1''\<rparr>"

definition empty_disk :: snap_disk where
  "empty_disk = \<lparr>sd_disk = \<lparr>dk_file = None, dk_durable = True, dk_temps = 0\<rparr>, sd_quarantined = None\<rparr>"

definition example_client :: Client where
  "example_client = \<lparr>cl_snapshot = None, cl_connected = False, cl_lastSync = 0, cl_retryIn = 0, cl_changed = False,
     cl_results = [], cl_disk = empty_disk, cl_handler = None\<rparr>"

definition example_session :: Session where
  "example_session = \<lparr>sn_client = example_client, sn_healthy = False, sn_readTimeout = InitialReadTimeout\<rparr>"

definition example_message_env :: message_env where
  "example_message_env = \<lparr>me_now = 1, me_works = (\<lambda>_. True), me_synced = True, me_completions = (\<lambda>_. (1, True)),
     me_handle = example_env, me_queued = 0\<rparr>"

definition example_frame :: string where
  "example_frame = the (Encode MsgSnapshotFull 1 (Some (marshal_snapshot example_snapshot)))"

lemma client_started: "New_Client example_options None load_works empty_disk = Inr example_client"
  by (simp add: New_Client_def example_options_def Load_def readBounded_def empty_disk_def example_client_def)

lemma example_bound: "bound_ok (co_Binding example_options) example_snapshot"
  by (simp add: bound_ok_def example_options_def example_snapshot_def)

lemma example_handled:
  "\<exists>s'. session_message example_options example_message_env example_frame example_session = Some s' \<and>
     cl_snapshot (sn_client s') = Some (wire_snapshot example_snapshot)"
proof -
  obtain payload frame where t: "DecodeSnapshot payload = Inr (wire_snapshot example_snapshot)"
    "Encode MsgSnapshotFull 1 (Some (marshal_snapshot example_snapshot)) = Some frame"
    "DecodeEnvelope frame = Some \<lparr>en_Type = MsgSnapshotFull, en_SentAt = 1, en_Payload = payload\<rparr>"
    using published_text_read [OF example_snapshot_ok example_snapshot_wire_ok first_instant_ok] by blast
  have "bound_ok (co_Binding example_options) (wire_snapshot example_snapshot)"
    using example_bound by (simp add: bound_ok_def)
  from snapshot_message_accepted [OF t(1) this] t(2,3) show ?thesis
    by (simp add: session_message_def example_frame_def example_session_def example_client_def Supersedes_def)
qed

theorem published_snapshot_shown_witness:
  "\<exists>frame s'. Encode MsgSnapshotFull 1 (Some (marshal_snapshot example_snapshot)) = Some frame \<and>
    session_message example_options example_message_env frame example_session = Some s' \<and>
    session_messages example_options [(example_message_env, frame)] example_session =
      Some (if length frame \<le> MaxBytes then s' else example_session) \<and>
    cl_snapshot (sn_client s') = Some (wire_snapshot example_snapshot) \<and> cl_connected (sn_client s') \<and> sn_healthy s' \<and>
    (list_all (me_works example_message_env) snapshot_steps \<and>
       length (the (marshal_snapshot (wire_snapshot example_snapshot))) \<le> MaxBytes \<longrightarrow>
      (\<exists>c. New_Client example_options None load_works (cl_disk (sn_client s')) = Inr c \<and>
         cl_snapshot c = Some (wire_snapshot example_snapshot)))"
proof (rule published_snapshot_shown)
  show "Supersedes (cl_snapshot (sn_client example_session)) (Some example_snapshot) = Inr True"
    by (simp add: Supersedes_def example_session_def example_client_def)
  show "co_Store example_options = Some \<lparr>st_dir = ''/var/lib/homepi'', st_binding = \<lparr>sb_NodeID = ''node-1''\<rparr>\<rparr>"
    by (simp add: example_options_def)
qed (simp_all add: example_snapshot_ok example_snapshot_wire_ok first_instant_ok example_bound, simp_all add: example_options_def)

theorem shown_picture_safe_witness:
  "\<exists>s'. session_message example_options example_message_env example_frame example_session = Some s' \<and>
    snapshot_ok (wire_snapshot example_snapshot) \<and>
    ms_SourceNode (wire_snapshot example_snapshot) = sb_NodeID (co_Binding example_options) \<and>
    (\<forall>old. cl_snapshot (sn_client example_session) = Some old \<longrightarrow>
       wire_snapshot example_snapshot = old \<or>
       ms_SourceEpoch (wire_snapshot example_snapshot) \<noteq> ms_SourceEpoch old \<or>
       ms_SnapshotVersion old < ms_SnapshotVersion (wire_snapshot example_snapshot))"
proof -
  obtain s' where s': "session_message example_options example_message_env example_frame example_session = Some s'"
    "cl_snapshot (sn_client s') = Some (wire_snapshot example_snapshot)" using example_handled by blast
  have start: "run_turns True (\<lambda>_. 0) example_options [] (0, example_client) = Some (0, example_client)"
    "session_messages example_options []
      \<lparr>sn_client = example_client, sn_healthy = False, sn_readTimeout = InitialReadTimeout\<rparr> = Some example_session"
    by (simp_all add: example_session_def)
  have opts: "co_Store example_options = Some \<lparr>st_dir = ''/var/lib/homepi'', st_binding = \<lparr>sb_NodeID = ''node-1''\<rparr>\<rparr>"
    "st_binding \<lparr>st_dir = ''/var/lib/homepi'', st_binding = \<lparr>sb_NodeID = ''node-1''\<rparr>\<rparr> = co_Binding example_options"
    by (simp_all add: example_options_def)
  show ?thesis
    using shown_picture_safe [OF client_started opts start s'] s'(1) by blast
qed

theorem reconnect_window_witness:
  "\<bar>of_int (backoff False (\<lambda>_. 0) 9 (1 / 2)) - of_int (reconnect_delay 9) * (4 / 5 + 2 / 5 * (1 / 2))\<bar> \<le> (2 :: rat)"
  by (rule reconnect_window) simp_all

end
