(* ===== verification/Delivery.thy ===== *)
theory Delivery
  imports NodeApi SyncClient
begin

text \<open>
  A command's way from the daemon's queue to the display and its answers' way back: the pump of
  \<open>internal/nodeapi\<close>, the read loop and the results writer of \<open>internal/syncclient\<close>, the controller of
  \<open>internal/remotecontrol\<close> and \<open>Record\<close> of \<open>internal/commandbus\<close> composed, with the lemmas that carry the
  property about it.
\<close>

section \<open>Answers fit\<close>

text \<open>The daemon reads no answer longer than \<open>MaxCommandBytes\<close>; none is.\<close>

lemma format_time_length:
  assumes "format_time t = Some u"
  shows "length u \<le> 30"
proof -
  let ?secs = "t div second" and ?ns = "t mod second"
  let ?sod = "?secs mod 86400"
  obtain y yday where yd: "year_of_day (?secs div 86400) = (y, yday)" by (cases "year_of_day (?secs div 86400)")
  obtain mo d where md: "month_of_day (month_lengths y) 1 yday = (mo, d)"
    by (cases "month_of_day (month_lengths y) 1 yday")
  have range: "0 \<le> y" "y \<le> 9999" using assms by (auto simp: format_time_def yd md Let_def split: if_splits)
  have "0 \<le> yday" "yday < sum_list (month_lengths y)" using year_of_day_correct [OF yd] by (simp_all add: year_length_months)
  note M = month_of_day_correct [OF md this]
  then have mo: "1 \<le> mo" "mo \<le> 12" by (simp_all add: month_lengths_def)
  have "nat (mo - 1) < 12" using mo by simp
  from month_lengths_bound [OF this, of y] M have d: "0 \<le> d" "d + 1 < 100" by linarith+
  have u: "u = fixed_text 4 y @ ''-'' @ fixed_text 2 mo @ ''-'' @ fixed_text 2 (d + 1) @ ''T'' @
      fixed_text 2 (?sod div 3600) @ '':'' @ fixed_text 2 (?sod div 60 mod 60) @ '':'' @
      fixed_text 2 (?sod mod 60) @ fraction_text 9 (nat ?ns) @ ''Z''"
    using assms range unfolding format_time_def Let_def yd md prod.case by (simp only: if_True simp_thms option.inject)
  have two: "0 \<le> v \<Longrightarrow> v < 100 \<Longrightarrow> length (fixed_text 2 v) = 2" for v
    using fixed_text_chars(1) [of v 2] by simp
  have "length (fixed_digits 9 (nat ?ns)) = 9"
    using fixed_digits_facts(1) [of "nat ?ns" 9] by (simp add: second_def)
  then have "length (strip_zeros (fixed_digits 9 (nat ?ns))) \<le> 9"
    using strip_zeros_split [of "fixed_digits 9 (nat ?ns)"] by (metis le_add1 length_append)
  then have "length (fraction_text 9 (nat ?ns)) \<le> 10" by (simp add: fraction_text_def Let_def)
  moreover have "0 \<le> ?sod div 3600" "?sod div 3600 < 100" by simp_all
  ultimately show ?thesis using range mo d fixed_text_chars(1) [of y 4] by (simp add: u two)
qed

lemma marshal_int_length: "\<bar>n\<bar> < 10 ^ 20 \<Longrightarrow> length (marshal_int n) \<le> 21"
proof -
  assume n: "\<bar>n\<bar> < 10 ^ 20"
  then have "nat n < 10 ^ 20" "nat (- n) < 10 ^ 20" by simp_all
  then have "length (nat_digits (nat n)) \<le> 20" "length (nat_digits (nat (- n))) \<le> 20"
    by (auto intro: nat_digits_length simp del: power_numeral)
  then show ?thesis by (simp add: marshal_int_def format_int_def)
qed

lemma marshal_plain_length: "list_all verbatim s \<Longrightarrow> length (marshal_string s) = length s + 2"
  by (simp add: marshal_string_def escape_verbatim)

text \<open>The room a member takes: its key, its text, and the colon and comma.\<close>

definition room_of :: "(string \<times> string) list \<Rightarrow> nat" where
  "room_of ms = sum_list (map (\<lambda>(k, t). length (marshal_string k) + length t + 2) ms)"

lemma marshal_members_length: "length (marshal_members ms) \<le> room_of ms + 1"
  by (induction ms rule: marshal_members.induct) (auto simp: room_of_def)

definition small :: "member_texts \<Rightarrow> bool" where
  "small ms \<longleftrightarrow> room_of (map (\<lambda>(k, t). (k, the t)) ms) \<le> 200"

lemma small_pieces:
  "list_all verbatim k \<Longrightarrow> length k \<le> 20 \<Longrightarrow> length t \<le> 100 \<Longrightarrow> small (put k t)"
  "list_all verbatim k \<Longrightarrow> length k \<le> 20 \<Longrightarrow> time_ok i \<Longrightarrow> small (put_time k i)"
  using format_time_length [of i] marshal_plain_length [of k]
  by (auto simp: small_def room_of_def put_def put_time_def marshal_time_def time_ok_def)

lemma small_optional:
  "list_all verbatim k \<Longrightarrow> length k \<le> 20 \<Longrightarrow> length (marshal_string s) \<le> 100 \<Longrightarrow> small (put_nonempty k s)"
  "list_all verbatim k \<Longrightarrow> length k \<le> 20 \<Longrightarrow> length (marshal_int n) \<le> 100 \<Longrightarrow> small (put_nonzero k n)"
  "list_all verbatim k \<Longrightarrow> length k \<le> 20 \<Longrightarrow> time_ptr_ok p \<Longrightarrow> small (put_time_ptr k p)"
  using small_pieces [of k] by (auto simp: put_nonempty_def put_nonzero_def put_time_ptr_def time_ptr_ok_def
      small_def [of "[]"] room_of_def split: option.split)

lemma room_small:
  "list_all small parts \<Longrightarrow> room_of (map (\<lambda>(k, t). (k, the t)) (concat parts)) \<le> 200 * length parts"
  by (induction parts) (auto simp: small_def room_of_def)

lemma ident_char_verbatim: "is_ident_char c \<Longrightarrow> verbatim c"
  by (auto simp: is_ident_char_def is_lower_def is_upper_def is_digit_def verbatim_def quote_def backslash_def)

lemma ident_verbatim: "list_all is_ident_char s \<Longrightarrow> list_all verbatim s"
  by (simp add: list_all_iff ident_char_verbatim)

lemma uuid_char_verbatim: "c = CHR ''-'' \<or> is_hex_lower c \<Longrightarrow> verbatim c"
  by (rule ident_char_verbatim) (auto simp: is_ident_char_def is_lower_def is_digit_def is_hex_lower_def)

lemma uuid_verbatim:
  assumes "validUUID s"
  shows "list_all verbatim s" "length s = 36"
proof -
  have cells: "\<forall>i\<in>set [0..<36]. if i \<in> {8, 13, 18, 23} then s ! i = CHR ''-'' else is_hex_lower (s ! i)" and len: "length s = 36"
    using assms unfolding validUUID_def by blast+
  have "s ! i = CHR ''-'' \<or> is_hex_lower (s ! i)" if "i < 36" for i
  proof -
    have "i \<in> set [0..<36]" using that by (simp only: set_upt atLeastLessThan_iff) simp
    from bspec [OF cells this] show ?thesis by (metis (full_types))
  qed
  with len uuid_char_verbatim show "list_all verbatim s" "length s = 36" by (auto simp: list_all_length)
qed

lemma status_verbatim: "s = CommandAccepted \<or> Final s \<Longrightarrow> list_all verbatim s \<and> length s \<le> 10"
  by (elim disjE) (auto simp: Final_def verbatim_def quote_def backslash_def)

lemma result_text_small:
  assumes "result_ok r" "result_wire_ok r" "marshal_result r = Some t"
  shows "\<not> size_invalid t"
proof -
  have code: "list_all verbatim (rs_Code r) \<and> length (rs_Code r) \<le> 64"
    using assms(1) ident_verbatim [of "rs_Code r"] by (auto simp: result_ok_def safeCommandID_def)
  have ident: "length (marshal_string (rs_CommandID r)) \<le> 100"
    using uuid_verbatim [of "rs_CommandID r"] assms(1) marshal_plain_length by (simp add: result_ok_def)
  have status: "length (marshal_string (rs_Status r)) \<le> 100"
    using status_verbatim [of "rs_Status r"] assms(1) marshal_plain_length by (simp add: result_ok_def)
  have "uint (rs_Sequence r) < 2 ^ 64" using uint_lt2p [of "rs_Sequence r"] by simp
  then have seq: "length (marshal_int (uint (rs_Sequence r))) \<le> 100" using marshal_int_length [of "uint (rs_Sequence r)"] by simp
  have ms: "length (marshal_int (rs_DurationMS r)) \<le> 100" using marshal_int_length [of "rs_DurationMS r"] assms(1) by (simp add: result_ok_def)
  have keys: "list_all (list_all verbatim) [''command_id'', ''sequence'', ''status'', ''code'', ''received_at'', ''completed_at'', ''duration_ms'']"
    by (simp add: verbatim_def quote_def backslash_def)
  have "list_all small [put ''command_id'' (marshal_string (rs_CommandID r)), put ''sequence'' (marshal_int (uint (rs_Sequence r))),
      put ''status'' (marshal_string (rs_Status r)), put_nonempty ''code'' (rs_Code r), put_time ''received_at'' (rs_ReceivedAt r),
      put_time_ptr ''completed_at'' (rs_CompletedAt r), put_nonzero ''duration_ms'' (rs_DurationMS r)]"
    using keys ident status seq ms code assms(2)
    by (simp add: small_pieces small_optional marshal_plain_length result_wire_ok_def)
  note R = room_small [OF this]
  have "t = marshal_object (map (\<lambda>(k, t). (k, the t)) (result_members r))"
    using assms(3) by (simp add: marshal_result_def marshal_struct_def split: if_splits)
  then have "length t \<le> room_of (map (\<lambda>(k, t). (k, the t)) (result_members r)) + 2" "t \<noteq> []"
    using marshal_members_length by (simp_all add: marshal_object_alt)
  with R show ?thesis by (simp add: size_invalid_def MaxCommandBytes_def result_members_def)
qed
section \<open>The queue\<close>

text \<open>
  The entry of a command and what it may hold: it is waiting with room in the history, or it has ended with
  one of the given results.
\<close>

definition tracks :: "Bus \<Rightarrow> DisplayCommand \<Rightarrow> CommandResult set \<Rightarrow> bool" where
  "tracks b c R \<longleftrightarrow> (\<exists>i e. find_entry (dc_CommandID c) (sf_Entries (bus_state b)) = Some i \<and> e = sf_Entries (bus_state b) ! i \<and>
     dc_DeviceID (en_Command e) = dc_DeviceID c \<and> dc_Sequence (en_Command e) = dc_Sequence c \<and>
     (if final_entry e then en_Result e \<in> R else count_final (sf_Entries (bus_state b)) < MaxResults))"

definition ended_with :: "Bus \<Rightarrow> DisplayCommand \<Rightarrow> CommandResult set \<Rightarrow> bool" where
  "ended_with b c R \<longleftrightarrow> (\<exists>e\<in>set (sf_Entries (bus_state b)). dc_CommandID (en_Command e) = dc_CommandID c \<and>
     final_entry e \<and> en_Result e \<in> R)"

lemma find_entry_at: "find_entry cid es = Some i \<Longrightarrow> i < length es \<and> dc_CommandID (en_Command (es ! i)) = cid"
  by (induction es arbitrary: i) (auto split: if_splits)

lemma find_entry_update:
  "find_entry cid es = Some i \<Longrightarrow> dc_CommandID (en_Command e) = cid \<Longrightarrow> find_entry cid (es[i := e]) = Some i"
  by (induction es arbitrary: i) (auto split: if_splits)

lemma find_entry_distinct:
  "distinct (map (dc_CommandID \<circ> en_Command) es) \<Longrightarrow> e \<in> set es \<Longrightarrow>
   \<exists>i. find_entry (dc_CommandID (en_Command e)) es = Some i \<and> es ! i = e"
proof (induction es)
  case (Cons x es)
  show ?case
  proof (cases "x = e")
    case False
    with Cons obtain i where "find_entry (dc_CommandID (en_Command e)) es = Some i" "es ! i = e" by auto
    moreover have "dc_CommandID (en_Command x) \<noteq> dc_CommandID (en_Command e)"
      using Cons.prems False by (auto simp: image_iff)
    ultimately show ?thesis by simp
  qed simp
qed simp

lemma count_final_update: "count_final (es[i := e]) \<le> Suc (count_final es)"
  unfolding count_final_def
proof (induction es arbitrary: i)
  case (Cons x es)
  from Cons.IH [of "i - 1"] show ?case by (cases i) auto
qed simp

lemma count_final_same: "i < length es \<Longrightarrow> final_entry e = final_entry (es ! i) \<Longrightarrow> count_final (es[i := e]) = count_final es"
  unfolding count_final_def
proof (induction es arbitrary: i)
  case (Cons x es)
  from Cons.IH [of "i - 1"] Cons.prems show ?case by (cases i) auto
qed simp

lemma Record_tracks:
  assumes "tracks b c R" "answers c r" "r \<in> R" "Record (dc_DeviceID c) r now True b = (answer, b')"
  shows "tracks b' c R \<and> (Final (rs_Status r) \<longrightarrow> ended_with b' c R) \<and> (ended_with b c R \<longrightarrow> ended_with b' c R)"
proof -
  let ?es = "sf_Entries (bus_state b)"
  obtain i where i: "find_entry (dc_CommandID c) ?es = Some i" "dc_DeviceID (en_Command (?es ! i)) = dc_DeviceID c"
    "dc_Sequence (en_Command (?es ! i)) = dc_Sequence c"
    "if final_entry (?es ! i) then en_Result (?es ! i) \<in> R else count_final ?es < MaxResults"
    using assms(1) by (auto simp: tracks_def)
  note at = find_entry_at [OF i(1)]
  have r: "rs_CommandID r = dc_CommandID c" "rs_Sequence r = dc_Sequence c" "result_ok r"
    using assms(2) by (simp_all add: answer_simps)
  then have status: "rs_Status r = CommandAccepted \<or> Final (rs_Status r)" "\<not> is_zero_time (rs_ReceivedAt r)"
    by (simp_all add: result_ok_def is_zero_time_def)
  show ?thesis
  proof (cases "final_entry (?es ! i)")
    case True
    then have "b' = b" using assms(4) i r by (simp add: Record_def Let_def)
    moreover have "ended_with b c R" using True i(4) at by (auto simp: ended_with_def)
    ultimately show ?thesis using assms(1) by simp
  next
    case False
    let ?e = "record_result r now (?es ! i)"
    have e: "en_Result ?e = r" "dc_CommandID (en_Command ?e) = dc_CommandID c" "dc_DeviceID (en_Command ?e) = dc_DeviceID c"
      "dc_Sequence (en_Command ?e) = dc_Sequence c" "final_entry ?e = Final (rs_Status r)"
      using status(2) at i by (simp_all add: record_result_def Let_def final_entry_def)
    have "count_final (?es[i := ?e]) \<le> MaxResults" using count_final_update [of ?es i ?e] i(4) False by simp
    then have st: "sf_Entries (bus_state b') = ?es[i := ?e]"
      using assms(4) i r status(1) False by (auto simp: Record_def Let_def persistLocked_def trimLocked_def)
    have "find_entry (dc_CommandID c) (?es[i := ?e]) = Some i" using i(1) e(2) by (rule find_entry_update)
    moreover have "count_final (?es[i := ?e]) < MaxResults" if "\<not> Final (rs_Status r)"
    proof -
      have "count_final (?es[i := ?e]) = count_final ?es"
        using that e(5) False at by (intro count_final_same) simp_all
      with i(4) False show ?thesis by simp
    qed
    moreover have "?es[i := ?e] ! i = ?e" using at by simp
    ultimately have "tracks b' c R" unfolding tracks_def st using e assms(3) by metis
    moreover have "ended_with b' c R" if "Final (rs_Status r)"
    proof -
      have "?e \<in> set (?es[i := ?e])" using at by (intro set_update_memI) simp
      with that e(1,2,5) assms(3) show ?thesis unfolding ended_with_def st by metis
    qed
    moreover have "ended_with b' c R" if "ended_with b c R"
    proof -
      from that obtain e0 where e0: "e0 \<in> set ?es" "dc_CommandID (en_Command e0) = dc_CommandID c" "final_entry e0" "en_Result e0 \<in> R"
        by (auto simp: ended_with_def)
      with False have "e0 \<noteq> ?es ! i" by auto
      with e0(1) have "e0 \<in> set (?es[i := ?e])" by (metis in_set_conv_nth length_list_update nth_list_update_neq)
      with e0 show ?thesis unfolding ended_with_def st by blast
    qed
    ultimately show ?thesis by blast
  qed
qed
section \<open>The exchange\<close>

text \<open>
  A command frame reaches the display's read loop; the results writer sends what waits in the channel, each
  result with the time it is written and the time the daemon reads it.
\<close>

definition deliver :: "ClientOptions \<Rightarrow> message_env \<Rightarrow> instant \<Rightarrow> DisplayCommand \<Rightarrow> Session \<Rightarrow> Session option" where
  "deliver opts env now c sn = Option.bind (frame now (PushCommand c)) (\<lambda>f. session_messages opts [(env, f)] sn)"

fun report_results :: "string \<Rightarrow> (instant \<times> instant) list \<Rightarrow> Client \<Rightarrow> Server \<Rightarrow> Client \<times> Server" where
  "report_results device [] cl s = (cl, s)"
| "report_results device ((written, read) # ts) cl s =
     (case write_result written cl of
        (None, cl') \<Rightarrow> report_results device ts cl' s
      | (Some f, cl') \<Rightarrow> report_results device ts cl' (fst (drain_message device read True f s)))"

definition sendable :: "DisplayCommand \<Rightarrow> CommandResult \<Rightarrow> bool" where
  "sendable c r \<longleftrightarrow> answers c r \<and> result_wire_ok r"

lemma report_tracks:
  assumes "list_all (sendable c) (cl_results cl)" "set (cl_results cl) \<subseteq> R" "length ts = length (cl_results cl)"
    "list_all (time_ok \<circ> fst) ts" "sv_commands s = Some b" "tracks b c R"
  shows "\<exists>b'. sv_commands (snd (report_results (dc_DeviceID c) ts cl s)) = Some b' \<and> tracks b' c R \<and>
    ((\<exists>r\<in>set (cl_results cl). Final (rs_Status r)) \<or> ended_with b c R \<longrightarrow> ended_with b' c R)"
  using assms
proof (induction "dc_DeviceID c" ts cl s arbitrary: b rule: report_results.induct)
  case (1 cl s)
  then show ?case by simp
next
  case (2 written read ts cl s)
  then obtain r rs where rs: "cl_results cl = r # rs" by (cases "cl_results cl") simp_all
  let ?cl' = "cl\<lparr>cl_results := rs\<rparr>"
  have r: "answers c r" "result_wire_ok r" "r \<in> R" "time_ok written" using 2(3-6) by (simp_all add: rs sendable_def)
  then have ok: "result_ok r" by (simp add: answer_simps)
  obtain f raw where f: "Encode MsgCommandResult written (Some (marshal_result r)) = Some f" "marshal_result r = Some raw"
    "strictJSON result_fields zero_result raw = Some r"
    "DecodeEnvelope f = Some \<lparr>en_Type = MsgCommandResult, en_SentAt = written, en_Payload = raw\<rparr>"
    using result_frame_read [OF r(2,4)] by blast
  have w: "write_result written cl = (Some f, ?cl')" by (simp add: write_result_def rs f(1))
  have "result_checks r = None" using ok result_checks_None by blast
  then have decoded: "DecodeCommandResult raw = Inr r"
    using result_text_small [OF ok r(2) f(2)] f(3) by (simp add: DecodeCommandResult_def)
  obtain answer b1 where b1: "Record (dc_DeviceID c) r read True b = (answer, b1)" by (rule prod.exhaust)
  note T = Record_tracks [OF 2(8) r(1,3) b1]
  have drained: "sv_commands (fst (drain_message (dc_DeviceID c) read True f s)) = Some b1"
    using 2(7) f(4) decoded b1 by (auto simp: drain_message_def split: sum.split)
  have "list_all (sendable c) rs" "set rs \<subseteq> R" "length ts = length rs" "list_all (time_ok \<circ> fst) ts"
    using 2(3-6) by (simp_all add: rs)
  then have "\<exists>b'. sv_commands (snd (report_results (dc_DeviceID c) ts ?cl' (fst (drain_message (dc_DeviceID c) read True f s)))) = Some b' \<and>
      tracks b' c R \<and> ((\<exists>r\<in>set rs. Final (rs_Status r)) \<or> ended_with b1 c R \<longrightarrow> ended_with b' c R)"
    using 2(2) [OF w [symmetric] refl _ _ _ _ drained T [THEN conjunct1]] by simp
  with T show ?case by (auto simp: w rs)
qed

text \<open>The display can answer: it does not know the command yet, or it has ended it.\<close>

definition answerable :: "Controller \<Rightarrow> DisplayCommand \<Rightarrow> bool" where
  "answerable h c \<longleftrightarrow> ctl_ok h \<and>
     (case lookup_record (dc_CommandID c) (ct_store h) of
        None \<Rightarrow> True
      | Some item \<Rightarrow> sendable c (lr_Result item) \<and> Final (rs_Status (lr_Result item)))"

definition printable_clock :: "HandleEnv \<Rightarrow> bool" where
  "printable_clock env \<longleftrightarrow> sane_clock env \<and> time_ok (he_admit env) \<and> time_ok (he_complete env) \<and> time_ok (he_failure env)"

lemma verbatim_utf8: "list_all verbatim s \<Longrightarrow> utf8_text s"
  by (induction s) (auto simp: utf8_text.simps verbatim_def)

lemma sendable_stamped:
  assumes "answers c r" "stamped env r" "printable_clock env"
  shows "sendable c r"
proof -
  have ok: "result_ok r" using assms(1) by (simp add: answer_simps)
  have "list_all verbatim (rs_CommandID r)" "list_all verbatim (rs_Status r)" "list_all verbatim (rs_Code r)"
    using ok uuid_verbatim(1) status_verbatim ident_verbatim by (auto simp: result_ok_def safeCommandID_def)
  with ok assms show ?thesis
    by (auto simp: sendable_def result_wire_ok_def verbatim_utf8 stamped_def printable_clock_def time_ptr_ok_def
        result_ok_def in_int64_def)
qed

lemma Handle_answerable:
  assumes "answerable h c" "printable_clock env" "validUUID (dc_CommandID c)" "dc_Sequence c \<noteq> 0" "dc_Kind c \<noteq> CommandRefreshData"
  shows "\<exists>results h'. Handle env c h = Some (results, h') \<and> length results \<in> {1, 2} \<and> list_all (sendable c) results \<and>
    Final (rs_Status (last results)) \<and> (he_admit_ok env \<and> he_complete_ok env \<longrightarrow> answerable h' c)"
proof (cases "lookup_record (dc_CommandID c) (ct_store h)")
  case None
  have "ctl_ok h" "sane_clock env" using assms(1,2) by (simp_all add: answerable_def printable_clock_def)
  from Handle_answers [OF this(1) None this(2) assms(3,4)] obtain results h' where H:
    "Handle env c h = Some (results, h')" "ctl_ok h'" "length results \<in> {1, 2}" "list_all (answers c) results"
    "list_all (stamped env) results" "Final (rs_Status (last results))"
    "he_admit_ok env \<and> he_complete_ok env \<longrightarrow>
       (\<exists>item. lookup_record (dc_CommandID c) (ct_store h') = Some item \<and> lr_Result item = last results)"
    using assms(5) by blast
  have "list_all (sendable c) results" using H(4,5) sendable_stamped [OF _ _ assms(2)] by (simp add: list_all_iff)
  moreover from this have "sendable c (last results)" using H(3) by (cases results rule: rev_cases) auto
  then have "he_admit_ok env \<and> he_complete_ok env \<longrightarrow> answerable h' c" using H(2,6,7) by (auto simp: answerable_def)
  ultimately show ?thesis using H by blast
next
  case (Some item)
  then have "Handle env c h = Some ([lr_Result item], h)" by (simp add: Handle_def admit_def)
  with assms(1) Some show ?thesis by (auto simp: answerable_def)
qed

lemma command_frame_small:
  assumes "frame now (PushCommand c) = Some f" "marshal_command c = Some raw" "length raw \<le> MaxCommandBytes" "time_ok now"
  shows "length f \<le> MaxBytes"
proof -
  have False: "raw \<noteq> []" using assms(2) by (auto simp: marshal_command_def marshal_struct_def marshal_object_alt split: if_splits)
  let ?parts = "[put ''type'' (marshal_string MsgDisplayCommand), put_time ''sent_at'' now]"
  have keys: "list_all (list_all verbatim) [''type'', ''sent_at'', ''payload'', MsgDisplayCommand]"
    by (simp add: verbatim_def quote_def backslash_def)
  have "list_all small ?parts" using keys assms(4) by (simp add: small_pieces marshal_plain_length)
  from room_small [OF this] have "room_of (map (\<lambda>(k, t). (k, the t)) (concat ?parts)) \<le> 400" by simp
  moreover have "room_of (map (\<lambda>(k, t). (k, the t)) (put ''payload'' raw)) = length raw + 11"
    using keys marshal_plain_length [of "''payload''"] by (simp add: room_of_def put_def)
  ultimately have "room_of (map (\<lambda>(k, t). (k, the t)) (concat ?parts @ put ''payload'' raw)) \<le> 411 + MaxCommandBytes"
    using assms(3) by (simp add: room_of_def)
  moreover have "f = marshal_object (map (\<lambda>(k, t). (k, the t)) (concat ?parts @ put ''payload'' raw))"
    using assms(1,2) False by (simp add: Encode_def marshal_struct_def split: if_splits)
  ultimately show ?thesis
    using marshal_members_length [of "map (\<lambda>(k, t). (k, the t)) (concat ?parts @ put ''payload'' raw)"]
    by (simp add: marshal_object_alt MaxCommandBytes_def MaxBytes_def)
qed

lemma deliver_answers:
  assumes "command_wire_ok c" "length (the (marshal_command c)) \<le> MaxCommandBytes" "time_ok now"
    and "validUUID (dc_CommandID c)" "dc_Sequence c \<noteq> 0" "dc_Kind c \<noteq> CommandRefreshData"
    and "cl_handler (sn_client sn) = Some h" "answerable h c" "printable_clock (me_handle env)" "2 \<le> me_queued env"
    and "cl_results (sn_client sn) = []"
  shows "\<exists>sn' h'. deliver opts env now c sn = Some sn' \<and> cl_handler (sn_client sn') = Some h' \<and>
    (he_admit_ok (me_handle env) \<and> he_complete_ok (me_handle env) \<longrightarrow> answerable h' c) \<and>
    list_all (sendable c) (cl_results (sn_client sn')) \<and> (\<exists>r\<in>set (cl_results (sn_client sn')). Final (rs_Status r))"
proof -
  obtain f raw where f: "frame now (PushCommand c) = Some f" "marshal_command c = Some raw"
    "strictJSON command_fields zero_command raw = Some c"
    "DecodeEnvelope f = Some \<lparr>en_Type = MsgDisplayCommand, en_SentAt = now, en_Payload = raw\<rparr>"
    using command_frame_read [OF assms(1,3)] by blast
  have fits: "length f \<le> MaxBytes" using command_frame_small [OF f(1,2) _ assms(3)] assms(2) f(2) by simp
  have "raw \<noteq> []" using command_text_read [OF assms(1)] f(2) reads_nonempty by auto
  then have decoded: "DecodeDisplayCommand raw (me_now env) = (c, DisplayCommand_Validate c (me_now env))"
    using assms(2) f(2,3) by (simp add: DecodeDisplayCommand_def size_invalid_def)
  have "dc_CommandID c \<noteq> []" using assms(4) by (auto simp: validUUID_def)
  obtain results h' where H: "Handle (me_handle env) c h = Some (results, h')" "length results \<in> {1, 2}"
    "list_all (sendable c) results" "Final (rs_Status (last results))"
    "he_admit_ok (me_handle env) \<and> he_complete_ok (me_handle env) \<longrightarrow> answerable h' c"
    using Handle_answerable [OF assms(8,9,4-6)] by blast
  let ?sn' = "sn\<lparr>sn_client := notify (queueResults (me_queued env) results ((sn_client sn)\<lparr>cl_handler := Some h'\<rparr>))\<rparr>"
  have "deliver opts env now c sn = Some ?sn'"
    using assms(5,7) decoded H(1) \<open>dc_CommandID c \<noteq> []\<close>
    unfolding deliver_def f(1) Option.bind.simps session_messages.simps session_message_def f(4)
    by (simp add: command_message_def fits [THEN leD])
  moreover have "cl_results (sn_client ?sn') = results" "cl_handler (sn_client ?sn') = Some h'"
    using assms(10,11) H(2) by (auto simp: notify_def queueResults_def)
  moreover have "last results \<in> set results" using H(2) by (intro last_in_set) auto
  ultimately show ?thesis using H by (intro exI [of _ ?sn'] exI [of _ h']) auto
qed
lemma expire_fresh:
  "rs_Status (en_Result e) = CommandPublished \<Longrightarrow> now < dc_ExpiresAt (en_Command e) \<Longrightarrow> expire_entry now e = (e, False)"
  by (simp add: expire_entry_def Let_def)

lemma expire_ident: "dc_CommandID (en_Command (fst (expire_entry now e))) = dc_CommandID (en_Command e)"
  by (simp add: expire_entry_def close_entry_def Let_def)

lemma waiting_command_sent:
  assumes "pump_turn env dev token p s = (out, Some p', s')" "sv_commands s = Some b" "e \<in> set (sf_Entries (bus_state b))"
    and "dc_DeviceID (en_Command e) = dev" "rs_Status (en_Result e) = CommandPublished" "te_queue_at env < dc_ExpiresAt (en_Command e)"
    and "te_persisted env" "dc_CommandID (en_Command e) \<notin> set (pu_sentCommands p)"
    and "distinct (map (dc_CommandID \<circ> en_Command) (sf_Entries (bus_state b)))" "length (sf_Entries (bus_state b)) \<le> MaxResults"
  shows "PushCommand (en_Command e) \<in> set out \<and> (\<exists>b'. sv_commands s' = Some b' \<and> tracks b' (en_Command e) R)"
proof -
  let ?es = "map (fst \<circ> expire_entry (te_queue_at env)) (sf_Entries (bus_state b))"
  have fresh: "expire_entry (te_queue_at env) e = (e, False)" using assms(5,6) by (rule expire_fresh)
  have open_entry: "\<not> final_entry e" using assms(5) by (simp add: final_entry_def)
  have "(fst \<circ> expire_entry (te_queue_at env)) e \<in> set ?es" using assms(3) by (simp only: set_map image_eqI)
  then have e: "e \<in> set ?es" by (simp only: comp_apply fresh fst_conv)
  let ?cs = "map en_Command (filter (is_pending_for dev (set (pu_sentCommands p))) ?es)"
  have "\<exists>b'. Pending dev (set (pu_sentCommands p)) (te_queue_at env) (te_persisted env) b = (Inr ?cs, b') \<and> sf_Entries (bus_state b') = ?es"
    using assms(7) by (cases "list_ex (snd \<circ> expire_entry (te_queue_at env)) (sf_Entries (bus_state b))")
      (simp_all add: Pending_def expireLocked_def persistLocked_def Let_def)
  then obtain b' where P: "Pending dev (set (pu_sentCommands p)) (te_queue_at env) (te_persisted env) b = (Inr ?cs, b')"
    "sf_Entries (bus_state b') = ?es" by blast
  have "is_pending_for dev (set (pu_sentCommands p)) e" using assms(4,8) open_entry by (simp add: is_pending_for_def)
  with e have "e \<in> set (filter (is_pending_for dev (set (pu_sentCommands p))) ?es)" by (simp only: set_filter mem_Collect_eq simp_thms)
  then have sent_now: "en_Command e \<in> set ?cs" unfolding set_map [of en_Command] by (rule imageI)
  obtain out1 p1 out2 where A: "push_state env s p = (out1, True, p1)"
    "push_commands env dev (length out1) s p1 = (out2, True, p', s')" "out = out1 @ out2"
    using assms(1) by (rule pump_turn_going)
  from A(2) assms(2) P(1) push_state_complete [OF A(1)] obtain sent where
    C: "send_commands env (length out1) ?cs (pu_sentCommands p) = (out2, True, sent)" "s' = s\<lparr>sv_commands := Some b'\<rparr>"
    by (auto simp: push_commands_def simp del: filter_map split: prod.splits)
  have "out2 = map PushCommand ?cs" using send_commands_complete [OF C(1)] by blast
  then have "PushCommand (en_Command e) \<in> set out" using imageI [OF sent_now, of PushCommand] by (simp only: A(3) set_append set_map Un_iff simp_thms)
  moreover have "tracks b' (en_Command e) R"
  proof -
    have "map (dc_CommandID \<circ> en_Command) ?es = map (dc_CommandID \<circ> en_Command) (sf_Entries (bus_state b))"
      by (simp add: expire_ident)
    with assms(9) have "distinct (map (dc_CommandID \<circ> en_Command) ?es)" by metis
    from find_entry_distinct [OF this e] obtain i where "find_entry (dc_CommandID (en_Command e)) ?es = Some i" "?es ! i = e" by blast
    moreover have "count_final ?es < length ?es"
      unfolding count_final_def using e open_entry by (rule length_filter_less)
    ultimately show ?thesis using assms(10) open_entry by (auto simp: tracks_def P(2))
  qed
  ultimately show ?thesis using C(2) by simp
qed

section \<open>Commands without parameters\<close>

text \<open>A nil parameter text is written as \<open>null\<close>, so the other side reads a command that has a parameter text.\<close>

definition nulled :: "DisplayCommand \<Rightarrow> DisplayCommand" where
  "nulled c = c\<lparr>dc_Params := ''null''\<rparr>"

lemma null_params: "marshal_params ''null'' = Some ''null''"
proof -
  have "parse_json ''null'' \<noteq> None" using reads_parse_json [OF reads_null] by simp
  moreover have "compact_json False ''null'' = ''null''" by code_simp
  ultimately show ?thesis by (simp add: marshal_params_def)
qed

lemma null_params_text:
  assumes "dc_Params c = []" "list_all utf8_text [dc_CommandID c, dc_DeviceID c, dc_Kind c, dc_Priority c]"
    and "in_int64 (dc_SchemaMajor c)" "time_ok (dc_IssuedAt c)" "time_ok (dc_ExpiresAt c)"
  shows "marshal_command c = marshal_command (nulled c) \<and> command_wire_ok (nulled c)"
proof
  have "marshal_params [] = Some ''null''" by (simp add: marshal_params_def)
  then show "marshal_command c = marshal_command (nulled c)"
    by (simp add: marshal_command_def command_members_def nulled_def assms(1) null_params)
  show "command_wire_ok (nulled c)"
    using assms null_params reads_null by (auto simp: command_wire_ok_def nulled_def)
qed

lemma null_params_invalid: "validateCommandParams kind ''null'' = Some ''invalid_param''"
proof -
  have "trim_space ''null'' = ''null''" by (rule trim_space_visible) (simp add: is_visible_def)
  then show ?thesis by (simp add: validateCommandParams_def Let_def)
qed

lemma nulled_refused:
  "DisplayCommand_Validate (nulled c) later \<noteq> None"
  "dc_Params c = [] \<Longrightarrow> DisplayCommand_Validate c later = None \<Longrightarrow> DisplayCommand_Validate (nulled c) later = Some ''invalid_param''"
  by (simp add: DisplayCommand_Validate_None null_params_invalid nulled_def)
    (auto simp: DisplayCommand_Validate_def nulled_def null_params_invalid err_if_def split: if_splits)

lemma kind_verbatim:
  assumes "CommandKind_valid k"
  shows "list_all verbatim k \<and> length k \<le> 20" "list_all verbatim (defaultPriority k) \<and> length (defaultPriority k) \<le> 20"
  using assms by (auto simp: CommandKind_valid_def defaultPriority_def verbatim_def quote_def backslash_def)

lemma null_command_small:
  assumes "validUUID (dc_CommandID c)" "safeCommandID (dc_DeviceID c)" "CommandKind_valid (dc_Kind c)"
    and "dc_Priority c = defaultPriority (dc_Kind c)" "dc_SchemaMajor c = CommandSchemaMajor"
    and "time_ok (dc_IssuedAt c)" "time_ok (dc_ExpiresAt c)" "marshal_command (nulled c) = Some raw"
  shows "\<not> size_invalid raw"
proof -
  have texts: "length (marshal_string (dc_CommandID c)) \<le> 100" "length (marshal_string (dc_DeviceID c)) \<le> 100"
    "length (marshal_string (dc_Kind c)) \<le> 100" "length (marshal_string (dc_Priority c)) \<le> 100"
    using uuid_verbatim [OF assms(1)] ident_verbatim [of "dc_DeviceID c"] assms(2) kind_verbatim [OF assms(3)] assms(4)
    by (simp_all add: marshal_plain_length safeCommandID_def)
  have "uint (dc_Sequence c) < 2 ^ 64" using uint_lt2p [of "dc_Sequence c"] by simp
  then have nums: "length (marshal_int (uint (dc_Sequence c))) \<le> 100" "length (marshal_int (dc_SchemaMajor c)) \<le> 100"
    using marshal_int_length [of "uint (dc_Sequence c)"] marshal_int_length [of "dc_SchemaMajor c"] assms(5)
    by (simp_all add: CommandSchemaMajor_def)
  let ?parts = "[put ''schema_major'' (marshal_int (dc_SchemaMajor c)), put ''command_id'' (marshal_string (dc_CommandID c)),
      put ''device_id'' (marshal_string (dc_DeviceID c)), put ''kind'' (marshal_string (dc_Kind c)), put ''params'' ''null'',
      put_time ''issued_at'' (dc_IssuedAt c), put_time ''expires_at'' (dc_ExpiresAt c),
      put ''priority'' (marshal_string (dc_Priority c)), put ''sequence'' (marshal_int (uint (dc_Sequence c)))]"
  have keys: "list_all (list_all verbatim) [''schema_major'', ''command_id'', ''device_id'', ''kind'', ''params'', ''issued_at'',
      ''expires_at'', ''priority'', ''sequence'']"
    by (simp add: verbatim_def quote_def backslash_def)
  have "list_all small ?parts" using keys texts nums assms(6,7) by (simp add: small_pieces)
  from room_small [OF this] have "room_of (map (\<lambda>(k, t). (k, the t)) (concat ?parts)) \<le> 1800" by simp
  moreover have "command_members (nulled c) = concat ?parts"
    using null_params by (simp add: command_members_def nulled_def put_def)
  then have "raw = marshal_object (map (\<lambda>(k, t). (k, the t)) (concat ?parts))"
    using assms(8) by (auto simp: marshal_command_def marshal_struct_def split: if_splits)
  ultimately show ?thesis
    using marshal_members_length [of "map (\<lambda>(k, t). (k, the t)) (concat ?parts)"]
    by (simp add: size_invalid_def marshal_object_alt MaxCommandBytes_def)
qed

text \<open>
  C25. When a request without parameters is published, no display carries it out: its command
  crosses the wire as a message whose payload has \<open>"params":null\<close>, and whenever the display decodes that payload it
  gets an error, \<open>invalid_param\<close> throughout the time in which the command is valid.
\<close>

theorem missing_params_refused:
  assumes "Publish dev request t (Some random) now ok b = (Inr e, b')" "cr_Params request = []" "CommandBus.inv b"
    and "unat (sf_Sequence (bus_state b)) < 2 ^ 64 - 1" "length random = 16" "\<forall>x\<in>set random. x < 256"
    and "safeCommandID dev" "0 < now" "time_ok now" "time_ok (now + cr_TTLSeconds request * second)" "time_ok sent"
  shows "\<exists>f raw. frame sent (PushCommand (en_Command e)) = Some f \<and>
    DecodeEnvelope f = Some \<lparr>en_Type = MsgDisplayCommand, en_SentAt = sent, en_Payload = raw\<rparr> \<and>
    (\<forall>later. snd (DecodeDisplayCommand raw later) \<noteq> None) \<and>
    (\<forall>later\<in>{now - 30 * second..<now + cr_TTLSeconds request * second}.
       DecodeDisplayCommand raw later = (nulled (en_Command e), Some ''invalid_param''))"
proof -
  let ?c = "en_Command e"
  obtain st cid where pub: "newUUID (Some random) = Some cid" "ValidateCommandRequest request = None" "e = published dev request cid now st"
    using assms(1) by (rule Publish_done)
  have c: "dc_Params ?c = []" "dc_IssuedAt ?c = now" "dc_ExpiresAt ?c = now + cr_TTLSeconds request * second" "dc_DeviceID ?c = dev"
    "dc_CommandID ?c = cid" "dc_SchemaMajor ?c = CommandSchemaMajor" "dc_Kind ?c = cr_Kind request" "dc_Priority ?c = cr_Priority request"
    using assms(2) by (simp_all add: pub(3) published_def new_entry_def new_command_def)
  have valid: "validUUID (dc_CommandID ?c)" "safeCommandID (dc_DeviceID ?c)" "CommandKind_valid (dc_Kind ?c)"
    "dc_Priority ?c = defaultPriority (dc_Kind ?c)"
    using newUUID_valid [OF pub(1) assms(5,6)] assms(7) pub(2) by (simp_all add: c ValidateCommandRequest_None)
  have "list_all utf8_text [dc_CommandID ?c, dc_DeviceID ?c, dc_Kind ?c, dc_Priority ?c]"
    using uuid_verbatim [OF valid(1)] ident_verbatim [of "dc_DeviceID ?c"] kind_verbatim [OF valid(3)] valid(2,4)
    by (simp add: verbatim_utf8 safeCommandID_def)
  then have wire: "marshal_command ?c = marshal_command (nulled ?c)" "command_wire_ok (nulled ?c)"
    using null_params_text [OF c(1)] assms(9,10) by (simp_all add: c CommandSchemaMajor_def in_int64_def)
  obtain f raw where f: "frame sent (PushCommand (nulled ?c)) = Some f" "marshal_command (nulled ?c) = Some raw"
    "strictJSON command_fields zero_command raw = Some (nulled ?c)"
    "DecodeEnvelope f = Some \<lparr>en_Type = MsgDisplayCommand, en_SentAt = sent, en_Payload = raw\<rparr>"
    using command_frame_read [OF wire(2) assms(11)] by blast
  have "\<not> size_invalid raw" using null_command_small [OF valid _ _ _ f(2)] assms(9,10) by (simp add: c)
  then have decoded: "DecodeDisplayCommand raw later = (nulled ?c, DisplayCommand_Validate (nulled ?c) later)" for later
    by (simp add: DecodeDisplayCommand_def f(3))
  have "DisplayCommand_Validate ?c later = None" if "later \<in> {now - 30 * second..<now + cr_TTLSeconds request * second}" for later
    using published_command_valid [OF assms(1,3-8)] that by simp
  then have "DecodeDisplayCommand raw later = (nulled ?c, Some ''invalid_param'')"
    if "later \<in> {now - 30 * second..<now + cr_TTLSeconds request * second}" for later
    using nulled_refused(2) [OF c(1)] that by (simp add: decoded)
  with f(1,4) wire(1) decoded nulled_refused(1) show ?thesis by (intro exI [of _ f] exI [of _ raw]) simp
qed

definition bare_request :: CommandRequest where
  "bare_request = \<lparr>cr_Kind = CommandNextPage, cr_Params = [], cr_Priority = PriorityNormal, cr_TTLSeconds = 30\<rparr>"

lemma bare_request_valid: "ValidateCommandRequest bare_request = None"
proof -
  have "validateCommandParams CommandNextPage [] = None" by code_simp
  then show ?thesis by (simp add: ValidateCommandRequest_None CommandKind_valid_def defaultPriority_def bare_request_def)
qed

theorem missing_params_refused_witness:
  "\<exists>e b' f raw. Publish ''d'' bare_request 0 example_random (10 * second) True example_bus = (Inr e, b') \<and>
     frame (20 * second) (PushCommand (en_Command e)) = Some f \<and>
     DecodeEnvelope f = Some \<lparr>en_Type = MsgDisplayCommand, en_SentAt = 20 * second, en_Payload = raw\<rparr> \<and>
     snd (DecodeDisplayCommand raw (20 * second)) = Some ''invalid_param''"
proof -
  let ?e = "published ''d'' bare_request ''00000000-0000-4000-8000-000000000000'' (10 * second) empty_state"
  obtain b' where pub: "Publish ''d'' bare_request 0 example_random (10 * second) True example_bus = (Inr ?e, b')"
    by (auto simp: Publish_cases bare_request_valid room_def pendingCountLocked_def MaxPending_def example_uuid example_bus_def
        empty_state_def)
  have t: "time_ok (10 * second)" "time_ok (20 * second)" "time_ok (40 * second)" unfolding time_ok_def by code_simp+
  have ttl: "10 * second + cr_TTLSeconds bare_request * second = 40 * second" "cr_Params bare_request = []"
    by (simp_all add: bare_request_def)
  have "unat (sf_Sequence (bus_state example_bus)) < 2 ^ 64 - 1" "safeCommandID ''d''" "(0 :: int) < 10 * second"
    by (simp_all add: example_bus_def empty_state_def safeCommandID_def is_ident_char_def is_lower_def second_def)
  then show ?thesis
    using missing_params_refused [OF pub [unfolded example_random_def] ttl(2) inv_example_bus _ _ _ _ _ t(1) _ t(2)] pub t(3) ttl(1)
    by (fastforce simp: second_def)
qed

end
