(* ===== verification/ScreenText.thy ===== *)
theory ScreenText
  imports Protocol Float64
begin

text \<open>
  The text pieces of a screen line (\<open>internal/ui/format.go\<close>): what may appear on the screen, fixed
  widths, the progress bar, and the labels of percentages, ages and reset times. Widths are counted in
  bytes, as \<open>len\<close> does; every line is reduced to printable ASCII before it is cut to the grid.
\<close>

section \<open>The grid\<close>

abbreviation (input) Cols :: nat where "Cols \<equiv> 60"
abbreviation (input) Rows :: nat where "Rows \<equiv> 20"
abbreviation (input) inner :: nat where "inner \<equiv> 58"
abbreviation (input) barCells :: nat where "barCells \<equiv> 16"
abbreviation (input) maxProviderName :: nat where "maxProviderName \<equiv> 12"

section \<open>Widths\<close>

definition sanitize :: "string \<Rightarrow> string" where
  "sanitize s = filter (\<lambda>c. 32 \<le> code c \<and> code c \<le> 126) s"

definition spaces :: "nat \<Rightarrow> string" where
  "spaces n = replicate n CHR '' ''"

definition fit :: "string \<Rightarrow> nat \<Rightarrow> string" where
  "fit s width = (if length s > width then take width s else s @ spaces (width - length s))"

definition padTo :: "string \<Rightarrow> nat \<Rightarrow> string" where
  "padTo s width = (if length s \<ge> width then s else s @ spaces (width - length s))"

text \<open>The width is a difference and may be negative.\<close>

definition padLeft :: "string \<Rightarrow> int \<Rightarrow> string" where
  "padLeft s width = (if int (length s) \<ge> width then s else spaces (nat (width - int (length s))) @ s)"

definition clamp :: "string \<Rightarrow> nat \<Rightarrow> string" where
  "clamp s n = (if length s \<le> n then s else take n s)"

definition truncName :: "string \<Rightarrow> nat \<Rightarrow> string" where
  "truncName s n =
     (let t = sanitize s
      in if length t \<le> n then t
         else if n \<le> 1 then clamp t n
         else take (n - 1) t @ ''~'')"

definition center :: "string \<Rightarrow> string" where
  "center s =
     (let t = sanitize s
      in if length t \<ge> inner then clamp t inner else spaces ((inner - length t) div 2) @ t)"

section \<open>Percentages\<close>

definition bar :: "int option \<Rightarrow> string" where
  "bar percentLeft =
     (case percentLeft of
        None \<Rightarrow> ''['' @ replicate barCells CHR ''-'' @ '']''
      | Some p0 \<Rightarrow>
          let p1 = (if p0 < 0 then 0 else p0);
              p = (if p1 > 100 then 100 else p1);
              f = go_div (p * int barCells + 50) 100;
              filled = nat (if f > int barCells then int barCells else f)
          in ''['' @ replicate filled CHR ''#'' @ replicate (barCells - filled) CHR ''-'' @ '']'')"

definition percentLabel :: "int option \<Rightarrow> string" where
  "percentLabel p =
     (case p of
        None \<Rightarrow> ''--''
      | Some v \<Rightarrow>
          if v < 0 then ''--''
          else if v = 0 then ''0%''
          else if v < 1 then ''<1%''
          else format_int v @ ''%'')"

section \<open>Durations\<close>

text \<open>
  \<open>Duration.Seconds\<close>, \<open>Minutes\<close> and \<open>Hours\<close>: the whole units and the fraction, each converted and
  added in \<open>float64\<close>. \<open>Duration.Round\<close>, for a duration that is not negative.
\<close>

definition float_units :: "duration \<Rightarrow> duration \<Rightarrow> rat" where
  "float_units unit d = fl (of_int (go_div d unit) + fl (of_int (d - go_div d unit * unit) / of_int unit))"

definition Round :: "duration \<Rightarrow> duration \<Rightarrow> duration" where
  "Round d m =
     (let r = d mod m
      in if r + r < m then d - r
         else if d + (m - r) < 2 ^ 63 then d + (m - r) else 2 ^ 63 - 1)"

definition shortDuration :: "duration \<Rightarrow> string" where
  "shortDuration d0 =
     (let d = (if d0 < 0 then 0 else d0)
      in if d < minute then format_int (trunc (float_units second d)) @ ''S''
         else if d < hour then format_int (trunc (float_units minute d)) @ ''M''
         else if d < 24 * hour then format_int (trunc (float_units hour d)) @ ''H''
         else format_int (trunc (fl (float_units hour d / 24))) @ ''D'')"

definition countdown :: "duration \<Rightarrow> string" where
  "countdown d0 =
     (let d = (if d0 < 0 then 0 else d0)
      in if d < minute then format_int (trunc (float_units second (Round d second))) @ ''S''
         else if d < hour then format_int (trunc (float_units minute (Round d minute))) @ ''M''
         else if d < 24 * hour then format_int (trunc (float_units hour (Round d hour))) @ ''H''
         else format_int (trunc (fl (float_units hour (Round d (24 * hour)) / 24))) @ ''D'')"

definition ResetLabel :: "instant option \<Rightarrow> instant \<Rightarrow> bool \<Rightarrow> string" where
  "ResetLabel resetsAt now rolling =
     (case resetsAt of
        None \<Rightarrow> (if rolling then ''ROLLING'' else '''')
      | Some t \<Rightarrow>
          let d = time_sub t now
          in if d \<le> 0 then ''RESET NOW'' else ''RESET '' @ countdown d)"

section \<open>Badges as text\<close>

fun badge_text :: "DisplayStatus \<Rightarrow> string" where
  "badge_text DisplayOK = ''OK''"
| "badge_text DisplayWarn = ''WARN''"
| "badge_text DisplayCrit = ''CRIT''"
| "badge_text DisplayDelayed = ''DELAY''"
| "badge_text DisplayStale = ''STALE''"
| "badge_text DisplayAuth = ''AUTH''"
| "badge_text DisplayNA = ''N/A''"
| "badge_text DisplayError = ''ERROR''"

fun link_text :: "LinkStatus \<Rightarrow> string" where
  "link_text LinkLive = ''LIVE''"
| "link_text LinkOffline = ''OFFLINE''"
| "link_text LinkWait = ''WAIT''"
| "link_text LinkCrit = ''CRIT''"

section \<open>Facts\<close>

definition printable :: "string \<Rightarrow> bool" where
  "printable s \<longleftrightarrow> list_all (\<lambda>c. 32 \<le> code c \<and> code c \<le> 126) s"

lemma printable_append [simp]: "printable (s @ t) \<longleftrightarrow> printable s \<and> printable t"
  by (simp add: printable_def)

lemma printable_sanitize [simp]: "printable (sanitize s)"
  by (simp add: printable_def sanitize_def list_all_iff)

lemma printable_spaces [simp]: "printable (spaces n)"
  by (simp add: printable_def spaces_def list_all_iff)

lemma printable_take: "printable s \<Longrightarrow> printable (take n s)"
  by (auto simp: printable_def list_all_iff dest: in_set_takeD)

lemma sanitize_printable [simp]: "printable s \<Longrightarrow> sanitize s = s"
  by (simp add: sanitize_def printable_def list_all_iff filter_id_conv)

lemma length_spaces [simp]: "length (spaces n) = n"
  by (simp add: spaces_def)

lemma length_fit [simp]: "length (fit s width) = width"
  by (simp add: fit_def)

lemma printable_fit: "printable s \<Longrightarrow> printable (fit s width)"
  by (simp add: fit_def printable_take)

lemma length_bar [simp]: "length (bar p) = 18"
proof (cases p)
  case (Some v)
  let ?p = "if (if v < 0 then 0 else v) > 100 then 100 else (if v < 0 then 0 else v)"
  have "nat (if go_div (?p * 16 + 50) 100 > 16 then 16 else go_div (?p * 16 + 50) 100) \<le> 16" by auto
  then show ?thesis by (simp add: Some bar_def Let_def)
qed (simp add: bar_def)

text \<open>
  The bar never claims a cell more or less than half a cell from the percentage, and is empty when the
  percentage is not known.
\<close>

lemma bar_cells:
  assumes "0 \<le> p" "p \<le> 100"
  shows "bar (Some p) = ''['' @ replicate (nat ((p * 16 + 50) div 100)) CHR ''#'' @
           replicate (16 - nat ((p * 16 + 50) div 100)) CHR ''-'' @ '']''"
  using assms by (simp add: bar_def Let_def go_div_nonneg)

end
