(* ===== verification/ScreenModel.thy ===== *)
theory ScreenModel
  imports ScreenText RemoteControl EntityStore "HOL-Library.Sublist"
begin

text \<open>
  From a snapshot to what the screen shows (\<open>internal/ui/build.go\<close>, with the view types of
  \<open>render.go\<close>): one card per provider, node, service and connector with its badge, the number of
  alerts, the badge of the link, and the set of pages that hold something critical. A pointer is an
  option. \<open>Now\<close> carries its location in Go; here the location is a function from an instant to the
  seconds east of UTC.
\<close>

section \<open>View types\<close>

record Card =
  cd_Name :: string
  cd_PercentLeft :: "int option"
  cd_WeekPercentLeft :: "int option"
  cd_MonthPercentLeft :: "int option"
  cd_MonthTotalUsed :: string
  cd_MonthCodeUsed :: string
  cd_ResetLabel :: string
  cd_Amount :: string
  cd_Status :: DisplayStatus
  cd_Estimated :: bool
  cd_ActionHint :: string
  cd_WeeklyOnly :: bool

record PiHealth =
  pi_TempC :: int
  pi_CPUPercent :: int
  pi_MemPercent :: int
  pi_LANStatus :: "DisplayStatus option"   \<comment> \<open>\<open>None\<close> is the empty badge\<close>
  pi_Known :: bool

record NodeCard =
  nc_Name :: string
  nc_Online :: "bool option"
  nc_CPUPercent :: "int option"
  nc_MemoryPercent :: "int option"
  nc_DiskPercent :: "int option"
  nc_NetworkReceiveBPS :: "int option"
  nc_NetworkTransmitBPS :: "int option"
  nc_Status :: DisplayStatus

record ServiceCard =
  sv_Name :: string
  sv_Kind :: string
  sv_Version :: string
  sv_Status :: DisplayStatus
  sv_FiringAlerts :: "int option"
  sv_EnvironmentsTotal :: "int option"
  sv_EnvironmentsOnline :: "int option"
  sv_ContainersRunning :: "int option"
  sv_ContainersStopped :: "int option"
  sv_ContainersFailed :: "int option"
  sv_Stacks :: "int option"

record ConnectorCard =
  cc_Name :: string
  cc_Status :: DisplayStatus
  cc_Failures :: int

record ViewModel =
  vm_NodeLabel :: string
  vm_Page :: string
  vm_Link :: LinkStatus
  vm_Now :: instant
  vm_Zone :: "instant \<Rightarrow> int"
  vm_Coding :: "Card list"
  vm_API :: "Card list"
  vm_Nodes :: "NodeCard list"
  vm_Services :: "ServiceCard list"
  vm_Connectors :: "ConnectorCard list"
  vm_HasSnapshot :: bool
  vm_Pi :: PiHealth
  vm_AlertCount :: int
  vm_SyncedAgo :: "duration option"
  vm_LastSyncAt :: "instant option"
  vm_RetryIn :: "duration option"
  vm_Version :: string
  vm_KioskLabel :: string
  vm_RotationEnabled :: bool
  vm_PageNumber :: int
  vm_PageCount :: int
  vm_DwellSeconds :: int
  vm_RemoteNotice :: "RemoteNotice option"

record BuildOptions =
  bo_Page :: string
  bo_Now :: instant
  bo_Zone :: "instant \<Rightarrow> int"
  bo_Connected :: bool
  bo_Thresholds :: Thresholds
  bo_Pi :: PiHealth
  bo_RetryIn :: "duration option"
  bo_Version :: string
  bo_FallbackNodeLabel :: string
  bo_RotationEnabled :: bool
  bo_PageNumber :: int
  bo_PageCount :: int
  bo_DwellSeconds :: int
  bo_RemoteNotice :: "RemoteNotice option"

abbreviation (input) GroupCoding :: string where "GroupCoding \<equiv> ''coding''"
abbreviation (input) GroupAPI :: string where "GroupAPI \<equiv> ''api''"

section \<open>Amounts\<close>

definition formatUsage :: "ProviderMetric option \<Rightarrow> string" where
  "formatUsage m =
     (case m of
        None \<Rightarrow> ''''
      | Some m \<Rightarrow>
          (case (pm_Value m, pm_Limit m) of
             (Some v, Some l) \<Rightarrow>
               if unscaled l \<le> 0 then ''''
               else FloatString
                      ((unscaled l * pow10 (scale v) - unscaled v * pow10 (scale l)) * 100)
                      (pow10 (scale v) * unscaled l) 1 @ ''%''
           | _ \<Rightarrow> ''''))"

definition formatAmount :: "ProviderMetric \<Rightarrow> string" where
  "formatAmount m =
     (case pm_Value m of
        None \<Rightarrow> ''''
      | Some v \<Rightarrow>
          let amount = Rescale v 2; unit = to_upper (trim_space (pm_Unit m))
          in if unit = '''' then amount else unit @ '' '' @ amount)"

section \<open>Metrics of one provider\<close>

text \<open>The fields \<open>status\<close> and \<open>action\<close> of the struct are never used.\<close>

record providerGroup =
  pg_provider :: string
  pg_name :: string
  pg_order :: int
  pg_primary :: "ProviderMetric option"
  pg_weekly :: "ProviderMetric option"
  pg_monthTotal :: "ProviderMetric option"
  pg_monthCode :: "ProviderMetric option"
  pg_monthly :: "ProviderMetric option"
  pg_balance :: "ProviderMetric option"

definition new_group :: "ProviderMetric \<Rightarrow> providerGroup" where
  "new_group m =
     \<lparr>pg_provider = pm_Provider m, pg_name = pm_DisplayName m, pg_order = pm_Order m, pg_primary = None,
      pg_weekly = None, pg_monthTotal = None, pg_monthCode = None, pg_monthly = None, pg_balance = None\<rparr>"

definition better_balance :: "ProviderMetric \<Rightarrow> ProviderMetric option \<Rightarrow> bool" where
  "better_balance m old =
     (case old of
        None \<Rightarrow> True
      | Some b \<Rightarrow> pm_Order m < pm_Order b \<or> pm_Order m = pm_Order b \<and> pm_ID m < pm_ID b)"

definition place :: "ProviderMetric \<Rightarrow> providerGroup \<Rightarrow> providerGroup" where
  "place m g =
     (if pm_MetricKind m = KindBalance then
        (if better_balance m (pg_balance g) then g\<lparr>pg_balance := Some m\<rparr> else g)
      else if pm_Window m = ''weekly'' then g\<lparr>pg_weekly := Some m\<rparr>
      else if pm_Window m = ''monthly'' \<and> pm_Provider m = ''kimi'' \<and> suffix ''.monthly-total'' (pm_ID m)
        then g\<lparr>pg_monthTotal := Some m\<rparr>
      else if pm_Window m = ''monthly'' \<and> pm_Provider m = ''kimi'' \<and> suffix ''.monthly-code'' (pm_ID m)
        then g\<lparr>pg_monthCode := Some m\<rparr>
      else if pm_Window m = ''monthly'' then g\<lparr>pg_monthly := Some m\<rparr>
      else g\<lparr>pg_primary := Some m\<rparr>)"

definition merge_header :: "ProviderMetric \<Rightarrow> providerGroup \<Rightarrow> providerGroup" where
  "merge_header m g =
     (let g1 = (if pm_Order m < pg_order g then g\<lparr>pg_order := pm_Order m\<rparr> else g)
      in if pg_name g1 = '''' then g1\<lparr>pg_name := pm_DisplayName m\<rparr> else g1)"

text \<open>The map by provider and the order of first appearance are one list.\<close>

definition add_metric :: "string \<Rightarrow> providerGroup gomap \<Rightarrow> ProviderMetric \<Rightarrow> providerGroup gomap" where
  "add_metric grp groups m =
     (if pm_Group m \<noteq> grp then groups
      else let g = (case mget groups (pm_Provider m) of Some g \<Rightarrow> g | None \<Rightarrow> new_group m)
           in mput (pm_Provider m) (place m (merge_header m g)) groups)"

definition provider_groups :: "string \<Rightarrow> ProviderMetric list \<Rightarrow> providerGroup list" where
  "provider_groups grp metrics =
     sort_key (\<lambda>g. (pg_order g, pg_provider g)) (map snd (foldl (add_metric grp) [] metrics))"

section \<open>Cards\<close>

fun badge_rank :: "DisplayStatus \<Rightarrow> nat" where
  "badge_rank DisplayCrit = 5"
| "badge_rank DisplayAuth = 6"
| "badge_rank DisplayError = 3"
| "badge_rank DisplayWarn = 2"
| "badge_rank DisplayStale = 1"
| "badge_rank DisplayDelayed = 1"
| "badge_rank DisplayNA = 1"
| "badge_rank DisplayOK = 0"

definition consider_metric ::
  "Thresholds \<Rightarrow> instant \<Rightarrow> DisplayStatus \<times> bool \<Rightarrow> ProviderMetric option \<Rightarrow> DisplayStatus \<times> bool" where
  "consider_metric th now acc m =
     (case m of
        None \<Rightarrow> acc
      | Some m \<Rightarrow>
          let s = DeriveDisplayStatus m th now
          in (if badge_rank s > badge_rank (fst acc) then s else fst acc,
              snd acc \<or> Precision_Soft (pm_Precision m)))"

definition slots :: "providerGroup \<Rightarrow> ProviderMetric option list" where
  "slots g = [pg_primary g, pg_weekly g, pg_monthTotal g, pg_monthCode g, pg_monthly g, pg_balance g]"

definition percent_of :: "ProviderMetric option \<Rightarrow> int option" where
  "percent_of m = Option.bind m Percent"

definition hide_values :: "providerGroup \<Rightarrow> string \<Rightarrow> Card \<Rightarrow> Card" where
  "hide_values g node c =
     c\<lparr>cd_PercentLeft := None, cd_WeekPercentLeft := None, cd_MonthTotalUsed := '''', cd_MonthCodeUsed := '''',
       cd_MonthPercentLeft := None, cd_Amount := '''', cd_ResetLabel := '''',
       cd_ActionHint := (if pg_provider g = ''opencode'' then ''update Go API key on '' @ node
                         else ''re-auth with official CLI on '' @ node)\<rparr>"

definition toCard :: "BuildOptions \<Rightarrow> providerGroup \<Rightarrow> Card" where
  "toCard opts g =
     (let now = bo_Now opts;
          (worst, estimated) = foldl (consider_metric (bo_Thresholds opts) now) (DisplayOK, False) (slots g);
          weekly_only = (pg_primary g = None \<and> pg_weekly g \<noteq> None);
          card =
            \<lparr>cd_Name = (case pg_balance g of Some b \<Rightarrow> pm_DisplayName b | None \<Rightarrow> pg_name g),
             cd_PercentLeft = (if weekly_only then percent_of (pg_weekly g) else percent_of (pg_primary g)),
             cd_WeekPercentLeft = (if pg_primary g = None then None else percent_of (pg_weekly g)),
             cd_MonthPercentLeft = percent_of (pg_monthly g),
             cd_MonthTotalUsed = formatUsage (pg_monthTotal g),
             cd_MonthCodeUsed = formatUsage (pg_monthCode g),
             cd_ResetLabel =
               (case (pg_primary g, pg_weekly g) of
                  (Some p, _) \<Rightarrow> ResetLabel (pm_ResetsAt p) now (pm_Window p = ''rolling_5h'')
                | (None, Some w) \<Rightarrow> ResetLabel (pm_ResetsAt w) now False
                | (None, None) \<Rightarrow> ''''),
             cd_Amount = (case pg_balance g of Some b \<Rightarrow> formatAmount b | None \<Rightarrow> ''''),
             cd_Status = worst, cd_Estimated = estimated, cd_ActionHint = '''', cd_WeeklyOnly = weekly_only\<rparr>
      in if worst = DisplayAuth then hide_values g (bo_FallbackNodeLabel opts) card else card)"

definition count_alerts :: "DisplayStatus list \<Rightarrow> int" where
  "count_alerts badges = int (length (filter Alerting badges))"

definition any_critical :: "DisplayStatus list \<Rightarrow> bool" where
  "any_critical badges = list_ex DisplayStatus_Critical badges"

definition buildCards :: "ProviderMetric list \<Rightarrow> string \<Rightarrow> BuildOptions \<Rightarrow> Card list \<times> int \<times> bool" where
  "buildCards metrics grp opts =
     (let cards = map (toCard opts) (provider_groups grp metrics)
      in (cards, count_alerts (map cd_Status cards), any_critical (map cd_Status cards)))"

section \<open>HomeLab\<close>

definition homeLabStatus :: "MetricStatus \<Rightarrow> ErrorClass \<Rightarrow> instant \<Rightarrow> duration \<Rightarrow> instant \<Rightarrow> DisplayStatus" where
  "homeLabStatus status ec observedAt staleAfter now =
     (if ec = ErrAuth then DisplayAuth
      else if ec = ErrUnsupported then DisplayNA
      else if ec = ErrNetwork \<or> ec = ErrTimeout then DisplayStale
      else if ec = ErrRateLimited then DisplayDelayed
      else if ec = ErrSchemaChanged \<or> ec = ErrInvalidConfig \<or> ec = ErrUpstream then DisplayError
      else
        let budget = (if staleAfter \<le> 0 then DefaultStaleAfter else staleAfter)
        in if \<not> is_zero_time observedAt \<and> time_sub now observedAt > budget then DisplayStale
           else if status = StatusCritical then DisplayCrit
           else if status = StatusWarning then DisplayWarn
           else if status = StatusError then DisplayError
           else if status = StatusStale then DisplayStale
           else if status = StatusUnknown then DisplayNA
           else DisplayOK)"

definition node_card :: "instant \<Rightarrow> HomeLabNode \<Rightarrow> NodeCard" where
  "node_card now n =
     (let status = homeLabStatus (hn_Status n) (hn_ErrorClass n) (hn_ObservedAt n) (hn_StaleAfter n) now
      in \<lparr>nc_Name = hn_Name n, nc_Online = hn_Online n, nc_CPUPercent = hn_CPUPercent n,
          nc_MemoryPercent = hn_MemoryPercent n, nc_DiskPercent = hn_DiskPercent n,
          nc_NetworkReceiveBPS = hn_NetworkReceiveBPS n, nc_NetworkTransmitBPS = hn_NetworkTransmitBPS n,
          nc_Status = (if hn_Online n = Some False \<and> hn_ErrorClass n = ErrNone then DisplayCrit else status)\<rparr>)"

definition buildNodeCards :: "HomeLabNode list \<Rightarrow> instant \<Rightarrow> NodeCard list \<times> int \<times> bool" where
  "buildNodeCards nodes now =
     (let cards = map (node_card now) nodes
      in (cards, count_alerts (map nc_Status cards), any_critical (map nc_Status cards)))"

definition service_card :: "instant \<Rightarrow> HomeLabService \<Rightarrow> ServiceCard" where
  "service_card now s =
     (let status = homeLabStatus (hs_Status s) (hs_ErrorClass s) (hs_ObservedAt s) (hs_StaleAfter s) now
      in \<lparr>sv_Name = hs_Name s, sv_Kind = hs_Kind s, sv_Version = hs_Version s,
          sv_Status = (if hs_Healthy s = Some False \<and> hs_ErrorClass s = ErrNone then DisplayCrit else status),
          sv_FiringAlerts = hs_FiringAlerts s, sv_EnvironmentsTotal = hs_EnvironmentsTotal s,
          sv_EnvironmentsOnline = hs_EnvironmentsOnline s, sv_ContainersRunning = hs_ContainersRunning s,
          sv_ContainersStopped = hs_ContainersStopped s, sv_ContainersFailed = hs_ContainersFailed s,
          sv_Stacks = hs_Stacks s\<rparr>)"

definition buildServiceCards :: "HomeLabService list \<Rightarrow> instant \<Rightarrow> ServiceCard list \<times> int \<times> bool" where
  "buildServiceCards services now =
     (let cards = map (service_card now) services
      in (cards, count_alerts (map sv_Status cards), any_critical (map sv_Status cards)))"

text \<open>The badge of a connector; the same switch stands in two functions.\<close>

definition connector_badge :: "ConnectorState \<Rightarrow> DisplayStatus" where
  "connector_badge s =
     (if s = ConnBlockedAuth then DisplayAuth
      else if s = ConnError then DisplayError
      else if s = ConnDegraded then DisplayWarn
      else if s = ConnDisabled then DisplayNA
      else DisplayOK)"

definition buildConnectorCards :: "ConnectorHealth list \<Rightarrow> ConnectorCard list" where
  "buildConnectorCards health =
     map (\<lambda>h. \<lparr>cc_Name = ch_ConnectorID h, cc_Status = connector_badge (ch_State h),
               cc_Failures = ch_ConsecutiveFailures h\<rparr>) health"

definition health_card :: "ConnectorHealth \<Rightarrow> ServiceCard" where
  "health_card h =
     \<lparr>sv_Name = ch_ConnectorID h, sv_Kind = ch_Provider h, sv_Version = '''',
      sv_Status = connector_badge (ch_State h), sv_FiringAlerts = None, sv_EnvironmentsTotal = None,
      sv_EnvironmentsOnline = None, sv_ContainersRunning = None, sv_ContainersStopped = None,
      sv_ContainersFailed = None, sv_Stacks = None\<rparr>"

fun missing_health :: "string list \<Rightarrow> ConnectorHealth list \<Rightarrow> ServiceCard list" where
  "missing_health seen [] = []"
| "missing_health seen (h # hs) =
     (if ch_Provider h \<noteq> ''prometheus'' \<and> ch_Provider h \<noteq> ''grafana'' \<and> ch_Provider h \<noteq> ''portainer'' \<or>
         ch_Provider h \<in> set seen
      then missing_health seen hs
      else health_card h # missing_health (ch_Provider h # seen) hs)"

definition appendMissingHomeLabHealth ::
  "ServiceCard list \<Rightarrow> ConnectorHealth list \<Rightarrow> ServiceCard list \<times> int" where
  "appendMissingHomeLabHealth cards health =
     (let extra = missing_health (map sv_Kind cards) health
      in (cards @ extra, count_alerts (map sv_Status extra)))"

section \<open>The view of a snapshot\<close>

definition empty_view :: "BuildOptions \<Rightarrow> ViewModel" where
  "empty_view opts =
     \<lparr>vm_NodeLabel = bo_FallbackNodeLabel opts,
      vm_Page = (if bo_Page opts = '''' then ''CODING'' else bo_Page opts),
      vm_Link = DeriveLinkStatus False (bo_Connected opts) False, vm_Now = bo_Now opts, vm_Zone = bo_Zone opts,
      vm_Coding = [], vm_API = [], vm_Nodes = [], vm_Services = [], vm_Connectors = [],
      vm_HasSnapshot = False, vm_Pi = bo_Pi opts, vm_AlertCount = 0, vm_SyncedAgo = None, vm_LastSyncAt = None,
      vm_RetryIn = bo_RetryIn opts, vm_Version = bo_Version opts, vm_KioskLabel = '''',
      vm_RotationEnabled = bo_RotationEnabled opts, vm_PageNumber = bo_PageNumber opts,
      vm_PageCount = bo_PageCount opts, vm_DwellSeconds = bo_DwellSeconds opts,
      vm_RemoteNotice = bo_RemoteNotice opts\<rparr>"

definition shown_age :: "BuildOptions \<Rightarrow> instant \<Rightarrow> duration" where
  "shown_age opts generated =
     (let age = time_sub (bo_Now opts) generated;
          age' = (if age < 0 then 0 else age)
      in if bo_RotationEnabled opts then age' - age' mod minute else age')"

definition Build :: "MetricSnapshot option \<Rightarrow> BuildOptions \<Rightarrow> ViewModel" where
  "Build snap opts =
     (case snap of
        None \<Rightarrow> empty_view opts
      | Some s \<Rightarrow>
          let (coding, codingAlerts, codingCrit) = buildCards (ms_Metrics s) GroupCoding opts;
              (api, apiAlerts, apiCrit) = buildCards (ms_Metrics s) GroupAPI opts;
              (nodes, nodeAlerts, nodeCrit) = buildNodeCards (ms_HomeLabNodes s) (bo_Now opts);
              (services0, serviceAlerts, serviceCrit) = buildServiceCards (ms_HomeLabServices s) (bo_Now opts);
              (services, extraAlerts) = appendMissingHomeLabHealth services0 (ms_ConnectorHealth s)
          in (empty_view opts)
               \<lparr>vm_HasSnapshot := True,
                vm_NodeLabel := (if ms_SourceNodeLabel s \<noteq> '''' then ms_SourceNodeLabel s else ms_SourceNode s),
                vm_Coding := coding, vm_API := api, vm_Nodes := nodes, vm_Services := services,
                vm_Connectors := buildConnectorCards (ms_ConnectorHealth s),
                vm_AlertCount := codingAlerts + apiAlerts + nodeAlerts + (serviceAlerts + extraAlerts),
                vm_Link := DeriveLinkStatus True (bo_Connected opts) (codingCrit \<or> apiCrit \<or> nodeCrit \<or> serviceCrit),
                vm_SyncedAgo := Some (shown_age opts (ms_GeneratedAt s)),
                vm_LastSyncAt := Some (ms_GeneratedAt s)\<rparr>)"

text \<open>The options \<open>CriticalPages\<close> passes on have only \<open>Now\<close> and \<open>Thresholds\<close>.\<close>

definition critical_options :: "instant \<Rightarrow> Thresholds \<Rightarrow> BuildOptions" where
  "critical_options now th =
     \<lparr>bo_Page = '''', bo_Now = now, bo_Zone = (\<lambda>_. 0), bo_Connected = False, bo_Thresholds = th,
      bo_Pi = \<lparr>pi_TempC = 0, pi_CPUPercent = 0, pi_MemPercent = 0, pi_LANStatus = None, pi_Known = False\<rparr>,
      bo_RetryIn = None, bo_Version = '''', bo_FallbackNodeLabel = '''', bo_RotationEnabled = False,
      bo_PageNumber = 0, bo_PageCount = 0, bo_DwellSeconds = 0, bo_RemoteNotice = None\<rparr>"

definition CriticalPages :: "MetricSnapshot option \<Rightarrow> instant \<Rightarrow> Thresholds \<Rightarrow> Page set" where
  "CriticalPages snap now th =
     (case snap of
        None \<Rightarrow> {}
      | Some s \<Rightarrow>
          (if snd (snd (buildCards (ms_Metrics s) GroupCoding (critical_options now th))) then {PageCoding} else {}) \<union>
          (if snd (snd (buildCards (ms_Metrics s) GroupAPI (critical_options now th))) then {PageAPI} else {}) \<union>
          (if snd (snd (buildNodeCards (ms_HomeLabNodes s) now)) then {PageHomeLab} else {}) \<union>
          (if snd (snd (buildServiceCards (ms_HomeLabServices s) now)) then {PageServices} else {}))"

section \<open>The badge of a card\<close>

lemma badge_rank_OK: "badge_rank d = 0 \<longleftrightarrow> d = DisplayOK"
  by (cases d) simp_all

definition metric_badge :: "BuildOptions \<Rightarrow> ProviderMetric \<Rightarrow> DisplayStatus" where
  "metric_badge opts m = DeriveDisplayStatus m (bo_Thresholds opts) (bo_Now opts)"

definition shown_metrics :: "providerGroup \<Rightarrow> ProviderMetric list" where
  "shown_metrics g = concat (map (case_option [] (\<lambda>m. [m])) (slots g))"

lemma consider_metrics:
  "foldl (consider_metric (bo_Thresholds opts) (bo_Now opts)) acc ms =
     (fst (foldl (consider_metric (bo_Thresholds opts) (bo_Now opts)) acc ms),
      snd acc \<or> (\<exists>m. Some m \<in> set ms \<and> Precision_Soft (pm_Precision m))) \<and>
   (let worst = fst (foldl (consider_metric (bo_Thresholds opts) (bo_Now opts)) acc ms) in
      (worst = fst acc \<or> (\<exists>m. Some m \<in> set ms \<and> worst = metric_badge opts m)) \<and>
      badge_rank (fst acc) \<le> badge_rank worst \<and>
      (\<forall>m. Some m \<in> set ms \<longrightarrow> badge_rank (metric_badge opts m) \<le> badge_rank worst))"
proof (induction ms arbitrary: acc)
  case (Cons x ms)
  let ?c = "consider_metric (bo_Thresholds opts) (bo_Now opts)"
  show ?case
  proof (cases x)
    case None
    then have "?c acc x = acc" by (simp add: consider_metric_def)
    with Cons.IH [of acc] None show ?thesis by simp
  next
    case (Some m)
    let ?acc = "?c acc x"
    have A: "?acc = (if badge_rank (metric_badge opts m) > badge_rank (fst acc) then metric_badge opts m else fst acc,
        snd acc \<or> Precision_Soft (pm_Precision m))"
      by (simp add: Some consider_metric_def metric_badge_def Let_def)
    show ?thesis
    proof (cases "badge_rank (metric_badge opts m) > badge_rank (fst acc)")
      case True
      with A have "fst ?acc = metric_badge opts m" "snd ?acc \<longleftrightarrow> snd acc \<or> Precision_Soft (pm_Precision m)" by simp_all
      with Cons.IH [of ?acc] Some True show ?thesis
        by (auto simp: Let_def)
    next
      case False
      with A have "fst ?acc = fst acc" "snd ?acc \<longleftrightarrow> snd acc \<or> Precision_Soft (pm_Precision m)" by simp_all
      with Cons.IH [of ?acc] Some False show ?thesis
        by (auto simp: Let_def)
    qed
  qed
qed simp

lemma toCard_badge:
  "(cd_Status (toCard opts g) = DisplayOK \<or> (\<exists>m\<in>set (shown_metrics g). cd_Status (toCard opts g) = metric_badge opts m)) \<and>
   (\<forall>m\<in>set (shown_metrics g). badge_rank (metric_badge opts m) \<le> badge_rank (cd_Status (toCard opts g)))"
proof -
  let ?w = "fst (foldl (consider_metric (bo_Thresholds opts) (bo_Now opts)) (DisplayOK, False) (slots g))"
  have S: "cd_Status (toCard opts g) = ?w"
    by (simp add: toCard_def Let_def hide_values_def split_beta)
  have M: "m \<in> set (shown_metrics g) \<longleftrightarrow> Some m \<in> set (slots g)" for m
    by (auto simp: shown_metrics_def split: option.splits)
  show ?thesis
    using conjunct2 [OF consider_metrics [of opts "(DisplayOK, False)" "slots g"]]
    unfolding S Let_def Ball_def Bex_def M by auto
qed
section \<open>What is critical\<close>

lemma buildCards_opts:
  "bo_Now opts = bo_Now opts' \<Longrightarrow> bo_Thresholds opts = bo_Thresholds opts' \<Longrightarrow>
   map cd_Status (fst (buildCards metrics grp opts)) = map cd_Status (fst (buildCards metrics grp opts'))"
  by (simp add: buildCards_def Let_def toCard_def split_beta hide_values_def if_distrib [of cd_Status])

lemma any_critical_iff: "any_critical (map f xs) \<longleftrightarrow> (\<exists>x\<in>set xs. f x = DisplayCrit)"
  by (simp add: any_critical_def list_ex_iff DisplayStatus_Critical_def image_iff) metis

lemma any_critical_append: "any_critical (xs @ ys) \<longleftrightarrow> any_critical xs \<or> any_critical ys"
  by (simp add: any_critical_def)

lemma count_alerts_append: "count_alerts (xs @ ys) = count_alerts xs + count_alerts ys"
  by (simp add: count_alerts_def)

lemma connector_badge_not_critical: "connector_badge s \<noteq> DisplayCrit"
  by (simp add: connector_badge_def)

lemma missing_health_not_critical: "\<not> any_critical (map sv_Status (missing_health seen hs))"
  by (induction seen hs rule: missing_health.induct)
    (auto simp: any_critical_def DisplayStatus_Critical_def health_card_def connector_badge_not_critical)

lemma buildCards_simps:
  "fst (snd (buildCards metrics grp opts)) = count_alerts (map cd_Status (fst (buildCards metrics grp opts)))"
  "snd (snd (buildCards metrics grp opts)) = any_critical (map cd_Status (fst (buildCards metrics grp opts)))"
  by (simp_all add: buildCards_def Let_def)

lemma buildNodeCards_simps:
  "fst (snd (buildNodeCards nodes now)) = count_alerts (map nc_Status (fst (buildNodeCards nodes now)))"
  "snd (snd (buildNodeCards nodes now)) = any_critical (map nc_Status (fst (buildNodeCards nodes now)))"
  by (simp_all add: buildNodeCards_def Let_def)

lemma buildServiceCards_simps:
  "fst (snd (buildServiceCards services now)) = count_alerts (map sv_Status (fst (buildServiceCards services now)))"
  "snd (snd (buildServiceCards services now)) = any_critical (map sv_Status (fst (buildServiceCards services now)))"
  by (simp_all add: buildServiceCards_def Let_def)

definition badges_on :: "Page \<Rightarrow> ViewModel \<Rightarrow> DisplayStatus list" where
  "badges_on page vm =
     (if page = PageCoding then map cd_Status (vm_Coding vm)
      else if page = PageAPI then map cd_Status (vm_API vm)
      else if page = PageHomeLab then map nc_Status (vm_Nodes vm)
      else if page = PageServices then map sv_Status (vm_Services vm)
      else [])"

lemma Build_cards:
  "vm_Coding (Build (Some s) opts) = fst (buildCards (ms_Metrics s) GroupCoding opts)"
  "vm_API (Build (Some s) opts) = fst (buildCards (ms_Metrics s) GroupAPI opts)"
  "vm_Nodes (Build (Some s) opts) = fst (buildNodeCards (ms_HomeLabNodes s) (bo_Now opts))"
  "vm_Services (Build (Some s) opts) =
     fst (buildServiceCards (ms_HomeLabServices s) (bo_Now opts)) @
     missing_health (map sv_Kind (fst (buildServiceCards (ms_HomeLabServices s) (bo_Now opts)))) (ms_ConnectorHealth s)"
  by (simp_all add: Build_def Let_def split_beta appendMissingHomeLabHealth_def)

lemma Build_counts:
  "vm_AlertCount (Build (Some s) opts) =
     count_alerts (badges_on PageCoding (Build (Some s) opts) @ badges_on PageAPI (Build (Some s) opts) @
       badges_on PageHomeLab (Build (Some s) opts) @ badges_on PageServices (Build (Some s) opts))"
  unfolding badges_on_def Build_cards count_alerts_append
  by (simp add: Build_def Let_def split_beta appendMissingHomeLabHealth_def buildCards_simps
      buildNodeCards_simps buildServiceCards_simps count_alerts_append)

lemma any_page:
  "(\<exists>page. any_critical (badges_on page vm)) \<longleftrightarrow>
     any_critical (badges_on PageCoding vm) \<or> any_critical (badges_on PageAPI vm) \<or>
     any_critical (badges_on PageHomeLab vm) \<or> any_critical (badges_on PageServices vm)"
proof -
  have "any_critical (badges_on page vm) \<Longrightarrow> page \<in> {PageCoding, PageAPI, PageHomeLab, PageServices}" for page
    by (simp add: badges_on_def any_critical_def split: if_splits)
  then show ?thesis by blast
qed

lemma Build_link:
  "vm_Link (Build (Some s) opts) =
     DeriveLinkStatus True (bo_Connected opts)
       (\<exists>page. any_critical (badges_on page (Build (Some s) opts)))"
proof -
  have "(\<exists>page. any_critical (badges_on page (Build (Some s) opts))) \<longleftrightarrow> snd (snd (buildCards (ms_Metrics s) GroupCoding opts)) \<or>
      snd (snd (buildCards (ms_Metrics s) GroupAPI opts)) \<or>
      snd (snd (buildNodeCards (ms_HomeLabNodes s) (bo_Now opts))) \<or>
      snd (snd (buildServiceCards (ms_HomeLabServices s) (bo_Now opts)))"
    unfolding any_page unfolding badges_on_def Build_cards
    by (simp add: buildCards_simps buildNodeCards_simps buildServiceCards_simps any_critical_append
        missing_health_not_critical)
  then show ?thesis
    by (simp add: Build_def Let_def split_beta)
qed

lemma CriticalPages_iff:
  assumes "bo_Now opts = now" "bo_Thresholds opts = th"
  shows "page \<in> CriticalPages (Some s) now th \<longleftrightarrow> any_critical (badges_on page (Build (Some s) opts))"
proof -
  have C: "map cd_Status (fst (buildCards (ms_Metrics s) grp (critical_options now th))) =
      map cd_Status (fst (buildCards (ms_Metrics s) grp opts))" for grp
    by (rule buildCards_opts) (simp_all add: critical_options_def assms)
  show ?thesis
    unfolding badges_on_def Build_cards assms
    by (simp add: CriticalPages_def buildCards_simps buildNodeCards_simps buildServiceCards_simps C
        any_critical_append missing_health_not_critical) (simp add: any_critical_def)
qed

section \<open>Metrics that share a slot\<close>

datatype slot = Primary | Weekly | MonthTotal | MonthCode | Monthly | Balance

definition slot_of :: "ProviderMetric \<Rightarrow> slot" where
  "slot_of m =
     (if pm_MetricKind m = KindBalance then Balance
      else if pm_Window m = ''weekly'' then Weekly
      else if pm_Window m = ''monthly'' \<and> pm_Provider m = ''kimi'' \<and> suffix ''.monthly-total'' (pm_ID m) then MonthTotal
      else if pm_Window m = ''monthly'' \<and> pm_Provider m = ''kimi'' \<and> suffix ''.monthly-code'' (pm_ID m) then MonthCode
      else if pm_Window m = ''monthly'' then Monthly
      else Primary)"

fun set_slot :: "slot \<Rightarrow> ProviderMetric option \<Rightarrow> providerGroup \<Rightarrow> providerGroup" where
  "set_slot Primary m g = g\<lparr>pg_primary := m\<rparr>"
| "set_slot Weekly m g = g\<lparr>pg_weekly := m\<rparr>"
| "set_slot MonthTotal m g = g\<lparr>pg_monthTotal := m\<rparr>"
| "set_slot MonthCode m g = g\<lparr>pg_monthCode := m\<rparr>"
| "set_slot Monthly m g = g\<lparr>pg_monthly := m\<rparr>"
| "set_slot Balance m g = g\<lparr>pg_balance := m\<rparr>"

lemma place_slot: "slot_of m \<noteq> Balance \<Longrightarrow> place m g = set_slot (slot_of m) (Some m) g"
  by (auto simp: place_def slot_of_def)

lemma place_balance:
  "slot_of m = Balance \<Longrightarrow> place m g = (if better_balance m (pg_balance g) then set_slot Balance (Some m) g else g)"
proof -
  assume "slot_of m = Balance"
  then have "pm_MetricKind m = KindBalance" by (simp add: slot_of_def split: if_split_asm)
  then show ?thesis by (simp add: place_def)
qed

lemma set_slot_twice [simp]: "set_slot k m (set_slot k m' g) = set_slot k m g"
  by (cases k) simp_all

lemma set_slot_commute: "k \<noteq> l \<Longrightarrow> set_slot k m (set_slot l m' g) = set_slot l m' (set_slot k m g)"
  by (cases k; cases l) simp_all

lemma set_slot_balance [simp]: "k \<noteq> Balance \<Longrightarrow> pg_balance (set_slot k m g) = pg_balance g"
  by (cases k) simp_all

lemma set_slot_header [simp]:
  "pg_order (set_slot k m g) = pg_order g" "pg_name (set_slot k m g) = pg_name g"
  "merge_header x (set_slot k m g) = set_slot k m (merge_header x g)"
  by (cases k; simp add: merge_header_def Let_def)+

text \<open>Two groups that agree except in one slot.\<close>

definition alike :: "slot \<Rightarrow> providerGroup \<Rightarrow> providerGroup \<Rightarrow> bool" where
  "alike k g g' \<longleftrightarrow> set_slot k None g = set_slot k None g'"

lemma alike_refl [simp]: "alike k g g"
  by (simp add: alike_def)

lemma alike_set_slot: "alike k g g' \<Longrightarrow> set_slot k m g = set_slot k m g'"
  using set_slot_twice [of k m None g] set_slot_twice [of k m None g'] by (metis alike_def)

lemma alike_place:
  assumes "alike k g g'" "k \<noteq> Balance"
  shows "alike k (place m g) (place m g')"
proof -
  have B: "pg_balance g = pg_balance g'"
    using assms by (metis alike_def set_slot_balance)
  show ?thesis
  proof (cases "slot_of m = k")
    case True
    with assms have "place m g = place m g'" by (simp add: place_slot alike_set_slot)
    then show ?thesis by simp
  next
    case False
    have "alike k (set_slot l x g) (set_slot l x g')" if "l \<noteq> k" for l x
      using assms(1) that by (metis alike_def set_slot_commute)
    from this [OF False] assms B show ?thesis
      by (cases "slot_of m = Balance") (auto simp: place_slot place_balance simp del: set_slot.simps)
  qed
qed

lemma alike_header: "alike k g g' \<Longrightarrow> alike k (merge_header m g) (merge_header m g')"
  by (metis alike_def set_slot_header(3))
definition alike_maps :: "slot \<Rightarrow> string \<Rightarrow> providerGroup gomap \<Rightarrow> providerGroup gomap \<Rightarrow> bool" where
  "alike_maps k p G G' \<longleftrightarrow> (\<exists>g g'. mget G p = Some g \<and> G' = mput p g' G \<and> alike k g g')"

lemma mput_twice: "mput p y (mput p x G) = mput p y G"
  by (induction G) auto

lemma mput_swap: "mget G p = Some g \<Longrightarrow> p \<noteq> q \<Longrightarrow> mput q x (mput p y G) = mput p y (mput q x G)"
  by (induction G) (auto split: if_splits)

lemma alike_put: "alike k g g' \<Longrightarrow> alike_maps k p (mput p g G) (mput p g' G)"
  unfolding alike_maps_def by (intro exI [of _ g] exI [of _ g']) (simp add: update_conv mput_twice)

definition group_for :: "providerGroup gomap \<Rightarrow> ProviderMetric \<Rightarrow> providerGroup" where
  "group_for G m = (case mget G (pm_Provider m) of Some g \<Rightarrow> g | None \<Rightarrow> new_group m)"

lemma add_metric_eq:
  "pm_Group m = grp \<Longrightarrow> add_metric grp G m = mput (pm_Provider m) (place m (merge_header m (group_for G m))) G"
  by (simp add: add_metric_def group_for_def)

lemma alike_group_for:
  "alike_maps k (pm_Provider m) G G' \<Longrightarrow> alike k (group_for G m) (group_for G' m)"
  by (auto simp: alike_maps_def group_for_def update_conv)

lemma alike_add_metric:
  assumes "alike_maps k p G G'" "k \<noteq> Balance"
  shows "alike_maps k p (add_metric grp G m) (add_metric grp G' m)"
proof (cases "pm_Group m = grp")
  case True
  obtain g g' where G: "mget G p = Some g" "G' = mput p g' G" "alike k g g'"
    using assms(1) by (auto simp: alike_maps_def)
  show ?thesis
  proof (cases "pm_Provider m = p")
    case p: True
    from alike_place [OF alike_header [OF alike_group_for]] assms p
    have "alike k (place m (merge_header m (group_for G m))) (place m (merge_header m (group_for G' m)))" by blast
    from alike_put [OF this, of p G] show ?thesis
      by (simp add: add_metric_eq True p G(2) mput_twice)
  next
    case False
    then have "group_for G' m = group_for G m" by (simp add: group_for_def G(2) update_conv)
    then have "add_metric grp G' m = mput p g' (add_metric grp G m)"
      using mput_swap [OF G(1), of "pm_Provider m"] False by (simp add: add_metric_eq True G(2))
    moreover have "mget (add_metric grp G m) p = Some g"
      using False G(1) by (simp add: add_metric_eq True update_conv)
    ultimately show ?thesis using G(3) by (auto simp: alike_maps_def)
  qed
qed (use assms in \<open>simp add: add_metric_def\<close>)

lemma alike_metrics:
  "alike_maps k p G G' \<Longrightarrow> k \<noteq> Balance \<Longrightarrow>
   alike_maps k p (foldl (add_metric grp) G ms) (foldl (add_metric grp) G' ms)"
  by (induction ms arbitrary: G G') (simp_all add: alike_add_metric)

lemma add_metric_overwrites:
  assumes "alike_maps (slot_of m) (pm_Provider m) G G'" "slot_of m \<noteq> Balance" "pm_Group m = grp"
  shows "add_metric grp G m = add_metric grp G' m"
proof -
  have "alike (slot_of m) (merge_header m (group_for G m)) (merge_header m (group_for G' m))"
    using alike_header [OF alike_group_for [OF assms(1)]] .
  then have "place m (merge_header m (group_for G m)) = place m (merge_header m (group_for G' m))"
    using assms(2) by (simp add: place_slot alike_set_slot)
  with assms(1,3) show ?thesis by (auto simp: add_metric_eq alike_maps_def mput_twice)
qed

lemma alike_first:
  assumes "pm_Provider m = pm_Provider m'" "pm_Group m = grp" "pm_Group m' = grp" "pm_Order m = pm_Order m'"
    and "pm_DisplayName m = pm_DisplayName m'" "slot_of m = slot_of m'" "slot_of m \<noteq> Balance"
  shows "alike_maps (slot_of m) (pm_Provider m) (add_metric grp G m) (add_metric grp G m')"
proof -
  have "group_for G m = group_for G m'" "merge_header m g = merge_header m' g" for g
    using assms(1,4,5) by (simp_all add: group_for_def new_group_def merge_header_def split: option.split)
  moreover have "alike (slot_of m) (place m g) (place m' g)" for g
    using assms(6,7) by (simp add: place_slot alike_def)
  ultimately show ?thesis
    using alike_put assms(1-3) by (simp add: add_metric_eq)
qed

text \<open>
  C37. Of several metrics of one provider and group that are no balances and have the same place on the card, only the
  last is on the screen. A place is the weekly window, the monthly one, or all others together; the monthly total
  and the monthly code quota of kimi have one each. An earlier metric of the place contributes its order and its display name only:
  its values, badge, error, precision and account make no difference to the cards, the alert count or what counts
  as critical, so the weekly quota of a second account of a vendor hides that of the first, its CRIT included.
\<close>

theorem same_window_hidden:
  assumes "slot_of m = slot_of later" "slot_of m' = slot_of later" "slot_of later \<noteq> Balance"
    and "pm_Provider m = pm_Provider later" "pm_Group m = pm_Group later" "pm_Group later = grp"
    and "pm_Provider m' = pm_Provider m" "pm_Group m' = pm_Group m" "pm_Order m' = pm_Order m"
    and "pm_DisplayName m' = pm_DisplayName m"
  shows "buildCards (front @ m # between @ later # rest) grp opts =
         buildCards (front @ m' # between @ later # rest) grp opts"
proof -
  let ?add = "add_metric grp"
  have "alike_maps (slot_of later) (pm_Provider later) (?add G m) (?add G m')" for G
    using alike_first [of m m' grp G] assms by simp
  from alike_metrics [OF this] assms(3)
  have "alike_maps (slot_of later) (pm_Provider later)
      (foldl ?add (?add G m) between) (foldl ?add (?add G m') between)" for G
    by blast
  from add_metric_overwrites [OF this assms(3,6)]
  have "foldl ?add G (m # between @ [later]) = foldl ?add G (m' # between @ [later])" for G
    by simp
  then have "foldl ?add [] (front @ (m # between @ [later]) @ rest) = foldl ?add [] (front @ (m' # between @ [later]) @ rest)"
    by (simp only: foldl_append)
  then have "provider_groups grp (front @ m # between @ later # rest) = provider_groups grp (front @ m' # between @ later # rest)"
    by (simp add: provider_groups_def)
  then show ?thesis by (simp add: buildCards_def)
qed
definition example_build :: BuildOptions where
  "example_build = critical_options (10 * second) DefaultThresholds"

definition example_quota :: ProviderMetric where
  "example_quota = example_metric\<lparr>pm_ID := ''deepseek.first'', pm_MetricKind := KindQuota, pm_Group := GroupAPI,
     pm_Window := ''weekly'', pm_Value := Some (New 2 0), pm_Limit := Some (New 100 0)\<rparr>"

theorem same_window_hidden_witness:
  "cd_Status (toCard example_build (place example_quota (new_group example_quota))) = DisplayCrit \<and>
   buildCards [example_quota, example_quota\<lparr>pm_ID := ''deepseek.second'', pm_Value := Some (New 90 0)\<rparr>] GroupAPI
     example_build =
   buildCards [example_quota\<lparr>pm_Value := Some (New 80 0)\<rparr>,
     example_quota\<lparr>pm_ID := ''deepseek.second'', pm_Value := Some (New 90 0)\<rparr>] GroupAPI example_build"
proof -
  have "cd_Status (toCard example_build (place example_quota (new_group example_quota))) = DisplayCrit"
    by code_simp
  moreover have "buildCards ([] @ example_quota # [] @ example_quota\<lparr>pm_ID := ''deepseek.second'', pm_Value := Some (New 90 0)\<rparr> # [])
      GroupAPI example_build =
    buildCards ([] @ example_quota\<lparr>pm_Value := Some (New 80 0)\<rparr> # [] @
      example_quota\<lparr>pm_ID := ''deepseek.second'', pm_Value := Some (New 90 0)\<rparr> # []) GroupAPI example_build"
    by (rule same_window_hidden) (simp_all add: slot_of_def example_quota_def example_metric_def)
  ultimately show ?thesis by simp
qed

section \<open>The badge counts every metric\<close>

fun get_slot :: "slot \<Rightarrow> providerGroup \<Rightarrow> ProviderMetric option" where
  "get_slot Primary g = pg_primary g"
| "get_slot Weekly g = pg_weekly g"
| "get_slot MonthTotal g = pg_monthTotal g"
| "get_slot MonthCode g = pg_monthCode g"
| "get_slot Monthly g = pg_monthly g"
| "get_slot Balance g = pg_balance g"

text \<open>
  Metrics of one provider and group compete for a place on its card when they have the same window and kind; the
  later one gets it, except that a balance gives way only to one of lower order, or of the same order and a
  smaller identifier.
\<close>

definition rivals :: "ProviderMetric \<Rightarrow> ProviderMetric \<Rightarrow> bool" where
  "rivals x m \<longleftrightarrow> pm_Provider x = pm_Provider m \<and> pm_Group x = pm_Group m \<and> slot_of x = slot_of m"

definition replaces :: "ProviderMetric \<Rightarrow> ProviderMetric \<Rightarrow> bool" where
  "replaces later m \<longleftrightarrow> rivals later m \<and>
     (slot_of m = Balance \<longrightarrow> pm_Order later < pm_Order m \<or> pm_Order later = pm_Order m \<and> pm_ID later < pm_ID m)"

definition on_card :: "ProviderMetric list \<Rightarrow> ProviderMetric \<Rightarrow> ProviderMetric list \<Rightarrow> bool" where
  "on_card front m rest \<longleftrightarrow> (\<forall>x\<in>set front. rivals x m \<longrightarrow> replaces m x) \<and> (\<forall>x\<in>set rest. \<not> replaces x m)"

text \<open>The badges at least as bad as a given one.\<close>

fun as_bad_as :: "DisplayStatus \<Rightarrow> DisplayStatus set" where
  "as_bad_as DisplayAuth = {DisplayAuth}"
| "as_bad_as DisplayCrit = {DisplayCrit, DisplayAuth}"
| "as_bad_as DisplayError = {DisplayError, DisplayCrit, DisplayAuth}"
| "as_bad_as DisplayWarn = {DisplayWarn, DisplayError, DisplayCrit, DisplayAuth}"
| "as_bad_as DisplayOK = UNIV"
| "as_bad_as d = UNIV - {DisplayOK}"

lemma as_bad_as_rank: "badge_rank d \<le> badge_rank d' \<Longrightarrow> d' \<in> as_bad_as d"
  by (cases d; cases d') simp_all

lemma get_set_slot [simp]: "get_slot k (set_slot l x g) = (if k = l then x else get_slot k g)"
  by (cases k; cases l) simp_all

lemma get_merge_header [simp]: "get_slot k (merge_header m g) = get_slot k g"
  by (cases k) (simp_all add: merge_header_def Let_def)

lemma place_get:
  "get_slot k (place x g) =
     (if k = slot_of x \<and> (k = Balance \<longrightarrow> better_balance x (get_slot k g)) then Some x else get_slot k g)"
  by (cases "slot_of x = Balance") (auto simp: place_slot place_balance simp del: set_slot.simps)

lemma place_provider [simp]: "pg_provider (place x (merge_header m g)) = pg_provider g"
  by (simp add: place_def merge_header_def Let_def)

lemma get_new_group [simp]: "get_slot k (new_group m) = None"
  by (cases k) (simp_all add: new_group_def)

lemma get_slot_slots: "get_slot k g \<in> set (slots g)"
  by (cases k) (simp_all add: slots_def)

text \<open>The map of groups: each under its provider, holding metrics of that provider and group only.\<close>

definition group_ok :: "string \<Rightarrow> ProviderMetric set \<Rightarrow> providerGroup \<Rightarrow> bool" where
  "group_ok grp ms g \<longleftrightarrow>
     (\<forall>k m. get_slot k g = Some m \<longrightarrow> m \<in> ms \<and> pm_Group m = grp \<and> pm_Provider m = pg_provider g)"

lemma group_ok_place:
  assumes "group_ok grp ms g" "pm_Group x = grp" "pm_Provider x = pg_provider g"
  shows "group_ok grp (insert x ms) (place x (merge_header x g))"
  using assms by (auto simp: group_ok_def place_get split: if_splits)

declare get_slot.simps [simp del]

lemma in_mput: "wf_map G \<Longrightarrow> (a, b) \<in> set (mput k v G) \<Longrightarrow> a = k \<and> b = v \<or> (a, b) \<in> set G"
  by (metis mget_in_set mget_put option.inject wf_map_put)

lemma add_metric_other: "pm_Group m \<noteq> grp \<Longrightarrow> add_metric grp G m = G"
  by (simp add: add_metric_def)

lemma groups_step:
  assumes "wf_store pg_provider (group_ok grp ms) G"
  shows "wf_store pg_provider (group_ok grp (insert x ms)) (add_metric grp G x)"
proof -
  have old: "wf_store pg_provider (group_ok grp (insert x ms)) G"
    using assms by (auto simp: wf_store_def group_ok_def)
  have "group_ok grp ms (group_for G x) \<and> pg_provider (group_for G x) = pm_Provider x"
    using assms by (cases "mget G (pm_Provider x)")
      (auto simp: group_for_def wf_store_def group_ok_def dest!: map_of_SomeD, simp add: new_group_def)
  with group_ok_place [of grp ms "group_for G x" x] old show ?thesis
    by (cases "pm_Group x = grp") (auto simp: add_metric_eq add_metric_other wf_store_def dest!: in_mput)
qed

lemma groups_all:
  "wf_store pg_provider (group_ok grp ms) G \<Longrightarrow> wf_store pg_provider (group_ok grp (ms \<union> set xs)) (foldl (add_metric grp) G xs)"
proof (induction xs arbitrary: ms G)
  case (Cons x xs)
  from Cons.IH [OF groups_step [OF Cons.prems, of x]] show ?case by simp
qed simp

text \<open>What the place of a metric holds before it comes, and that it keeps it afterwards.\<close>

lemma group_for_step:
  "get_slot k (group_for (add_metric grp G x) m) =
     (if pm_Group x = grp \<and> pm_Provider x = pm_Provider m \<and> k = slot_of x \<and>
         (k = Balance \<longrightarrow> better_balance x (get_slot k (group_for G m)))
      then Some x else get_slot k (group_for G m))"
proof (cases "pm_Group x = grp \<and> pm_Provider x = pm_Provider m")
  case True
  have "get_slot l (group_for G x) = get_slot l (group_for G m)" for l
    using True by (simp add: group_for_def split: option.split)
  moreover have "group_for (add_metric grp G x) m = place x (merge_header x (group_for G x))"
    using True by (simp add: add_metric_eq group_for_def [of "mput _ _ _"] mget_put)
  ultimately show ?thesis using True by (cases "k = Balance") (auto simp: place_get)
next
  case False
  then have "group_for (add_metric grp G x) m = group_for G m"
    by (cases "pm_Group x = grp") (auto simp: add_metric_eq add_metric_other group_for_def [of _ m] mget_put)
  with False show ?thesis by auto
qed

lemma place_before:
  "(\<And>x. x \<in> set front \<Longrightarrow> rivals x m \<Longrightarrow> replaces m x) \<Longrightarrow> pm_Group m = grp \<Longrightarrow>
   (\<forall>y. get_slot (slot_of m) (group_for G m) = Some y \<longrightarrow> replaces m y) \<Longrightarrow>
   (\<forall>y. get_slot (slot_of m) (group_for (foldl (add_metric grp) G front) m) = Some y \<longrightarrow> replaces m y)"
proof (induction front arbitrary: G)
  case (Cons x front)
  have "\<forall>y. get_slot (slot_of m) (group_for (add_metric grp G x) m) = Some y \<longrightarrow> replaces m y"
    using Cons.prems by (auto simp: group_for_step rivals_def split: if_splits)
  with Cons.IH [of "add_metric grp G x"] Cons.prems(1,2) show ?case by simp
qed simp

lemma placed:
  assumes "pm_Group m = grp" "\<forall>y. get_slot (slot_of m) (group_for G m) = Some y \<longrightarrow> replaces m y"
  shows "get_slot (slot_of m) (group_for (add_metric grp G m) m) = Some m"
proof -
  have "better_balance m (get_slot (slot_of m) (group_for G m))" if "slot_of m = Balance"
    using assms(2) that by (cases "get_slot (slot_of m) (group_for G m)")
      (auto simp: better_balance_def replaces_def rivals_def)
  then show ?thesis using assms(1) by (simp add: group_for_step)
qed

lemma place_kept:
  "(\<And>x. x \<in> set rest \<Longrightarrow> \<not> replaces x m) \<Longrightarrow> pm_Group m = grp \<Longrightarrow>
   get_slot (slot_of m) (group_for G m) = Some m \<Longrightarrow>
   get_slot (slot_of m) (group_for (foldl (add_metric grp) G rest) m) = Some m"
proof (induction rest arbitrary: G)
  case (Cons x rest)
  have "\<not> replaces x m" using Cons.prems(1) by simp
  then have "get_slot (slot_of m) (group_for (add_metric grp G x) m) = Some m"
    using Cons.prems(2,3) by (cases "slot_of m = Balance") (auto simp: group_for_step better_balance_def replaces_def rivals_def)
  with Cons.IH [of "add_metric grp G x"] Cons.prems(1,2) show ?case by simp
qed simp

lemma on_card_placed:
  assumes "pm_Group m = grp" "on_card front m rest"
  shows "get_slot (slot_of m) (group_for (foldl (add_metric grp) [] (front @ m # rest)) m) = Some m"
proof -
  have "\<forall>y. get_slot (slot_of m) (group_for (foldl (add_metric grp) [] front) m) = Some y \<longrightarrow> replaces m y"
    using assms by (intro place_before) (auto simp: on_card_def group_for_def)
  from place_kept [OF _ assms(1) placed [OF assms(1) this]] assms(2) show ?thesis by (auto simp: on_card_def)
qed

lemma filter_unique: "distinct (map f xs) \<Longrightarrow> x \<in> set xs \<Longrightarrow> filter (\<lambda>y. f y = f x) xs = [x]"
proof (induction xs)
  case (Cons y ys)
  show ?case
  proof (cases "y = x")
    case True
    with Cons.prems(1) have "\<forall>z\<in>set ys. f z \<noteq> f x" by (metis distinct.simps(2) imageI list.simps(9) set_map)
    with True show ?thesis by (simp add: filter_empty_conv)
  next
    case False
    with Cons.prems have "x \<in> set ys" "f y \<noteq> f x" "distinct (map f ys)" by auto
    with Cons.IH show ?thesis by simp
  qed
qed simp

text \<open>The one group of a metric's provider.\<close>

lemma group_of_metric:
  assumes "metrics = front @ m # rest" "pm_Group m = grp" "on_card front m rest"
  obtains g where "filter (\<lambda>g. pg_provider g = pm_Provider m) (provider_groups grp metrics) = [g]"
    "get_slot (slot_of m) g = Some m" "group_ok grp (set metrics) g" "pg_provider g = pm_Provider m"
proof -
  let ?G = "foldl (add_metric grp) [] metrics"
  let ?g = "group_for ?G m"
  have wf: "wf_store pg_provider (group_ok grp (set metrics)) ?G"
    using groups_all [of grp "{}" "[]" metrics] by (simp add: wf_store_def)
  have slot: "get_slot (slot_of m) ?g = Some m" using on_card_placed [OF assms(2,3)] assms(1) by simp
  then have "mget ?G (pm_Provider m) = Some ?g" by (cases "mget ?G (pm_Provider m)") (simp_all add: group_for_def)
  then have in_G: "(pm_Provider m, ?g) \<in> set ?G" by (rule map_of_SomeD)
  with wf have g: "pg_provider ?g = pm_Provider m" "group_ok grp (set metrics) ?g" by (auto simp: wf_store_def)
  have "map pg_provider (map snd ?G) = map fst ?G" using wf by (auto simp: wf_store_def)
  with wf have "distinct (map pg_provider (map snd ?G))" by (simp only: wf_store_def wf_map_def)
  then have "distinct (map pg_provider (provider_groups grp metrics))"
    unfolding provider_groups_def distinct_map set_sort distinct_sort .
  moreover have "?g \<in> set (provider_groups grp metrics)" using in_G by (force simp: provider_groups_def)
  ultimately have "filter (\<lambda>g. pg_provider g = pm_Provider m) (provider_groups grp metrics) = [?g]"
    using filter_unique [of pg_provider "provider_groups grp metrics" ?g] g(1) by simp
  from that [OF this slot g(2,1)] show thesis .
qed

lemma shown_in_slot: "x \<in> set (shown_metrics g) \<longleftrightarrow> (\<exists>k. get_slot k g = Some x)"
proof
  assume "x \<in> set (shown_metrics g)"
  then have "Some x \<in> set (slots g)" by (auto simp: shown_metrics_def split: option.splits)
  then show "\<exists>k. get_slot k g = Some x" unfolding slots_def by (simp, elim disjE) (metis get_slot.simps)+
next
  assume "\<exists>k. get_slot k g = Some x"
  then have "Some x \<in> set (slots g)" using get_slot_slots [of _ g] by metis
  then show "x \<in> set (shown_metrics g)" by (force simp: shown_metrics_def)
qed

text \<open>
  C34. The badge of a provider's card tells the worst about the provider. Each metric of the page's group that is
  not replaced (by the last one of the same provider with the same place, or among its balances by the first in
  order) has exactly one card, its provider's, and that card's badge is at least as bad as the metric's own, in the
  order OK, the three grey ones, WARN, ERROR, CRIT, AUTH. The badge is not invented: it is OK or that of a metric of
  this provider and group. A card that asks the user to log in again shows the remedy and no figure at all.
\<close>

theorem card_badge_is_worst:
  assumes "metrics = front @ m # rest" "pm_Group m = grp" "on_card front m rest"
  shows "\<exists>g. filter (\<lambda>g. pg_provider g = pm_Provider m) (provider_groups grp metrics) = [g] \<and>
    (let shown = toCard opts g in shown \<in> set (fst (buildCards metrics grp opts)) \<and>
      cd_Status shown \<in> as_bad_as (metric_badge opts m) \<and>
      (cd_Status shown = DisplayOK \<or>
        (\<exists>x\<in>set metrics. pm_Provider x = pm_Provider m \<and> pm_Group x = grp \<and> cd_Status shown = metric_badge opts x)) \<and>
      (cd_Status shown = DisplayAuth \<longrightarrow>
         cd_PercentLeft shown = None \<and> cd_WeekPercentLeft shown = None \<and> cd_MonthPercentLeft shown = None \<and>
         cd_MonthTotalUsed shown = '''' \<and> cd_MonthCodeUsed shown = '''' \<and> cd_Amount shown = '''' \<and>
         cd_ResetLabel shown = '''' \<and> cd_ActionHint shown \<noteq> ''''))"
proof -
  obtain g where g: "filter (\<lambda>g. pg_provider g = pm_Provider m) (provider_groups grp metrics) = [g]"
    "get_slot (slot_of m) g = Some m" "group_ok grp (set metrics) g" "pg_provider g = pm_Provider m"
    using assms by (rule group_of_metric)
  have "m \<in> set (shown_metrics g)" using g(2) by (auto simp: shown_in_slot)
  then have "cd_Status (toCard opts g) \<in> as_bad_as (metric_badge opts m)" using toCard_badge [of opts g] by (intro as_bad_as_rank) blast
  moreover have "x \<in> set metrics \<and> pm_Provider x = pm_Provider m \<and> pm_Group x = grp" if "x \<in> set (shown_metrics g)" for x
    using that g(3,4) by (auto simp: shown_in_slot group_ok_def)
  then have "cd_Status (toCard opts g) = DisplayOK \<or>
      (\<exists>x\<in>set metrics. pm_Provider x = pm_Provider m \<and> pm_Group x = grp \<and> cd_Status (toCard opts g) = metric_badge opts x)"
    using toCard_badge [of opts g] by blast
  moreover have "g \<in> set (filter (\<lambda>g. pg_provider g = pm_Provider m) (provider_groups grp metrics))" using g(1) by simp
  then have "g \<in> set (provider_groups grp metrics)" by (simp only: set_filter mem_Collect_eq)
  then have "toCard opts g \<in> set (fst (buildCards metrics grp opts))" by (simp add: buildCards_def)
  moreover have "cd_Status (toCard opts g) = DisplayAuth \<longrightarrow>
      cd_PercentLeft (toCard opts g) = None \<and> cd_WeekPercentLeft (toCard opts g) = None \<and> cd_MonthPercentLeft (toCard opts g) = None \<and>
      cd_MonthTotalUsed (toCard opts g) = '''' \<and> cd_MonthCodeUsed (toCard opts g) = '''' \<and> cd_Amount (toCard opts g) = '''' \<and>
      cd_ResetLabel (toCard opts g) = '''' \<and> cd_ActionHint (toCard opts g) \<noteq> ''''"
    by (auto simp: toCard_def Let_def hide_values_def split_beta)
  ultimately show ?thesis using g(1) unfolding Let_def by blast
qed

text \<open>A monthly quota that is nearly used up, beside a weekly one that is not: the card is CRIT.\<close>

definition spent_month :: ProviderMetric where
  "spent_month = example_quota\<lparr>pm_Window := ''monthly''\<rparr>"

theorem card_badge_is_worst_witness:
  "\<exists>shown\<in>set (fst (buildCards [example_quota\<lparr>pm_Value := Some (New 90 0)\<rparr>, spent_month] GroupAPI example_build)).
     cd_Status shown \<in> {DisplayCrit, DisplayAuth}"
proof -
  have crit: "metric_badge example_build spent_month = DisplayCrit" by code_simp
  have "on_card [example_quota\<lparr>pm_Value := Some (New 90 0)\<rparr>] spent_month []"
    by (simp add: on_card_def rivals_def slot_of_def spent_month_def example_quota_def example_metric_def)
  moreover have "pm_Group spent_month = GroupAPI" by (simp add: spent_month_def example_quota_def)
  ultimately show ?thesis
    using card_badge_is_worst [of "[example_quota\<lparr>pm_Value := Some (New 90 0)\<rparr>, spent_month]"
        "[example_quota\<lparr>pm_Value := Some (New 90 0)\<rparr>]" spent_month "[]" GroupAPI example_build]
    unfolding crit by (auto simp: Let_def)
qed

text \<open>
  The screen and the rotation agree on what is critical: the pages that may pre-empt the rotation are
  exactly those on which some card has the badge CRIT, the link badge is CRIT exactly when the display is
  connected and there is such a page, and the alert count is the number of alerting cards on all pages.
\<close>

theorem critical_pages_match_screen:
  "CriticalPages (Some s) (bo_Now opts) (bo_Thresholds opts) =
     {page. DisplayCrit \<in> set (badges_on page (Build (Some s) opts))} \<and>
   (vm_Link (Build (Some s) opts) = LinkCrit \<longleftrightarrow>
      bo_Connected opts \<and> (\<exists>page. DisplayCrit \<in> set (badges_on page (Build (Some s) opts)))) \<and>
   vm_AlertCount (Build (Some s) opts) =
     int (length (filter Alerting (concat (map (\<lambda>page. badges_on page (Build (Some s) opts))
       [PageCoding, PageAPI, PageHomeLab, PageServices]))))"
proof -
  have C: "any_critical bs \<longleftrightarrow> DisplayCrit \<in> set bs" for bs
    using any_critical_iff [of id bs] by simp
  have "CriticalPages (Some s) (bo_Now opts) (bo_Thresholds opts) =
     {page. DisplayCrit \<in> set (badges_on page (Build (Some s) opts))}"
    using CriticalPages_iff [OF refl refl, of _ s opts] by (auto simp: C)
  moreover have "vm_Link (Build (Some s) opts) = LinkCrit \<longleftrightarrow>
      bo_Connected opts \<and> (\<exists>page. DisplayCrit \<in> set (badges_on page (Build (Some s) opts)))"
    unfolding Build_link C by (simp add: DeriveLinkStatus_def)
  moreover have "vm_AlertCount (Build (Some s) opts) =
     int (length (filter Alerting (concat (map (\<lambda>page. badges_on page (Build (Some s) opts))
       [PageCoding, PageAPI, PageHomeLab, PageServices]))))"
    unfolding Build_counts by (simp add: count_alerts_def)
  ultimately show ?thesis by blast
qed

end
