(* ===== verification/ScreenFrame.thy ===== *)
theory ScreenFrame
  imports ScreenModel GoTime
begin

text \<open>
  The frame of 20 lines by 60 cells (\<open>internal/ui/render.go\<close>): header, eleven body lines that depend on
  the page, the device line and the footer. Every line goes through \<open>content\<close>, which keeps printable ASCII
  and cuts to the grid.
\<close>

section \<open>Columns\<close>

abbreviation (input) colName :: nat where "colName \<equiv> 1"
abbreviation (input) colBar :: nat where "colBar \<equiv> 13"
abbreviation (input) colReset :: nat where "colReset \<equiv> 46"
abbreviation (input) colBadgeEnd :: nat where "colBadgeEnd \<equiv> 52"
abbreviation (input) colAlertEnd :: nat where "colAlertEnd \<equiv> 54"
abbreviation (input) colAmountEnd :: nat where "colAmountEnd \<equiv> 28"
abbreviation (input) colFooterR :: nat where "colFooterR \<equiv> 24"
abbreviation (input) colFooterEnd :: nat where "colFooterEnd \<equiv> 54"
abbreviation (input) colHeadNode :: nat where "colHeadNode \<equiv> 9"
abbreviation (input) colHeadPage :: nat where "colHeadPage \<equiv> 26"
abbreviation (input) colHeadLink :: nat where "colHeadLink \<equiv> 39"
abbreviation (input) colHeadClock :: nat where "colHeadClock \<equiv> 50"
abbreviation (input) colDevCPU :: nat where "colDevCPU \<equiv> 13"
abbreviation (input) colDevMem :: nat where "colDevMem \<equiv> 25"
abbreviation (input) colDevLAN :: nat where "colDevLAN \<equiv> 38"
abbreviation (input) colFootKiosk :: nat where "colFootKiosk \<equiv> 21"
abbreviation (input) colFootVersion :: nat where "colFootVersion \<equiv> 39"
abbreviation (input) bodyRows :: nat where "bodyRows \<equiv> 11"

section \<open>Pieces\<close>

definition border :: string where
  "border = ''+'' @ replicate inner CHR ''-'' @ ''+''"

definition content_line :: "string \<Rightarrow> string" where
  "content_line s = ''|'' @ fit (sanitize s) inner @ ''|''"

definition badged_text :: "string \<Rightarrow> string \<Rightarrow> string" where
  "badged_text line s = (if s = '''' then line else padTo line (colBadgeEnd - length s) @ s)"

definition badged :: "string \<Rightarrow> DisplayStatus \<Rightarrow> string" where
  "badged line status = badged_text line (badge_text status)"

text \<open>\<open>Time.Format("15:04")\<close> and \<open>Time.Unix\<close>.\<close>

definition clock :: "(instant \<Rightarrow> int) \<Rightarrow> instant \<Rightarrow> string" where
  "clock zone t =
     (let s = (t div second + zone t) mod 86400
      in fixed_text 2 (s div 3600) @ '':'' @ fixed_text 2 (s div 60 mod 60))"

definition Unix :: "instant \<Rightarrow> int" where
  "Unix t = t div second - 62135596800"

definition go_mod :: "int \<Rightarrow> int \<Rightarrow> int" where
  "go_mod a b = a - go_div a b * b"

definition join_text :: "string \<Rightarrow> string list \<Rightarrow> string" where
  "join_text sep ps = (case ps of [] \<Rightarrow> '''' | p # qs \<Rightarrow> p @ concat (map (\<lambda>q. sep @ q) qs))"

section \<open>Cards\<close>

definition main_line :: "Card \<Rightarrow> string" where
  "main_line c =
     padTo '' '' colName @ padTo (truncName (cd_Name c) maxProviderName) (colBar - colName) @
     bar (cd_PercentLeft c) @ '' '' @ percentLabel (cd_PercentLeft c) @ '' LEFT'' @
     (if cd_Estimated c then '' EST'' else '''')"

definition quotaLines :: "Card \<Rightarrow> string list" where
  "quotaLines c =
     (if cd_ActionHint c \<noteq> '''' then
        [badged (main_line c) (cd_Status c), ''   ACTION: '' @ to_upper (cd_ActionHint c)]
      else
        let monthly =
              (if cd_MonthTotalUsed c \<noteq> '''' then [''TOTAL '' @ cd_MonthTotalUsed c] else []) @
              (if cd_MonthCodeUsed c \<noteq> '''' then [''CODE '' @ cd_MonthCodeUsed c] else []);
            head_lines =
              [padTo (main_line c) colReset @ cd_ResetLabel c] @
              (if monthly \<noteq> [] then [''   MONTH USED: '' @ join_text '' | '' monthly] else [])
        in if cd_WeeklyOnly c then head_lines @ [badged ''   5H --'' (cd_Status c)]
           else
             let detail =
                   (if cd_MonthPercentLeft c \<noteq> None then
                      ''   5H '' @ percentLabel (cd_PercentLeft c) @ '' | WEEK '' @
                      percentLabel (cd_WeekPercentLeft c) @ '' | MONTH '' @
                      percentLabel (cd_MonthPercentLeft c) @ '' LEFT''
                    else if cd_WeekPercentLeft c \<noteq> None then
                      ''   5H '' @ percentLabel (cd_PercentLeft c) @ '' LEFT | WEEK '' @
                      percentLabel (cd_WeekPercentLeft c) @ '' LEFT''
                    else if cd_ResetLabel c = ''ROLLING'' then ''   5H ROLLING''
                    else ''   5H '' @ percentLabel (cd_PercentLeft c) @ '' LEFT'')
             in head_lines @ [badged detail (cd_Status c)])"

definition balanceLine :: "Card \<Rightarrow> string" where
  "balanceLine c =
     (let amount = (if cd_Amount c = '''' then ''--'' else cd_Amount c) @ (if cd_Estimated c then '' EST'' else '''');
          line = padTo '' '' colName @ truncName (cd_Name c) (maxProviderName + 6)
      in badged (line @ padLeft amount (int colAmountEnd - int (length line))) (cd_Status c))"

section \<open>Windows over long lists\<close>

definition dwell_or_default :: "int \<Rightarrow> int" where
  "dwell_or_default d = (if d < MinDwellSeconds \<or> d > MaxDwellSeconds then 15 else d)"

definition page_at :: "instant \<Rightarrow> int \<Rightarrow> nat \<Rightarrow> nat" where
  "page_at now dwell pages =
     (let bucket = go_div (Unix now) (dwell_or_default dwell)
      in nat (go_mod (go_mod bucket (int pages) + int pages) (int pages)))"

fun card_starts :: "nat \<Rightarrow> nat \<Rightarrow> Card list \<Rightarrow> nat list" where
  "card_starts i rows [] = []"
| "card_starts i rows (c # cs) =
     (let height = length (quotaLines c)
      in if rows + height > 10 then i # card_starts (i + 1) height cs
         else card_starts (i + 1) (rows + height) cs)"

definition codingWindow :: "Card list \<Rightarrow> instant \<Rightarrow> int \<Rightarrow> Card list \<times> nat \<times> nat" where
  "codingWindow cards now dwell =
     (let starts = 0 # card_starts 0 0 cards;
          pages = length starts;
          page = page_at now dwell pages;
          stop = (if page + 1 < pages then starts ! (page + 1) else length cards)
      in (take (stop - starts ! page) (drop (starts ! page) cards), page + 1, pages))"

definition window_of :: "'a list \<Rightarrow> nat \<Rightarrow> instant \<Rightarrow> int \<Rightarrow> ('a \<Rightarrow> bool) \<Rightarrow> 'a list \<times> nat \<times> nat" where
  "window_of items pageSize now dwell critical =
     (if items = [] then ([], 1, 1)
      else
        let pages = (length items + pageSize - 1) div pageSize;
            page = (if pages > 1 \<and> \<not> critical (hd items) then page_at now dwell pages else 0)
        in (take pageSize (drop (page * pageSize) items), page + 1, pages))"

definition critical_first :: "('a \<Rightarrow> DisplayStatus) \<Rightarrow> 'a list \<Rightarrow> 'a list" where
  "critical_first status xs = sort_key (\<lambda>x. \<not> DisplayStatus_Critical (status x)) xs"

definition nodeWindow :: "NodeCard list \<Rightarrow> instant \<Rightarrow> int \<Rightarrow> NodeCard list \<times> nat \<times> nat" where
  "nodeWindow nodes now dwell =
     window_of (critical_first nc_Status nodes) 4 now dwell (DisplayStatus_Critical \<circ> nc_Status)"

definition serviceWindow :: "ServiceCard list \<Rightarrow> instant \<Rightarrow> int \<Rightarrow> ServiceCard list \<times> nat \<times> nat" where
  "serviceWindow services now dwell =
     window_of (critical_first sv_Status services) 5 now dwell (DisplayStatus_Critical \<circ> sv_Status)"

section \<open>Bodies\<close>

definition subpage_title :: "string \<Rightarrow> nat \<Rightarrow> nat \<Rightarrow> string" where
  "subpage_title title subpage subpages =
     (if subpages > 1 then title @ '' '' @ nat_digits subpage @ ''/'' @ nat_digits subpages else title)"

definition codingBody :: "ViewModel \<Rightarrow> string list" where
  "codingBody vm =
     (let (cards, subpage, subpages) = codingWindow (vm_Coding vm) (vm_Now vm) (vm_DwellSeconds vm)
      in subpage_title '' CODING PLANS'' subpage subpages # concat (map quotaLines cards))"

definition apiBody :: "ViewModel \<Rightarrow> string list" where
  "apiBody vm =
     ('' API BALANCE'' # map balanceLine (vm_API vm)) @
     (if vm_API vm = [] then ['''', center ''NO API DATA''] else [])"

definition percentOrDash :: "int option \<Rightarrow> string" where
  "percentOrDash v = (case v of None \<Rightarrow> ''--%'' | Some v \<Rightarrow> format_int v @ ''%'')"

definition rateOrDash :: "int option \<Rightarrow> string" where
  "rateOrDash v =
     (case v of
        None \<Rightarrow> ''--''
      | Some v \<Rightarrow>
          if v \<ge> 1000000000 then format_int (go_div v 1000000000) @ ''G''
          else if v \<ge> 1000000 then format_int (go_div v 1000000) @ ''M''
          else if v \<ge> 1000 then format_int (go_div v 1000) @ ''K''
          else format_int v)"

definition node_lines :: "NodeCard \<Rightarrow> string list" where
  "node_lines n =
     (let line1 = '' '' @ truncName (nc_Name n) 12;
          line2 = padTo line1 14 @ ''CPU '' @ percentOrDash (nc_CPUPercent n);
          line3 = padTo line2 26 @ ''MEM '' @ percentOrDash (nc_MemoryPercent n);
          line4 = padTo line3 38 @ ''DISK '' @ percentOrDash (nc_DiskPercent n);
          online = (case nc_Online n of None \<Rightarrow> ''UNKNOWN'' | Some True \<Rightarrow> ''ONLINE'' | Some False \<Rightarrow> ''DOWN'')
      in [badged line4 (nc_Status n),
          ''   NET '' @ rateOrDash (nc_NetworkReceiveBPS n) @ ''/'' @ rateOrDash (nc_NetworkTransmitBPS n) @
          ''   '' @ online])"

definition homeLabBody :: "ViewModel \<Rightarrow> string list" where
  "homeLabBody vm =
     (let (nodes, subpage, subpages) = nodeWindow (vm_Nodes vm) (vm_Now vm) (vm_DwellSeconds vm)
      in (subpage_title '' HOME LAB'' subpage subpages # concat (map node_lines nodes)) @
         (if vm_Nodes vm = [] then ['''', center ''NO HOMELAB NODE DATA''] else []))"

definition serviceDetail :: "ServiceCard \<Rightarrow> string" where
  "serviceDetail s =
     join_text ''  ''
       ((case sv_FiringAlerts s of None \<Rightarrow> [] | Some n \<Rightarrow> [format_int n @ '' ALERT'']) @
        (case sv_EnvironmentsTotal s of
           None \<Rightarrow> []
         | Some n \<Rightarrow>
             [''ENV '' @ (case sv_EnvironmentsOnline s of None \<Rightarrow> ''--'' | Some k \<Rightarrow> format_int k) @ ''/'' @ format_int n]) @
        (case sv_ContainersRunning s of None \<Rightarrow> [] | Some n \<Rightarrow> [''RUN '' @ format_int n]) @
        (case sv_ContainersStopped s of None \<Rightarrow> [] | Some n \<Rightarrow> [''STOP '' @ format_int n]) @
        (case sv_ContainersFailed s of None \<Rightarrow> [] | Some n \<Rightarrow> [''FAIL '' @ format_int n]) @
        (case sv_Stacks s of None \<Rightarrow> [] | Some n \<Rightarrow> [''STACK '' @ format_int n]))"

definition service_lines :: "ServiceCard \<Rightarrow> string list" where
  "service_lines s =
     (let line1 = '' '' @ truncName (sv_Name s) 16;
          line2 = (if sv_Version s \<noteq> '''' then padTo line1 20 @ ''V'' @ clamp (sv_Version s) 12 else line1)
      in badged line2 (sv_Status s) #
         (if serviceDetail s \<noteq> '''' then [''   '' @ serviceDetail s] else []))"

definition servicesBody :: "ViewModel \<Rightarrow> string list" where
  "servicesBody vm =
     (let (services, subpage, subpages) = serviceWindow (vm_Services vm) (vm_Now vm) (vm_DwellSeconds vm)
      in (subpage_title '' SERVICES'' subpage subpages # concat (map service_lines services)) @
         (if vm_Services vm = [] then ['''', center ''NO SERVICE DATA''] else []))"

definition connector_line :: "ConnectorCard \<Rightarrow> string" where
  "connector_line c =
     (let line = '' '' @ truncName (cc_Name c) 20
      in badged (if cc_Failures c > 0 then padTo line 28 @ format_int (cc_Failures c) @ '' FAIL'' else line)
           (cc_Status c))"

definition systemBody :: "ViewModel \<Rightarrow> string list" where
  "systemBody vm =
     ['' SYSTEM'',
      (if pi_Known (vm_Pi vm)
       then '' PI TEMP '' @ format_int (pi_TempC (vm_Pi vm)) @ ''C  CPU '' @ format_int (pi_CPUPercent (vm_Pi vm)) @
            ''%  MEM '' @ format_int (pi_MemPercent (vm_Pi vm)) @ ''%''
       else '' PI HEALTH N/A''),
      '''', '' CONNECTORS''] @ map connector_line (take 5 (vm_Connectors vm))"

definition emptyBody :: "ViewModel \<Rightarrow> string list" where
  "emptyBody vm =
     ['''', '''', center (''WAITING FOR '' @ to_upper (vm_NodeLabel vm)), '''',
      center ''CHECK homepi-node STATUS ON REMOTE'', '''', center ''NO SNAPSHOT RECEIVED'']"

definition alertLabel :: "ViewModel \<Rightarrow> string" where
  "alertLabel vm =
     (if vm_AlertCount vm \<le> 0 then ''''
      else if vm_AlertCount vm = 1 then ''1 WARN''
      else format_int (vm_AlertCount vm) @ '' WARN'')"

definition withRemoteNotice :: "ViewModel \<Rightarrow> string list \<Rightarrow> string list" where
  "withRemoteNotice vm body =
     (case vm_RemoteNotice vm of
        None \<Rightarrow> body
      | Some n \<Rightarrow>
          let severity = (if to_upper (rn_Severity n) = ''WARNING'' then ''WARN'' else to_upper (rn_Severity n));
              line = padTo (padTo '' REMOTE NOTICE'' 32 @ clamp severity 8) colHeadClock @ clock (vm_Zone vm) (vm_Now vm);
              seconds0 = go_div (wrap64 (wrap64 (rn_ReturnIn n + second) - 1)) second;
              seconds = (if seconds0 < 0 then 0 else seconds0)
          in [line, '' '' @ rn_Text n,
              padTo ('' SOURCE '' @ to_upper (rn_Source n)) 32 @ ''RETURN IN '' @ format_int seconds @ ''S''] @ drop 3 body)"

definition overviewBody :: "ViewModel \<Rightarrow> string list" where
  "overviewBody vm =
     (let (cards, subpage, subpages) = codingWindow (vm_Coding vm) (vm_Now vm) (vm_DwellSeconds vm);
          title0 = subpage_title '' CODING PLANS'' subpage subpages;
          label = alertLabel vm;
          title = (if label \<noteq> '''' then padTo title0 (colAlertEnd - length label) @ label else title0);
          coding = (title # concat (map quotaLines cards)) @ (if subpages = 1 \<and> length cards < 4 then [''''] else []);
          api = '' API BALANCE'' # map balanceLine (vm_API vm)
      in if length coding + length api > bodyRows then coding else coding @ api)"

definition dataBody :: "ViewModel \<Rightarrow> string list" where
  "dataBody vm =
     (let page = to_upper (vm_Page vm); single = (vm_RotationEnabled vm \<or> vm_PageCount vm > 1)
      in withRemoteNotice vm
           (if single \<and> page = PageCoding then codingBody vm
            else if single \<and> page = PageAPI then apiBody vm
            else if single \<and> page = PageHomeLab then homeLabBody vm
            else if single \<and> page = PageServices then servicesBody vm
            else if single \<and> page = PageSystem then systemBody vm
            else overviewBody vm))"

section \<open>Header, device line and footer\<close>

definition header_line :: "ViewModel \<Rightarrow> string" where
  "header_line vm =
     (let line1 = padTo '' HOMEPI'' colHeadNode @ truncName (to_upper (vm_NodeLabel vm)) maxProviderName;
          line2 = padTo line1 colHeadPage @ clamp (to_upper (vm_Page vm)) 10;
          line3 = padTo line2 colHeadLink @ link_text (vm_Link vm)
      in padTo line3 colHeadClock @ clock (vm_Zone vm) (vm_Now vm))"

definition deviceLine :: "ViewModel \<Rightarrow> string" where
  "deviceLine vm =
     (let p = vm_Pi vm; shown = (\<lambda>v. if pi_Known p then format_int v else ''--'');
          line1 = '' PI '' @ shown (pi_TempC p) @ ''C'';
          line2 = padTo line1 colDevCPU @ ''CPU '' @ shown (pi_CPUPercent p) @ ''%'';
          line3 = padTo line2 colDevMem @ ''MEM '' @ shown (pi_MemPercent p) @ ''%'';
          line4 = padTo line3 colDevLAN @ ''LAN''
      in case pi_LANStatus p of None \<Rightarrow> line4 | Some s \<Rightarrow> badged line4 s)"

definition footer_state :: "ViewModel \<Rightarrow> string \<times> string" where
  "footer_state vm =
     (case vm_SyncedAgo vm of
        None \<Rightarrow> ('' DATA NONE'',
          (case vm_RetryIn vm of None \<Rightarrow> ''RETRYING'' | Some d \<Rightarrow> ''RETRY IN '' @ shortDuration d))
      | Some age \<Rightarrow>
          if vm_Link vm = LinkOffline then
            ('' DATA STALE '' @ shortDuration age,
             (case vm_LastSyncAt vm of None \<Rightarrow> ''RETRYING'' | Some t \<Rightarrow> ''LAST SYNC '' @ clock (vm_Zone vm) t))
          else
            ((if vm_AlertCount vm = 1 then '' 1 WARNING''
              else if vm_AlertCount vm > 1 then '' '' @ format_int (vm_AlertCount vm) @ '' WARNINGS''
              else '' ALL OK''),
             ''SYNCED '' @ shortDuration age @ '' AGO''))"

definition or_default :: "int \<Rightarrow> int \<Rightarrow> int" where
  "or_default d v = (if v \<le> 0 then d else v)"

definition footer :: "ViewModel \<Rightarrow> string list" where
  "footer vm =
     (let (left, right) = footer_state vm;
          first0 = padTo left colFooterR @ right;
          first = (if vm_Link vm = LinkOffline \<and> vm_LastSyncAt vm \<noteq> None
                   then padTo first0 (colFooterEnd - length ''RETRYING'') @ ''RETRYING'' else first0);
          node = truncName (to_upper (vm_NodeLabel vm)) maxProviderName;
          kiosk = (if vm_KioskLabel vm = '''' then ''KIOSK LOCKED'' else vm_KioskLabel vm)
      in if vm_RotationEnabled vm then
           let line1 = '' PAGE '' @ format_int (or_default 1 (vm_PageNumber vm)) @ ''/'' @
                 format_int (or_default 5 (vm_PageCount vm));
               line2 = padTo line1 17 @ ''AUTO '' @ format_int (or_default 15 (vm_DwellSeconds vm)) @ ''S''
           in [first, padTo line2 34 @ ''SOURCE '' @ node]
         else [first, padTo (padTo ('' SOURCE '' @ node) colFootKiosk @ kiosk) colFootVersion @ vm_Version vm])"

section \<open>The frame\<close>

definition hasSnapshot :: "ViewModel \<Rightarrow> bool" where
  "hasSnapshot vm \<longleftrightarrow> vm_HasSnapshot vm \<or> vm_Coding vm \<noteq> [] \<or> vm_API vm \<noteq> [] \<or> vm_Nodes vm \<noteq> [] \<or> vm_Services vm \<noteq> []"

definition frame :: "string list \<Rightarrow> ViewModel \<Rightarrow> string list" where
  "frame body vm =
     [border, content_line (header_line vm), border] @
     map (\<lambda>i. if i < length body then content_line (body ! i) else content_line '''') [0..<bodyRows] @
     [border, content_line (deviceLine vm), border] @ map content_line (footer vm) @ [border]"

definition Render :: "ViewModel \<Rightarrow> string list" where
  "Render vm = frame (if hasSnapshot vm then dataBody vm else emptyBody vm) vm"

definition line_break :: char where "line_break = CHR 0x0A"

definition RenderString :: "ViewModel \<Rightarrow> string" where
  "RenderString vm = join line_break (Render vm)"

section \<open>Every frame fits the grid\<close>

lemma content_line_cells [simp]: "length (content_line s) = Cols" "printable (content_line s)"
proof -
  show "length (content_line s) = Cols" by (simp add: content_line_def)
  have "printable (''|'' @ fit (sanitize s) inner @ ''|'')"
    unfolding printable_append by (simp add: printable_fit) (simp add: printable_def)
  then show "printable (content_line s)" by (simp only: content_line_def)
qed

lemma border_cells [simp]: "length border = Cols" "printable border"
  by (simp_all add: border_def) (simp add: printable_def list_all_iff)

lemma length_footer [simp]: "length (footer vm) = 2"
  by (simp add: footer_def Let_def split_beta)

lemma Render_grid:
  "length (Render vm) = Rows \<and> list_all (\<lambda>line. length line = Cols \<and> printable line) (Render vm)"
  unfolding Render_def frame_def by (auto simp: list_all_iff)

text \<open>
  C35. Whatever a snapshot or a remote message contains, every frame has exactly 20 lines of exactly 60
  printable ASCII characters: no control character, no escape sequence and nothing outside the grid can
  reach the terminal through text.
\<close>

theorem frame_is_grid:
  "length (Render vm) = Rows \<and> list_all (\<lambda>line. length line = Cols \<and> printable line) (Render vm)"
  by (rule Render_grid)

section \<open>Every quota card has its turn\<close>

lemma go_mod_nonneg: "0 \<le> a \<Longrightarrow> 0 < p \<Longrightarrow> go_mod a p = a mod p"
  by (simp only: go_mod_def go_div_nonneg minus_div_mult_eq_mod)

lemma go_mod_pages:
  assumes "0 < pages"
  shows "nat (go_mod (go_mod b (int pages) + int pages) (int pages)) = nat (b mod int pages)"
proof -
  have abs: "\<bar>go_mod a p\<bar> < p \<and> (\<exists>k. go_mod a p = a + k * p)" if "0 < p" for a p :: int
  proof (cases "0 \<le> a")
    case True
    then have "go_mod a p = a - a div p * p" using that by (simp add: go_mod_def go_div_nonneg)
    moreover have "a - a div p * p = a mod p" by (simp add: minus_div_mult_eq_mod)
    moreover have "a mod p = a + (- (a div p)) * p" by (simp add: minus_div_mult_eq_mod [symmetric])
    ultimately show ?thesis using that by (metis abs_of_nonneg pos_mod_bound pos_mod_sign)
  next
    case False
    then have "go_mod a p = - ((- a) mod p)"
      using that by (simp add: go_mod_def go_div_def minus_div_mult_eq_mod [symmetric])
    moreover have "- ((- a) mod p) = a + ((- a) div p) * p"
      by (simp add: minus_div_mult_eq_mod [symmetric])
    ultimately show ?thesis using that
      by (metis abs_minus_cancel abs_of_nonneg pos_mod_bound pos_mod_sign)
  qed
  let ?p = "int pages"
  obtain k where k: "go_mod b ?p = b + k * ?p" "\<bar>go_mod b ?p\<bar> < ?p" using abs [of ?p b] assms by auto
  then have nonneg: "0 \<le> go_mod b ?p + ?p" by linarith
  have "go_mod (go_mod b ?p + ?p) ?p = (go_mod b ?p + ?p) mod ?p"
    using nonneg assms by (simp only: go_mod_nonneg of_nat_0_less_iff)
  also have "\<dots> = b mod ?p" unfolding k(1)
    by (metis add.assoc mod_add_self2 mod_mult_self1)
  finally show ?thesis by simp
qed

lemma page_at_eq:
  "0 < pages \<Longrightarrow> page_at now dwell pages = nat (go_div (Unix now) (dwell_or_default dwell) mod int pages)"
  by (simp add: page_at_def go_mod_pages)

lemma page_at_less: "0 < pages \<Longrightarrow> page_at now dwell pages < pages"
  by (simp add: page_at_eq nat_less_iff)

lemma dwell_pos: "0 < dwell_or_default dwell"
  by (simp add: dwell_or_default_def MinDwellSeconds_def)

lemma page_has_turn:
  assumes "0 \<le> Unix t" "k < pages"
  shows "\<exists>t'\<ge>t. t' < t + int pages * dwell_or_default dwell * second \<and> page_at t' dwell pages = k"
proof -
  define d where "d = dwell_or_default dwell"
  have d: "0 < d" unfolding d_def by (rule dwell_pos)
  define u where "u = Unix t"
  define j where "j = (int k - u div d) mod int pages"
  have pages: "0 < pages" using assms(2) by simp
  have j: "0 \<le> j" "j < int pages" using pages by (simp_all add: j_def)
  have kj: "(u div d + j) mod int pages = int k"
    using assms(2) unfolding j_def by (simp add: mod_add_right_eq)
  have P: "page_at s dwell pages = nat (Unix s div d mod int pages)" if "0 \<le> Unix s" for s
    using that d by (simp add: page_at_eq pages go_div_nonneg d_def)
  have tu: "(u + 62135596800) * second \<le> t" "t < (u + 62135596801) * second"
    unfolding u_def Unix_def second_def by simp_all
  show ?thesis
  proof (cases "j = 0")
    case True
    then have "page_at t dwell pages = k" using kj P [OF assms(1)] by (simp add: u_def)
    moreover have "0 < int pages * d * second" using pages d by (simp add: second_def)
    ultimately show ?thesis unfolding d_def by (intro exI [of _ t]) simp
  next
    case False
    define v where "v = (u div d + j) * d"
    let ?t = "(v + 62135596800) * second"
    have q: "u div d * d \<le> u" "u < u div d * d + d"
      using d pos_mod_bound [OF d, of u] pos_mod_sign [OF d, of u] div_mult_mod_eq [of u d] by linarith+
    have "1 * d \<le> j * d" "j * d \<le> (int pages - 1) * d"
      using False j d by (intro mult_right_mono; simp)+
    then have v: "u < v" "v \<le> u + (int pages - 1) * d"
      using q unfolding v_def by (simp_all only: distrib_right)
    have V: "Unix ?t = v" by (simp add: Unix_def second_def)
    have "v div d = u div d + j" using d by (simp add: v_def)
    then have "page_at ?t dwell pages = k"
      using P [of ?t] V v(1) assms(1) kj by (simp add: u_def)
    moreover have "t \<le> ?t" using tu(2) v(1) by (simp add: second_def)
    moreover have "?t < t + int pages * d * second"
    proof -
      have "v < u + int pages * d" using v(2) d by (simp add: left_diff_distrib)
      then have "(v + 62135596800) * second < (u + 62135596800) * second + int pages * d * second"
        by (simp add: second_def)
      with tu(1) show ?thesis by linarith
    qed
    ultimately show ?thesis unfolding d_def by blast
  qed
qed
text \<open>The pages of cards as a greedy packing, the reference for the index list of the code.\<close>

definition height :: "Card list \<Rightarrow> nat" where
  "height cs = sum_list (map (length \<circ> quotaLines) cs)"

fun pack :: "nat \<Rightarrow> Card list \<Rightarrow> Card list \<Rightarrow> Card list list" where
  "pack rows page [] = [page]"
| "pack rows page (c # cs) =
     (let h = length (quotaLines c)
      in if rows + h > 10 then page # pack h [c] cs else pack (rows + h) (page @ [c]) cs)"

fun segments :: "nat list \<Rightarrow> 'a list \<Rightarrow> 'a list list" where
  "segments [] xs = []"
| "segments [s] xs = [drop s xs]"
| "segments (s # t # ss) xs = take (t - s) (drop s xs) # segments (t # ss) xs"

lemma length_segments [simp]: "length (segments ss xs) = length ss"
  by (induction ss xs rule: segments.induct) simp_all

lemma segments_nth:
  "k < length ss \<Longrightarrow> segments ss xs ! k =
     (if k + 1 < length ss then take (ss ! (k + 1) - ss ! k) (drop (ss ! k) xs) else drop (ss ! k) xs)"
proof (induction ss xs arbitrary: k rule: segments.induct)
  case (3 s t ss xs)
  then show ?case by (cases k) auto
qed simp_all

lemma segments_pack:
  assumes "s \<le> i" "take i all @ cs = all" "length (take i all) = i"
  shows "segments (s # card_starts i rows cs) all = pack rows (drop s (take i all)) cs"
  using assms
proof (induction i rows cs arbitrary: s rule: card_starts.induct)
  case (1 i rows)
  then have "take i all = all" by simp
  then show ?case by simp
next
  case (2 i rows c cs)
  have next_card: "take (i + 1) all = take i all @ [c]"
  proof -
    have "drop i all = c # cs" using 2(4) by (metis append_take_drop_id same_append_eq)
    then have "i < length all" "all ! i = c"
      by (metis drop_eq_Nil linorder_not_less list.distinct(1), metis hd_drop_conv_nth drop_eq_Nil list.sel(1) list.distinct(1) linorder_not_less)
    then show ?thesis by (simp add: take_Suc_conv_app_nth)
  qed
  then have all: "take (i + 1) all @ cs = all" "length (take (i + 1) all) = i + 1"
    using 2(4,5) by simp_all
  show ?case
  proof (cases "rows + length (quotaLines c) > 10")
    case True
    have "drop i (take (i + 1) all) = [c]" using next_card 2(5) by simp
    moreover have "take (i - s) (drop s all) = drop s (take i all)" by (simp add: drop_take)
    ultimately show ?thesis
      using 2(1) [OF refl True _ all, of i] True by simp
  next
    case False
    have "drop s (take (i + 1) all) = drop s (take i all) @ [c]" using next_card 2(3,5) by simp
    then show ?thesis using 2(2) [OF refl False _ all, of s] 2(3) False by simp
  qed
qed

lemma concat_pack: "concat (pack rows page cs) = page @ cs"
  by (induction rows page cs rule: pack.induct) (simp_all add: Let_def)

lemma quotaLines_length: "length (quotaLines c) \<le> 3"
  by (simp add: quotaLines_def Let_def)

lemma pack_height:
  "rows = height page \<Longrightarrow> rows \<le> 10 \<Longrightarrow> list_all (\<lambda>p. height p \<le> 10) (pack rows page cs)"
proof (induction rows page cs rule: pack.induct)
  case (2 rows page c cs)
  have "height [c] = length (quotaLines c)" "height (page @ [c]) = height page + length (quotaLines c)"
    by (simp_all add: height_def)
  then show ?case using 2 quotaLines_length [of c] by (simp add: Let_def)
qed simp

definition quota_pages :: "Card list \<Rightarrow> Card list list" where
  "quota_pages cards = pack 0 [] cards"

lemma quota_pages_segments: "segments (0 # card_starts 0 0 cards) cards = quota_pages cards"
  using segments_pack [of 0 0 cards cards 0] by (simp add: quota_pages_def)

lemma quota_pages_nonempty: "0 < length (quota_pages cards)"
proof -
  have "pack rows page cs \<noteq> []" for rows page cs
    by (induction rows page cs rule: pack.induct) (simp_all add: Let_def)
  then show ?thesis by (simp add: quota_pages_def)
qed

lemma codingWindow_eq:
  "codingWindow cards now dwell =
     (let n = length (quota_pages cards); k = page_at now dwell n in (quota_pages cards ! k, k + 1, n))"
proof -
  let ?starts = "0 # card_starts 0 0 cards"
  have n: "length ?starts = length (quota_pages cards)"
    using length_segments [of ?starts cards] by (simp add: quota_pages_segments)
  then have "page_at now dwell (length ?starts) < length ?starts"
    using quota_pages_nonempty [of cards] by (intro page_at_less) simp
  from segments_nth [OF this, of cards]
  show ?thesis unfolding quota_pages_segments n
    using n quota_pages_nonempty [of cards] by (simp add: codingWindow_def Let_def)
qed

text \<open>
  C36. Every quota card has its turn. The cards are split, in order, into subpages that fit the ten lines
  under the title; at every moment the screen shows one of them, and each subpage is shown again within as
  many dwell times as there are subpages (for a clock that is not before 1970).
\<close>

theorem every_quota_card_shown:
  "concat (quota_pages cards) = cards \<and> list_all (\<lambda>p. height p \<le> 10) (quota_pages cards) \<and>
   fst (codingWindow cards t dwell) \<in> set (quota_pages cards) \<and>
   (0 \<le> Unix t \<and> k < length (quota_pages cards) \<longrightarrow>
     (\<exists>t'\<ge>t. t' < t + int (length (quota_pages cards)) * dwell_or_default dwell * second \<and>
        codingWindow cards t' dwell = (quota_pages cards ! k, k + 1, length (quota_pages cards))))"
proof -
  have "fst (codingWindow cards t dwell) \<in> set (quota_pages cards)"
    using page_at_less [OF quota_pages_nonempty, of t dwell cards] by (simp add: codingWindow_eq Let_def)
  moreover have "\<exists>t'\<ge>t. t' < t + int (length (quota_pages cards)) * dwell_or_default dwell * second \<and>
        codingWindow cards t' dwell = (quota_pages cards ! k, k + 1, length (quota_pages cards))"
    if "0 \<le> Unix t" "k < length (quota_pages cards)"
    using page_has_turn [OF that, of dwell] by (auto simp: codingWindow_eq Let_def)
  ultimately show ?thesis
    using concat_pack [of 0 "[]" cards] pack_height [of 0 "[]" cards]
    by (simp add: quota_pages_def height_def)
qed

definition plain_card :: "string \<Rightarrow> Card" where
  "plain_card name =
     \<lparr>cd_Name = name, cd_PercentLeft = Some 40, cd_WeekPercentLeft = None, cd_MonthPercentLeft = None,
      cd_MonthTotalUsed = '''', cd_MonthCodeUsed = '''', cd_ResetLabel = '''', cd_Amount = '''',
      cd_Status = DisplayOK, cd_Estimated = False, cd_ActionHint = '''', cd_WeeklyOnly = False\<rparr>"

theorem every_quota_card_shown_witness:
  "length (quota_pages (map plain_card [''A'', ''B'', ''C'', ''D'', ''E'', ''F''])) = 2 \<and>
   (\<exists>t'. t' < 62135596800 * second + 30 * second \<and>
      codingWindow (map plain_card [''A'', ''B'', ''C'', ''D'', ''E'', ''F'']) t' 15 = ([plain_card ''F''], 2, 2))"
proof -
  let ?cards = "map plain_card [''A'', ''B'', ''C'', ''D'', ''E'', ''F'']"
  have pages: "quota_pages ?cards = [map plain_card [''A'', ''B'', ''C'', ''D'', ''E''], [plain_card ''F'']]"
    by code_simp
  have "0 \<le> Unix (62135596800 * second)" "dwell_or_default 15 = 15" by code_simp+
  with every_quota_card_shown [of ?cards "62135596800 * second" 15 1]
  obtain t' where "t' < 62135596800 * second + int 2 * 15 * second" "codingWindow ?cards t' 15 = ([plain_card ''F''], 2, 2)"
    unfolding pages by auto
  then have "t' < 62135596800 * second + 30 * second \<and> codingWindow ?cards t' 15 = ([plain_card ''F''], 2, 2)"
    by simp
  moreover have "length (quota_pages ?cards) = 2" unfolding pages by simp
  ultimately show ?thesis by blast
qed

section \<open>Long lists of nodes and services\<close>

lemma critical_first_split:
  "critical_first status xs =
     filter (\<lambda>x. DisplayStatus_Critical (status x)) xs @ filter (\<lambda>x. \<not> DisplayStatus_Critical (status x)) xs"
proof -
  let ?crit = "\<lambda>x. DisplayStatus_Critical (status x)"
  have "filter ?crit xs @ filter (\<lambda>x. \<not> ?crit x) xs = sort_key (\<lambda>x. \<not> ?crit x) xs"
  proof (induction xs)
    case (Cons x xs)
    have I: "insort_key (\<lambda>x. \<not> ?crit x) x (filter ?crit ys @ filter (\<lambda>x. \<not> ?crit x) zs) =
        (if ?crit x then x # filter ?crit ys @ filter (\<lambda>x. \<not> ?crit x) zs
         else filter ?crit ys @ x # filter (\<lambda>x. \<not> ?crit x) zs)" for ys zs
    proof (cases "?crit x")
      case True
      then show ?thesis by (cases "filter ?crit ys @ filter (\<lambda>x. \<not> ?crit x) zs") simp_all
    next
      case False
      have "insort_key (\<lambda>x. \<not> ?crit x) x vs = x # vs" if "\<forall>v\<in>set vs. \<not> ?crit v" for vs
        using False that by (cases vs) simp_all
      then have "insort_key (\<lambda>x. \<not> ?crit x) x (filter (\<lambda>x. \<not> ?crit x) zs) = x # filter (\<lambda>x. \<not> ?crit x) zs"
        by simp
      with False show ?thesis by (induction ys) simp_all
    qed
    from Cons I [of xs xs] show ?case by simp
  qed simp
  then show ?thesis by (simp add: critical_first_def)
qed

text \<open>
  C38. While a node is critical the node page stands still on its first four nodes, critical ones first: a
  fifth critical node, and every node that is not critical beyond the fourth place, is never on the screen.
\<close>

theorem critical_nodes_pin_first_window:
  assumes "\<exists>n\<in>set nodes. nc_Status n = DisplayCrit"
  shows "fst (nodeWindow nodes t dwell) =
     take 4 (filter (\<lambda>n. nc_Status n = DisplayCrit) nodes @ filter (\<lambda>n. nc_Status n \<noteq> DisplayCrit) nodes)"
proof -
  have C: "critical_first nc_Status nodes =
      filter (\<lambda>n. nc_Status n = DisplayCrit) nodes @ filter (\<lambda>n. nc_Status n \<noteq> DisplayCrit) nodes"
    by (simp add: critical_first_split DisplayStatus_Critical_def)
  have ne: "filter (\<lambda>n. nc_Status n = DisplayCrit) nodes \<noteq> []" using assms by (auto simp: filter_empty_conv)
  then obtain n ns where N: "filter (\<lambda>n. nc_Status n = DisplayCrit) nodes = n # ns"
    by (cases "filter (\<lambda>n. nc_Status n = DisplayCrit) nodes") auto
  then have "n \<in> set (filter (\<lambda>n. nc_Status n = DisplayCrit) nodes)" by simp
  then have "nc_Status n = DisplayCrit" by simp
  then show ?thesis
    unfolding nodeWindow_def C N by (simp add: window_of_def DisplayStatus_Critical_def Let_def)
qed

definition critical_node :: "string \<Rightarrow> NodeCard" where
  "critical_node name =
     \<lparr>nc_Name = name, nc_Online = Some False, nc_CPUPercent = None, nc_MemoryPercent = None,
      nc_DiskPercent = None, nc_NetworkReceiveBPS = None, nc_NetworkTransmitBPS = None,
      nc_Status = DisplayCrit\<rparr>"

theorem critical_nodes_pin_first_window_witness:
  "fst (nodeWindow (map critical_node [''a'', ''b'', ''c'', ''d'', ''e'']) (62135596860 * second) 15) =
     map critical_node [''a'', ''b'', ''c'', ''d'']"
  using critical_nodes_pin_first_window
    [of "map critical_node [''a'', ''b'', ''c'', ''d'', ''e'']" "62135596860 * second" 15]
  by (simp add: critical_node_def)

end
