(* ===== verification/ScreenStyle.thy ===== *)
theory ScreenStyle
  imports ScreenFrame Json
begin

text \<open>
  The colours of a frame (\<open>internal/ui/style.go\<close>). The finished ASCII frame is decorated cell by cell: box
  and bar glyphs replace frame and bar characters, and every cell gets a colour; \<open>encodeStyled\<close> writes the
  cells with the colour sequences between them. Cells are runes, a style is the sequence that selects it,
  empty for none. A position that \<open>findToken\<close> does not find is \<open>None\<close>.
\<close>

section \<open>Styles and sequences\<close>

datatype Style = StyleRich | StyleASCII

definition ParseStyle :: "string \<Rightarrow> string + Style" where
  "ParseStyle v =
     (let s = to_lower (trim_space v)
      in if s = '''' \<or> s = ''rich'' then Inr StyleRich
         else if s = ''ascii'' then Inr StyleASCII
         else Inl v)"

definition ESC :: char where "ESC = CHR 0x1B"

definition sgrReset :: string where "sgrReset = ESC # ''[0m''"
definition sgrWhite :: string where "sgrWhite = ESC # ''[1;37m''"
definition sgrCyan :: string where "sgrCyan = ESC # ''[1;36m''"
definition sgrGreen :: string where "sgrGreen = ESC # ''[1;32m''"
definition sgrYellow :: string where "sgrYellow = ESC # ''[1;33m''"
definition sgrRed :: string where "sgrRed = ESC # ''[1;31m''"
definition sgrMagenta :: string where "sgrMagenta = ESC # ''[1;35m''"
definition sgrMuted :: string where "sgrMuted = ESC # ''[0;37m''"

fun statusStyle :: "DisplayStatus \<Rightarrow> string" where
  "statusStyle DisplayOK = sgrGreen"
| "statusStyle DisplayWarn = sgrYellow"
| "statusStyle DisplayStale = sgrYellow"
| "statusStyle DisplayCrit = sgrRed"
| "statusStyle DisplayError = sgrRed"
| "statusStyle DisplayAuth = sgrMagenta"
| "statusStyle DisplayDelayed = sgrCyan"
| "statusStyle DisplayNA = sgrWhite"

fun linkStyle :: "LinkStatus \<Rightarrow> string" where
  "linkStyle LinkLive = sgrGreen"
| "linkStyle LinkOffline = sgrYellow"
| "linkStyle LinkCrit = sgrRed"
| "linkStyle LinkWait = sgrCyan"

definition alertStyle :: "ViewModel \<Rightarrow> string" where
  "alertStyle vm =
     (if vm_Link vm = LinkCrit then sgrRed
      else if \<exists>c\<in>set (vm_Coding vm). cd_Status c = DisplayCrit \<or> cd_Status c = DisplayError then sgrRed
      else if \<exists>c\<in>set (vm_API vm). cd_Status c = DisplayCrit \<or> cd_Status c = DisplayError then sgrRed
      else sgrYellow)"

definition footerStyle :: "ViewModel \<Rightarrow> string" where
  "footerStyle vm =
     (if vm_SyncedAgo vm = None then sgrCyan
      else if vm_Link vm = LinkOffline \<or> vm_AlertCount vm > 0 then sgrYellow
      else sgrGreen)"

section \<open>Runes\<close>

text \<open>The conversion \<open>[]rune(s)\<close>: an invalid byte is U+FFFD.\<close>

fun decode_rune :: "string \<Rightarrow> nat" where
  "decode_rune [a, b] = (code a - 0xC0) * 64 + (code b - 0x80)"
| "decode_rune [a, b, c] = (code a - 0xE0) * 4096 + (code b - 0x80) * 64 + (code c - 0x80)"
| "decode_rune [a, b, c, d] =
     (code a - 0xF0) * 262144 + (code b - 0x80) * 4096 + (code c - 0x80) * 64 + (code d - 0x80)"
| "decode_rune _ = 0xFFFD"

function (sequential) runes :: "string \<Rightarrow> nat list" where
  "runes [] = []"
| "runes (c # s) =
     (if code c < 128 then code c # runes s
      else case utf8_width (c # s) of
        None \<Rightarrow> 0xFFFD # runes s
      | Some n \<Rightarrow> decode_rune (take n (c # s)) # runes (drop (n - 1) s))"
  by pat_completeness auto
termination by (relation "measure length") auto

declare runes.simps [simp del]

section \<open>Painting\<close>

type_synonym canvas = "nat list \<times> string list"   \<comment> \<open>\<open>cells\<close> and \<open>styles\<close>, of one length\<close>

definition paint :: "nat \<Rightarrow> nat \<Rightarrow> string \<Rightarrow> canvas \<Rightarrow> canvas" where
  "paint start stop style cv =
     (fst cv, map (\<lambda>(i, s). if start \<le> i \<and> i < stop then style else s) (enumerate 0 (snd cv)))"

definition findToken :: "nat list \<Rightarrow> nat list \<Rightarrow> bool \<Rightarrow> nat option" where
  "findToken cells token lst =
     (let ms = filter (\<lambda>i. i + length token \<le> length cells \<and> take (length token) (drop i cells) = token)
                 [0..<Suc (length cells)]
      in if ms = [] then None else Some (if lst then last ms else hd ms))"

definition paint_found :: "bool \<Rightarrow> string \<Rightarrow> string \<Rightarrow> canvas \<Rightarrow> canvas" where
  "paint_found lst token style cv =
     (case findToken (fst cv) (runes token) lst of
        None \<Rightarrow> cv
      | Some start \<Rightarrow> paint start (start + length (runes token)) style cv)"

definition paintToken :: "string \<Rightarrow> string \<Rightarrow> canvas \<Rightarrow> canvas" where
  "paintToken token style cv = paint_found False token style cv"

definition paintLastToken :: "string \<Rightarrow> string \<Rightarrow> canvas \<Rightarrow> canvas" where
  "paintLastToken token style cv = paint_found True token style cv"

definition paintStatus :: "DisplayStatus option \<Rightarrow> canvas \<Rightarrow> canvas" where
  "paintStatus status cv =
     (case status of None \<Rightarrow> cv | Some s \<Rightarrow> paintLastToken (badge_text s) (statusStyle s) cv)"

definition bracket_step :: "nat option \<times> nat option \<Rightarrow> nat \<times> nat \<Rightarrow> nat option \<times> nat option" where
  "bracket_step oc ic =
     (if snd ic = code CHR ''['' then (Some (fst ic), snd oc)
      else if snd ic = code CHR '']'' \<and> fst oc \<noteq> None then (fst oc, Some (fst ic))
      else oc)"

definition bar_cell :: "nat \<Rightarrow> nat" where
  "bar_cell c = (if c = code CHR ''#'' then 0x2588 else if c = code CHR ''-'' then 0x2591 else c)"

definition paintBar :: "canvas \<Rightarrow> canvas" where
  "paintBar cv =
     (case foldl bracket_step (None, None) (enumerate 0 (fst cv)) of
        (Some opn, Some cls) \<Rightarrow>
          if cls \<le> opn then cv
          else
            let styles = snd (paint opn (cls + 1) sgrCyan cv); inside = (\<lambda>i. opn < i \<and> i < cls)
            in (map (\<lambda>(i, c). if inside i then bar_cell c else c) (enumerate 0 (fst cv)),
                map (\<lambda>((i, c), s). if inside i \<and> c = code CHR ''-'' then sgrYellow else s)
                  (zip (enumerate 0 (fst cv)) styles))
      | _ \<Rightarrow> cv)"

section \<open>The decorations\<close>

definition decorateFrame :: "nat \<Rightarrow> canvas \<Rightarrow> canvas" where
  "decorateFrame row cv =
     (let cells = fst cv; n = length cells
      in if row \<in> {0, 2, 14, 16, Rows - 1} then
           let inner_cells = map (\<lambda>(i, c). if 1 \<le> i \<and> i < n - 1 then 0x2500 else c) (enumerate 0 cells);
               (left, right) = (if row = 0 then (0x250C, 0x2510)
                                else if row = Rows - 1 then (0x2514, 0x2518) else (0x251C, 0x2524))
           in (inner_cells[0 := left, n - 1 := right], map (\<lambda>_. sgrCyan) (snd cv))
         else (cells[0 := 0x2502, n - 1 := 0x2502], (snd cv)[0 := sgrCyan, n - 1 := sgrCyan]))"

function replaceAll :: "string \<Rightarrow> string \<Rightarrow> string \<Rightarrow> string" where
  "replaceAll old new s =
     (if s = '''' then ''''
      else if old \<noteq> '''' \<and> prefix old s then new @ replaceAll old new (drop (length old) s)
      else hd s # replaceAll old new (tl s))"
  by pat_completeness auto
termination by (relation "measure (\<lambda>(old, new, s). length s)") auto

declare replaceAll.simps [simp del]

definition decoratePhase3 :: "nat \<Rightarrow> ViewModel \<Rightarrow> canvas \<Rightarrow> canvas" where
  "decoratePhase3 row vm cv0 =
     (if row < 3 \<or> row > 13 then cv0
      else
        let cv1 = paint 1 (Cols - 1) sgrMuted cv0;
            title = replaceAll ''HOMELAB'' ''HOME LAB'' (to_upper (vm_Page vm));
            cv2 = (if row = 3 then foldl (\<lambda>cv t. paintToken t sgrCyan cv) cv1
                     [title, ''CODING PLANS'', ''API BALANCE'', ''SERVICES'', ''SYSTEM''] else cv1)
        in foldl (\<lambda>cv s. paintLastToken (badge_text s) (statusStyle s) cv) (paintBar cv2)
             [DisplayOK, DisplayWarn, DisplayCrit, DisplayDelayed, DisplayStale, DisplayAuth, DisplayNA, DisplayError])"

definition paged :: "ViewModel \<Rightarrow> bool" where
  "paged vm \<longleftrightarrow> hasSnapshot vm \<and> (vm_RotationEnabled vm \<or> vm_PageCount vm > 1)"

definition decorateRemoteNotice :: "nat \<Rightarrow> RemoteNotice \<Rightarrow> ViewModel \<Rightarrow> canvas \<Rightarrow> canvas" where
  "decorateRemoteNotice row notice vm cv =
     (if row < 3 \<or> row > 5 then (if paged vm then decoratePhase3 row vm cv else cv)
      else
        let cv1 = paint 1 (Cols - 1) sgrWhite cv;
            severity = to_upper (rn_Severity notice);
            (shown, style) = (if severity = ''WARNING'' then (''WARN'', sgrYellow)
                              else if severity = ''CRITICAL'' then (''CRIT'', sgrRed) else (severity, sgrWhite))
        in if row = 3 then paintToken shown style (paintToken ''REMOTE NOTICE'' sgrCyan cv1)
           else if row = 5 then paintToken ''RETURN IN'' sgrYellow (paintToken ''SOURCE'' sgrCyan cv1)
           else cv1)"

text \<open>The loop over the quota cards: the decorated canvas, or the row behind the last card.\<close>

fun decorate_cards :: "nat \<Rightarrow> nat \<Rightarrow> Card list \<Rightarrow> canvas \<Rightarrow> canvas + nat" where
  "decorate_cards row mainRow [] cv = Inr mainRow"
| "decorate_cards row mainRow (c # cards) cv =
     (let cardRows = length (quotaLines c)
      in if row = mainRow then
           Inl (paintStatus (Some (cd_Status c)) (paintBar (paint (1 + colName) (1 + colBar) sgrCyan cv)))
         else if row > mainRow \<and> row < mainRow + cardRows then
           let cv1 = paintStatus (Some (cd_Status c)) (paint 1 (Cols - 1) sgrMuted cv)
           in Inl (if cd_ActionHint c \<noteq> '''' then paint 1 (Cols - 1) (statusStyle (cd_Status c)) cv1 else cv1)
         else decorate_cards row (mainRow + cardRows) cards cv)"

definition decorateData :: "nat \<Rightarrow> ViewModel \<Rightarrow> canvas \<Rightarrow> canvas" where
  "decorateData row vm cv =
     (if row = 3 then
        (let cv1 = paintToken ''CODING PLANS'' sgrCyan cv
         in if vm_AlertCount vm > 0 then paintToken (alertLabel vm) (alertStyle vm) cv1 else cv1)
      else
        case decorate_cards row 4 (fst (codingWindow (vm_Coding vm) (vm_Now vm) (vm_DwellSeconds vm))) cv of
          Inl cv' \<Rightarrow> cv'
        | Inr mainRow \<Rightarrow>
            let apiTitleRow = mainRow + 1
            in if row = apiTitleRow then paintToken ''API BALANCE'' sgrCyan cv
               else if apiTitleRow < row \<and> row - (apiTitleRow + 1) < length (vm_API vm) then
                 paintStatus (Some (cd_Status (vm_API vm ! (row - (apiTitleRow + 1)))))
                   (paint (1 + colName) (1 + colName + maxProviderName + 6) sgrCyan cv)
               else cv)"

definition decorateEmpty :: "nat \<Rightarrow> canvas \<Rightarrow> canvas" where
  "decorateEmpty row cv =
     (if row = 5 \<or> row = 9 then paint 1 (Cols - 1) sgrCyan cv
      else if row = 7 then paint 1 (Cols - 1) sgrYellow cv
      else cv)"

definition decorate_fixed :: "nat \<Rightarrow> ViewModel \<Rightarrow> canvas \<Rightarrow> canvas" where
  "decorate_fixed row vm cv =
     (if row = 1 then
        paint (1 + colHeadClock) (Cols - 1) sgrWhite
          (paint (1 + colHeadLink) (1 + colHeadClock) (linkStyle (vm_Link vm))
            (paint (1 + colHeadPage) (1 + colHeadLink) sgrCyan
              (paint (1 + colHeadNode) (1 + colHeadPage) sgrMagenta (paint 2 8 sgrCyan cv))))
      else if row = 15 then paintStatus (pi_LANStatus (vm_Pi vm)) (paint 1 (Cols - 1) sgrWhite cv)
      else if row = 17 then paint 1 (Cols - 1) (footerStyle vm) cv
      else if row = 18 then paintToken ''KIOSK LOCKED'' sgrMagenta (paint 1 (Cols - 1) sgrMuted cv)
      else cv)"

definition decorated :: "string \<Rightarrow> nat \<Rightarrow> ViewModel \<Rightarrow> canvas" where
  "decorated line row vm =
     (let cells = runes line;
          cv = decorate_fixed row vm (decorateFrame row (cells, map (\<lambda>_. '''') cells))
      in case vm_RemoteNotice vm of
           Some n \<Rightarrow> decorateRemoteNotice row n vm cv
         | None \<Rightarrow>
             if paged vm then decoratePhase3 row vm cv
             else if hasSnapshot vm then decorateData row vm cv
             else decorateEmpty row cv)"

fun encode_cells :: "string \<Rightarrow> (nat \<times> string) list \<Rightarrow> string" where
  "encode_cells current [] = (if current \<noteq> '''' then sgrReset else '''')"
| "encode_cells current ((cell, style) # rest) =
     (if style \<noteq> current then
        (if current \<noteq> '''' then sgrReset else '''') @ style @ utf8_encode cell @ encode_cells style rest
      else utf8_encode cell @ encode_cells current rest)"

definition encodeStyled :: "canvas \<Rightarrow> string" where
  "encodeStyled cv = encode_cells '''' (zip (fst cv) (snd cv))"

definition richLine :: "string \<Rightarrow> nat \<Rightarrow> ViewModel \<Rightarrow> string" where
  "richLine line row vm = encodeStyled (decorated line row vm)"

definition renderRich :: "ViewModel \<Rightarrow> string list" where
  "renderRich vm = map (\<lambda>(row, line). richLine line row vm) (enumerate 0 (Render vm))"

text \<open>A style that is neither is a programming error and panics; \<open>ParseStyle\<close> returns no other.\<close>

definition RenderStyledString :: "ViewModel \<Rightarrow> Style \<Rightarrow> string" where
  "RenderStyledString vm style =
     (case style of StyleASCII \<Rightarrow> RenderString vm | StyleRich \<Rightarrow> join line_break (renderRich vm))"

section \<open>Decoration changes colours only\<close>

text \<open>What a cell of the rich frame may stand for.\<close>

definition cell_shows :: "char \<Rightarrow> nat \<Rightarrow> bool" where
  "cell_shows c r \<longleftrightarrow>
     r = code c \<or> c = CHR ''#'' \<and> r = 0x2588 \<or> c = CHR ''-'' \<and> (r = 0x2591 \<or> r = 0x2500) \<or>
     c = CHR ''|'' \<and> r = 0x2502 \<or>
     c = CHR ''+'' \<and> r \<in> {0x250C, 0x2510, 0x2514, 0x2518, 0x251C, 0x2524}"

definition sequences :: "string list" where
  "sequences = [sgrReset, sgrWhite, sgrCyan, sgrGreen, sgrYellow, sgrRed, sgrMagenta, sgrMuted]"

definition canvas_ok :: "string \<Rightarrow> canvas \<Rightarrow> bool" where
  "canvas_ok line cv \<longleftrightarrow>
     list_all2 cell_shows line (fst cv) \<and> length (snd cv) = length line \<and>
     list_all (\<lambda>s. s = '''' \<or> s \<in> set sequences) (snd cv)"

lemma sequence_simps [simp]:
  "sgrReset \<in> set sequences" "sgrWhite \<in> set sequences" "sgrCyan \<in> set sequences" "sgrGreen \<in> set sequences"
  "sgrYellow \<in> set sequences" "sgrRed \<in> set sequences" "sgrMagenta \<in> set sequences" "sgrMuted \<in> set sequences"
  by (simp_all add: sequences_def)

lemma style_choices [simp]:
  "statusStyle s \<in> set sequences" "linkStyle l \<in> set sequences" "alertStyle vm \<in> set sequences"
  "footerStyle vm \<in> set sequences"
proof -
  show "statusStyle s \<in> set sequences" by (cases s) simp_all
  show "linkStyle l \<in> set sequences" by (cases l) simp_all
qed (simp_all add: alertStyle_def footerStyle_def)

lemma paint_ok: "style \<in> set sequences \<Longrightarrow> canvas_ok line cv \<Longrightarrow> canvas_ok line (paint a b style cv)"
  by (auto simp: canvas_ok_def paint_def list_all_length nth_enumerate_eq)

lemma paint_found_ok: "style \<in> set sequences \<Longrightarrow> canvas_ok line cv \<Longrightarrow> canvas_ok line (paint_found l t style cv)"
  by (simp add: paint_found_def paint_ok split: option.split)

lemma paintStatus_ok: "canvas_ok line cv \<Longrightarrow> canvas_ok line (paintStatus s cv)"
  by (simp add: paintStatus_def paintLastToken_def paint_found_ok split: option.split)

lemma bar_cell_shows: "cell_shows c r \<Longrightarrow> cell_shows c (bar_cell r)"
proof -
  have "code c = 45 \<longleftrightarrow> c = CHR ''-''" "code c = 35 \<longleftrightarrow> c = CHR ''#''"
    using of_char_eq_iff [of c "CHR ''-''", where ?'a = nat] of_char_eq_iff [of c "CHR ''#''", where ?'a = nat]
    by simp_all
  then show "cell_shows c r \<Longrightarrow> cell_shows c (bar_cell r)"
    by (auto simp: cell_shows_def bar_cell_def)
qed

lemma paintBar_ok:
  assumes "canvas_ok line cv"
  shows "canvas_ok line (paintBar cv)"
proof -
  have P: "canvas_ok line (paint a b sgrCyan cv)" for a b using assms by (simp add: paint_ok)
  show ?thesis
    using assms P
    by (simp add: paintBar_def canvas_ok_def Let_def list_all2_conv_all_nth list_all_length nth_enumerate_eq
        bar_cell_shows split: option.split prod.split)
qed

lemmas paint_oks = paint_ok paint_found_ok paintStatus_ok paintBar_ok

lemma foldl_ok:
  "(\<And>cv t. canvas_ok line cv \<Longrightarrow> canvas_ok line (f cv t)) \<Longrightarrow> canvas_ok line cv \<Longrightarrow> canvas_ok line (foldl f cv ts)"
  by (induction ts arbitrary: cv) simp_all

lemma decoratePhase3_ok: "canvas_ok line cv \<Longrightarrow> canvas_ok line (decoratePhase3 row vm cv)"
  unfolding decoratePhase3_def Let_def paintToken_def paintLastToken_def
  by (simp only: split: if_split) (intro conjI impI foldl_ok paint_oks; simp)

lemma decorateRemoteNotice_ok: "canvas_ok line cv \<Longrightarrow> canvas_ok line (decorateRemoteNotice row n vm cv)"
  by (simp add: decorateRemoteNotice_def decoratePhase3_ok paintToken_def paint_oks Let_def split: prod.split)

lemma decorate_cards_ok:
  "canvas_ok line cv \<Longrightarrow> (case decorate_cards row k cards cv of Inl cv' \<Rightarrow> canvas_ok line cv' | Inr _ \<Rightarrow> True)"
  by (induction row k cards cv rule: decorate_cards.induct) (simp_all add: Let_def paint_oks)

lemma decorateData_ok: "canvas_ok line cv \<Longrightarrow> canvas_ok line (decorateData row vm cv)"
  using decorate_cards_ok [of line cv row 4 "fst (codingWindow (vm_Coding vm) (vm_Now vm) (vm_DwellSeconds vm))"]
  by (cases "decorate_cards row 4 (fst (codingWindow (vm_Coding vm) (vm_Now vm) (vm_DwellSeconds vm))) cv")
    (simp_all add: decorateData_def paintToken_def paint_oks Let_def)

lemma decorate_fixed_ok: "canvas_ok line cv \<Longrightarrow> canvas_ok line (decorate_fixed row vm cv)"
  by (simp add: decorate_fixed_def paintToken_def paint_oks)

lemma decorateEmpty_ok: "canvas_ok line cv \<Longrightarrow> canvas_ok line (decorateEmpty row cv)"
  by (simp add: decorateEmpty_def paint_oks)

section \<open>The rows of a frame\<close>

definition border_row :: "nat \<Rightarrow> bool" where
  "border_row row \<longleftrightarrow> row \<in> {0, 2, 14, 16, Rows - 1}"

lemma Render_row:
  assumes "row < Rows"
  shows "if border_row row then Render vm ! row = border else \<exists>s. Render vm ! row = content_line s"
proof -
  obtain f1 f2 where F: "footer vm = [f1, f2]"
    using length_footer [of vm] by (metis length_0_conv length_Suc_conv numeral_2_eq_2)
  have rows: "row \<in> set [0..<20]" using assms by simp
  have "\<exists>b. Render vm = frame b vm" by (auto simp: Render_def)
  then obtain b where R: "Render vm = frame b vm" by blast
  define body where "body = map (\<lambda>i. if i < length b then content_line (b ! i) else content_line '''') [0..<bodyRows]"
  have B: "length body = 11" "\<And>i. i < 11 \<Longrightarrow> \<exists>s. body ! i = content_line s"
    by (auto simp: body_def)
  have X: "Render vm = [border, content_line (header_line vm), border] @ body @
      [border, content_line (deviceLine vm), border, content_line f1, content_line f2, border]"
    by (simp add: R frame_def F body_def)
  show ?thesis
  proof (cases "3 \<le> row \<and> row < 14")
    case True
    then have "Render vm ! row = body ! (row - 3)"
      using B(1) unfolding X by (auto simp: nth_append numeral_3_eq_3)
    moreover have "\<not> border_row row" using True by (auto simp: border_row_def)
    ultimately show ?thesis using B(2) [of "row - 3"] True by auto
  next
    case False
    then have "row \<in> {0, 1, 2} \<or> row \<in> {14, 15, 16, 17, 18, 19}" using assms by auto
    then show ?thesis
    proof
      assume "row \<in> {0, 1, 2}"
      then show ?thesis unfolding X by (auto simp: border_row_def)
    next
      assume r: "row \<in> {14, 15, 16, 17, 18, 19}"
      then have "Render vm ! row = [border, content_line (deviceLine vm), border, content_line f1, content_line f2, border] ! (row - 14)"
        using B(1) unfolding X by (auto simp: nth_append nth_Cons')
      with r show ?thesis by (auto simp: border_row_def)
    qed
  qed
qed

lemma runes_printable: "printable s \<Longrightarrow> runes s = map code s"
  by (induction s rule: runes.induct) (auto simp: runes.simps printable_def)

lemma border_cell: "i < 60 \<Longrightarrow> border ! i = (if i = 0 \<or> i = 59 then CHR ''+'' else CHR ''-'')"
  by (auto simp: border_def nth_append nth_Cons')

lemma content_line_cell: "content_line s ! 0 = CHR ''|''" "content_line s ! 59 = CHR ''|''"
  by (simp_all add: content_line_def nth_append)

lemma decorateFrame_ok:
  assumes "row < Rows"
  shows "canvas_ok (Render vm ! row) (decorateFrame row (map code (Render vm ! row), map (\<lambda>_. '''') (map code (Render vm ! row))))"
proof (cases "border_row row")
  case True
  then have B: "Render vm ! row = border" using Render_row [OF assms, of vm] by simp
  have "list_all2 cell_shows border
      ((map (\<lambda>(i, c). if 1 \<le> i \<and> i < 60 - 1 then 0x2500 else c) (enumerate 0 (map code border)))[0 := l, 60 - 1 := r])"
    if "l \<in> {0x250C, 0x2514, 0x251C}" "r \<in> {0x2510, 0x2518, 0x2524}" for l r
    unfolding list_all2_conv_all_nth using that
    by (auto simp: nth_list_update nth_enumerate_eq border_cell cell_shows_def)
  with True show ?thesis
    unfolding B by (auto simp: decorateFrame_def border_row_def canvas_ok_def Let_def list_all_length)
next
  case False
  then obtain s where C: "Render vm ! row = content_line s" using Render_row [OF assms, of vm] by auto
  have "list_all2 cell_shows (content_line s) ((map code (content_line s))[0 := 0x2502, 60 - 1 := 0x2502])"
    unfolding list_all2_conv_all_nth
    by (auto simp: nth_list_update cell_shows_def content_line_cell)
  with False show ?thesis
    unfolding C
    by (simp add: decorateFrame_def border_row_def canvas_ok_def Let_def list_all_length nth_list_update)
qed

lemma decorated_ok:
  assumes "row < Rows"
  shows "canvas_ok (Render vm ! row) (decorated (Render vm ! row) row vm)"
proof -
  have "Render vm ! row \<in> set (Render vm)" using assms Render_grid [of vm] by simp
  then have "printable (Render vm ! row)" using Render_grid [of vm] by (simp add: list_all_iff)
  then have R: "runes (Render vm ! row) = map code (Render vm ! row)" by (rule runes_printable)
  show ?thesis
    using decorate_fixed_ok [OF decorateFrame_ok [OF assms]]
    by (simp add: decorated_def R Let_def decorateRemoteNotice_ok decoratePhase3_ok decorateData_ok decorateEmpty_ok
        comp_def split: option.split)
qed
section \<open>Reading the colours back\<close>

text \<open>What a terminal shows of a line when it knows the eight sequences; any other escape is \<open>None\<close>.\<close>

function strip_sgr :: "string \<Rightarrow> string option" where
  "strip_sgr s =
     (if s = '''' then Some ''''
      else if hd s = ESC then
        (case find (\<lambda>q. prefix q s) sequences of
           None \<Rightarrow> None
         | Some q \<Rightarrow> if q = '''' then None else strip_sgr (drop (length q) s))
      else map_option (Cons (hd s)) (strip_sgr (tl s)))"
  by pat_completeness auto
termination by (relation "measure length") (auto dest!: find_Some_iff [THEN iffD1] simp: prefix_def)

declare strip_sgr.simps [simp del]

lemma strip_sequence: "q \<in> set sequences \<Longrightarrow> strip_sgr (q @ s) = strip_sgr s"
  by (subst strip_sgr.simps)
    (auto simp: sequences_def sgrReset_def sgrWhite_def sgrCyan_def sgrGreen_def sgrYellow_def sgrRed_def
      sgrMagenta_def sgrMuted_def)

lemma strip_text: "ESC \<notin> set t \<Longrightarrow> strip_sgr (t @ s) = map_option (append t) (strip_sgr s)"
proof (induction t)
  case (Cons c t)
  then have "c \<noteq> ESC" by auto
  then have "strip_sgr (c # t @ s) = map_option (Cons c) (strip_sgr (t @ s))"
    by (subst strip_sgr.simps) simp
  with Cons show ?case by (cases "strip_sgr s") simp_all
qed (cases "strip_sgr s"; simp)

lemma strip_empty [simp]: "strip_sgr '''' = Some ''''"
  by (simp add: strip_sgr.simps)

lemma strip_encode_cells:
  "list_all (\<lambda>(r, s). ESC \<notin> set (utf8_encode r) \<and> (s = '''' \<or> s \<in> set sequences)) cs \<Longrightarrow>
   strip_sgr (encode_cells current cs) = Some (concat (map (utf8_encode \<circ> fst) cs))"
proof (induction current cs rule: encode_cells.induct)
  case (1 current)
  then show ?case using strip_sequence [of sgrReset "''''"] by simp
next
  case (2 current r s cs)
  have R: "strip_sgr ((if current \<noteq> '''' then sgrReset else '''') @ t) = strip_sgr t" for t
    by (simp add: strip_sequence)
  have S: "strip_sgr (s @ t) = strip_sgr t" for t
    using 2(3) by (auto simp: strip_sequence)
  have E: "ESC \<notin> set (utf8_encode r)" using 2(3) by simp
  show ?case
  proof (cases "s = current")
    case True
    then show ?thesis using 2(2,3) E by (simp add: strip_text)
  next
    case False
    then have "encode_cells current ((r, s) # cs) =
        (if current \<noteq> '''' then sgrReset else '''') @ s @ utf8_encode r @ encode_cells s cs"
      by simp
    then show ?thesis using 2(1) [OF False] 2(3) E by (simp only: R S) (simp add: strip_text)
  qed
qed

lemma three_bytes_no_escape:
  assumes "0x800 \<le> n" "n < 0x10000"
  shows "ESC \<notin> set (utf8_encode n)"
proof -
  have no: "(char_of b :: char) \<noteq> ESC" if "128 \<le> b" "b < 256" for b :: nat
  proof
    assume "(char_of b :: char) = ESC"
    then have "code (char_of b) = code ESC" by simp
    then have "b mod 256 = 27" by (simp add: ESC_def)
    with that show False by simp
  qed
  have "224 + n div 4096 < 256" using assms(2) by (simp add: less_mult_imp_div_less)
  then have "(char_of (224 + n div 4096) :: char) \<noteq> ESC" "(char_of (128 + n div 64 mod 64) :: char) \<noteq> ESC"
    "(char_of (128 + n mod 64) :: char) \<noteq> ESC"
    using no [of "224 + n div 4096"] no [of "128 + n div 64 mod 64"] no [of "128 + n mod 64"]
      mod_less_divisor [of 64 "n div 64"] mod_less_divisor [of 64 n] by linarith+
  then show ?thesis using assms by (simp add: utf8_encode_def)
qed

lemma shown_cell_text:
  assumes "cell_shows c r" "32 \<le> code c" "code c \<le> 126"
  shows "ESC \<notin> set (utf8_encode r)"
proof (cases "r = code c")
  case True
  with assms have "utf8_encode r = [c]" by (simp add: utf8_encode_def)
  moreover have "c \<noteq> ESC" using assms(2) by (auto simp: ESC_def)
  ultimately show ?thesis by simp
next
  case False
  with assms(1) have "0x800 \<le> r" "r < 0x10000" by (auto simp: cell_shows_def)
  then show ?thesis by (rule three_bytes_no_escape)
qed

text \<open>
  C33. Colours never change what a frame says. Every line of the rich frame, with the eight known colour
  sequences taken out, is 60 cells that show the 60 characters of the plain line, where only frame and bar
  characters have become box and block glyphs; no other escape sequence is in it.
\<close>

theorem rich_frame_shows_plain:
  "list_all2 (\<lambda>plain rich. \<exists>cells. list_all2 cell_shows plain cells \<and> length cells = Cols \<and>
      strip_sgr rich = Some (concat (map utf8_encode cells))) (Render vm) (renderRich vm)"
proof (rule list_all2_all_nthI)
  show "length (Render vm) = length (renderRich vm)" by (simp add: renderRich_def)
next
  fix row
  assume "row < length (Render vm)"
  then have row: "row < Rows" using Render_grid [of vm] by simp
  define cv where "cv = decorated (Render vm ! row) row vm"
  have line: "length (Render vm ! row) = Cols" "printable (Render vm ! row)"
    using Render_grid [of vm] row by (simp_all add: list_all_length)
  have ok: "list_all2 cell_shows (Render vm ! row) (fst cv)" "length (snd cv) = length (Render vm ! row)"
    "list_all (\<lambda>s. s = '''' \<or> s \<in> set sequences) (snd cv)"
    using decorated_ok [OF row, of vm] by (simp_all add: canvas_ok_def cv_def)
  then have len: "length (fst cv) = Cols" "length (snd cv) = Cols"
    using line(1) by (simp_all add: list_all2_lengthD [symmetric])
  have cell_text: "ESC \<notin> set (utf8_encode (fst cv ! i))" if "i < Cols" for i
  proof (rule shown_cell_text)
    show "cell_shows (Render vm ! row ! i) (fst cv ! i)"
      using ok(1) that line(1) by (simp add: list_all2_conv_all_nth)
  qed (use line that in \<open>simp_all add: printable_def list_all_length\<close>)
  have "list_all (\<lambda>(r, s). ESC \<notin> set (utf8_encode r) \<and> (s = '''' \<or> s \<in> set sequences)) (zip (fst cv) (snd cv))"
    using cell_text ok(3) len by (simp add: list_all_length)
  from strip_encode_cells [OF this, of "''''"]
  have "strip_sgr (encodeStyled cv) = Some (concat (map utf8_encode (map fst (zip (fst cv) (snd cv)))))"
    by (simp add: encodeStyled_def)
  then have "strip_sgr (encodeStyled cv) = Some (concat (map utf8_encode (fst cv)))"
    using len by simp
  moreover have "renderRich vm ! row = encodeStyled cv"
    using row Render_grid [of vm] by (simp add: renderRich_def nth_enumerate_eq richLine_def cv_def)
  ultimately show "\<exists>cells. list_all2 cell_shows (Render vm ! row) cells \<and> length cells = Cols \<and>
      strip_sgr (renderRich vm ! row) = Some (concat (map utf8_encode cells))"
    using ok(1) len(1) by auto
qed

end
