(* ===== verification/Kiosk.thy ===== *)
theory Kiosk
  imports ScreenStyle
begin

text \<open>
  The display program's screen: the terminal, which is written only when the frame has changed
  (\<open>cmd/homepi-display/screen.go\<close>), and the redraw of its main loop (\<open>cmd/homepi-display/main.go\<close>), which
  joins the page router, the remote notice, the view of the snapshot and the terminal. A write on the
  terminal has no error path.
\<close>

section \<open>The terminal\<close>

definition seqHideCursor :: string where "seqHideCursor = ESC # ''[?25l''"
definition seqShowCursor :: string where "seqShowCursor = ESC # ''[?25h''"
definition seqEnterAlt :: string where "seqEnterAlt = ESC # ''[?1049h''"
definition seqLeaveAlt :: string where "seqLeaveAlt = ESC # ''[?1049l''"
definition seqCursorHome :: string where "seqCursorHome = ESC # ''[H''"
definition seqClearScreen :: string where "seqClearScreen = ESC # ''[2J''"
definition seqResetStyle :: string where "seqResetStyle = ESC # ''[0m''"

record screen =
  sn_style :: Style
  sn_last :: string

definition newScreen :: "Style \<Rightarrow> screen" where
  "newScreen style = \<lparr>sn_style = style, sn_last = ''''\<rparr>"

definition enter_text :: string where
  "enter_text = seqEnterAlt @ seqResetStyle @ seqHideCursor @ seqClearScreen"

definition restore_text :: string where
  "restore_text = seqResetStyle @ seqShowCursor @ seqLeaveAlt"

text \<open>The text written, \<open>None\<close> when nothing is.\<close>

definition drawRaw :: "string \<Rightarrow> screen \<Rightarrow> string option \<times> screen" where
  "drawRaw picture s =
     (if picture = sn_last s then (None, s) else (Some (seqCursorHome @ picture), s\<lparr>sn_last := picture\<rparr>))"

definition draw_screen :: "ViewModel \<Rightarrow> screen \<Rightarrow> string option \<times> screen" where
  "draw_screen vm s = drawRaw (RenderStyledString vm (sn_style s)) s"

definition sizeDiagnostic :: "nat \<Rightarrow> nat \<Rightarrow> string" where
  "sizeDiagnostic cols rows =
     (let messages = [''HOMEPI DISPLAY'', ''TERMINAL TOO SMALL'',
            ''HAVE '' @ nat_digits cols @ ''X'' @ nat_digits rows @ ''  NEED '' @ nat_digits Cols @ ''X'' @ nat_digits Rows,
            ''ADJUST FONT OR ROTATION'']
      in join line_break (map (\<lambda>i. let t = (if i < length messages then messages ! i else '''');
                                       t' = (if length t > cols then take cols t else t)
                                   in t' @ spaces (cols - length t')) [0..<rows]))"

section \<open>One redraw\<close>

definition lanStatus :: "bool \<Rightarrow> DisplayStatus" where
  "lanStatus linked = (if linked then DisplayOK else DisplayError)"

definition retryIn :: "duration \<Rightarrow> duration option" where
  "retryIn d = (if d > 0 then Some d else None)"

text \<open>
  What a redraw reads besides the router and the controller: clock and zone, the client's snapshot, link
  and retry time, the board's health (the LAN badge is derived), and the fixed labels.
\<close>

record DrawEnv =
  dv_now :: instant
  dv_zone :: "instant \<Rightarrow> int"
  dv_snapshot :: "MetricSnapshot option"
  dv_connected :: bool
  dv_retry :: duration
  dv_health :: PiHealth
  dv_version :: string
  dv_nodeID :: string

definition draw_options :: "DrawEnv \<Rightarrow> Page \<Rightarrow> Router \<Rightarrow> RemoteNotice option \<Rightarrow> BuildOptions" where
  "draw_options env page r notice =
     \<lparr>bo_Page = page, bo_Now = dv_now env, bo_Zone = dv_zone env, bo_Connected = dv_connected env,
      bo_Thresholds = DefaultThresholds,
      bo_Pi = (dv_health env)\<lparr>pi_LANStatus := Some (lanStatus (dv_connected env))\<rparr>,
      bo_RetryIn = retryIn (dv_retry env), bo_Version = dv_version env, bo_FallbackNodeLabel = dv_nodeID env,
      bo_RotationEnabled = RotationEnabled r, bo_PageNumber = int (fst (Position r)),
      bo_PageCount = int (snd (Position r)), bo_DwellSeconds = go_div (Dwell r) second,
      bo_RemoteNotice = notice\<rparr>"

text \<open>The view, the controller afterwards; \<open>None\<close> is a router update that does not return.\<close>

definition draw_view :: "DrawEnv \<Rightarrow> Controller \<Rightarrow> (ViewModel \<times> Controller) option" where
  "draw_view env c =
     (case Update (dv_now env) (CriticalPages (dv_snapshot env) (dv_now env) DefaultThresholds) (ct_router c) of
        None \<Rightarrow> None
      | Some (page, r) \<Rightarrow>
          let (notice0, c') = Notice (dv_now env) (c\<lparr>ct_router := r\<rparr>);
              notice = (if CriticalActive r then None else notice0)
          in Some (Build (dv_snapshot env) (draw_options env page r notice), c'))"

definition draw :: "DrawEnv \<Rightarrow> Controller \<Rightarrow> screen \<Rightarrow> (string option \<times> Controller \<times> screen) option" where
  "draw env c s =
     (case draw_view env c of
        None \<Rightarrow> None
      | Some (vm, c') \<Rightarrow> (case draw_screen vm s of (written, s') \<Rightarrow> Some (written, c', s')))"

section \<open>What is critical is on the screen\<close>

lemma Update_critical:
  assumes "Update now critical r = Some (page, r')" "firstCritical critical r \<noteq> None"
  shows "page \<in> critical \<and> CriticalActive r' \<and> rt_displayed r' = page"
proof -
  have keep: "rt_config (expire_override t (expire_remote t' r2)) = rt_config r2" for t t' r2
    by (simp add: expire_override_def expire_remote_def)
  have adv: "advanceLocked e r1 = Some r2 \<Longrightarrow> rt_config r2 = rt_config r1" for e r1 r2
    by (auto simp: advanceLocked_def split: if_splits)
  obtain r2 where r2: "rt_config r2 = rt_config r"
    "(page, r') = select_page critical (expire_override now (expire_remote now (r2\<lparr>rt_last := now\<rparr>)))"
    using assms(1)
    by (auto simp: Update_def Let_def bind_eq_Some_conv split: if_splits dest!: adv)
  have F: "firstCritical critical (expire_override now (expire_remote now (r2\<lparr>rt_last := now\<rparr>))) = firstCritical critical r"
    by (simp add: firstCritical_def keep r2(1))
  from assms(2) obtain p where p: "firstCritical critical r = Some p" by blast
  then have "p \<in> critical" by (auto simp: firstCritical_def find_Some_iff)
  with r2(2) F p show ?thesis by (simp add: select_page_def CriticalActive_def)
qed

lemma Build_fields:
  "vm_Page (Build snap opts) = (if bo_Page opts = '''' then ''CODING'' else bo_Page opts)"
  "vm_RemoteNotice (Build snap opts) = bo_RemoteNotice opts"
  by (simp_all add: Build_def empty_view_def Let_def split_beta split: option.split)

text \<open>
  C32. While some card is critical, on a page of the rotation, every redraw shows a page with a critical card:
  the frame is that of a page whose cards include the badge CRIT, the router counts it as the page on
  display, and no remote message covers it.
\<close>

theorem critical_page_on_screen:
  assumes "draw_view env c = Some (vm, c')" "dv_snapshot env = Some snap"
    and "page \<in> set (rc_Order (rt_config (ct_router c)))" "DisplayCrit \<in> set (badges_on page vm)"
  shows "DisplayCrit \<in> set (badges_on (vm_Page vm) vm) \<and> vm_RemoteNotice vm = None \<and>
    rt_displayed (ct_router c') = vm_Page vm"
proof -
  let ?critical = "CriticalPages (Some snap) (dv_now env) DefaultThresholds"
  obtain q r notice0 where
    U: "Update (dv_now env) ?critical (ct_router c) = Some (q, r)" and
    N: "Notice (dv_now env) (c\<lparr>ct_router := r\<rparr>) = (notice0, c')" and
    V: "vm = Build (Some snap) (draw_options env q r (if CriticalActive r then None else notice0))"
    using assms(1,2) by (auto simp: draw_view_def Let_def split: option.splits prod.splits)
  have M: "page' \<in> ?critical \<longleftrightarrow> DisplayCrit \<in> set (badges_on page' vm)" for page'
    using CriticalPages_iff [of "draw_options env q r (if CriticalActive r then None else notice0)"]
      any_critical_iff [of id "badges_on page' vm"]
    unfolding V by (simp add: draw_options_def)
  have "firstCritical ?critical (ct_router c) \<noteq> None"
    using assms(3,4) M [of page] by (auto simp: firstCritical_def find_None_iff)
  from Update_critical [OF U this] have q: "q \<in> ?critical" "CriticalActive r" "rt_displayed r = q" by simp_all
  then have "q \<noteq> ''''" using M by (auto simp: badges_on_def)
  then have "vm_Page vm = q" "vm_RemoteNotice vm = None"
    unfolding V Build_fields using q(2) by (simp_all add: draw_options_def)
  moreover have "ct_router c' = r"
    using N by (auto simp: Notice_def split: option.splits if_splits)
  ultimately show ?thesis using q M by simp
qed
definition offline_node :: HomeLabNode where
  "offline_node =
     \<lparr>hn_ID = ''n1'', hn_Name = ''pi'', hn_Online = Some False, hn_CPUPercent = None, hn_MemoryPercent = None,
      hn_DiskPercent = None, hn_NetworkReceiveBPS = None, hn_NetworkTransmitBPS = None, hn_ObservedAt = 0,
      hn_StaleAfter = 0, hn_Status = StatusOK, hn_ErrorClass = ErrNone, hn_Message = '''', hn_Order = 1\<rparr>"

definition offline_snapshot :: MetricSnapshot where
  "offline_snapshot =
     \<lparr>ms_SchemaVersion = ''1.1'', ms_SourceEpoch = ''e'', ms_SnapshotVersion = 1, ms_GeneratedAt = 0,
      ms_SourceNode = ''node'', ms_SourceNodeLabel = '''', ms_Metrics = [], ms_ConnectorHealth = [],
      ms_HomeLabNodes = [offline_node], ms_HomeLabServices = []\<rparr>"

definition offline_env :: DrawEnv where
  "offline_env =
     \<lparr>dv_now = rt_last example_router, dv_zone = (\<lambda>_. 0), dv_snapshot = Some offline_snapshot, dv_connected = True,
      dv_retry = 0, dv_health = \<lparr>pi_TempC = 0, pi_CPUPercent = 0, pi_MemPercent = 0, pi_LANStatus = None, pi_Known = False\<rparr>,
      dv_version = ''V1'', dv_nodeID = ''node''\<rparr>"

lemma critical_page_on_screen_witness:
  "\<exists>vm c'. draw_view offline_env example_controller = Some (vm, c') \<and> DisplayCrit \<in> set (badges_on (vm_Page vm) vm)"
proof -
  have "Update (rt_last example_router) critical example_router \<noteq> None" for critical
    by (simp add: Update_def advanceLocked_def time_sub_def)
  then have "draw_view offline_env example_controller \<noteq> None"
    by (auto simp: draw_view_def offline_env_def example_controller_def Let_def split: option.split prod.split)
  then obtain vm c' where D: "draw_view offline_env example_controller = Some (vm, c')" by auto
  then obtain opts where vm: "vm = Build (Some offline_snapshot) opts"
    by (auto simp: draw_view_def offline_env_def Let_def split: option.splits prod.splits)
  have "DisplayCrit \<in> set (badges_on PageHomeLab vm)"
    unfolding vm badges_on_def Build_cards
    by (simp add: buildNodeCards_def node_card_def offline_snapshot_def offline_node_def Let_def)
  moreover have "PageHomeLab \<in> set (rc_Order (rt_config (ct_router example_controller)))"
    by (simp add: example_controller_def example_router_def NewRouter_def allPages_def)
  ultimately show ?thesis
    using critical_page_on_screen [OF D, of offline_snapshot PageHomeLab] D by (simp add: offline_env_def)
qed

end
