(* ===== verification/Spec2Isabelle.thy ===== *)
theory Spec2Isabelle
  imports DecimalNum Redaction DeviceAcl Persistence Scheduler Delivery Kiosk
begin

text \<open>
  \<^bold>\<open>HomePi Mon\<close> shows the state of API accounts and of a home lab on a small display. A daemon on a computer
  (\<open>cmd/homepi-node\<close>) polls providers through connectors, keeps one current state, and serves it on the LAN;
  a display (\<open>cmd/homepi-display\<close>) keeps one stream to the daemon, draws the newest snapshot, remembers it
  across restarts, and carries out commands that the daemon queues for it.

  \<^bold>\<open>The parts and how they interact\<close>

  \<^item> A task of the scheduler (\<open>internal/scheduler/scheduler.go\<close>) collects from one connector
    (\<open>internal/connector\<close>), waits as the retry policy says (\<open>policy.go\<close>), and applies what it got to the current
    state (\<open>internal/state/current.go\<close>), which validates it (\<open>internal/protocol/validate.go\<close>) and counts versions.
    Theories \<^theory_text>\<open>Connector\<close>, \<^theory_text>\<open>Policy\<close>, \<^theory_text>\<open>Scheduler\<close>, \<^theory_text>\<open>CurrentState\<close> (on \<^theory_text>\<open>EntityStore\<close>), \<^theory_text>\<open>Validate\<close>,
    \<^theory_text>\<open>Protocol\<close> (the types of \<open>snapshot.go\<close>, \<open>enums.go\<close>, \<open>homelab.go\<close>, \<open>status.go\<close>), \<^theory_text>\<open>DecimalNum\<close>
    (\<open>internal/decimal\<close>).
  \<^item> The device API (\<open>internal/nodeapi\<close>) authorises a display by its token, answers snapshot requests, and pumps
    snapshots, heartbeats and commands into its stream; on the node's own host it takes commands and publishes
    them in the queue (\<open>internal/commandbus/bus.go\<close>). Theories \<^theory_text>\<open>NodeApi\<close>, \<^theory_text>\<open>DeviceAcl\<close> (revoked tokens,
    \<open>internal/deviceacl/acl.go\<close>, hashes in \<^theory_text>\<open>Sha256\<close>), \<^theory_text>\<open>CommandBus\<close>, \<^theory_text>\<open>Commands\<close> (\<open>protocol/remote.go\<close>).
  \<^item> Everything crosses the network as JSON. \<^theory_text>\<open>Json\<close> reads it (\<open>encoding/json\<close> as the program uses it), \<^theory_text>\<open>JsonText\<close>
    relates printed text to what is read, \<^theory_text>\<open>Wire\<close> has the struct tables of snapshots and envelopes in both
    directions, \<^theory_text>\<open>WireRoundtrip\<close> proves that they agree, \<^theory_text>\<open>CommandText\<close> does the same for commands and results.
    \<^theory_text>\<open>GoText\<close>, \<^theory_text>\<open>GoDuration\<close>, \<^theory_text>\<open>GoTime\<close>, \<^theory_text>\<open>NetAddr\<close> and \<^theory_text>\<open>Float64\<close> are the parts of the standard library that this needs.
    \<^theory_text>\<open>Redaction\<close> is the audit of \<open>protocol/redaction.go\<close>.
  \<^item> On the display the stream client (\<open>internal/syncclient/client.go\<close>) accepts snapshots that are valid, of the
    bound node and newer, stores them (\<open>internal/snapstore/store.go\<close>), and hands commands to the controller
    (\<open>internal/remotecontrol\<close>), whose ledger remembers what was carried out and which drives the page router
    (\<open>internal/ui/pages.go\<close>). Theories \<^theory_text>\<open>SyncClient\<close>, \<^theory_text>\<open>SnapStore\<close>, \<^theory_text>\<open>RemoteControl\<close>, \<^theory_text>\<open>Router\<close>.
  \<^item> What the display shows is a function of the snapshot, the clock and the page (\<open>internal/ui\<close>): \<^theory_text>\<open>ScreenModel\<close>
    (\<open>build.go\<close>) makes the cards, their badges and the pages that are critical, \<^theory_text>\<open>ScreenText\<close> (\<open>format.go\<close>) the
    labels, \<^theory_text>\<open>ScreenFrame\<close> (\<open>render.go\<close>) the frame of 20 lines by 60 cells,
    \<^theory_text>\<open>ScreenStyle\<close> (\<open>style.go\<close>) its colours, and \<^theory_text>\<open>Kiosk\<close> the redraw of the display program.
  \<^item> Files that must survive a crash are written to a temporary file that is renamed: \<^theory_text>\<open>AtomicFile\<close> has the system
    calls and their failures, what the temporary file holds at each of them and whether it has been flushed;
    \<^theory_text>\<open>Persistence\<close> instantiates it for the queue and the ledger, and relates it to the Boolean outcome of a
    write that these components take.
  \<^item> \<^theory_text>\<open>Delivery\<close> composes pump, stream client, controller and queue, and follows a command without parameters
    across the wire; the property about the composition is below. A frame beyond the read limit of the client
    (one megabyte) ends its session; command frames stay below it.

  \<^bold>\<open>How the theories model the code\<close>

  A struct is a \<^theory_text>\<open>record\<close> whose field names carry a short prefix, a function or method is a definition of the same
  name, and a theory lists them in the order of the file. A method on a mutex-protected object is one step that
  returns the Go results and the new object; an error is \<^theory_text>\<open>Inl\<close>, \<^theory_text>\<open>Some\<close> error or \<^theory_text>\<open>None\<close>, as its comment says, and a
  panic is \<^theory_text>\<open>None\<close>. What the environment decides is an argument: clock readings, random bytes, the outcome of each
  file operation, what a connector returned, which messages arrive, which writes on a connection succeed. A
  component's life is \<^theory_text>\<open>run step state operations\<close> (\<^theory_text>\<open>StepMachine\<close>) over a datatype of its operations, in any order;
  the goroutines of the program interleave at these operations. Strings are the bytes of the Go string. A map is
  an association list without duplicate keys (\<open>gomap\<close>), or a set where only membership is used.

  An \<open>int\<close> or \<open>int64\<close> is an integer that is wrapped (\<^theory_text>\<open>wrap64\<close>) where the code's arithmetic may leave the type;
  sequence and version numbers are 64-bit words. Instants are nanoseconds of UTC since year 1 and durations
  nanoseconds; \<open>float64\<close> is a rational that is rounded to the nearest even after every operation (\<^theory_text>\<open>Float64\<close>).

  Loops are structural recursion or have a measure. One function has fuel: \<open>parse_value\<close> of \<^theory_text>\<open>Json\<close> gets
  \<open>2 * length + 1\<close>, which is enough because more never changes the result (\<^theory_text>\<open>parse_value_fuel\<close>). Two loops may not
  end on arbitrary arguments and are a \<^theory_text>\<open>partial_function\<close> into option: the page advance of \<^theory_text>\<open>Router\<close>, which ends
  on every reachable state, and the search for a free file name, which ends when only finitely many are taken.

  \<^bold>\<open>What the lemmas show\<close>

  Contracts are locales: \<^theory_text>\<open>StepMachine\<close> has those of a machine with an invariant, with a version and with a budget,
  \<^theory_text>\<open>EntityStore\<close> that of an owned collection, \<^theory_text>\<open>AtomicFile\<close> that of a file replaced as a whole; every component interprets them with its own operations. Per component there are an invariant and its
  preservation, a characterisation of each validator as a conjunction (\<open>*_None\<close>, \<open>*_ok\<close>), the outcome of each
  operation on every branch, and what a whole life keeps. Across components: what the daemon publishes the display
  accepts, shows and shows again after a restart; what it sends on a stream never goes back; a published command
  reaches the display and ends with a result; a revoked device hears nothing more; state files are old or new.

  \<^bold>\<open>Bounds of the model\<close>

  JSON nesting deeper than the decoder's limit, the reuse of slice capacity by a decoder, \<open>float64\<close> overflow,
  subnormals and NaN, and letters whose case folds outside ASCII are left out where the comments say so. Instants are
  printed in UTC. An empty slice is printed as \<open>[]\<close>. The state files of the queue and the ledger are represented by
  the value they encode (they are JSON like the rest); the snapshot and the revocation list by their text.

  \<^bold>\<open>Not modelled\<close>

  The connectors to the single providers (\<open>internal/connector/*\<close>) map one vendor's JSON to metrics; a connector is an
  argument of the scheduler, and whatever it returns is validated. The configuration, its transactions and the web
  admin (\<open>config\<close>, \<open>configtx\<close>, \<open>providermeta\<close>, \<open>secretstore\<close>, \<open>webadmin\<close>), certificates (\<open>tlsconfig\<close>), installers and
  deployment (\<open>install\<close>, \<open>kioskunit\<close>, \<open>displaydeploy\<close>, \<open>displayconfig\<close>), board health (\<open>pihealth\<close>)
  and the two command lines (\<open>cmd\<close>) are outside this development.
\<close>


definition waiting_env :: message_env where
  "waiting_env = example_message_env\<lparr>me_now := 20 * second, me_queued := 2\<rparr>"

definition waiting_session :: Session where
  "waiting_session = example_session\<lparr>sn_client := example_client\<lparr>cl_handler := Some example_controller\<rparr>\<rparr>"

lemma waiting_clock: "printable_clock (me_handle waiting_env)"
proof -
  have "time_ok (20 * second)" "time_ok (21 * second)" unfolding time_ok_def by code_simp+
  then show ?thesis
    by (simp add: printable_clock_def sane_clock_def waiting_env_def example_message_env_def example_env_def)
      (simp add: second_def MaxCommandDuration_def minute_def)
qed

lemma waiting_controller: "answerable example_controller example_command"
proof -
  have "ctl_ok example_controller" using controller_started_ok [OF example_started inv_example_router] .
  then show ?thesis by (simp add: answerable_def) (simp add: example_controller_def lookup_record_def empty_ledger_def)
qed

lemma waiting_command_size: "length (the (marshal_command example_command)) \<le> MaxCommandBytes"
  by code_simp


end
